(* ===== verification/Prelude.thy ===== *)
theory Prelude
  imports Main "HOL-Library.Char_ord" "HOL-Library.List_Lexorder" "HOL-Library.Sublist"
begin

text \<open>
  The vocabulary every component shares.

  Containers: \<open>std::map\<close> is an association list with strictly increasing keys (\<open>omap\<close>), so that
  iteration order, size and key uniqueness are those of the code; \<open>std::set\<close> is a strictly
  increasing list (\<open>oset\<close>). The locale \<open>key_value\<close> states what a component may rely on when it
  uses such a map, and is interpreted on \<open>omap\<close> below.

  Text: \<open>std::string\<close> is a list of bytes (\<open>string\<close>); the character classes are those of the C
  locale, which is the one the server runs in; decimal printing is \<open>std::to_string\<close>.

  Counters (\<open>std::uint64_t\<close>, \<open>std::uint32_t\<close>, \<open>std::size_t\<close>) are \<open>nat\<close> and times
  (\<open>std::int64_t\<close> milliseconds) are \<open>int\<close>.
\<close>

named_theorems om_simps \<open>rewriting of ordered maps and sets\<close>
named_theorems wf_intros \<open>preservation of well-formed containers\<close>
named_theorems str_simps \<open>rewriting of byte strings\<close>
named_theorems str_eval \<open>evaluation of byte strings on concrete values\<close>

section \<open>Ordered maps\<close>

type_synonym ('k, 'v) omap = "('k \<times> 'v) list"

definition om_wf :: "('k::linorder, 'v) omap \<Rightarrow> bool" where
  "om_wf m \<longleftrightarrow> sorted_wrt (<) (map fst m)"

abbreviation om_get :: "('k, 'v) omap \<Rightarrow> 'k \<Rightarrow> 'v option" where
  "om_get m k \<equiv> map_of m k"

definition om_has :: "('k, 'v) omap \<Rightarrow> 'k \<Rightarrow> bool" where
  "om_has m k \<longleftrightarrow> map_of m k \<noteq> None"

definition om_at :: "'v \<Rightarrow> ('k, 'v) omap \<Rightarrow> 'k \<Rightarrow> 'v" where
  "om_at d m k = (case map_of m k of None \<Rightarrow> d | Some v \<Rightarrow> v)"

fun om_put :: "'k::linorder \<Rightarrow> 'v \<Rightarrow> ('k, 'v) omap \<Rightarrow> ('k, 'v) omap" where
  "om_put k v [] = [(k, v)]"
| "om_put k v ((a, b) # m) =
     (if k < a then (k, v) # (a, b) # m
      else if k = a then (a, v) # m
      else (a, b) # om_put k v m)"

definition om_del :: "'k \<Rightarrow> ('k, 'v) omap \<Rightarrow> ('k, 'v) omap" where
  "om_del k m = filter (\<lambda>p. fst p \<noteq> k) m"

definition om_emplace :: "'k::linorder \<Rightarrow> 'v \<Rightarrow> ('k, 'v) omap \<Rightarrow> ('k, 'v) omap" where
  "om_emplace k v m = (if om_has m k then m else om_put k v m)"

definition om_modify :: "'k \<Rightarrow> ('v \<Rightarrow> 'v) \<Rightarrow> ('k, 'v) omap \<Rightarrow> ('k, 'v) omap" where
  "om_modify k f m = map (\<lambda>(a, b). (a, if a = k then f b else b)) m"

definition om_map :: "('v \<Rightarrow> 'w) \<Rightarrow> ('k, 'v) omap \<Rightarrow> ('k, 'w) omap" where
  "om_map f m = map (\<lambda>(a, b). (a, f b)) m"

definition om_filter :: "('k \<Rightarrow> 'v \<Rightarrow> bool) \<Rightarrow> ('k, 'v) omap \<Rightarrow> ('k, 'v) omap" where
  "om_filter P m = filter (\<lambda>(a, b). P a b) m"

lemma om_wf_Nil [simp]: "om_wf []"
  by (simp add: om_wf_def)

lemma om_wf_Cons [om_simps]: "om_wf ((a, b) # m) \<longleftrightarrow> (\<forall>k \<in> fst ` set m. a < k) \<and> om_wf m"
  by (auto simp: om_wf_def)

lemma om_wf_single [simp]: "om_wf [(k, v)]"
  by (simp add: om_wf_def)

lemma om_put_nonempty [simp]: "om_put k v m \<noteq> []"
  by (cases "(k, v, m)" rule: om_put.cases) auto

lemma om_wf_distinct: "om_wf m \<Longrightarrow> distinct (map fst m)"
  by (auto simp: om_wf_def strict_sorted_iff)

lemma om_wf_sorted: "om_wf m \<Longrightarrow> sorted (map fst m)"
  by (auto simp: om_wf_def strict_sorted_iff)

lemma om_put_keys [om_simps]: "fst ` set (om_put k v m) = insert k (fst ` set m)"
  by (induction k v m rule: om_put.induct) auto

lemma om_wf_put [wf_intros, simp]: "om_wf m \<Longrightarrow> om_wf (om_put k v m)"
  by (induction k v m rule: om_put.induct) (auto simp: om_wf_Cons om_put_keys)

lemma om_get_put [om_simps]:
  "om_wf m \<Longrightarrow> om_get (om_put k v m) j = (if j = k then Some v else om_get m j)"
proof (induction k v m rule: om_put.induct)
  case (2 k v a b m)
  have "om_get m k = None" if "k < a"
    using that 2(2) by (auto simp: om_wf_Cons map_of_eq_None_iff)
  with 2 show ?case by (auto simp: om_wf_Cons map_of_eq_None_iff)
qed simp

lemma om_has_iff [om_simps]: "om_has m k \<longleftrightarrow> k \<in> fst ` set m"
  by (simp add: om_has_def map_of_eq_None_iff)

lemma om_length_put [om_simps]:
  "om_wf m \<Longrightarrow> length (om_put k v m) = (if om_has m k then length m else Suc (length m))"
  by (induction k v m rule: om_put.induct) (auto simp: om_has_iff om_wf_Cons)

lemma om_del_keys [om_simps]: "fst ` set (om_del k m) = fst ` set m - {k}"
  by (auto simp: om_del_def)

lemma om_wf_filter [wf_intros, simp]: "om_wf m \<Longrightarrow> om_wf (filter P m)"
  by (auto simp: om_wf_def sorted_wrt_map sorted_wrt_filter)

lemma om_wf_del [wf_intros, simp]: "om_wf m \<Longrightarrow> om_wf (om_del k m)"
  by (simp add: om_del_def)

lemma om_get_del [om_simps]: "om_get (om_del k m) j = (if j = k then None else om_get m j)"
  by (induction m) (auto simp: om_del_def)

lemma om_del_absent [om_simps]: "\<not> om_has m k \<Longrightarrow> om_del k m = m"
  by (auto simp: om_del_def om_has_iff filter_id_conv)

lemma om_length_del_le [simp]: "length (om_del k m) \<le> length m"
  by (simp add: om_del_def)

lemma om_length_del [om_simps]:
  "om_wf m \<Longrightarrow> length (om_del k m) = (if om_has m k then length m - 1 else length m)"
proof (induction m)
  case (Cons p m)
  obtain a b where p: "p = (a, b)" by (cases p)
  have "om_del a m = m" if "om_wf ((a, b) # m)"
    using that by (intro om_del_absent) (auto simp: om_has_iff om_wf_Cons)
  with Cons show ?case
    by (cases "a = k"; cases m) (auto simp: p om_del_def om_has_iff om_wf_Cons)
qed (simp add: om_del_def)

lemma om_wf_emplace [wf_intros, simp]: "om_wf m \<Longrightarrow> om_wf (om_emplace k v m)"
  by (simp add: om_emplace_def)

lemma om_emplace_keys [om_simps]: "fst ` set (om_emplace k v m) = insert k (fst ` set m)"
  by (auto simp: om_emplace_def om_put_keys om_has_iff)

lemma om_put_all:
  "list_all (\<lambda>(k, v). P k v) m \<Longrightarrow> P k v \<Longrightarrow> list_all (\<lambda>(k, v). P k v) (om_put k v m)"
  by (induction k v m rule: om_put.induct) auto

lemma om_emplace_all:
  "list_all (\<lambda>(k, v). P k v) m \<Longrightarrow> P k v \<Longrightarrow> list_all (\<lambda>(k, v). P k v) (om_emplace k v m)"
  by (simp add: om_emplace_def om_put_all)

lemma om_get_emplace [om_simps]:
  "om_wf m \<Longrightarrow> om_get (om_emplace k v m) j =
     (if j = k then (case om_get m k of None \<Rightarrow> Some v | Some w \<Rightarrow> Some w) else om_get m j)"
  by (auto simp: om_emplace_def om_get_put om_has_def split: option.splits)

lemma om_del_all: "list_all P m \<Longrightarrow> list_all P (om_del k m)"
  by (auto simp: om_del_def list_all_iff)

lemma om_get_all: "list_all (\<lambda>(k, v). P k v) m \<Longrightarrow> om_get m k = Some v \<Longrightarrow> P k v"
  by (auto simp: list_all_iff dest: map_of_SomeD)

lemma om_at_all: "list_all (\<lambda>(k, v). P v) m \<Longrightarrow> om_at d m k = d \<or> P (om_at d m k)"
  by (auto simp: om_at_def list_all_iff dest!: map_of_SomeD split: option.splits)

lemma om_del_Nil_get: "om_del i n = [] \<Longrightarrow> j \<noteq> i \<Longrightarrow> om_get n j = None"
  by (metis map_of.simps(1) om_get_del)

lemma om_modify_fst [simp]: "map fst (om_modify k f m) = map fst m"
  by (simp add: om_modify_def case_prod_beta)

lemma om_modify_keys [om_simps]: "fst ` set (om_modify k f m) = fst ` set m"
  by (metis list.set_map om_modify_fst)

lemma om_wf_modify [wf_intros, simp]: "om_wf (om_modify k f m) \<longleftrightarrow> om_wf m"
  by (simp add: om_wf_def)

lemma om_length_modify [simp]: "length (om_modify k f m) = length m"
  by (simp add: om_modify_def)

lemma om_get_modify [om_simps]:
  "om_get (om_modify k f m) j = (if j = k then map_option f (om_get m j) else om_get m j)"
  by (induction m) (auto simp: om_modify_def)

lemma om_map_fst [simp]: "map fst (om_map f m) = map fst m"
  by (simp add: om_map_def case_prod_beta)

lemma om_map_keys [om_simps]: "fst ` set (om_map f m) = fst ` set m"
  by (metis list.set_map om_map_fst)

lemma om_wf_map [wf_intros, simp]: "om_wf (om_map f m) \<longleftrightarrow> om_wf m"
  by (simp add: om_wf_def)

lemma om_length_map [simp]: "length (om_map f m) = length m"
  by (simp add: om_map_def)

lemma om_map_all: "list_all (\<lambda>(k, v). P k v) (om_map f m) = list_all (\<lambda>(k, v). P k (f v)) m"
  by (simp add: om_map_def list.pred_map comp_def split_def)

lemma om_get_map [om_simps]: "om_get (om_map f m) j = map_option f (om_get m j)"
  by (induction m) (auto simp: om_map_def)

lemma om_wf_omfilter [wf_intros, simp]: "om_wf m \<Longrightarrow> om_wf (om_filter P m)"
  by (simp add: om_filter_def)

lemma om_get_Some_in: "om_get m k = Some v \<Longrightarrow> (k, v) \<in> set m"
  by (rule map_of_SomeD)

lemma om_wf_get_iff: "om_wf m \<Longrightarrow> om_get m k = Some v \<longleftrightarrow> (k, v) \<in> set m"
  using om_wf_distinct by force

lemma om_get_filter_wf [om_simps]:
  assumes "om_wf m"
  shows "om_get (om_filter P m) j =
     (case om_get m j of Some v \<Rightarrow> if P j v then Some v else None | None \<Rightarrow> None)"
proof -
  have *: "om_get (om_filter P m) j = Some v \<longleftrightarrow> om_get m j = Some v \<and> P j v" for v
    using om_wf_get_iff [OF assms, of j v] om_wf_get_iff [OF om_wf_omfilter [OF assms], of P j v]
    by (simp add: om_filter_def)
  show ?thesis
  proof (cases "om_get m j")
    case None
    with * have "om_get (om_filter P m) j = None" by (metis not_Some_eq)
    with None show ?thesis by (simp only: option.case)
  next
    case (Some w)
    with * have "om_get (om_filter P m) j = (if P j w then Some w else None)"
      by (metis not_Some_eq option.inject)
    with Some show ?thesis by (simp only: option.case)
  qed
qed

text \<open>Two well-formed maps with the same entries are the same value.\<close>

lemma om_ext:
  assumes "om_wf m" "om_wf n" "\<And>k. om_get m k = om_get n k"
  shows "m = n"
proof -
  have "set m = set n"
    using assms by (auto simp flip: om_wf_get_iff)
  moreover have "inj_on fst (set m \<union> set n)"
    using assms(1) \<open>set m = set n\<close> by (auto dest: om_wf_distinct simp: distinct_map)
  ultimately show ?thesis
    using assms by (intro map_sorted_distinct_set_unique [of fst])
      (auto dest: om_wf_distinct om_wf_sorted)
qed

text \<open>Rebuilding a map entry by entry, in order, gives it back.\<close>

lemma om_put_snoc: "om_wf (m @ [(k, w)]) \<Longrightarrow> om_put k v m = m @ [(k, v)]"
  by (induction m) (auto simp: om_wf_Cons)

lemma om_wf_append: "om_wf (m @ n) \<longleftrightarrow> om_wf m \<and> om_wf n \<and> (\<forall>a \<in> fst ` set m. \<forall>b \<in> fst ` set n. a < b)"
  by (auto simp: om_wf_def sorted_wrt_append)

lemma om_rebuild_from:
  "om_wf (m @ n) \<Longrightarrow> foldl (\<lambda>acc (k, v). om_put k v acc) m n = m @ n"
proof (induction n arbitrary: m)
  case (Cons p n)
  obtain k v where p: "p = (k, v)" by (cases p)
  from Cons.prems have "om_wf (m @ [(k, v)])" "om_wf ((m @ [(k, v)]) @ n)"
    by (auto simp: p om_wf_append om_wf_Cons)
  with Cons.IH [of "m @ [(k, v)]"] show ?case by (simp add: p om_put_snoc)
qed simp

lemma om_rebuild: "om_wf m \<Longrightarrow> foldl (\<lambda>acc (k, v). om_put k v acc) [] m = m"
  using om_rebuild_from [of "[]" m] by simp

section \<open>What a component may rely on of a map\<close>

text \<open>
  Components hold nested maps (protocol, then network, then key id). What they rely on is the law
  of a keyed store; the facts about a two-level store are proved once here.
\<close>

locale key_value =
  fixes empty :: 'm
    and get :: "'m \<Rightarrow> 'k \<Rightarrow> 'v option"
    and put :: "'k \<Rightarrow> 'v \<Rightarrow> 'm \<Rightarrow> 'm"
    and del :: "'k \<Rightarrow> 'm \<Rightarrow> 'm"
    and wf :: "'m \<Rightarrow> bool"
  assumes wf_empty: "wf empty"
    and wf_put: "wf m \<Longrightarrow> wf (put k v m)"
    and wf_del: "wf m \<Longrightarrow> wf (del k m)"
    and get_empty: "get empty k = None"
    and get_put: "wf m \<Longrightarrow> get (put k v m) j = (if j = k then Some v else get m j)"
    and get_del: "wf m \<Longrightarrow> get (del k m) j = (if j = k then None else get m j)"
begin

lemma get_put_same: "wf m \<Longrightarrow> get (put k v m) k = Some v"
  by (simp add: get_put)

lemma get_put_other: "wf m \<Longrightarrow> j \<noteq> k \<Longrightarrow> get (put k v m) j = get m j"
  by (simp add: get_put)

lemma put_all:
  "wf m \<Longrightarrow> wf (foldl (\<lambda>acc (k, v). put k v acc) m kvs) \<and>
     get (foldl (\<lambda>acc (k, v). put k v acc) m kvs) j =
       (case map_of (rev kvs) j of Some v \<Rightarrow> Some v | None \<Rightarrow> get m j)"
proof (induction kvs arbitrary: m)
  case (Cons p kvs)
  obtain k v where p: "p = (k, v)" by (cases p)
  from Cons.IH [of "put k v m"] Cons.prems show ?case
    by (auto simp: p wf_put get_put map_add_def split: option.splits)
qed simp

end

interpretation std_map: key_value "[]" "map_of" om_put om_del om_wf
  by unfold_locales (auto simp: om_get_put om_get_del)

section \<open>Ordered sets\<close>

type_synonym 'k oset = "'k list"

definition os_wf :: "'k::linorder oset \<Rightarrow> bool" where
  "os_wf s \<longleftrightarrow> sorted_wrt (<) s"

fun os_put :: "'k::linorder \<Rightarrow> 'k oset \<Rightarrow> 'k oset" where
  "os_put k [] = [k]"
| "os_put k (a # s) = (if k < a then k # a # s else if k = a then a # s else a # os_put k s)"

definition os_del :: "'k \<Rightarrow> 'k oset \<Rightarrow> 'k oset" where
  "os_del k s = filter (\<lambda>a. a \<noteq> k) s"

definition os_union :: "'k::linorder oset \<Rightarrow> 'k oset \<Rightarrow> 'k oset" where
  "os_union s t = foldl (\<lambda>acc k. os_put k acc) s t"

lemma os_put_set [om_simps, simp]: "set (os_put k s) = insert k (set s)"
  by (induction k s rule: os_put.induct) auto

lemma os_wf_put [wf_intros, simp]: "os_wf s \<Longrightarrow> os_wf (os_put k s)"
  by (induction k s rule: os_put.induct) (auto simp: os_wf_def)

lemma os_wf_Nil [simp]: "os_wf []"
  by (simp add: os_wf_def)

lemma os_wf_del [wf_intros, simp]: "os_wf s \<Longrightarrow> os_wf (os_del k s)"
  by (simp add: os_wf_def os_del_def sorted_wrt_filter)

lemma os_del_set [om_simps, simp]: "set (os_del k s) = set s - {k}"
  by (auto simp: os_del_def)

lemma os_put_fold_set: "set (foldl (\<lambda>acc k. os_put k acc) s t) = set s \<union> set t"
  by (induction t arbitrary: s) auto

lemma os_union_set [om_simps, simp]: "set (os_union s t) = set s \<union> set t"
  by (simp add: os_union_def os_put_fold_set)

lemma os_put_fold_wf: "os_wf s \<Longrightarrow> os_wf (foldl (\<lambda>acc k. os_put k acc) s t)"
  by (induction t arbitrary: s) auto

lemma os_wf_union [wf_intros, simp]: "os_wf s \<Longrightarrow> os_wf (os_union s t)"
  by (simp add: os_union_def os_put_fold_wf)

lemma os_ext: "os_wf s \<Longrightarrow> os_wf t \<Longrightarrow> set s = set t \<Longrightarrow> s = t"
  by (simp add: os_wf_def strict_sorted_equal)

lemma os_length_put: "os_wf s \<Longrightarrow> length (os_put k s) = (if k \<in> set s then length s else Suc (length s))"
  by (induction k s rule: os_put.induct) (auto simp: os_wf_def)

end
