(* ===== verification/Bytes.thy ===== *)
theory Bytes
  imports Prelude
begin

text \<open>
  What the code uses of \<open>std::string\<close>, \<open><cctype>\<close> and \<open>std::to_string\<close>: searching, comparing and
  cutting byte strings, the character classes of the C locale, and decimal and hexadecimal
  printing, with the lemmas on them that the serializers and parsers share. None of these
  definitions models a function of the repository.
\<close>

section \<open>Character classes (C locale)\<close>

abbreviation byte :: "char \<Rightarrow> nat" where
  "byte c \<equiv> of_char c"

abbreviation chr :: "nat \<Rightarrow> char" where
  "chr n \<equiv> char_of n"

definition is_digit :: "char \<Rightarrow> bool" where
  "is_digit c \<longleftrightarrow> 48 \<le> byte c \<and> byte c \<le> 57"

definition is_space :: "char \<Rightarrow> bool" where
  "is_space c \<longleftrightarrow> byte c = 32 \<or> (9 \<le> byte c \<and> byte c \<le> 13)"

definition is_upper :: "char \<Rightarrow> bool" where
  "is_upper c \<longleftrightarrow> 65 \<le> byte c \<and> byte c \<le> 90"

definition is_lower :: "char \<Rightarrow> bool" where
  "is_lower c \<longleftrightarrow> 97 \<le> byte c \<and> byte c \<le> 122"

definition is_alpha :: "char \<Rightarrow> bool" where
  "is_alpha c \<longleftrightarrow> is_upper c \<or> is_lower c"

definition is_alnum :: "char \<Rightarrow> bool" where
  "is_alnum c \<longleftrightarrow> is_alpha c \<or> is_digit c"

definition is_xdigit :: "char \<Rightarrow> bool" where
  "is_xdigit c \<longleftrightarrow> is_digit c \<or> (65 \<le> byte c \<and> byte c \<le> 70) \<or> (97 \<le> byte c \<and> byte c \<le> 102)"

definition to_upper :: "char \<Rightarrow> char" where
  "to_upper c = (if is_lower c then chr (byte c - 32) else c)"

definition to_lower :: "char \<Rightarrow> char" where
  "to_lower c = (if is_upper c then chr (byte c + 32) else c)"

lemma byte_less [simp]: "byte c < 256"
  by (metis of_char_mod_256 mod_less_divisor zero_less_numeral)

lemma byte_inject: "byte c = byte d \<longleftrightarrow> c = d"
  by simp

lemma byte_chr [str_simps]: "n < 256 \<Longrightarrow> byte (chr n) = n"
  by (simp add: of_char_of)

lemma byte_to_upper: "byte (to_upper c) = (if is_lower c then byte c - 32 else byte c)"
  by (auto simp: to_upper_def is_lower_def byte_chr)

lemma not_lower_to_upper [str_simps]: "\<not> is_lower (to_upper c)"
  by (auto simp: is_lower_def byte_to_upper)

lemma to_upper_idem [str_simps]: "to_upper (to_upper c) = to_upper c"
  by (simp add: to_upper_def [of "to_upper c"] not_lower_to_upper)

lemma is_xdigit_to_upper [str_simps]: "is_xdigit (to_upper c) \<longleftrightarrow> is_xdigit c"
  by (auto simp: is_xdigit_def is_digit_def byte_to_upper is_lower_def)

lemma to_upper_digit: "is_digit c \<Longrightarrow> to_upper c = c"
  by (auto simp: to_upper_def is_digit_def is_lower_def)

lemma is_space_to_upper [str_simps]: "is_space (to_upper c) \<longleftrightarrow> is_space c"
  by (auto simp: is_space_def byte_to_upper is_lower_def)

lemma is_xdigit_not_space: "is_xdigit c \<Longrightarrow> \<not> is_space c"
  by (auto simp: is_xdigit_def is_digit_def is_space_def)

section \<open>Searching and cutting\<close>

fun str_find :: "string \<Rightarrow> string \<Rightarrow> nat option" where
  "str_find needle [] = (if needle = [] then Some 0 else None)"
| "str_find needle (c # cs) =
     (if take (length needle) (c # cs) = needle then Some 0
      else map_option Suc (str_find needle cs))"

definition str_has :: "string \<Rightarrow> string \<Rightarrow> bool" where
  "str_has s needle \<longleftrightarrow> str_find needle s \<noteq> None"

definition starts_with :: "string \<Rightarrow> string \<Rightarrow> bool" where
  "starts_with s pre \<longleftrightarrow> take (length pre) s = pre"

definition ends_with :: "string \<Rightarrow> string \<Rightarrow> bool" where
  "ends_with s suf \<longleftrightarrow> length suf \<le> length s \<and> drop (length s - length suf) s = suf"

fun find_char :: "char \<Rightarrow> string \<Rightarrow> nat option" where
  "find_char c [] = None"
| "find_char c (d # ds) = (if d = c then Some 0 else map_option Suc (find_char c ds))"

definition rfind_char :: "char \<Rightarrow> string \<Rightarrow> nat option" where
  "rfind_char c s = map_option (\<lambda>i. length s - 1 - i) (find_char c (rev s))"

text \<open>\<open>s.substr(s.find_first_not_of(c))\<close>, with \<open>npos\<close> read as the empty remainder.\<close>

definition skip_char :: "char \<Rightarrow> string \<Rightarrow> string" where
  "skip_char c s = dropWhile (\<lambda>d. d = c) s"

definition trim_char :: "char \<Rightarrow> string \<Rightarrow> string" where
  "trim_char c s = rev (skip_char c (rev (skip_char c s)))"

definition pad_left :: "nat \<Rightarrow> char \<Rightarrow> string \<Rightarrow> string" where
  "pad_left n c s = replicate (n - length s) c @ s"

lemma str_find_bound: "str_find needle s = Some i \<Longrightarrow> i + length needle \<le> length s"
proof (induction needle s arbitrary: i rule: str_find.induct)
  case (2 needle c cs)
  show ?case
  proof (cases "take (length needle) (c # cs) = needle")
    case True
    then have "length needle \<le> length (c # cs)"
      by (metis length_take min.cobounded1)
    with 2 True show ?thesis by auto
  next
    case False
    with 2 show ?thesis by auto
  qed
qed (auto split: if_splits)

lemma str_find_at: "str_find needle s = Some i \<Longrightarrow> take (length needle) (drop i s) = needle"
  by (induction needle s arbitrary: i rule: str_find.induct) (auto split: if_splits)

lemma str_find_append: "str_find needle (xs @ needle @ ys) \<noteq> None"
proof (induction xs)
  case Nil
  have "take (length needle) (needle @ ys) = needle" by simp
  then show ?case by (cases "needle @ ys") (simp_all del: take_append)
qed auto

lemma str_has_iff_sublist: "str_has s needle \<longleftrightarrow> sublist needle s"
proof
  assume "str_has s needle"
  then obtain i where i: "str_find needle s = Some i" by (auto simp: str_has_def)
  then have "drop i s = needle @ drop (length needle) (drop i s)"
    by (metis append_take_drop_id str_find_at)
  then have "s = take i s @ needle @ drop (length needle) (drop i s)"
    by (metis append_take_drop_id)
  then show "sublist needle s" by (auto simp: sublist_def)
next
  assume "sublist needle s"
  then show "str_has s needle"
    unfolding sublist_def str_has_def by (metis str_find_append)
qed

lemma starts_with_iff: "starts_with s pre \<longleftrightarrow> prefix pre s"
  by (auto simp: starts_with_def prefix_def) (metis append_take_drop_id)

lemma find_char_None_iff: "find_char c s = None \<longleftrightarrow> c \<notin> set s"
  by (induction s) auto

lemma find_char_append: "c \<notin> set s \<Longrightarrow> find_char c (s @ c # t) = Some (length s)"
  by (induction s) auto

lemma find_char_Some: "find_char c s = Some i \<Longrightarrow> i < length s \<and> s ! i = c \<and> c \<notin> set (take i s)"
  by (induction s arbitrary: i) (auto split: if_splits)

lemma skip_char_set: "set (skip_char c s) \<subseteq> set s"
  by (auto simp: skip_char_def dest: set_dropWhileD)

lemma skip_char_hd: "skip_char c s \<noteq> [] \<Longrightarrow> hd (skip_char c s) \<noteq> c"
  unfolding skip_char_def by (rule hd_dropWhile)

lemma skip_char_idem [str_simps]: "skip_char c (skip_char c s) = skip_char c s"
  by (simp add: skip_char_def)

lemma skip_char_length: "length (skip_char c s) \<le> length s"
  by (simp add: skip_char_def length_dropWhile_le)

lemma skip_char_Nil_iff: "skip_char c s = [] \<longleftrightarrow> set s \<subseteq> {c}"
  by (auto simp: skip_char_def dropWhile_eq_Nil_conv)

lemma pad_left_length: "length (pad_left n c s) = max n (length s)"
  by (simp add: pad_left_def)

section \<open>Decimal and hexadecimal printing\<close>

definition digit_char :: "nat \<Rightarrow> char" where
  "digit_char d = chr (48 + d)"

definition digit_val :: "char \<Rightarrow> nat" where
  "digit_val c = byte c - 48"

fun nat_dec :: "nat \<Rightarrow> string" where
  "nat_dec n = (if n < 10 then [digit_char n] else nat_dec (n div 10) @ [digit_char (n mod 10)])"

declare nat_dec.simps [simp del]

definition int_dec :: "int \<Rightarrow> string" where
  "int_dec i = (if i < 0 then CHR ''-'' # nat_dec (nat (- i)) else nat_dec (nat i))"

definition dec_val :: "string \<Rightarrow> nat" where
  "dec_val s = foldl (\<lambda>a c. 10 * a + digit_val c) 0 s"

definition hex_digit :: "nat \<Rightarrow> char" where
  "hex_digit d = (if d < 10 then chr (48 + d) else chr (87 + d))"

definition hex_val :: "char \<Rightarrow> nat option" where
  "hex_val c =
     (if is_digit c then Some (byte c - 48)
      else if 97 \<le> byte c \<and> byte c \<le> 102 then Some (byte c - 97 + 10)
      else if 65 \<le> byte c \<and> byte c \<le> 70 then Some (byte c - 65 + 10)
      else None)"

lemma digit_char_digit [str_simps]: "d < 10 \<Longrightarrow> is_digit (digit_char d)"
  by (simp add: is_digit_def digit_char_def byte_chr)

lemma digit_val_char [str_simps]: "d < 10 \<Longrightarrow> digit_val (digit_char d) = d"
  by (simp add: digit_val_def digit_char_def byte_chr)

lemma nat_dec_digits: "c \<in> set (nat_dec n) \<Longrightarrow> is_digit c"
proof (induction n rule: nat_dec.induct)
  case (1 n)
  then show ?case by (subst (asm) nat_dec.simps) (auto simp: str_simps split: if_splits)
qed

lemma nat_dec_nonempty [simp]: "nat_dec n \<noteq> []"
  by (subst nat_dec.simps) simp

lemma dec_val_snoc: "dec_val (s @ [c]) = 10 * dec_val s + digit_val c"
  by (simp add: dec_val_def)

lemma dec_val_nat_dec [simp]: "dec_val (nat_dec n) = n"
proof (induction n rule: nat_dec.induct)
  case (1 n)
  show ?case
  proof (cases "n < 10")
    case True
    then show ?thesis by (subst nat_dec.simps) (simp add: dec_val_def str_simps)
  next
    case False
    with 1 have "dec_val (nat_dec (n div 10)) = n div 10" by blast
    with False show ?thesis by (subst nat_dec.simps) (simp add: dec_val_snoc str_simps)
  qed
qed

lemma nat_dec_inject [simp]: "nat_dec m = nat_dec n \<longleftrightarrow> m = n"
  by (metis dec_val_nat_dec)

lemma is_digit_not_minus: "is_digit c \<Longrightarrow> c \<noteq> CHR ''-''"
  by (auto simp: is_digit_def)

lemma int_dec_inject [simp]: "int_dec i = int_dec j \<longleftrightarrow> i = j"
proof
  assume eq: "int_dec i = int_dec j"
  have no: "CHR ''-'' # s \<noteq> nat_dec n" for s n
    using nat_dec_digits [of "CHR ''-''" n] by (metis is_digit_not_minus list.set_intros(1))
  from eq no no [symmetric] show "i = j"
    by (auto simp: int_dec_def split: if_splits)
qed simp

lemma hex_val_hex_digit [str_simps]: "d < 16 \<Longrightarrow> hex_val (hex_digit d) = Some d"
  by (auto simp: hex_val_def hex_digit_def is_digit_def byte_chr)

lemma hex_val_less: "hex_val c = Some d \<Longrightarrow> d < 16"
  by (auto simp: hex_val_def is_digit_def split: if_splits)

text \<open>\<open>snprintf("\\u%04x", c)\<close> for a byte: two zeros, then the two hexadecimal digits.\<close>

definition u_escape :: "char \<Rightarrow> string" where
  "u_escape c = [CHR 0x5C, CHR ''u'', CHR ''0'', CHR ''0'', hex_digit (byte c div 16), hex_digit (byte c mod 16)]"

lemma digit_char_eval [str_eval]:
  "digit_char 0 = CHR ''0''" "digit_char 1 = CHR ''1''" "digit_char (Suc 0) = CHR ''1''"
  "digit_char 2 = CHR ''2''" "digit_char 3 = CHR ''3''" "digit_char 4 = CHR ''4''"
  "digit_char 5 = CHR ''5''" "digit_char 6 = CHR ''6''" "digit_char 7 = CHR ''7''"
  "digit_char 8 = CHR ''8''" "digit_char 9 = CHR ''9''"
  by code_simp+

lemma replicate_eval [str_eval]: "replicate (numeral k) x = x # replicate (pred_numeral k) x"
  by (simp add: numeral_eq_Suc)

declare nat_dec.simps [str_eval] int_dec_def [str_eval] pad_left_def [str_eval]

text \<open>
  JSON text is written with a backquote for each double quote: \<open>jt ''{`op`:1}''\<close> is the text
  of an object with the key op.
\<close>

definition jt :: "string \<Rightarrow> string" where
  "jt s = map (\<lambda>c. if c = CHR 0x60 then CHR 0x22 else c) s"

lemma jt_simps [simp]:
  "jt [] = []"
  "jt (c # s) = (if c = CHR 0x60 then CHR 0x22 else c) # jt s"
  by (simp_all add: jt_def)

end
