(* ===== verification/Floats.thy ===== *)
theory Floats
  imports Complex_Main Bytes
begin

text \<open>
  The \<open>double\<close> values of the code and the three library routines it applies to them: the rounding of
  an exact value to the nearest double (IEEE 754 binary64, ties to even), \<open>std::strtod\<close> in the C
  locale (decimal, hexadecimal, infinity and not-a-number forms), and the default formatting of
  \<open>std::ostream\<close> (six significant digits, printf's \<open>%g\<close>). A double is an exact rational, an infinity
  or not-a-number; the sign of zero is not kept. What the components use is \<open>round_dbl_int\<close>: whole
  numbers up to \<open>2 ^ 53\<close> are doubles, so reading them back loses nothing.
\<close>

datatype dbl = DFin rat | DInf bool | DNaN

section \<open>Rounding to the nearest double\<close>

fun flog2 :: "nat \<Rightarrow> nat" where
  "flog2 n = (if n < 2 then 0 else Suc (flog2 (n div 2)))"

declare flog2.simps [simp del]

definition pow2 :: "int \<Rightarrow> rat" where
  "pow2 e = (if 0 \<le> e then 2 ^ nat e else 1 / 2 ^ nat (- e))"

definition pow10 :: "int \<Rightarrow> rat" where
  "pow10 e = (if 0 \<le> e then 10 ^ nat e else 1 / 10 ^ nat (- e))"

text \<open>The binary exponent of a positive rational, from the bit lengths of its two parts.\<close>

definition ilog2 :: "rat \<Rightarrow> int" where
  "ilog2 x = (case quotient_of x of (p, q) \<Rightarrow>
     let k = int (flog2 (nat p)) - int (flog2 (nat q)) in if x < pow2 k then k - 1 else k)"

definition round_half_even :: "rat \<Rightarrow> int" where
  "round_half_even y =
     (let f = \<lfloor>y\<rfloor>; d = y - of_int f
      in if d < 1 / 2 then f else if 1 / 2 < d then f + 1 else if even f then f else f + 1)"

definition round_pos :: "rat \<Rightarrow> dbl" where
  "round_pos x =
     (let e = max (ilog2 x - 52) (- 1074); r = of_int (round_half_even (x / pow2 e)) * pow2 e
      in if 0 < r \<and> 1024 \<le> ilog2 r then DInf True else DFin r)"

definition dbl_neg :: "dbl \<Rightarrow> dbl" where
  "dbl_neg d = (case d of DFin x \<Rightarrow> DFin (- x) | DInf b \<Rightarrow> DInf (\<not> b) | DNaN \<Rightarrow> DNaN)"

definition round_dbl :: "rat \<Rightarrow> dbl" where
  "round_dbl x =
     (if x = 0 then DFin 0 else if 0 < x then round_pos x else dbl_neg (round_pos (- x)))"

lemma flog2_le: "0 < n \<Longrightarrow> 2 ^ flog2 n \<le> n"
proof (induction n rule: flog2.induct)
  case (1 n)
  show ?case
  proof (cases "n < 2")
    case True
    with 1 show ?thesis by (subst flog2.simps) simp
  next
    case False
    then have "0 < n div 2" by auto
    with 1 False have "2 ^ flog2 (n div 2) \<le> n div 2" by blast
    with False show ?thesis by (subst flog2.simps) auto
  qed
qed

lemma flog2_1 [simp]: "flog2 (Suc 0) = 0"
  by (subst flog2.simps) simp

lemma round_half_even_of_int [simp]: "round_half_even (of_int k) = k"
  by (simp add: round_half_even_def)

lemma pow2_nat: "0 \<le> e \<Longrightarrow> pow2 e = 2 ^ nat e"
  by (simp add: pow2_def)

lemma ilog2_of_nat: "0 < n \<Longrightarrow> ilog2 (of_nat n) = int (flog2 n)"
proof -
  assume n: "0 < n"
  have "quotient_of (of_nat n) = (int n, 1)"
    using quotient_of_int [of "int n"] by simp
  moreover have "(2::rat) ^ flog2 n \<le> of_nat n"
    using flog2_le [OF n] by (metis of_nat_le_iff of_nat_numeral of_nat_power)
  ultimately show ?thesis by (simp add: ilog2_def pow2_nat)
qed

lemma flog2_bound: "0 < n \<Longrightarrow> n \<le> 2 ^ k \<Longrightarrow> flog2 n \<le> k"
  by (meson flog2_le le_trans nat_power_less_imp_less not_le power_strict_increasing_iff one_less_numeral_iff semiring_norm(76))

lemma round_pos_of_nat:
  assumes "0 < n" "n \<le> 2 ^ 53"
  shows "round_pos (of_nat n) = DFin (of_nat n)"
proof -
  define e where "e = int (flog2 n) - 52"
  have e1: "e \<le> 1" using flog2_bound [OF assms] by (simp add: e_def)
  have e2: "- 52 \<le> e" by (simp add: e_def)
  have exact: "\<exists>k. (of_nat n :: rat) / pow2 e = of_int k"
  proof (cases "e = 1")
    case True
    then have "flog2 n = 53" by (simp add: e_def)
    with flog2_le [OF assms(1)] assms(2) have "n = 2 * 2 ^ 52" by simp
    then have "(of_nat n :: rat) / pow2 e = of_int (2 ^ 52)" using True by (simp add: pow2_def)
    then show ?thesis by blast
  next
    case False
    with e1 have "e \<le> 0" by simp
    then have "(of_nat n :: rat) / pow2 e = of_int (int n * 2 ^ nat (- e))"
      by (cases "e = 0") (auto simp: pow2_def)
    then show ?thesis by blast
  qed
  then obtain k where k: "(of_nat n :: rat) / pow2 e = of_int k" by blast
  have pos: "pow2 e \<noteq> 0" by (simp add: pow2_def)
  have undo: "of_int k * pow2 e = of_nat n" using k pos by (simp add: field_simps)
  have small: "ilog2 (of_nat n) < 1024"
    using flog2_bound [OF assms] by (simp add: ilog2_of_nat [OF assms(1)])
  have m: "max (ilog2 (of_nat n) - 52) (- 1074) = e"
    using e2 by (simp add: ilog2_of_nat [OF assms(1)] e_def)
  show ?thesis using small by (simp only: round_pos_def m Let_def k round_half_even_of_int undo) auto
qed

lemma round_dbl_int: "\<bar>i\<bar> \<le> 2 ^ 53 \<Longrightarrow> round_dbl (of_int i) = DFin (of_int i)"
proof -
  assume i: "\<bar>i\<bar> \<le> 2 ^ 53"
  then have b: "nat \<bar>i\<bar> \<le> 2 ^ 53" by auto
  show ?thesis
  proof (cases "i = 0")
    case False
    with round_pos_of_nat [of "nat \<bar>i\<bar>"] b have "round_pos (of_int \<bar>i\<bar>) = DFin (of_int \<bar>i\<bar>)" by simp
    with False show ?thesis
      by (cases "0 < i") (auto simp: round_dbl_def dbl_neg_def)
  qed (simp add: round_dbl_def)
qed

lemma round_dbl_nat: "n \<le> 2 ^ 53 \<Longrightarrow> round_dbl (of_nat n) = DFin (of_nat n)"
  using round_dbl_int [of "int n"] by simp

section \<open>strtod\<close>

definition lower_str :: "string \<Rightarrow> string" where
  "lower_str s = map to_lower s"

definition mant_part :: "(char \<Rightarrow> bool) \<Rightarrow> string \<Rightarrow> string \<times> string \<times> nat" where
  "mant_part p s =
     (let a = takeWhile p s; r = drop (length a) s
      in case r of
           [] \<Rightarrow> (a, [], length a)
         | c # t \<Rightarrow>
             if c = CHR ''.''
             then (let b = takeWhile p t
                   in if a = [] \<and> b = [] then ([], [], 0) else (a, b, length a + 1 + length b))
             else (a, [], length a))"

definition exp_part :: "(char \<Rightarrow> bool) \<Rightarrow> string \<Rightarrow> int \<times> nat" where
  "exp_part mark s =
     (case s of
        [] \<Rightarrow> (0, 0)
      | c # r \<Rightarrow>
          if \<not> mark c then (0, 0)
          else (let signed = (r \<noteq> [] \<and> (hd r = CHR ''+'' \<or> hd r = CHR ''-''));
                    neg = (signed \<and> hd r = CHR ''-'');
                    ds = takeWhile is_digit (if signed then tl r else r)
                in if ds = [] then (0, 0)
                   else (if neg then - int (dec_val ds) else int (dec_val ds),
                         (if signed then 2 else 1) + length ds)))"

definition hex_num :: "string \<Rightarrow> nat" where
  "hex_num s = foldl (\<lambda>a c. 16 * a + (case hex_val c of Some d \<Rightarrow> d | None \<Rightarrow> 0)) 0 s"

definition strtod_hex :: "string \<Rightarrow> (dbl \<times> nat) option" where
  "strtod_hex s =
     (case mant_part is_xdigit s of (a, b, n) \<Rightarrow>
        if a @ b = [] then None
        else (case exp_part (\<lambda>c. c = CHR ''p'' \<or> c = CHR ''P'') (drop n s) of (e, k) \<Rightarrow>
          Some (round_dbl (of_nat (hex_num (a @ b)) * pow2 (e - 4 * int (length b))), n + k)))"

text \<open>A decimal numeral's exact value, before rounding, and its length.\<close>

definition dec_exact :: "string \<Rightarrow> (rat \<times> nat) option" where
  "dec_exact s =
     (case mant_part is_digit s of (a, b, n) \<Rightarrow>
        if a @ b = [] then None
        else (case exp_part (\<lambda>c. c = CHR ''e'' \<or> c = CHR ''E'') (drop n s) of (e, k) \<Rightarrow>
          Some (of_nat (dec_val (a @ b)) * pow10 (e - int (length b)), n + k)))"

definition strtod_dec :: "string \<Rightarrow> (dbl \<times> nat) option" where
  "strtod_dec s = map_option (\<lambda>(x, n). (round_dbl x, n)) (dec_exact s)"

definition nan_tail :: "string \<Rightarrow> nat" where
  "nan_tail s =
     (case s of
        [] \<Rightarrow> 0
      | c # t \<Rightarrow>
          if c = CHR ''('' then
            (let w = takeWhile (\<lambda>d. is_alnum d \<or> d = CHR ''_'') t; r = drop (length w) t
             in if r \<noteq> [] \<and> hd r = CHR '')'' then length w + 2 else 0)
          else 0)"

definition strtod_abs :: "string \<Rightarrow> (dbl \<times> nat) option" where
  "strtod_abs s =
     (let l = lower_str s
      in if starts_with l ''infinity'' then Some (DInf True, 8)
         else if starts_with l ''inf'' then Some (DInf True, 3)
         else if starts_with l ''nan'' then Some (DNaN, 3 + nan_tail (drop 3 s))
         else if starts_with l ''0x'' then
           (case strtod_hex (drop 2 s) of
              Some (d, n) \<Rightarrow> Some (d, n + 2)
            | None \<Rightarrow> strtod_dec s)
         else strtod_dec s)"

text \<open>The value read and the number of characters consumed; \<open>None\<close> when nothing converts.\<close>

definition strtod :: "string \<Rightarrow> (dbl \<times> nat) option" where
  "strtod s =
     (let w = length (takeWhile is_space s); r = drop w s
      in if r \<noteq> [] \<and> hd r = CHR ''-'' then
           map_option (\<lambda>(d, n). (dbl_neg d, w + 1 + n)) (strtod_abs (tl r))
         else if r \<noteq> [] \<and> hd r = CHR ''+'' then
           map_option (\<lambda>(d, n). (d, w + 1 + n)) (strtod_abs (tl r))
         else map_option (\<lambda>(d, n). (d, w + n)) (strtod_abs r))"

text \<open>
  \<open>std::stod\<close> on a decimal numeral: it throws \<open>invalid_argument\<close> when nothing converts and
  \<open>out_of_range\<close> when the value overflows or is rounded in the subnormal range; both carry the
  text \<open>stod\<close>. Characters after the longest numeral are ignored.
\<close>

definition stod :: "string \<Rightarrow> string + dbl" where
  "stod s =
     (case (if s \<noteq> [] \<and> (hd s = CHR ''-'' \<or> hd s = CHR ''+'') then dec_exact (tl s) else dec_exact s) of
        None \<Rightarrow> Inl ''stod''
      | Some (x, n) \<Rightarrow>
          (case round_dbl x of
             DFin y \<Rightarrow>
               if x \<noteq> 0 \<and> x \<noteq> y \<and> ilog2 x < - 1022 then Inl ''stod''
               else Inr (DFin (if hd s = CHR ''-'' then - y else y))
           | _ \<Rightarrow> Inl ''stod''))"

text \<open>A number in JSON text is followed by a comma or a closing bracket, or ends the text.\<close>

definition num_stop :: "string \<Rightarrow> bool" where
  "num_stop s \<longleftrightarrow> s = [] \<or> hd s = CHR '','' \<or> hd s = CHR ''}'' \<or> hd s = CHR '']''"

lemma num_stop_takeWhile: "num_stop s \<Longrightarrow> takeWhile is_digit s = []"
  by (cases s) (auto simp: num_stop_def is_digit_def)

lemma takeWhile_all_append: "(\<And>x. x \<in> set a \<Longrightarrow> P x) \<Longrightarrow> takeWhile P (a @ b) = a @ takeWhile P b"
  by (simp add: takeWhile_append)

lemma nat_dec_hd_digit: "is_digit (hd (nat_dec n @ s))"
  using nat_dec_digits [of "hd (nat_dec n)" n] by simp

lemma starts_with_hd: "starts_with s (c # p) \<Longrightarrow> s \<noteq> [] \<and> hd s = c"
  by (cases s) (auto simp: starts_with_def)

lemma lower_digit: "is_digit c \<Longrightarrow> to_lower c = c"
  by (auto simp: to_lower_def is_digit_def is_upper_def)

lemma lower_hd: "s \<noteq> [] \<Longrightarrow> hd (lower_str s) = to_lower (hd s)"
  by (cases s) (auto simp: lower_str_def)

lemma not_hex_prefix:
  assumes "num_stop rest"
  shows "\<not> starts_with (lower_str (nat_dec n @ rest)) ''0x''"
proof
  assume h: "starts_with (lower_str (nat_dec n @ rest)) ''0x''"
  obtain c cs where nd: "nat_dec n = c # cs" by (cases "nat_dec n") auto
  have "to_lower d \<noteq> CHR ''x''" if "is_digit d" for d
    using that by (auto simp: lower_digit is_digit_def)
  then have "cs \<noteq> [] \<Longrightarrow> False"
    using h nat_dec_digits [of "hd cs" n]
    by (cases cs) (auto simp: nd starts_with_def lower_str_def)
  moreover have "cs = [] \<Longrightarrow> False"
    using h assms
    by (cases rest) (auto simp: nd starts_with_def lower_str_def num_stop_def to_lower_def is_upper_def)
  ultimately show False by blast
qed

lemma strtod_dec_nat:
  assumes "num_stop rest" "n \<le> 2 ^ 53"
  shows "strtod_dec (nat_dec n @ rest) = Some (DFin (of_nat n), length (nat_dec n))"
proof -
  have "takeWhile is_digit (nat_dec n @ rest) = nat_dec n"
    using assms(1) by (simp add: takeWhile_all_append nat_dec_digits num_stop_takeWhile)
  then have "mant_part is_digit (nat_dec n @ rest) = (nat_dec n, [], length (nat_dec n))"
    using assms(1) by (auto simp: mant_part_def num_stop_def Let_def split: list.splits)
  moreover have "exp_part (\<lambda>c. c = CHR ''e'' \<or> c = CHR ''E'') rest = (0, 0)"
    using assms(1) by (auto simp: exp_part_def num_stop_def split: list.splits)
  ultimately show ?thesis using assms(2) by (simp add: strtod_dec_def dec_exact_def pow10_def round_dbl_nat)
qed

lemma strtod_abs_nat:
  assumes "num_stop rest" "n \<le> 2 ^ 53"
  shows "strtod_abs (nat_dec n @ rest) = Some (DFin (of_nat n), length (nat_dec n))"
proof -
  have "\<not> starts_with (lower_str (nat_dec n @ rest)) (c # p)" if "\<not> is_digit c" for c p
    using that nat_dec_hd_digit [of n rest] starts_with_hd [of "lower_str (nat_dec n @ rest)" c p]
    by (auto simp: lower_hd lower_digit)
  then have "\<not> starts_with (lower_str (nat_dec n @ rest)) ''infinity''"
    "\<not> starts_with (lower_str (nat_dec n @ rest)) ''inf''"
    "\<not> starts_with (lower_str (nat_dec n @ rest)) ''nan''"
    by (simp_all add: is_digit_def)
  with not_hex_prefix [OF assms(1), of n] strtod_dec_nat [OF assms]
  show ?thesis by (simp add: strtod_abs_def)
qed

lemma digit_not_space: "is_digit c \<Longrightarrow> \<not> is_space c"
  by (auto simp: is_digit_def is_space_def)

lemma strtod_nat:
  assumes "num_stop rest" "n \<le> 2 ^ 53"
  shows "strtod (nat_dec n @ rest) = Some (DFin (of_nat n), length (nat_dec n))"
proof -
  have d: "is_digit (hd (nat_dec n @ rest))" by (rule nat_dec_hd_digit)
  then have "takeWhile is_space (nat_dec n @ rest) = []"
    by (cases "nat_dec n @ rest") (auto dest: digit_not_space)
  moreover have "hd (nat_dec n @ rest) \<noteq> CHR ''-''" "hd (nat_dec n @ rest) \<noteq> CHR ''+''"
    using d by (auto simp: is_digit_def)
  ultimately show ?thesis using strtod_abs_nat [OF assms] by (simp add: strtod_def Let_def)
qed

lemma strtod_int:
  assumes "num_stop rest" "\<bar>i\<bar> \<le> 2 ^ 53"
  shows "strtod (int_dec i @ rest) = Some (DFin (of_int i), length (int_dec i))"
proof (cases "i < 0")
  case True
  have "nat (- i) \<le> 2 ^ 53" using assms(2) True by auto
  with strtod_abs_nat [OF assms(1)] True show ?thesis
    by (simp add: strtod_def int_dec_def is_space_def dbl_neg_def)
next
  case False
  have "nat i \<le> 2 ^ 53" using assms(2) False by auto
  with strtod_nat [OF assms(1)] False show ?thesis by (simp add: int_dec_def)
qed

section \<open>Conversions to integers\<close>

text \<open>
  \<open>static_cast\<close> to an integer type truncates towards zero. Outside the type's range it is undefined
  in C++; the value given here is the one x86-64 computes, and no theorem rests on it.
\<close>

definition trunc_rat :: "rat \<Rightarrow> int" where
  "trunc_rat x = (if 0 \<le> x then \<lfloor>x\<rfloor> else - \<lfloor>- x\<rfloor>)"

definition to_i64 :: "dbl \<Rightarrow> int" where
  "to_i64 d =
     (case d of
        DFin x \<Rightarrow> (let t = trunc_rat x in if - (2 ^ 63) \<le> t \<and> t < 2 ^ 63 then t else - (2 ^ 63))
      | _ \<Rightarrow> - (2 ^ 63))"

definition to_u64 :: "dbl \<Rightarrow> nat" where
  "to_u64 d =
     (case d of DFin x \<Rightarrow> (let t = trunc_rat x in if 0 \<le> t \<and> t < 2 ^ 64 then nat t else 0) | _ \<Rightarrow> 0)"

definition dbl_pos :: "dbl \<Rightarrow> bool" where
  "dbl_pos d = (case d of DFin x \<Rightarrow> 0 < x | DInf b \<Rightarrow> b | DNaN \<Rightarrow> False)"

lemma to_i64_int [simp]: "\<bar>i\<bar> \<le> 2 ^ 53 \<Longrightarrow> to_i64 (DFin (of_int i)) = i"
proof -
  assume i: "\<bar>i\<bar> \<le> 2 ^ 53"
  have "trunc_rat (of_int i) = i" by (simp add: trunc_rat_def flip: of_int_minus)
  with i show ?thesis by (auto simp: to_i64_def Let_def)
qed

lemma to_u64_nat [simp]: "n \<le> 2 ^ 53 \<Longrightarrow> to_u64 (DFin (of_nat n)) = n"
proof -
  assume n: "n \<le> 2 ^ 53"
  have "trunc_rat (of_nat n) = int n" by (simp add: trunc_rat_def)
  with n show ?thesis by (simp add: to_u64_def Let_def)
qed

section \<open>Default stream formatting\<close>

definition ilog10 :: "rat \<Rightarrow> int" where
  "ilog10 x = (case quotient_of x of (p, q) \<Rightarrow>
     let k = int (length (nat_dec (nat p))) - int (length (nat_dec (nat q)))
     in if x < pow10 k then k - 1 else k)"

definition strip_zeros :: "string \<Rightarrow> string" where
  "strip_zeros s = rev (skip_char (CHR ''0'') (rev s))"

definition point :: "string \<Rightarrow> string \<Rightarrow> string" where
  "point a b = (if b = [] then a else a @ CHR ''.'' # b)"

definition fmt_pos :: "rat \<Rightarrow> string" where
  "fmt_pos x =
     (let e0 = ilog10 x; m0 = nat (round_half_even (x / pow10 (e0 - 5)));
          m = (if m0 = 1000000 then 100000 else m0);
          e = (if m0 = 1000000 then e0 + 1 else e0);
          ds = nat_dec m
      in if - 4 \<le> e \<and> e < 6 then
           (if 0 \<le> e then point (take (Suc (nat e)) ds) (strip_zeros (drop (Suc (nat e)) ds))
            else point ''0'' (strip_zeros (replicate (nat (- e) - 1) (CHR ''0'') @ ds)))
         else point (take 1 ds) (strip_zeros (drop 1 ds)) @
              (if e < 0 then ''e-'' else ''e+'') @ pad_left 2 (CHR ''0'') (nat_dec (nat \<bar>e\<bar>)))"

definition fmt_dbl :: "dbl \<Rightarrow> string" where
  "fmt_dbl d =
     (case d of
        DFin x \<Rightarrow> if x = 0 then ''0'' else if 0 < x then fmt_pos x else CHR ''-'' # fmt_pos (- x)
      | DInf b \<Rightarrow> if b then ''inf'' else ''-inf''
      | DNaN \<Rightarrow> ''nan'')"

end
