(* ===== verification/Json_Text.thy ===== *)
theory Json_Text
  imports Floats
begin

text \<open>
  The text the server writes and the flat messages it reads: \<open>assocjson\<close> (the JSON and XML helpers
  of every explorer serializer, \<open>src/assoc_merge.hpp\<close>), \<open>freq_text\<close>, and \<open>src/json_util.hpp\<close>: the
  \<open>Writer\<close> of event records and \<open>parse_flat_object\<close>, the reader of control messages.

  The locale \<open>text_codec\<close> states what makes an escaped string readable: the reader undoes the
  escape of one byte. It is interpreted on the code's own readers, here on \<open>flat_str\<close>, in
  \<open>Mjson\<close> on the nested reader and in \<open>Assoc_Log\<close> on the log reader.
\<close>

section \<open>Escaped strings\<close>

locale text_codec =
  fixes enc :: "char \<Rightarrow> string"
    and read :: "string \<Rightarrow> string \<Rightarrow> 'r"
    and finished :: "string \<Rightarrow> string \<Rightarrow> 'r"
    and stop :: "char"
    and ok :: "char \<Rightarrow> bool"
  assumes read_enc: "ok c \<Longrightarrow> read acc (enc c @ r) = read (acc @ [c]) r"
    and read_stop: "read acc (stop # r) = finished acc r"
begin

lemma read_encoded:
  "\<forall>c \<in> set s. ok c \<Longrightarrow> read acc (concat (map enc s) @ stop # r) = finished (acc @ s) r"
  by (induction s arbitrary: acc) (auto simp: read_enc read_stop)

end

section \<open>assocjson\<close>

abbreviation dq :: char where
  "dq \<equiv> CHR 0x22"

abbreviation bslash :: char where
  "bslash \<equiv> CHR 0x5C"

definition jesc_char :: "char \<Rightarrow> string" where
  "jesc_char c =
     (if c = dq then [bslash, dq]
      else if c = bslash then [bslash, bslash]
      else if c = CHR 0x0A then [bslash, CHR ''n'']
      else if c = CHR 0x0D then [bslash, CHR ''r'']
      else if c = CHR 0x09 then [bslash, CHR ''t'']
      else if byte c < 0x20 then u_escape c
      else [c])"

definition jq :: "string \<Rightarrow> string" where
  "jq s = dq # concat (map jesc_char s) @ [dq]"

definition jb :: "bool \<Rightarrow> string" where
  "jb v = (if v then ''true'' else ''false'')"

fun jcommas :: "string list \<Rightarrow> string" where
  "jcommas [] = []"
| "jcommas [x] = x"
| "jcommas (x # y # xs) = x @ '','' @ jcommas (y # xs)"

definition jnums :: "int list \<Rightarrow> string" where
  "jnums c = ''['' @ jcommas (map int_dec c) @ '']''"

definition jarr :: "string list \<Rightarrow> string" where
  "jarr c = ''['' @ jcommas (map jq c) @ '']''"

definition jobj :: "(string, string) omap \<Rightarrow> string" where
  "jobj m = ''{'' @ jcommas (map (\<lambda>(k, v). jq k @ '':'' @ jq v) m) @ ''}''"

definition jcounts :: "(string, nat) omap \<Rightarrow> string" where
  "jcounts m = ''{'' @ jcommas (map (\<lambda>(k, v). jq k @ '':'' @ nat_dec v) m) @ ''}''"

text \<open>
  \<open>gmtime_r\<close> and \<open>strftime\<close>: the civil date of a day count, by eras of 400 years starting on 1
  March. \<open>ms / 1000\<close> truncates towards zero.
\<close>

definition civil_of_days :: "int \<Rightarrow> int \<times> int \<times> int" where
  "civil_of_days d =
     (let z = d + 719468; era = z div 146097; doe = z mod 146097;
          yoe = (doe - doe div 1460 + doe div 36524 - doe div 146096) div 365;
          doy = doe - (365 * yoe + yoe div 4 - yoe div 100);
          mp = (5 * doy + 2) div 153;
          dd = doy - (153 * mp + 2) div 5 + 1;
          mm = (if mp < 10 then mp + 3 else mp - 9)
      in (yoe + era * 400 + (if mm \<le> 2 then 1 else 0), mm, dd))"

definition pad2 :: "int \<Rightarrow> string" where
  "pad2 i = pad_left 2 (CHR ''0'') (int_dec i)"

definition tdiv :: "int \<Rightarrow> int \<Rightarrow> int" where
  "tdiv a b = (if 0 \<le> a then a div b else - ((- a) div b))"

definition iso :: "int \<Rightarrow> string" where
  "iso ms =
     (if ms = 0 then []
      else let t = tdiv ms 1000; sod = t mod 86400
           in case civil_of_days (t div 86400) of
                (y, m, d) \<Rightarrow>
                  int_dec y @ ''-'' @ pad2 m @ ''-'' @ pad2 d @ ''T'' @ pad2 (sod div 3600) @ '':'' @
                  pad2 (sod mod 3600 div 60) @ '':'' @ pad2 (sod mod 60) @ ''Z'')"

definition xesc_ascii :: "char \<Rightarrow> string" where
  "xesc_ascii c =
     (if c = CHR ''&'' then ''&amp;''
      else if c = CHR ''<'' then ''&lt;''
      else if c = CHR ''>'' then ''&gt;''
      else if c = dq then ''&quot;''
      else if c = CHR 0x27 then ''&apos;''
      else if byte c < 0x20 \<and> byte c \<noteq> 9 \<and> byte c \<noteq> 10 \<and> byte c \<noteq> 13 then ''?''
      else [c])"

definition utf8_len :: "char \<Rightarrow> nat" where
  "utf8_len c =
     (if 0xc0 \<le> byte c \<and> byte c < 0xe0 then 2
      else if 0xe0 \<le> byte c \<and> byte c < 0xf0 then 3
      else if 0xf0 \<le> byte c \<and> byte c < 0xf8 then 4
      else 0)"

definition is_cont :: "char \<Rightarrow> bool" where
  "is_cont c \<longleftrightarrow> 0x80 \<le> byte c \<and> byte c < 0xc0"

fun xesc :: "string \<Rightarrow> string" where
  "xesc [] = []"
| "xesc (c # cs) =
     (if byte c < 0x80 then xesc_ascii c @ xesc cs
      else let n = utf8_len c
           in if n \<noteq> 0 \<and> 0xc2 \<le> byte c \<and> n \<le> length (c # cs) \<and> list_all is_cont (take (n - 1) cs)
              then c # take (n - 1) cs @ xesc (drop (n - 1) cs)
              else CHR ''?'' # xesc cs)"

function freq_trim :: "string \<Rightarrow> string" where
  "freq_trim t =
     (case find_char (CHR ''.'') t of
        None \<Rightarrow> t
      | Some p \<Rightarrow> if p + 5 < length t \<and> last t = CHR ''0'' then freq_trim (butlast t) else t)"
  by auto
termination by (relation "measure length") auto

declare freq_trim.simps [simp del]

definition freq_text :: "int \<Rightarrow> string" where
  "freq_text hz =
     (if hz \<le> 0 then []
      else freq_trim (int_dec (hz div 1000000) @ ''.'' @
             pad_left 6 (CHR ''0'') (int_dec (hz mod 1000000))) @ '' MHz'')"

section \<open>json::Writer\<close>

record writer =
  w_buf :: string
  w_first :: bool

definition w_new :: writer where
  "w_new = \<lparr>w_buf = ''{'', w_first = True\<rparr>"

definition w_sep :: "writer \<Rightarrow> writer" where
  "w_sep w = (if w_first w then w\<lparr>w_first := False\<rparr> else w\<lparr>w_buf := w_buf w @ '',''\<rparr>)"

definition w_escape :: "string \<Rightarrow> string" where
  "w_escape s = concat (map jesc_char s)"

definition w_raw_field :: "string \<Rightarrow> string \<Rightarrow> writer \<Rightarrow> writer" where
  "w_raw_field key raw w =
     (let v = w_sep w in v\<lparr>w_buf := w_buf v @ [dq] @ w_escape key @ [dq, CHR '':''] @ raw\<rparr>)"

definition w_field_str :: "string \<Rightarrow> string \<Rightarrow> writer \<Rightarrow> writer" where
  "w_field_str key value w = w_raw_field key ([dq] @ w_escape value @ [dq]) w"

definition w_field_dbl :: "string \<Rightarrow> dbl \<Rightarrow> writer \<Rightarrow> writer" where
  "w_field_dbl key value w = w_raw_field key (fmt_dbl value) w"

definition w_field_int :: "string \<Rightarrow> int \<Rightarrow> writer \<Rightarrow> writer" where
  "w_field_int key value w = w_raw_field key (int_dec value) w"

definition w_field_bool :: "string \<Rightarrow> bool \<Rightarrow> writer \<Rightarrow> writer" where
  "w_field_bool key value w = w_raw_field key (if value then ''true'' else ''false'') w"

definition w_str :: "writer \<Rightarrow> string" where
  "w_str w = w_buf w @ ''}''"

section \<open>json::parse_flat_object\<close>

datatype fval = FStr string | FNum dbl | FBool bool

definition skip_ws :: "string \<Rightarrow> string" where
  "skip_ws s = dropWhile is_space s"

text \<open>The characters up to the closing quote, and what follows it (nothing when it is missing).\<close>

fun flat_str :: "string \<Rightarrow> string \<Rightarrow> string \<times> string" where
  "flat_str acc [] = (acc, [])"
| "flat_str acc [c] = (if c = dq then (acc, []) else (acc @ [c], []))"
| "flat_str acc (c # d # r) =
     (if c = dq then (acc, d # r)
      else if c = bslash then flat_str (acc @ [d]) r
      else flat_str (acc @ [c]) (d # r))"

definition num_char :: "char \<Rightarrow> bool" where
  "num_char c \<longleftrightarrow> is_digit c \<or> c \<in> {CHR ''-'', CHR ''+'', CHR ''.'', CHR ''e'', CHR ''E''}"

definition flat_value :: "string \<Rightarrow> string + (fval \<times> string)" where
  "flat_value r =
     (if r \<noteq> [] \<and> hd r = dq then (case flat_str [] (tl r) of (v, r') \<Rightarrow> Inr (FStr v, r'))
      else if take 4 r = ''true'' then Inr (FBool True, drop 4 r)
      else if take 5 r = ''false'' then Inr (FBool False, drop 5 r)
      else let t = takeWhile num_char r
           in if t = [] then Inl ''json: expected value''
              else (case stod t of Inl e \<Rightarrow> Inl e | Inr d \<Rightarrow> Inr (FNum d, drop (length t) r)))"

definition flat_member :: "string \<Rightarrow> string + (string \<times> fval \<times> string)" where
  "flat_member r =
     (case skip_ws r of
        [] \<Rightarrow> Inl ''json: expected key string''
      | c # r1 \<Rightarrow>
          if c \<noteq> dq then Inl ''json: expected key string''
          else (case flat_str [] r1 of
            (key, r2) \<Rightarrow>
              (case skip_ws r2 of
                 [] \<Rightarrow> Inl (''json: expected '' @ [CHR 0x27] @ '':'' @ [CHR 0x27])
               | d # r3 \<Rightarrow>
                   if d \<noteq> CHR '':'' then Inl (''json: expected '' @ [CHR 0x27] @ '':'' @ [CHR 0x27])
                   else (case flat_value (skip_ws r3) of
                           Inl e \<Rightarrow> Inl e
                         | Inr (v, r4) \<Rightarrow> Inr (key, v, r4)))))"

lemma skip_ws_length: "length (skip_ws r) \<le> length r"
  by (simp add: skip_ws_def length_dropWhile_le)

lemma flat_str_length: "flat_str acc r = (k, r') \<Longrightarrow> length r' \<le> length r"
  by (induction acc r rule: flat_str.induct) (auto split: if_splits)

lemma flat_value_length: "flat_value r = Inr (v, r') \<Longrightarrow> length r' \<le> length r"
  by (cases r)
    (auto simp: flat_value_def Let_def split: if_splits prod.splits sum.splits dest: flat_str_length)

lemma flat_member_length: "flat_member r = Inr (k, v, r') \<Longrightarrow> length r' \<le> length r"
proof -
  assume h: "flat_member r = Inr (k, v, r')"
  then obtain c r1 r2 d r3 where
    "skip_ws r = c # r1" "flat_str [] r1 = (k, r2)" "skip_ws r2 = d # r3"
    "flat_value (skip_ws r3) = Inr (v, r')"
    by (auto simp: flat_member_def split: list.splits if_splits prod.splits sum.splits)
  with skip_ws_length [of r] skip_ws_length [of r2] skip_ws_length [of r3]
    flat_str_length [of "[]" r1 k r2] flat_value_length [of "skip_ws r3" v r']
  show ?thesis by simp
qed

function flat_loop :: "(string, fval) omap \<Rightarrow> string \<Rightarrow> string + (string, fval) omap" where
  "flat_loop m r =
     (case flat_member r of
        Inl e \<Rightarrow> Inl e
      | Inr (k, v, r') \<Rightarrow>
          (case skip_ws r' of
             [] \<Rightarrow> Inl (''json: expected '' @ [CHR 0x27] @ '','' @ [CHR 0x27] @ '' or '' @ [CHR 0x27] @ ''}'' @ [CHR 0x27])
           | c # t \<Rightarrow>
               if c = CHR '','' then flat_loop (om_put k v m) t
               else if c = CHR ''}'' then Inr (om_put k v m)
               else Inl (''json: expected '' @ [CHR 0x27] @ '','' @ [CHR 0x27] @ '' or '' @ [CHR 0x27] @ ''}'' @ [CHR 0x27])))"
  by auto
termination
proof (relation "measure (\<lambda>(m, r). length r)")
  fix m :: "(string, fval) omap" and r p k q v r' c t
  assume "flat_member r = Inr p" "(k, q) = p" "(v, r') = q" "skip_ws r' = c # t"
  then have "length r' \<le> length r" "length (c # t) \<le> length r'"
    using flat_member_length [of r k v r'] skip_ws_length [of r'] by auto
  then show "((om_put k v m, t), m, r) \<in> measure (\<lambda>(m, r). length r)" by simp
qed simp

declare flat_loop.simps [simp del]

definition parse_flat_object :: "string \<Rightarrow> string + (string, fval) omap" where
  "parse_flat_object s =
     (case skip_ws s of
        [] \<Rightarrow> Inl (''json: expected '' @ [CHR 0x27] @ ''{'' @ [CHR 0x27])
      | c # r \<Rightarrow>
          if c \<noteq> CHR ''{'' then Inl (''json: expected '' @ [CHR 0x27] @ ''{'' @ [CHR 0x27])
          else (case skip_ws r of
                  [] \<Rightarrow> flat_loop [] []
                | d # r' \<Rightarrow> if d = CHR ''}'' then Inr [] else flat_loop [] (d # r')))"

definition get_string :: "(string, fval) omap \<Rightarrow> string \<Rightarrow> string \<Rightarrow> string" where
  "get_string m key d = (case om_get m key of Some (FStr s) \<Rightarrow> s | _ \<Rightarrow> d)"

definition get_number :: "(string, fval) omap \<Rightarrow> string \<Rightarrow> dbl \<Rightarrow> dbl" where
  "get_number m key d = (case om_get m key of Some (FNum x) \<Rightarrow> x | _ \<Rightarrow> d)"

definition get_bool :: "(string, fval) omap \<Rightarrow> string \<Rightarrow> bool \<Rightarrow> bool" where
  "get_bool m key d =
     (case om_get m key of Some (FBool b) \<Rightarrow> b | Some (FNum x) \<Rightarrow> x \<noteq> DFin 0 | _ \<Rightarrow> d)"

section \<open>Round trip of flat messages\<close>

text \<open>
  The fields a caller may chain on a \<open>Writer\<close> and the value the reader gives each. The reader keeps
  the byte after a backslash as it is, so only texts without control bytes survive.
\<close>

definition plain_char :: "char \<Rightarrow> bool" where
  "plain_char c \<longleftrightarrow> 32 \<le> byte c"

lemma jesc_char_hd: "jesc_char c \<noteq> [] \<and> hd (jesc_char c) \<noteq> dq"
  by (auto simp: jesc_char_def u_escape_def)

lemma byte_eq_chr: "n < 256 \<Longrightarrow> c = chr n \<longleftrightarrow> byte c = n"
  by (auto simp: byte_chr)

interpretation flat_codec: text_codec jesc_char flat_str "\<lambda>acc r. (acc, r)" dq plain_char
proof unfold_locales
  fix c acc r assume c: "plain_char c"
  then have "c \<noteq> CHR 0x0A" "c \<noteq> CHR 0x0D" "c \<noteq> CHR 0x09"
    by (auto simp: plain_char_def)
  with c show "flat_str acc (jesc_char c @ r) = flat_str (acc @ [c]) r"
    by (cases r) (auto simp: jesc_char_def plain_char_def)
next
  fix acc r show "flat_str acc (dq # r) = (acc, r)" by (cases r) auto
qed

datatype wval = WStr string | WInt int | WBool bool

definition w_add :: "string \<times> wval \<Rightarrow> writer \<Rightarrow> writer" where
  "w_add f w = (case f of (k, v) \<Rightarrow>
     (case v of WStr s \<Rightarrow> w_field_str k s w | WInt i \<Rightarrow> w_field_int k i w | WBool b \<Rightarrow> w_field_bool k b w))"

definition wval_text :: "wval \<Rightarrow> string" where
  "wval_text v = (case v of WStr s \<Rightarrow> [dq] @ w_escape s @ [dq] | WInt i \<Rightarrow> int_dec i
     | WBool b \<Rightarrow> if b then ''true'' else ''false'')"

definition wval_val :: "wval \<Rightarrow> fval" where
  "wval_val v = (case v of WStr s \<Rightarrow> FStr s | WInt i \<Rightarrow> FNum (DFin (of_int i)) | WBool b \<Rightarrow> FBool b)"

definition wfield_ok :: "string \<times> wval \<Rightarrow> bool" where
  "wfield_ok f = (case f of (k, v) \<Rightarrow> list_all plain_char k \<and>
     (case v of WStr s \<Rightarrow> list_all plain_char s | WInt i \<Rightarrow> \<bar>i\<bar> \<le> 2 ^ 53 | WBool b \<Rightarrow> True))"

definition wfield_text :: "string \<times> wval \<Rightarrow> string" where
  "wfield_text f = [dq] @ w_escape (fst f) @ [dq, CHR '':''] @ wval_text (snd f)"

lemma w_add_buf: "w_buf (w_add f w) = w_buf w @ (if w_first w then [] else '','') @ wfield_text f"
  and w_add_first: "w_first (w_add f w) = False"
  by (auto simp: w_add_def wfield_text_def wval_text_def w_field_str_def w_field_int_def
      w_field_bool_def w_raw_field_def w_sep_def Let_def split: prod.splits wval.splits)

lemma w_fold_buf: "\<not> w_first w \<Longrightarrow>
  w_buf (fold w_add fs w) = w_buf w @ concat (map (\<lambda>f. '','' @ wfield_text f) fs)"
  by (induction fs arbitrary: w) (simp_all add: w_add_buf w_add_first)

lemma w_str_fields:
  "w_str (fold w_add (f # fs) w_new) =
     ''{'' @ wfield_text f @ concat (map (\<lambda>f. '','' @ wfield_text f) fs) @ ''}''"
  by (simp add: w_str_def w_fold_buf w_add_buf w_add_first) (simp add: w_new_def)

lemma stod_int: "\<bar>i\<bar> \<le> 2 ^ 53 \<Longrightarrow> stod (int_dec i) = Inr (DFin (of_int i))"
proof -
  assume i: "\<bar>i\<bar> \<le> 2 ^ 53"
  define n where "n = nat \<bar>i\<bar>"
  have n: "n \<le> 2 ^ 53" using i by (auto simp: n_def)
  have tw: "takeWhile is_digit (nat_dec n) = nat_dec n"
    using nat_dec_digits by simp
  have d: "dec_exact (nat_dec n) = Some (of_nat n, length (nat_dec n))"
    by (simp add: dec_exact_def mant_part_def exp_part_def pow10_def tw Let_def)
  have h: "is_digit (hd (nat_dec n))" using nat_dec_hd_digit [of n "[]"] by simp
  then have h2: "hd (nat_dec n) \<noteq> CHR ''-''" "hd (nat_dec n) \<noteq> CHR ''+''" by (auto simp: is_digit_def)
  show ?thesis
  proof (cases "i < 0")
    case True
    then have "int_dec i = CHR ''-'' # nat_dec n" by (simp add: int_dec_def n_def)
    with True show ?thesis by (simp add: stod_def d round_dbl_nat [OF n]) (simp add: n_def)
  next
    case False
    then have "int_dec i = nat_dec n" by (simp add: int_dec_def n_def)
    with False h2 show ?thesis by (simp add: stod_def d round_dbl_nat [OF n]) (simp add: n_def)
  qed
qed

lemma int_dec_num_chars: "c \<in> set (int_dec i) \<Longrightarrow> num_char c"
  by (auto simp: int_dec_def num_char_def dest: nat_dec_digits split: if_splits)

lemma int_dec_nonempty [simp]: "int_dec i \<noteq> []"
  by (simp add: int_dec_def)

lemma int_dec_hd: "num_char (hd (int_dec i @ r))"
  using int_dec_num_chars [of "hd (int_dec i)" i] by simp

definition stops :: "string \<Rightarrow> bool" where
  "stops r \<longleftrightarrow> r \<noteq> [] \<and> (hd r = CHR '','' \<or> hd r = CHR ''}'')"

lemma flat_value_text:
  assumes "wfield_ok (k, v)" "stops r"
  shows "flat_value (wval_text v @ r) = Inr (wval_val v, r)"
proof (cases v)
  case (WStr s)
  with assms have "\<forall>c \<in> set s. plain_char c" by (simp add: wfield_ok_def list_all_iff)
  from flat_codec.read_encoded [OF this, of "[]" r] WStr show ?thesis
    by (simp add: flat_value_def wval_text_def wval_val_def w_escape_def)
next
  case (WInt i)
  have tw: "takeWhile num_char (int_dec i @ r) = int_dec i"
    using assms(2) int_dec_num_chars [of _ i]
    by (cases r) (auto simp: stops_def takeWhile_append num_char_def is_digit_def)
  obtain c t where ct: "int_dec i @ r = c # t" by (cases "int_dec i @ r") auto
  have "num_char c" using int_dec_hd [of i r] by (simp add: ct)
  then have "c \<noteq> dq" "c \<noteq> CHR ''t''" "c \<noteq> CHR ''f''" by (auto simp: num_char_def is_digit_def)
  moreover have "drop (length (int_dec i)) (c # t) = r" by (simp flip: ct)
  ultimately have "flat_value (int_dec i @ r) = (case stod (int_dec i) of Inl e \<Rightarrow> Inl e | Inr d \<Rightarrow> Inr (FNum d, r))"
    using tw by (simp add: flat_value_def ct Let_def del: takeWhile.simps split: sum.split)
  with assms(1) WInt show ?thesis by (simp add: wval_text_def wval_val_def wfield_ok_def stod_int)
next
  case (WBool b)
  then show ?thesis by (simp add: flat_value_def wval_text_def wval_val_def)
qed

lemma skip_ws_id: "r \<noteq> [] \<Longrightarrow> \<not> is_space (hd r) \<Longrightarrow> skip_ws r = r"
  by (cases r) (auto simp: skip_ws_def)

lemma wval_text_hd: "wval_text v @ r \<noteq> [] \<and> \<not> is_space (hd (wval_text v @ r))"
proof (cases v)
  case (WInt i)
  then show ?thesis using int_dec_hd [of i r]
    by (auto simp: wval_text_def num_char_def is_digit_def is_space_def)
qed (auto simp: wval_text_def is_space_def)

lemma flat_member_text:
  assumes "wfield_ok (k, v)" "stops r"
  shows "flat_member (wfield_text (k, v) @ r) = Inr (k, wval_val v, r)"
proof -
  have "\<forall>c \<in> set k. plain_char c" using assms(1) by (simp add: wfield_ok_def list_all_iff)
  from flat_codec.read_encoded [OF this, of "[]"]
  have key: "flat_str [] (w_escape k @ dq # t) = (k, t)" for t by (simp add: w_escape_def)
  have ws: "skip_ws (c # t) = c # t" if "c = dq \<or> c = CHR '':''" for c t
    using that by (auto simp: skip_ws_def is_space_def)
  have "skip_ws (wval_text v @ r) = wval_text v @ r"
    using wval_text_hd [of v r] by (metis skip_ws_id)
  with flat_value_text [OF assms] show ?thesis
    by (simp add: flat_member_def wfield_text_def key ws)
qed

lemma stops_tail: "stops (concat (map (\<lambda>f. '','' @ wfield_text f) fs) @ ''}'')"
  by (cases fs) (auto simp: stops_def)

lemma flat_loop_text:
  assumes "\<forall>f \<in> set (f # fs). wfield_ok f"
  shows "flat_loop m (wfield_text f @ concat (map (\<lambda>f. '','' @ wfield_text f) fs) @ ''}'') =
    Inr (foldl (\<lambda>acc (k, v). om_put k (wval_val v) acc) m (f # fs))"
  using assms
proof (induction fs arbitrary: f m)
  case Nil
  obtain k v where f: "f = (k, v)" by (cases f)
  have st: "stops ''}''" by (simp add: stops_def)
  have "flat_member (wfield_text f @ ''}'') = Inr (k, wval_val v, ''}'')"
    using Nil st flat_member_text [of k v "''}''"] by (simp add: f)
  then show ?case by (subst flat_loop.simps) (simp add: f skip_ws_def is_space_def)
next
  case (Cons g gs)
  obtain k v where f: "f = (k, v)" by (cases f)
  let ?t = "concat (map (\<lambda>f. '','' @ wfield_text f) (g # gs)) @ ''}''"
  have "flat_member (wfield_text f @ ?t) = Inr (k, wval_val v, ?t)"
    using Cons.prems stops_tail [of "g # gs"] flat_member_text [of k v ?t] by (simp only: f) simp
  moreover have "skip_ws ?t = ?t" by (simp add: skip_ws_def is_space_def)
  ultimately show ?case using Cons.IH [of g "om_put k (wval_val v) m"] Cons.prems
    by (subst flat_loop.simps) (simp add: f)
qed

text \<open>
  C38. A message built field by field with the \<open>Writer\<close> (string fields free of control bytes, integers
  within 53 bits, booleans) is read back by \<open>parse_flat_object\<close> without error and as exactly the
  fields that were written, a repeated key keeping its last value.
\<close>

lemma flat_round_trip:
  assumes "\<forall>f \<in> set fs. wfield_ok f"
  shows "parse_flat_object (w_str (fold w_add fs w_new)) =
    Inr (foldl (\<lambda>acc (k, v). om_put k (wval_val v) acc) [] fs)"
proof (cases fs)
  case Nil
  then show ?thesis
    by (simp add: w_str_def w_new_def parse_flat_object_def skip_ws_def is_space_def)
next
  case (Cons f gs)
  have ws: "skip_ws (CHR ''{'' # t) = CHR ''{'' # t" "skip_ws (dq # t) = dq # t" for t
    by (auto simp: skip_ws_def is_space_def)
  from flat_loop_text [of f gs "[]"] assms Cons show ?thesis
    by (simp only: w_str_fields) (simp add: parse_flat_object_def ws wfield_text_def)
qed

lemma flat_round_trip_witness:
  "parse_flat_object (w_str (fold w_add [(''op'', WStr [dq, bslash]), (''n'', WInt (-12)), (''ok'', WBool True)] w_new)) =
   Inr [(''n'', FNum (DFin (-12))), (''ok'', FBool True), (''op'', FStr [dq, bslash])]"
  using flat_round_trip [of "[(''op'', WStr [dq, bslash]), (''n'', WInt (-12)), (''ok'', WBool True)]"]
  by (simp add: wfield_ok_def plain_char_def wval_val_def)

text \<open>
  A control byte is written as an escape the reader does not know: a newline comes back as the
  letter n.
\<close>

lemma flat_newline_lost:
  "parse_flat_object (w_str (w_field_str ''s'' [CHR 0x0A] w_new)) = Inr [(''s'', FStr ''n'')]"
  by code_simp

section \<open>XML text\<close>

text \<open>
  Well-formed XML character data: every ampersand starts one of the five entities, no raw markup
  character or control byte occurs, and every byte from 0x80 up belongs to a lead byte followed by
  its continuation bytes.
\<close>

fun xml_ok :: "string \<Rightarrow> bool" where
  "xml_ok [] = True"
| "xml_ok (c # cs) =
     (if byte c < 0x80
      then (if c = CHR ''&''
            then list_ex (starts_with cs) [''amp;'', ''lt;'', ''gt;'', ''quot;'', ''apos;'']
            else c \<notin> {CHR ''<'', CHR ''>'', dq, CHR 0x27} \<and> (byte c < 0x20 \<longrightarrow> byte c \<in> {9, 10, 13})) \<and>
           xml_ok cs
      else let n = utf8_len c
           in n \<noteq> 0 \<and> 0xc2 \<le> byte c \<and> n - 1 \<le> length cs \<and> list_all is_cont (take (n - 1) cs) \<and>
              xml_ok (drop (n - 1) cs))"

lemma xml_ok_entity: "xml_ok t \<Longrightarrow> e \<in> set [''amp;'', ''lt;'', ''gt;'', ''quot;'', ''apos;''] \<Longrightarrow> xml_ok (CHR ''&'' # e @ t)"
  by (auto simp: starts_with_def)

lemma xml_ok_ascii: "byte c < 0x80 \<Longrightarrow> xml_ok t \<Longrightarrow> xml_ok (xesc_ascii c @ t)"
  by (auto simp: xesc_ascii_def starts_with_def)

text \<open>
  Whatever bytes a decoder wrote, \<open>xesc\<close> gives text that is safe inside an XML element or
  attribute: no markup character, no stray ampersand, no control byte other than tab, newline and
  carriage return, and no byte from 0x80 up outside a complete multi-byte sequence.
\<close>

lemma xesc_xml_ok: "xml_ok (xesc s)"
proof (induction s rule: xesc.induct)
  case (2 c cs)
  show ?case
  proof (cases "byte c < 0x80")
    case True
    with 2 show ?thesis by (simp add: xml_ok_ascii)
  next
    case False
    define n where "n = utf8_len c"
    show ?thesis
    proof (cases "n \<noteq> 0 \<and> 0xc2 \<le> byte c \<and> n \<le> length (c # cs) \<and> list_all is_cont (take (n - 1) cs)")
      case True
      then have "length (take (n - 1) cs) = n - 1" by auto
      then show ?thesis using 2(2) [OF False n_def True] True False by (simp add: n_def [symmetric] Let_def)
    next
      case F: False
      then have "xml_ok (xesc cs)" using 2(3) [OF False n_def] by blast
      moreover have "xesc (c # cs) = CHR ''?'' # xesc cs"
        using False F by (simp only: xesc.simps n_def [symmetric] Let_def if_False)
      ultimately show ?thesis by simp
    qed
  qed
qed simp

text \<open>The shape of a sequence is checked, not its value: an overlong form passes.\<close>

lemma xesc_passes_overlong: "xesc [chr 0xE0, chr 0x80, chr 0x80] = [chr 0xE0, chr 0x80, chr 0x80]"
  by code_simp

section \<open>Frequencies\<close>

lemma freq_trim_shape:
  assumes "CHR ''.'' \<notin> set a"
  shows "\<exists>g k. freq_trim (a @ CHR ''.'' # f) = a @ CHR ''.'' # g \<and> f = g @ replicate k (CHR ''0'')"
proof (induction "length f" arbitrary: f)
  case 0
  then show ?case by (subst freq_trim.simps) (simp add: find_char_append assms)
next
  case (Suc n)
  show ?case
  proof (cases "4 < length f \<and> last f = CHR ''0''")
    case True
    then have f: "f = butlast f @ [CHR ''0'']" by (metis Suc.hyps(2) append_butlast_last_id list.size(3) nat.distinct(1))
    have "n = length (butlast f)" using Suc.hyps(2) by simp
    from Suc.hyps(1) [OF this] obtain g k where
      "freq_trim (a @ CHR ''.'' # butlast f) = a @ CHR ''.'' # g" "butlast f = g @ replicate k (CHR ''0'')"
      by blast
    moreover have "freq_trim (a @ CHR ''.'' # f) = freq_trim (a @ CHR ''.'' # butlast f)"
      using True by (subst freq_trim.simps) (auto simp: find_char_append assms butlast_append)
    ultimately show ?thesis
      using f by (intro exI [of _ g] exI [of _ "Suc k"]) (metis append_assoc replicate_append_same replicate_Suc)
  next
    case False
    then show ?thesis
      by (intro exI [of _ f] exI [of _ 0], subst freq_trim.simps) (auto simp: find_char_append assms)
  qed
qed

lemma nat_dec_no_dot: "CHR ''.'' \<notin> set (nat_dec n)"
  using nat_dec_digits [of "CHR ''.''" n] by (auto simp: is_digit_def)

lemma dec_val_pad: "dec_val (pad_left k (CHR ''0'') s) = dec_val s"
proof -
  have "foldl (\<lambda>a c. 10 * a + digit_val c) 0 (replicate j (CHR ''0'')) = 0" for j
    by (induction j) (auto simp: digit_val_def)
  then show ?thesis by (simp add: pad_left_def dec_val_def)
qed

lemma nat_dec_length: "n < 10 ^ Suc k \<Longrightarrow> length (nat_dec n) \<le> Suc k"
proof (induction k arbitrary: n)
  case 0
  then show ?case by (subst nat_dec.simps) simp
next
  case (Suc k)
  show ?case
  proof (cases "n < 10")
    case False
    have "n div 10 < 10 ^ Suc k" using Suc.prems by (simp add: div_less_iff_less_mult mult.commute)
    from Suc.IH [OF this] False show ?thesis by (subst nat_dec.simps) simp
  qed (subst nat_dec.simps, simp)
qed

lemma dot_split: "a @ CHR ''.'' # g = b @ CHR ''.'' # h \<Longrightarrow> CHR ''.'' \<notin> set a \<Longrightarrow> CHR ''.'' \<notin> set b
   \<Longrightarrow> a = b \<and> g = h"
  by (induction a arbitrary: b) (auto simp: Cons_eq_append_conv)

text \<open>
  \<open>freq_text\<close> loses nothing: dropping trailing zeros never makes two different positive
  frequencies read the same.
\<close>

lemma freq_text_inj: "inj_on freq_text {hz. 0 < hz}"
proof (rule inj_onI)
  fix x y :: int
  assume "x \<in> {hz. 0 < hz}" "y \<in> {hz. 0 < hz}" and eq: "freq_text x = freq_text y"
  then have pos: "0 < x" "0 < y" by auto
  define fr where "fr z = pad_left 6 (CHR ''0'') (nat_dec (nat (z mod 1000000)))" for z :: int
  have len: "length (fr z) = 6" for z
    using nat_dec_length [of "nat (z mod 1000000)" 5] by (simp add: fr_def pad_left_length nat_less_iff)
  have t: "\<exists>g k. freq_text z = nat_dec (nat (z div 1000000)) @ CHR ''.'' # g @ '' MHz'' \<and>
    fr z = g @ replicate k (CHR ''0'')" if "0 < z" for z
    using freq_trim_shape [OF nat_dec_no_dot, of "nat (z div 1000000)" "fr z"] that
    by (auto simp: freq_text_def int_dec_def fr_def)
  from t [OF pos(1)] obtain g j where g: "freq_text x = nat_dec (nat (x div 1000000)) @ CHR ''.'' # g @ '' MHz''"
    "fr x = g @ replicate j (CHR ''0'')" by blast
  from t [OF pos(2)] obtain h k where h: "freq_text y = nat_dec (nat (y div 1000000)) @ CHR ''.'' # h @ '' MHz''"
    "fr y = h @ replicate k (CHR ''0'')" by blast
  from dot_split [of _ "g @ '' MHz''" _ "h @ '' MHz''"] eq g(1) h(1)
  have "nat_dec (nat (x div 1000000)) = nat_dec (nat (y div 1000000))" "g = h"
    using nat_dec_no_dot by (metis append_same_eq)+
  moreover have "j = k" using len [of x] len [of y] g(2) h(2) \<open>g = h\<close> by simp
  ultimately have "nat (x div 1000000) = nat (y div 1000000)" "fr x = fr y" using g(2) h(2) by auto
  moreover have "dec_val (fr z) = nat (z mod 1000000)" for z by (simp add: fr_def dec_val_pad)
  ultimately have "x div 1000000 = y div 1000000" "x mod 1000000 = y mod 1000000"
    using pos by (metis int_nat_eq pos_imp_zdiv_nonneg_iff zero_less_numeral order_less_imp_le,
                  metis int_nat_eq pos_mod_sign zero_less_numeral)
  then show "x = y" by (metis mult_div_mod_eq)
qed
lemma iso_example: "iso 1700000000123 = ''2023-11-14T22:13:20Z''" by code_simp

end
