(* ===== verification/Mjson.thy ===== *)
theory Mjson
  imports Json_Text
begin

text \<open>
  \<open>mjson\<close> of \<open>src/assoc_merge.hpp\<close>: the nested JSON reader for uploaded exports, saved key files and
  saved network merges. The reader's position \<open>i_\<close> is the length of the text consumed, so its state
  is the text that remains; \<open>n\<close> is the length of the whole text, from which an error message takes
  its byte position. The recursion of \<open>value\<close> runs on fuel; \<open>mj_value_fuel\<close> shows that the fuel
  \<open>mj_parse\<close> gives is never exhausted.
\<close>

section \<open>Values\<close>

datatype jval =
    JNull
  | JBool bool
  | JNum dbl
  | JStr string
  | JArr "jval list"
  | JObj "(string \<times> jval) list"

definition v_get :: "jval \<Rightarrow> string \<Rightarrow> jval option" where
  "v_get v k = (case v of JObj o' \<Rightarrow> map_of o' k | _ \<Rightarrow> None)"

definition v_str :: "jval \<Rightarrow> string \<Rightarrow> string" where
  "v_str v k = (case v_get v k of Some (JStr s) \<Rightarrow> s | _ \<Rightarrow> [])"

definition v_num :: "jval \<Rightarrow> string \<Rightarrow> dbl" where
  "v_num v k = (case v_get v k of Some (JNum d) \<Rightarrow> d | _ \<Rightarrow> DFin 0)"

definition v_bool :: "jval \<Rightarrow> string \<Rightarrow> bool" where
  "v_bool v k = (case v_get v k of Some (JBool b) \<Rightarrow> b | _ \<Rightarrow> False)"

section \<open>The parser\<close>

datatype perr = OutOfFuel | Bad string nat

definition utf8 :: "nat \<Rightarrow> string" where
  "utf8 cp =
     (if cp < 0x80 then [chr cp]
      else if cp < 0x800 then [chr (0xc0 + cp div 64), chr (0x80 + cp mod 64)]
      else if cp < 0x10000 then
        [chr (0xe0 + cp div 4096), chr (0x80 + cp div 64 mod 64), chr (0x80 + cp mod 64)]
      else [chr (0xf0 + cp div 262144), chr (0x80 + cp div 4096 mod 64),
            chr (0x80 + cp div 64 mod 64), chr (0x80 + cp mod 64)])"

text \<open>The code point, or the text left where the reader stopped.\<close>

fun hex_run :: "nat \<Rightarrow> nat \<Rightarrow> string \<Rightarrow> string + (nat \<times> string)" where
  "hex_run 0 cp r = Inr (cp, r)"
| "hex_run (Suc k) cp [] = Inl []"
| "hex_run (Suc k) cp (c # r) =
     (case hex_val c of None \<Rightarrow> Inl r | Some d \<Rightarrow> hex_run k (16 * cp + d) r)"

definition hex4 :: "string \<Rightarrow> string + (nat \<times> string)" where
  "hex4 r = (if length r < 4 then Inl r else hex_run 4 0 r)"

definition surrogate :: "nat \<Rightarrow> string \<Rightarrow> nat \<times> string" where
  "surrogate cp r =
     (if 0xd800 \<le> cp \<and> cp < 0xdc00 \<and> 6 \<le> length r \<and> take 2 r = [bslash, CHR ''u''] then
        (case hex4 (drop 2 r) of
           Inr (lo, r') \<Rightarrow>
             if 0xdc00 \<le> lo \<and> lo < 0xe000
             then (0x10000 + (cp - 0xd800) * 1024 + (lo - 0xdc00), r')
             else (cp, r)
         | Inl _ \<Rightarrow> (cp, r))
      else (cp, r))"

definition unesc_char :: "char \<Rightarrow> char" where
  "unesc_char e =
     (if e = CHR ''n'' then CHR 0x0A
      else if e = CHR ''r'' then CHR 0x0D
      else if e = CHR ''t'' then CHR 0x09
      else if e = CHR ''b'' then CHR 0x08
      else if e = CHR ''f'' then CHR 0x0C
      else e)"

lemma hex_run_length: "hex_run k cp r = Inr (a, r') \<Longrightarrow> length r' \<le> length r"
  by (induction k cp r rule: hex_run.induct) (auto split: option.splits)

lemma hex4_length: "hex4 r = Inr (a, r') \<Longrightarrow> length r' \<le> length r"
  by (auto simp: hex4_def dest: hex_run_length split: if_splits)

lemma surrogate_length: "surrogate cp r = (a, r') \<Longrightarrow> length r' \<le> length r"
  by (auto simp: surrogate_def dest!: hex4_length split: if_splits sum.splits)

lemma body_step_length:
  "hex4 r = Inr (a, r') \<Longrightarrow> (x, r'') = surrogate a r' \<Longrightarrow> length r'' < Suc (Suc (length r))"
  using hex4_length [of r a r'] surrogate_length [of a r' x r''] by simp

function mj_body :: "nat \<Rightarrow> string \<Rightarrow> string \<Rightarrow> perr + (string \<times> string)" where
  "mj_body n acc [] = Inl (Bad ''unterminated string'' n)"
| "mj_body n acc (c # r) =
     (if c = dq then Inr (acc, r)
      else if c \<noteq> bslash then mj_body n (acc @ [c]) r
      else case r of
          [] \<Rightarrow> Inl (Bad ''bad escape'' n)
        | e # r1 \<Rightarrow>
            if e \<noteq> CHR ''u'' then mj_body n (acc @ [unesc_char e]) r1
            else (case hex4 r1 of
                Inl q \<Rightarrow> Inl (Bad (''bad '' @ [bslash] @ ''u escape'') (n - length q))
              | Inr (cp, r2) \<Rightarrow>
                  (case surrogate cp r2 of (cp', r3) \<Rightarrow> mj_body n (acc @ utf8 cp') r3)))"
  by pat_completeness auto
termination
  by (relation "measure (\<lambda>(n, acc, r). length r)") (auto dest: body_step_length)

declare mj_body.simps(2) [simp del]

definition mj_str :: "nat \<Rightarrow> string \<Rightarrow> perr + (string \<times> string)" where
  "mj_str n r =
     (if r = [] \<or> hd r \<noteq> dq then Inl (Bad ''expected string'' (n - length r))
      else mj_body n [] (tl r))"

text \<open>
  The parts of \<open>value\<close> that do not recurse: a scalar, a member's key with its colon, and what may
  follow an element (a comma: \<open>True\<close>; the closing bracket: \<open>False\<close>).
\<close>

definition mj_scalar :: "nat \<Rightarrow> string \<Rightarrow> perr + (jval \<times> string)" where
  "mj_scalar n r =
     (if r \<noteq> [] \<and> hd r = dq then (case mj_str n r of Inl e \<Rightarrow> Inl e | Inr (s, u) \<Rightarrow> Inr (JStr s, u))
      else if take 4 r = ''true'' then Inr (JBool True, drop 4 r)
      else if take 5 r = ''false'' then Inr (JBool False, drop 5 r)
      else if take 4 r = ''null'' then Inr (JNull, drop 4 r)
      else (case strtod r of
          None \<Rightarrow> Inl (Bad ''unexpected character'' (n - length r))
        | Some (d, w) \<Rightarrow> Inr (JNum d, drop w r)))"

definition mj_key :: "nat \<Rightarrow> string \<Rightarrow> perr + (string \<times> string)" where
  "mj_key n r =
     (case mj_str n (skip_ws r) of
        Inl e \<Rightarrow> Inl e
      | Inr (key, r1) \<Rightarrow>
          (let r2 = skip_ws r1
           in if r2 = [] \<or> hd r2 \<noteq> CHR '':''
              then Inl (Bad (''expected '' @ [CHR 0x27] @ '':'' @ [CHR 0x27]) (n - length r2))
              else Inr (key, tl r2)))"

definition mj_sep :: "nat \<Rightarrow> char \<Rightarrow> string \<Rightarrow> perr + (bool \<times> string)" where
  "mj_sep n close r =
     (let r4 = skip_ws r
      in if r4 \<noteq> [] \<and> hd r4 = CHR '','' then Inr (True, tl r4)
         else if r4 \<noteq> [] \<and> hd r4 = close then Inr (False, tl r4)
         else Inl (Bad (''expected '' @ [CHR 0x27] @ '','' @ [CHR 0x27] @ '' or '' @ [CHR 0x27, close, CHR 0x27])
                     (n - length r4)))"

definition mj_measure :: "_ \<Rightarrow> nat" where
  "mj_measure x = (case x of
     Inl (n :: nat, k, d :: nat, r :: string) \<Rightarrow> k
   | Inr (Inl (n :: nat, k, d :: nat, a :: (string \<times> jval) list, r :: string)) \<Rightarrow> k
   | Inr (Inr (n :: nat, k, d :: nat, a :: jval list, r :: string)) \<Rightarrow> k)"

text \<open>
  \<open>mj_members\<close> and \<open>mj_elems\<close> are the two loops of \<open>value\<close>; \<open>acc\<close> is what they have read so far.
\<close>

function (sequential) mj_value :: "nat \<Rightarrow> nat \<Rightarrow> nat \<Rightarrow> string \<Rightarrow> perr + (jval \<times> string)"
and mj_members :: "nat \<Rightarrow> nat \<Rightarrow> nat \<Rightarrow> (string \<times> jval) list \<Rightarrow> string \<Rightarrow> perr + (jval \<times> string)"
and mj_elems :: "nat \<Rightarrow> nat \<Rightarrow> nat \<Rightarrow> jval list \<Rightarrow> string \<Rightarrow> perr + (jval \<times> string)" where
  "mj_value n 0 depth r = Inl OutOfFuel"
| "mj_value n (Suc k) depth r =
     (if 64 < depth then Inl (Bad ''nested too deeply'' (n - length r))
      else case skip_ws r of
          [] \<Rightarrow> Inl (Bad ''unexpected end'' n)
        | c # t \<Rightarrow>
            if c = CHR ''{'' then
              (case skip_ws t of
                 [] \<Rightarrow> mj_members n k depth [] []
               | d # u \<Rightarrow> if d = CHR ''}'' then Inr (JObj [], u) else mj_members n k depth [] (d # u))
            else if c = CHR ''['' then
              (case skip_ws t of
                 [] \<Rightarrow> mj_elems n k depth [] []
               | d # u \<Rightarrow> if d = CHR '']'' then Inr (JArr [], u) else mj_elems n k depth [] (d # u))
            else mj_scalar n (c # t))"
| "mj_members n 0 depth acc r = Inl OutOfFuel"
| "mj_members n (Suc k) depth acc r =
     (case mj_key n r of
        Inl e \<Rightarrow> Inl e
      | Inr (key, r2) \<Rightarrow>
          (case mj_value n k (Suc depth) r2 of
             Inl e \<Rightarrow> Inl e
           | Inr (v, r3) \<Rightarrow>
               (case mj_sep n (CHR ''}'') r3 of
                  Inl e \<Rightarrow> Inl e
                | Inr (again, r5) \<Rightarrow>
                    if again then mj_members n k depth (acc @ [(key, v)]) r5
                    else Inr (JObj (acc @ [(key, v)]), r5))))"
| "mj_elems n 0 depth acc r = Inl OutOfFuel"
| "mj_elems n (Suc k) depth acc r =
     (case mj_value n k (Suc depth) r of
        Inl e \<Rightarrow> Inl e
      | Inr (v, r3) \<Rightarrow>
          (case mj_sep n (CHR '']'') r3 of
             Inl e \<Rightarrow> Inl e
           | Inr (again, r5) \<Rightarrow>
               if again then mj_elems n k depth (acc @ [v]) r5 else Inr (JArr (acc @ [v]), r5)))"
  by pat_completeness auto

termination
  by (relation "measure mj_measure") (simp_all add: mj_measure_def)

declare mj_value.simps(2) [simp del] mj_members.simps(2) [simp del] mj_elems.simps(2) [simp del]

definition err_text :: "string \<Rightarrow> nat \<Rightarrow> string" where
  "err_text m i = m @ '' at byte '' @ nat_dec i"

definition mj_fuel :: "string \<Rightarrow> nat" where
  "mj_fuel s = 2 * length s + 1"

definition mj_parse :: "string \<Rightarrow> string + jval" where
  "mj_parse s =
     (case mj_value (length s) (mj_fuel s) 0 s of
        Inl OutOfFuel \<Rightarrow> Inl ''out of fuel''
      | Inl (Bad m i) \<Rightarrow> Inl (err_text m i)
      | Inr (v, r) \<Rightarrow>
          (let r' = skip_ws r
           in if r' \<noteq> [] then Inl (err_text ''trailing data after JSON'' (length s - length r')) else Inr v))"

section \<open>Every step consumes text, so the fuel suffices\<close>

lemma mant_part_pos: "mant_part p s = (a, b, w) \<Longrightarrow> a @ b \<noteq> [] \<Longrightarrow> 0 < w"
  by (auto simp: mant_part_def Let_def split: list.splits if_splits)

lemma strtod_abs_pos: "strtod_abs s = Some (d, w) \<Longrightarrow> 0 < w"
  by (auto simp: strtod_abs_def strtod_dec_def dec_exact_def strtod_hex_def Let_def
      dest: mant_part_pos split: if_splits option.splits prod.splits)

lemma strtod_pos: "strtod s = Some (d, w) \<Longrightarrow> 0 < w"
  by (auto simp: strtod_def Let_def dest: strtod_abs_pos split: if_splits)

lemma mj_body_length: "mj_body n acc r = Inr (s, r') \<Longrightarrow> length r' < length r"
proof (induction n acc r rule: mj_body.induct)
  case (2 n acc c r)
  from 2(4) show ?case
    using 2(1,2) 2(3) body_step_length
    by (fastforce simp: mj_body.simps(2) split: if_splits list.splits sum.splits prod.splits)
qed simp

lemma mj_str_length: "mj_str n r = Inr (s, r') \<Longrightarrow> length r' < length r"
  by (cases r) (auto simp: mj_str_def dest: mj_body_length split: if_splits)

lemma mj_scalar_length: "r \<noteq> [] \<Longrightarrow> mj_scalar n r = Inr (v, r') \<Longrightarrow> length r' < length r"
  by (cases r) (auto simp: mj_scalar_def dest: mj_str_length strtod_pos split: if_splits sum.splits option.splits)

lemma mj_key_length: "mj_key n r = Inr (k, r') \<Longrightarrow> length r' < length r"
proof -
  assume "mj_key n r = Inr (k, r')"
  then obtain r1 where r1: "mj_str n (skip_ws r) = Inr (k, r1)" "r' = tl (skip_ws r1)"
    by (auto simp: mj_key_def Let_def split: if_splits sum.splits)
  with mj_str_length [OF r1(1)] skip_ws_length [of r] skip_ws_length [of r1] show ?thesis by auto
qed

lemma mj_sep_length: "mj_sep n c r = Inr (b, r') \<Longrightarrow> length r' < length r"
  using skip_ws_length [of r]
  by (cases "skip_ws r") (auto simp: mj_sep_def Let_def split: if_splits)

lemmas mj_lengths = mj_key_length mj_sep_length

lemma skip_ws_Cons_length: "skip_ws r = c # t \<Longrightarrow> length t < length r"
  using skip_ws_length [of r] by simp

lemma mj_value_length:
  "mj_value n k d r = Inr (v, r') \<Longrightarrow> length r' < length r"
  "mj_members n k d accm r = Inr (v, r') \<Longrightarrow> length r' < length r"
  "mj_elems n k d acce r = Inr (v, r') \<Longrightarrow> length r' < length r"
proof (induction n k d r and n k d accm r and n k d acce r arbitrary: v r' and v r' and v r'
    rule: mj_value_mj_members_mj_elems.induct)
  case (2 n k depth r)
  show ?case
  proof (cases "skip_ws r")
    case Nil
    with 2 show ?thesis by (auto simp: mj_value.simps split: if_splits)
  next
    case (Cons c t)
    note lt = skip_ws_Cons_length [OF Cons]
    note ws = skip_ws_length [of t]
    show ?thesis
    proof (cases "c = CHR ''{'' \<or> c = CHR ''[''")
      case True
      with 2 Cons lt ws show ?thesis
        by (fastforce simp: mj_value.simps split: if_splits list.splits)
    next
      case False
      with 2 Cons have "mj_scalar n (c # t) = Inr (v, r')" by (auto simp: mj_value.simps split: if_splits)
      from mj_scalar_length [OF _ this] lt show ?thesis by simp
    qed
  qed
next
  case (4 n k depth acc r)
  from 4(3) 4(1,2) show ?case
    by (fastforce simp: mj_members.simps dest: mj_lengths split: if_splits sum.splits)
next
  case (6 n k depth acc r)
  from 6(3) 6(1,2) show ?case
    by (fastforce simp: mj_elems.simps dest: mj_lengths split: if_splits sum.splits)
qed simp_all

lemma mj_body_fuel: "mj_body n acc r \<noteq> Inl OutOfFuel"
proof (induction n acc r rule: mj_body.induct)
  case (2 n acc c r)
  then show ?case
    by (auto simp: mj_body.simps(2) split: list.splits sum.splits prod.splits)
qed simp

lemma mj_str_fuel: "mj_str n r \<noteq> Inl OutOfFuel"
  by (simp add: mj_str_def mj_body_fuel)

lemma mj_scalar_fuel: "mj_scalar n r \<noteq> Inl OutOfFuel"
  by (auto simp: mj_scalar_def mj_str_fuel split: sum.splits option.splits)

lemma mj_key_fuel: "mj_key n r \<noteq> Inl OutOfFuel"
  by (auto simp: mj_key_def mj_str_fuel Let_def split: sum.splits)

lemma mj_sep_fuel: "mj_sep n c r \<noteq> Inl OutOfFuel"
  by (auto simp: mj_sep_def Let_def)

lemmas mj_parts_fuel = mj_scalar_fuel mj_key_fuel mj_sep_fuel

lemma mj_value_fuel:
  "2 * length r < k \<Longrightarrow> mj_value n k d r \<noteq> Inl OutOfFuel"
  "2 * length r + 1 < k \<Longrightarrow> mj_members n k d accm r \<noteq> Inl OutOfFuel"
  "2 * length r + 1 < k \<Longrightarrow> mj_elems n k d acce r \<noteq> Inl OutOfFuel"
proof (induction n k d r and n k d accm r and n k d acce r
    rule: mj_value_mj_members_mj_elems.induct)
  case (2 n k depth r)
  show ?case
  proof (cases "skip_ws r")
    case (Cons c t)
    note lt = skip_ws_Cons_length [OF Cons]
    note ws = skip_ws_length [of t]
    show ?thesis
    proof (cases "skip_ws t")
      case Nil
      with 2 Cons lt show ?thesis by (auto simp: mj_value.simps mj_parts_fuel)
    next
      case c2: (Cons x u)
      with 2 Cons lt ws show ?thesis by (auto simp: mj_value.simps mj_parts_fuel)
    qed
  qed (simp add: mj_value.simps)
next
  case (4 n k depth acc r)
  show ?case
  proof (cases "mj_key n r")
    case (Inl e)
    with mj_key_fuel [of n r] show ?thesis by (simp add: mj_members.simps)
  next
    case (Inr p)
    obtain key r2 where p: "p = (key, r2)" by (cases p)
    note k2 = mj_key_length [OF Inr [unfolded p]]
    have v: "mj_value n k (Suc depth) r2 \<noteq> Inl OutOfFuel"
      using 4(1) [OF Inr p [symmetric]] 4(3) k2 by simp
    have m: "mj_members n k depth (acc @ [(key, w)]) r5 \<noteq> Inl OutOfFuel"
      if "mj_value n k (Suc depth) r2 = Inr (w, r3)" "mj_sep n (CHR ''}'') r3 = Inr (True, r5)" for w r3 r5
      using 4(2) [OF Inr p [symmetric] that(1) refl that(2) refl] 4(3) k2 mj_value_length(1) [OF that(1)] mj_sep_length [OF that(2)]
      by simp
    show ?thesis using v m
      by (auto simp: mj_members.simps Inr p mj_parts_fuel split: sum.splits)
  qed
next
  case (6 n k depth acc r)
  have v: "mj_value n k (Suc depth) r \<noteq> Inl OutOfFuel" using 6(1) 6(3) by simp
  have m: "mj_elems n k depth (acc @ [w]) r5 \<noteq> Inl OutOfFuel"
    if "mj_value n k (Suc depth) r = Inr (w, r3)" "mj_sep n (CHR '']'') r3 = Inr (True, r5)" for w r3 r5
    using 6(2) [OF that(1) refl that(2) refl] 6(3) mj_value_length(1) [OF that(1)] mj_sep_length [OF that(2)]
    by simp
  show ?case using v m by (auto simp: mj_elems.simps mj_parts_fuel split: sum.splits)
qed simp_all

text \<open>
  C37. The reader always ends with an answer: the fuel of \<open>mj_parse\<close> is never exhausted, whatever the
  text, so its result is a value or one of the code's own error messages.
\<close>

lemma mj_parse_terminates: "mj_value (length s) (mj_fuel s) 0 s \<noteq> Inl OutOfFuel"
  using mj_value_fuel(1) [of s "mj_fuel s" "length s" 0] by (simp add: mj_fuel_def)

section \<open>Nesting is bounded\<close>

fun jdepth :: "jval \<Rightarrow> nat" where
  "jdepth (JArr xs) = Suc (fold max (map jdepth xs) 0)"
| "jdepth (JObj ms) = Suc (fold max (map (\<lambda>m. jdepth (snd m)) ms) 0)"
| "jdepth v = 0"

lemma fold_max_snoc: "fold max (xs @ [y]) (0::nat) = max y (fold max xs 0)"
  by simp

lemma mj_scalar_depth: "mj_scalar n r = Inr (v, r') \<Longrightarrow> jdepth v = 0"
  by (auto simp: mj_scalar_def split: if_splits sum.splits option.splits)

lemma mj_value_depth:
  "mj_value n k d r = Inr (v, r') \<Longrightarrow> d + jdepth v \<le> 65"
  "mj_members n k d accm r = Inr (v, r') \<Longrightarrow> d + Suc (fold max (map (\<lambda>m. jdepth (snd m)) accm) 0) \<le> 65
     \<Longrightarrow> d + jdepth v \<le> 65"
  "mj_elems n k d acce r = Inr (v, r') \<Longrightarrow> d + Suc (fold max (map jdepth acce) 0) \<le> 65
     \<Longrightarrow> d + jdepth v \<le> 65"
proof (induction n k d r and n k d accm r and n k d acce r arbitrary: v r' and v r' and v r'
    rule: mj_value_mj_members_mj_elems.induct)
  case (2 n k depth r)
  show ?case
  proof (cases "skip_ws r")
    case (Cons c t)
    show ?thesis
    proof (cases "c = CHR ''{'' \<or> c = CHR ''[''")
      case True
      with 2 Cons show ?thesis
        by (auto simp: mj_value.simps split: if_splits list.splits)
    next
      case False
      with 2 Cons have "mj_scalar n (c # t) = Inr (v, r')" "depth \<le> 64"
        by (auto simp: mj_value.simps split: if_splits)
      then show ?thesis by (simp add: mj_scalar_depth)
    qed
  qed (use 2 in \<open>auto simp: mj_value.simps split: if_splits\<close>)
next
  case (4 n k depth acc r)
  from 4(3) obtain key r2 w r3 b r5 where
    s: "mj_key n r = Inr (key, r2)" "mj_value n k (Suc depth) r2 = Inr (w, r3)"
       "mj_sep n (CHR ''}'') r3 = Inr (b, r5)"
       "(if b then mj_members n k depth (acc @ [(key, w)]) r5 else Inr (JObj (acc @ [(key, w)]), r5)) = Inr (v, r')"
    by (auto simp: mj_members.simps split: sum.splits)
  have w: "Suc depth + jdepth w \<le> 65" by (rule 4(1) [OF s(1) refl s(2)])
  show ?case
  proof (cases b)
    case True
    with 4(2) [OF s(1) refl s(2) refl s(3) refl] s(4) w 4(4) show ?thesis by simp
  qed (use s(4) w 4(4) in auto)
next
  case (6 n k depth acc r)
  from 6(3) obtain w r3 b r5 where
    s: "mj_value n k (Suc depth) r = Inr (w, r3)" "mj_sep n (CHR '']'') r3 = Inr (b, r5)"
       "(if b then mj_elems n k depth (acc @ [w]) r5 else Inr (JArr (acc @ [w]), r5)) = Inr (v, r')"
    by (auto simp: mj_elems.simps split: sum.splits)
  have w: "Suc depth + jdepth w \<le> 65" by (rule 6(1) [OF s(1)])
  show ?case
  proof (cases b)
    case True
    with 6(2) [OF s(1) refl s(2) refl] s(3) w 6(4) show ?thesis by simp
  qed (use s(3) w 6(4) in auto)
qed simp_all

text \<open>
  A value the reader accepts is nested at most 65 levels deep, so a hostile upload cannot make it
  (or the readers of the value) recurse further.
\<close>

lemma mj_parse_depth: "mj_parse s = Inr v \<Longrightarrow> jdepth v \<le> 65"
  by (auto simp: mj_parse_def Let_def dest!: mj_value_depth(1) split: sum.splits perr.splits if_splits)

lemma mj_parse_depth_witness: "jdepth (JArr [JArr [], JBool True]) \<le> 65"
  by (rule mj_parse_depth [of "''[[],true]''"]) code_simp

section \<open>What the serializers write is read back\<close>

text \<open>
  The documents the server writes: objects, arrays, escaped strings, booleans and whole numbers,
  printed without spaces as every serializer of the explorer prints them.
\<close>

datatype jdoc = DNull | DBool bool | DInt int | DStr string | DArr "jdoc list" | DObj "(string \<times> jdoc) list"

fun jd_text :: "jdoc \<Rightarrow> string" where
  "jd_text DNull = ''null''"
| "jd_text (DBool b) = jb b"
| "jd_text (DInt i) = int_dec i"
| "jd_text (DStr s) = jq s"
| "jd_text (DArr xs) = ''['' @ jcommas (map jd_text xs) @ '']''"
| "jd_text (DObj ms) = ''{'' @ jcommas (map (\<lambda>m. jq (fst m) @ '':'' @ jd_text (snd m)) ms) @ ''}''"

fun jd_val :: "jdoc \<Rightarrow> jval" where
  "jd_val DNull = JNull"
| "jd_val (DBool b) = JBool b"
| "jd_val (DInt i) = JNum (DFin (of_int i))"
| "jd_val (DStr s) = JStr s"
| "jd_val (DArr xs) = JArr (map jd_val xs)"
| "jd_val (DObj ms) = JObj (map (\<lambda>m. (fst m, jd_val (snd m))) ms)"

text \<open>\<open>jd_fits (65 - depth)\<close>: the document may stand at that depth.\<close>

fun jd_fits :: "nat \<Rightarrow> jdoc \<Rightarrow> bool" where
  "jd_fits 0 x = False"
| "jd_fits (Suc d) (DInt i) = (\<bar>i\<bar> \<le> 2 ^ 53)"
| "jd_fits (Suc d) (DArr xs) = list_all (jd_fits d) xs"
| "jd_fits (Suc d) (DObj ms) = list_all (\<lambda>m. jd_fits d (snd m)) ms"
| "jd_fits (Suc d) x = True"

lemma hex_run_numeral: "hex_run (numeral k) cp (c # r) =
    (case hex_val c of None \<Rightarrow> Inl r | Some d \<Rightarrow> hex_run (pred_numeral k) (16 * cp + d) r)"
  by (simp add: numeral_eq_Suc)

lemma hex_val_zero: "hex_val (CHR ''0'') = Some 0"
  by code_simp

lemma hex4_u_escape: "hex4 (CHR ''0'' # CHR ''0'' # hex_digit (byte c div 16) # hex_digit (byte c mod 16) # r) = Inr (byte c, r)"
proof -
  have h: "h < 16 \<Longrightarrow> l < 16 \<Longrightarrow> hex4 (CHR ''0'' # CHR ''0'' # hex_digit h # hex_digit l # r) = Inr (16 * h + l, r)"
    for h l by (simp add: hex4_def hex_run_numeral hex_val_zero hex_val_hex_digit)
  have "byte c div 16 < 16" using byte_less [of c] by (intro less_mult_imp_div_less) simp
  with h [of "byte c div 16" "byte c mod 16"] show ?thesis by simp
qed

interpretation mj_codec: text_codec jesc_char "mj_body n" "\<lambda>acc r. Inr (acc, r)" dq "\<lambda>_. True"
proof unfold_locales
  fix c acc r
  have u: "byte c < 0x20 \<Longrightarrow> mj_body n acc (u_escape c @ r) = mj_body n (acc @ [c]) r"
    by (simp add: u_escape_def mj_body.simps(2) hex4_u_escape surrogate_def utf8_def)
  show "mj_body n acc (jesc_char c @ r) = mj_body n (acc @ [c]) r"
    using u by (auto simp: jesc_char_def mj_body.simps(2) unesc_char_def)
qed (simp add: mj_body.simps(2))

lemma mj_str_jq: "mj_str n (jq s @ r) = Inr (s, r)"
  using mj_codec.read_encoded [of s n "[]" r] by (simp add: mj_str_def jq_def)

lemma skip_ws_hd: "\<not> is_space c \<Longrightarrow> skip_ws (c # t) = c # t"
  by (simp add: skip_ws_def)

lemma mj_key_text: "mj_key n (jq k @ CHR '':'' # r) = Inr (k, r)"
proof -
  have "skip_ws (jq k @ CHR '':'' # r) = jq k @ CHR '':'' # r"
    by (simp add: jq_def skip_ws_hd is_space_def)
  then show ?thesis by (simp add: mj_key_def mj_str_jq skip_ws_hd is_space_def)
qed

lemma mj_sep_text:
  "mj_sep n cl (CHR '','' # r) = Inr (True, r)"
  "cl = CHR '']'' \<or> cl = CHR ''}'' \<Longrightarrow> mj_sep n cl (cl # r) = Inr (False, r)"
  by (auto simp: mj_sep_def skip_ws_hd is_space_def)

lemma int_dec_hd_cases: "is_digit (hd (int_dec i @ r)) \<or> hd (int_dec i @ r) = CHR ''-''"
  using nat_dec_hd_digit [of "nat i" r] by (auto simp: int_dec_def)

lemma mj_scalar_int:
  assumes "num_stop r" "\<bar>i\<bar> \<le> 2 ^ 53"
  shows "mj_scalar n (int_dec i @ r) = Inr (JNum (DFin (of_int i)), r)"
proof -
  obtain c t where ct: "int_dec i @ r = c # t" by (cases "int_dec i @ r") auto
  have "is_digit c \<or> c = CHR ''-''" using int_dec_hd_cases [of i r] by (simp add: ct)
  then have "c \<noteq> dq" "c \<noteq> CHR ''t''" "c \<noteq> CHR ''f''" "c \<noteq> CHR ''n''" by (auto simp: is_digit_def)
  moreover have "drop (length (int_dec i)) (c # t) = r" by (simp flip: ct)
  ultimately show ?thesis using strtod_int [OF assms]
    by (simp add: mj_scalar_def ct)
qed

lemma jd_text_hd: "jd_text d \<noteq> [] \<and> \<not> is_space (hd (jd_text d)) \<and> hd (jd_text d) \<noteq> CHR ''}'' \<and> hd (jd_text d) \<noteq> CHR '']''"
proof (cases d)
  case (DInt i)
  with int_dec_hd_cases [of i "[]"] show ?thesis by (auto simp: is_digit_def is_space_def)
qed (auto simp: jb_def jq_def is_space_def)

definition reads :: "jdoc \<Rightarrow> bool" where
  "reads x \<longleftrightarrow> (\<forall>n k depth r. jd_fits (65 - depth) x \<longrightarrow> num_stop r \<longrightarrow> 2 * length (jd_text x) < k \<longrightarrow>
     mj_value n k depth (jd_text x @ r) = Inr (jd_val x, r))"

lemma readsD: "reads x \<Longrightarrow> jd_fits (65 - depth) x \<Longrightarrow> num_stop r \<Longrightarrow> 2 * length (jd_text x) < k \<Longrightarrow>
     mj_value n k depth (jd_text x @ r) = Inr (jd_val x, r)"
  by (simp add: reads_def)

lemma num_stop_simps: "num_stop (CHR '','' # r)" "num_stop (CHR '']'' # r)" "num_stop (CHR ''}'' # r)"
  by (simp_all add: num_stop_def)

lemma mj_elems_text:
  assumes "\<forall>x \<in> set (x # xs). reads x \<and> jd_fits (65 - Suc depth) x"
    "2 * length (jcommas (map jd_text (x # xs))) + 1 < k"
  shows "mj_elems n k depth acc (jcommas (map jd_text (x # xs)) @ CHR '']'' # r) =
    Inr (JArr (acc @ map jd_val (x # xs)), r)"
  using assms
proof (induction xs arbitrary: x k acc)
  case Nil
  then obtain k' where k: "k = Suc k'" "2 * length (jd_text x) < k'" by (cases k) auto
  have "mj_value n k' (Suc depth) (jd_text x @ CHR '']'' # r) = Inr (jd_val x, CHR '']'' # r)"
    using Nil k by (intro readsD) (auto simp: num_stop_simps)
  then show ?case by (simp add: k mj_elems.simps mj_sep_text)
next
  case (Cons y ys)
  let ?t = "jcommas (map jd_text (y # ys)) @ CHR '']'' # r"
  from Cons.prems(2) obtain k' where k: "k = Suc k'" "2 * length (jd_text x) < k'"
    "2 * length (jcommas (map jd_text (y # ys))) + 1 < k'" by (cases k) auto
  have "mj_value n k' (Suc depth) (jd_text x @ CHR '','' # ?t) = Inr (jd_val x, CHR '','' # ?t)"
    using Cons.prems k by (intro readsD) (auto simp: num_stop_simps)
  with Cons.IH [of y k' "acc @ [jd_val x]"] Cons.prems(1) k
  show ?case by (simp add: mj_elems.simps(2) mj_sep_text)
qed

lemma mj_members_text:
  assumes "\<forall>m \<in> set (m # ms). reads (snd m) \<and> jd_fits (65 - Suc depth) (snd m)"
    "2 * length (jcommas (map (\<lambda>m. jq (fst m) @ '':'' @ jd_text (snd m)) (m # ms))) + 1 < k"
  shows "mj_members n k depth acc (jcommas (map (\<lambda>m. jq (fst m) @ '':'' @ jd_text (snd m)) (m # ms)) @ CHR ''}'' # r) =
    Inr (JObj (acc @ map (\<lambda>m. (fst m, jd_val (snd m))) (m # ms)), r)"
  using assms
proof (induction ms arbitrary: m k acc)
  case Nil
  then obtain k' where k: "k = Suc k'" "2 * length (jd_text (snd m)) < k'" by (cases k) auto
  have "mj_value n k' (Suc depth) (jd_text (snd m) @ CHR ''}'' # r) = Inr (jd_val (snd m), CHR ''}'' # r)"
    using Nil k by (intro readsD) (auto simp: num_stop_simps)
  then show ?case by (simp add: k mj_members.simps mj_sep_text mj_key_text)
next
  case (Cons y ys)
  let ?t = "jcommas (map (\<lambda>m. jq (fst m) @ '':'' @ jd_text (snd m)) (y # ys)) @ CHR ''}'' # r"
  from Cons.prems(2) obtain k' where k: "k = Suc k'" "2 * length (jd_text (snd m)) < k'"
    "2 * length (jcommas (map (\<lambda>m. jq (fst m) @ '':'' @ jd_text (snd m)) (y # ys))) + 1 < k'" by (cases k) auto
  have "mj_value n k' (Suc depth) (jd_text (snd m) @ CHR '','' # ?t) = Inr (jd_val (snd m), CHR '','' # ?t)"
    using Cons.prems k by (intro readsD) (auto simp: num_stop_simps)
  with Cons.IH [of y k' "acc @ [(fst m, jd_val (snd m))]"] Cons.prems(1) k
  show ?case by (simp add: mj_members.simps(2) mj_sep_text mj_key_text)
qed

lemma mj_scalar_reads:
  assumes "jd_fits (65 - depth) x" "0 < k" "mj_scalar n (jd_text x @ r) = Inr (jd_val x, r)"
    "hd (jd_text x) \<noteq> CHR ''{''" "hd (jd_text x) \<noteq> CHR ''[''"
  shows "mj_value n k depth (jd_text x @ r) = Inr (jd_val x, r)"
proof -
  obtain c t where ct: "jd_text x @ r = c # t" "c = hd (jd_text x)" "\<not> is_space c"
    using jd_text_hd [of x] by (cases "jd_text x") auto
  have "depth \<le> 64" using assms(1) by (cases "65 - depth") auto
  with assms ct show ?thesis by (cases k) (auto simp: mj_value.simps skip_ws_hd)
qed

lemma levels: "65 - depth = Suc d \<Longrightarrow> 65 - Suc depth = d \<and> depth \<le> 64"
  by arith

lemma jd_fits_container:
  "jd_fits (65 - depth) (DArr xs) \<Longrightarrow> depth \<le> 64 \<and> (\<forall>x \<in> set xs. jd_fits (65 - Suc depth) x)"
  "jd_fits (65 - depth) (DObj ms) \<Longrightarrow> depth \<le> 64 \<and> (\<forall>m \<in> set ms. jd_fits (65 - Suc depth) (snd m))"
  by (cases "65 - depth"; simp only: levels list_all_iff jd_fits.simps)+

lemma jcommas_hd: "x \<noteq> [] \<Longrightarrow> \<exists>t. jcommas (x # xs) @ r = hd x # t"
  by (cases xs) (auto simp: neq_Nil_conv)

lemma reads_all: "reads x"
proof (induction x)
  case (DArr xs)
  show ?case unfolding reads_def
  proof (intro allI impI)
    fix n k depth r
    assume h: "jd_fits (65 - depth) (DArr xs)" "num_stop r" "2 * length (jd_text (DArr xs)) < k"
    from jd_fits_container(1) [OF h(1)] have d: "depth \<le> 64" "\<forall>x \<in> set xs. jd_fits (65 - Suc depth) x" by auto
    from h(3) obtain k' where k: "k = Suc k'" by (cases k) auto
    show "mj_value n k depth (jd_text (DArr xs) @ r) = Inr (jd_val (DArr xs), r)"
    proof (cases xs)
      case Nil
      with d k show ?thesis by (simp add: mj_value.simps skip_ws_hd is_space_def)
    next
      case (Cons y ys)
      let ?t = "jcommas (map jd_text (y # ys)) @ CHR '']'' # r"
      obtain t where t: "?t = hd (jd_text y) # t"
        using jcommas_hd [of "jd_text y" "map jd_text ys" "CHR '']'' # r"] jd_text_hd [of y] by auto
      have "mj_elems n k' depth [] ?t = Inr (JArr ([] @ map jd_val (y # ys)), r)"
        using DArr d h(3) k Cons by (intro mj_elems_text) auto
      with t d(1) k Cons jd_text_hd [of y] show ?thesis
        by (simp add: mj_value.simps skip_ws_hd is_space_def)
    qed
  qed
next
  case (DObj ms)
  show ?case unfolding reads_def
  proof (intro allI impI)
    fix n k depth r
    assume h: "jd_fits (65 - depth) (DObj ms)" "num_stop r" "2 * length (jd_text (DObj ms)) < k"
    from jd_fits_container(2) [OF h(1)] have d: "depth \<le> 64" "\<forall>m \<in> set ms. jd_fits (65 - Suc depth) (snd m)" by auto
    from h(3) obtain k' where k: "k = Suc k'" by (cases k) auto
    show "mj_value n k depth (jd_text (DObj ms) @ r) = Inr (jd_val (DObj ms), r)"
    proof (cases ms)
      case Nil
      with d k show ?thesis by (simp add: mj_value.simps skip_ws_hd is_space_def)
    next
      case (Cons y ys)
      let ?f = "\<lambda>m. jq (fst m) @ '':'' @ jd_text (snd m)"
      let ?t = "jcommas (map ?f (y # ys)) @ CHR ''}'' # r"
      obtain t where t: "?t = dq # t"
        using jcommas_hd [of "?f y" "map ?f ys" "CHR ''}'' # r"] by (auto simp: jq_def)
      have "\<forall>m \<in> set (y # ys). reads (snd m)" using DObj Cons by (metis prod.collapse snds.intros)
      then have "mj_members n k' depth [] ?t = Inr (JObj ([] @ map (\<lambda>m. (fst m, jd_val (snd m))) (y # ys)), r)"
        using d h(3) k Cons by (intro mj_members_text) auto
      with t d(1) k Cons show ?thesis
        by (simp add: mj_value.simps skip_ws_hd is_space_def)
    qed
  qed
next
  case (DInt i)
  show ?case unfolding reads_def
  proof (intro allI impI)
    fix n k depth r
    assume h: "jd_fits (65 - depth) (DInt i)" "num_stop r" "2 * length (jd_text (DInt i)) < k"
    then have "\<bar>i\<bar> \<le> 2 ^ 53" by (cases "65 - depth") auto
    with h int_dec_hd_cases [of i "[]"] show "mj_value n k depth (jd_text (DInt i) @ r) = Inr (jd_val (DInt i), r)"
      by (intro mj_scalar_reads) (auto simp: mj_scalar_int is_digit_def)
  qed
next
  case (DStr s)
  show ?case unfolding reads_def
    by (intro allI impI mj_scalar_reads) (auto simp: mj_scalar_def mj_str_jq jq_def mj_str_jq [unfolded jq_def, simplified])
next
  case DNull
  show ?case unfolding reads_def
    by (intro allI impI mj_scalar_reads) (auto simp: mj_scalar_def)
next
  case (DBool b)
  show ?case unfolding reads_def
    by (intro allI impI mj_scalar_reads) (auto simp: mj_scalar_def jb_def)
qed

lemma reads_doc:
  assumes "jd_fits 65 d"
  shows "mj_parse (jd_text d) = Inr (jd_val d)"
proof -
  have "mj_value (length (jd_text d)) (mj_fuel (jd_text d)) 0 (jd_text d @ []) = Inr (jd_val d, [])"
    using assms by (intro readsD reads_all) (auto simp: num_stop_def mj_fuel_def)
  then show ?thesis by (simp add: mj_parse_def skip_ws_def)
qed

text \<open>
  C1. Whatever document the server writes, with any bytes in its strings and whole numbers within 53
  bits, the reader accepts and reads back exactly, as long as it is nested no deeper than the reader
  allows.
\<close>

lemma mj_round_trip:
  assumes "jd_fits 65 d"
  shows "mj_parse (jd_text d) = Inr (jd_val d)"
  using assms by (rule reads_doc)

lemma mj_round_trip_witness:
  "mj_parse (jd_text (DObj [(''a'', DArr [DInt (-7), DStr [dq, CHR 0x0A]]), (''b'', DBool True)])) =
   Inr (JObj [(''a'', JArr [JNum (DFin (-7)), JStr [dq, CHR 0x0A]]), (''b'', JBool True)])"
  using mj_round_trip [of "DObj [(''a'', DArr [DInt (-7), DStr [dq, CHR 0x0A]]), (''b'', DBool True)]"]
  by (simp add: eval_nat_numeral)

lemma mj_error_example: "mj_parse (jt ''{`a` 1}'') = Inl (''expected '' @ [CHR 0x27] @ '':'' @ [CHR 0x27] @ '' at byte 5'')"
 by code_simp

end
