(* ===== verification/Keyring.thy ===== *)
theory Keyring
  imports Mjson
begin

text \<open>
  The encryption keyring of \<open>src/assoc_keys.hpp\<close>: key ids and values in their normal form, the ring
  itself (protocol, network, key id), what is saved, what the browser is told, and the key lists for
  the decoder. \<open>ring_ok\<close> is the invariant: every id and value is in normal form and no protocol or
  network is left empty.
\<close>

section \<open>The ring and its operations\<close>

record key_entry =
  ke_alg :: string
  ke_value :: string
  ke_added :: int

type_synonym net_keys = "(string, key_entry) omap"
type_synonym key_ring = "(string, (string, net_keys) omap) omap"

definition strip_0x :: "string \<Rightarrow> string" where
  "strip_0x s =
     (if 2 < length s \<and> s ! 0 = CHR ''0'' \<and> (s ! 1 = CHR ''x'' \<or> s ! 1 = CHR ''X'') then drop 2 s else s)"

definition key_norm_id :: "string \<Rightarrow> string" where
  "key_norm_id s =
     (let t = strip_0x s
      in if \<not> list_all is_xdigit t \<or> t = [] then []
         else pad_left 2 (CHR ''0'') (skip_char (CHR ''0'') (map to_upper t)))"

definition key_norm_value :: "string \<Rightarrow> string" where
  "key_norm_value s =
     (let t = filter (\<lambda>c. \<not> is_space c) s; up = map to_upper t
      in if \<not> list_all is_xdigit t then []
         else if up = [] \<or> length up mod 2 \<noteq> 0 \<or> 64 < length up then []
         else up)"

definition ring_put :: "string \<Rightarrow> string \<Rightarrow> string \<Rightarrow> key_entry \<Rightarrow> key_ring \<Rightarrow> key_ring" where
  "ring_put fam net kid e r =
     (let f = om_at [] r fam; n = om_at [] f net
      in om_put fam (om_put net (om_put kid e n) f) r)"

definition keyring_set :: "string \<Rightarrow> string \<Rightarrow> string \<Rightarrow> string \<Rightarrow> string \<Rightarrow> int \<Rightarrow> key_ring \<Rightarrow> key_ring \<times> bool" where
  "keyring_set fam net kid alg v now r =
     (if fam = [] \<or> net = [] then (r, False)
      else let i = key_norm_id kid; w = key_norm_value v
        in if i = [] \<or> w = [] then (r, False)
           else (ring_put fam net i \<lparr>ke_alg = key_norm_id alg, ke_value = w, ke_added = now\<rparr> r, True))"

definition ring_get :: "key_ring \<Rightarrow> string \<Rightarrow> string \<Rightarrow> string \<Rightarrow> key_entry option" where
  "ring_get r fam net kid =
     (case om_get r fam of
        None \<Rightarrow> None
      | Some f \<Rightarrow> (case om_get f net of None \<Rightarrow> None | Some n \<Rightarrow> om_get n kid))"

definition ring_del :: "string \<Rightarrow> string \<Rightarrow> string \<Rightarrow> key_ring \<Rightarrow> key_ring \<times> bool" where
  "ring_del fam net i r =
     (case om_get r fam of
        None \<Rightarrow> (r, False)
      | Some f \<Rightarrow>
          (case om_get f net of
             None \<Rightarrow> (r, False)
           | Some n \<Rightarrow>
               if \<not> om_has n i then (r, False)
               else let n' = om_del i n;
                        f' = (if n' = [] then om_del net f else om_put net n' f)
                    in (if f' = [] then om_del fam r else om_put fam f' r, True)))"

definition keyring_remove :: "string \<Rightarrow> string \<Rightarrow> string \<Rightarrow> key_ring \<Rightarrow> key_ring \<times> bool" where
  "keyring_remove fam net kid r = ring_del fam net (key_norm_id kid) r"

definition keyring_has :: "string \<Rightarrow> string \<Rightarrow> string \<Rightarrow> key_ring \<Rightarrow> bool" where
  "keyring_has fam net kid r \<longleftrightarrow>
     (case om_get r fam of
        None \<Rightarrow> False
      | Some f \<Rightarrow> (case om_get f net of None \<Rightarrow> False | Some n \<Rightarrow> om_has n (key_norm_id kid)))"

definition jmap :: "('a \<Rightarrow> string) \<Rightarrow> (string, 'a) omap \<Rightarrow> string" where
  "jmap f m = ''{'' @ jcommas (map (\<lambda>(k, v). jq k @ '':'' @ f v) m) @ ''}''"

definition key_entry_json :: "key_entry \<Rightarrow> string" where
  "key_entry_json e =
     jt ''{`alg`:'' @ jq (ke_alg e) @ jt '',`key`:'' @ jq (ke_value e) @ jt '',`added`:'' @ int_dec (ke_added e) @ ''}''"

definition keyring_json :: "key_ring \<Rightarrow> string" where
  "keyring_json r = jmap (jmap (jmap key_entry_json)) r"

definition keyring_loaded_json :: "key_ring \<Rightarrow> string" where
  "keyring_loaded_json r = jmap (jmap (jmap (\<lambda>e. jq (ke_alg e)))) r"

definition keyring_parse_entry :: "string \<Rightarrow> string \<Rightarrow> key_ring \<Rightarrow> string \<times> jval \<Rightarrow> key_ring" where
  "keyring_parse_entry fam net r ik =
     (case snd ik of
        JObj ms \<Rightarrow>
          (let i = key_norm_id (fst ik); v = key_norm_value (v_str (snd ik) ''key'')
           in if i = [] \<or> v = [] then r
              else ring_put fam net i
                \<lparr>ke_alg = key_norm_id (v_str (snd ik) ''alg''), ke_value = v,
                 ke_added = (case v_get (snd ik) ''added'' of Some (JNum d) \<Rightarrow> to_i64 d | _ \<Rightarrow> 0)\<rparr> r)
      | _ \<Rightarrow> r)"

definition keyring_parse_net :: "string \<Rightarrow> key_ring \<Rightarrow> string \<times> jval \<Rightarrow> key_ring" where
  "keyring_parse_net fam r nk =
     (case snd nk of JObj ms \<Rightarrow> foldl (keyring_parse_entry fam (fst nk)) r ms | _ \<Rightarrow> r)"

definition keyring_parse_fam :: "key_ring \<Rightarrow> string \<times> jval \<Rightarrow> key_ring" where
  "keyring_parse_fam r fk =
     (case snd fk of JObj ms \<Rightarrow> foldl (keyring_parse_net (fst fk)) r ms | _ \<Rightarrow> r)"

definition keyring_parse :: "jval \<Rightarrow> key_ring" where
  "keyring_parse doc =
     (case v_get doc ''keys'' of Some (JObj ms) \<Rightarrow> foldl keyring_parse_fam [] ms | _ \<Rightarrow> [])"

text \<open>The 64-bit columns of a value.\<close>

fun key_cols :: "string \<Rightarrow> string list" where
  "key_cols v = (if v = [] then [] else take 16 v # key_cols (drop 16 v))"

declare key_cols.simps [simp del]

definition key_row :: "string \<Rightarrow> string \<Rightarrow> string" where
  "key_row kid v = kid @ concat (map (\<lambda>c. '','' @ c) (key_cols v)) @ [CHR 0x0A]"

definition key_list_header :: string where
  "key_list_header = ''KEY ID,KEY'' @ [CHR 0x0A]"

definition keyring_csv :: "key_ring \<Rightarrow> string \<Rightarrow> string \<Rightarrow> string" where
  "keyring_csv r fam net =
     key_list_header @
     (case om_get r fam of
        None \<Rightarrow> []
      | Some f \<Rightarrow>
          (case om_get f net of
             None \<Rightarrow> []
           | Some n \<Rightarrow> concat (map (\<lambda>(k, e). key_row k (ke_value e)) n)))"

text \<open>All entries of the ring in map order, and the ones whose id was not seen before.\<close>

definition ring_entries :: "key_ring \<Rightarrow> string \<Rightarrow> (string \<times> key_entry) list" where
  "ring_entries r fam = concat (map (\<lambda>(fk, f). if fam \<noteq> [] \<and> fk \<noteq> fam then [] else concat (map snd f)) r)"

fun first_rows :: "string oset \<Rightarrow> (string \<times> key_entry) list \<Rightarrow> (string \<times> key_entry) list" where
  "first_rows seen [] = []"
| "first_rows seen ((k, e) # es) =
     (if k \<in> set seen then first_rows seen es else (k, e) # first_rows (os_put k seen) es)"

definition keyring_csv_family :: "key_ring \<Rightarrow> string \<Rightarrow> string" where
  "keyring_csv_family r fam =
     key_list_header @ concat (map (\<lambda>(k, e). key_row k (ke_value e)) (first_rows [] (ring_entries r fam)))"

section \<open>Normal forms\<close>

definition id_ok :: "string \<Rightarrow> bool" where
  "id_ok s \<longleftrightarrow> 2 \<le> length s \<and> list_all (\<lambda>c. is_xdigit c \<and> \<not> is_lower c) s \<and> (2 < length s \<longrightarrow> hd s \<noteq> CHR ''0'')"

definition value_ok :: "string \<Rightarrow> bool" where
  "value_ok s \<longleftrightarrow> s \<noteq> [] \<and> even (length s) \<and> length s \<le> 64 \<and> list_all (\<lambda>c. is_xdigit c \<and> \<not> is_lower c) s"

lemma to_upper_id: "\<not> is_lower c \<Longrightarrow> to_upper c = c"
  by (simp add: to_upper_def)

lemma map_to_upper_id: "list_all (\<lambda>c. is_xdigit c \<and> \<not> is_lower c) s \<Longrightarrow> map to_upper s = s"
  by (induction s) (auto simp: to_upper_id)

lemma key_norm_id_ok: "key_norm_id s \<noteq> [] \<Longrightarrow> id_ok (key_norm_id s)"
proof -
  define t where "t = skip_char (CHR ''0'') (map to_upper (strip_0x s))"
  assume "key_norm_id s \<noteq> []"
  then have xd: "list_all is_xdigit (strip_0x s)" and eq: "key_norm_id s = pad_left 2 (CHR ''0'') t"
    by (auto simp: key_norm_id_def Let_def t_def split: if_splits)
  have "set t \<subseteq> to_upper ` set (strip_0x s)" using skip_char_set [of "CHR ''0''" "map to_upper (strip_0x s)"]
    by (auto simp: t_def)
  with xd have "list_all (\<lambda>c. is_xdigit c \<and> \<not> is_lower c) t"
    by (auto simp: list_all_iff str_simps)
  moreover have "is_xdigit (CHR ''0'') \<and> \<not> is_lower (CHR ''0'')" by code_simp
  moreover have "t = [] \<or> hd t \<noteq> CHR ''0''" unfolding t_def using skip_char_hd by blast
  ultimately show ?thesis
    by (cases "length t < 2") (auto simp: eq id_ok_def pad_left_def list_all_iff hd_append split: if_splits)
qed

lemma key_norm_id_fixed: "id_ok s \<Longrightarrow> key_norm_id s = s"
proof -
  assume ok: "id_ok s"
  then have xd: "list_all is_xdigit s" and up: "map to_upper s = s" and len: "2 \<le> length s"
    by (auto simp: id_ok_def list_all_iff intro: map_to_upper_id [unfolded list_all_iff])
  from len obtain a b t where s: "s = a # b # t" by (metis Suc_le_length_iff numeral_2_eq_2)
  from xd have "b \<noteq> CHR ''x''" "b \<noteq> CHR ''X''" by (auto simp: s is_xdigit_def is_digit_def)
  then have st: "strip_0x s = s" by (auto simp: strip_0x_def s)
  have "pad_left 2 (CHR ''0'') (skip_char (CHR ''0'') s) = s"
  proof (cases "t = []")
    case False
    with ok have "a \<noteq> CHR ''0''" by (auto simp: id_ok_def s)
    then show ?thesis by (simp add: s skip_char_def pad_left_def)
  next
    case True
    then show ?thesis by (auto simp: s skip_char_def pad_left_def replicate_eval)
  qed
  then show ?thesis using xd len by (auto simp: key_norm_id_def st up)
qed

lemma key_norm_value_ok: "key_norm_value s \<noteq> [] \<Longrightarrow> value_ok (key_norm_value s)"
  by (auto simp: key_norm_value_def value_ok_def Let_def list_all_iff str_simps split: if_splits)

lemma key_norm_value_fixed: "value_ok s \<Longrightarrow> key_norm_value s = s"
proof -
  assume ok: "value_ok s"
  then have "filter (\<lambda>c. \<not> is_space c) s = s"
    by (auto simp: value_ok_def list_all_iff filter_id_conv dest: is_xdigit_not_space)
  with ok map_to_upper_id [of s] show ?thesis
    by (auto simp: key_norm_value_def value_ok_def list_all_iff)
qed

text \<open>The number a spelling denotes, and the spellings that denote one.\<close>

definition hex_number :: "string \<Rightarrow> nat" where
  "hex_number s = hex_num (strip_0x s)"

definition hex_id :: "string \<Rightarrow> bool" where
  "hex_id s \<longleftrightarrow> strip_0x s \<noteq> [] \<and> list_all is_xdigit (strip_0x s)"

lemma hex_val_upper: "is_xdigit c \<Longrightarrow> hex_val (to_upper c) = hex_val c"
  by (auto simp: hex_val_def byte_to_upper is_xdigit_def is_digit_def is_lower_def)

lemma hex_num_snoc: "hex_num (s @ [c]) = 16 * hex_num s + (case hex_val c of Some d \<Rightarrow> d | None \<Rightarrow> 0)"
  by (simp add: hex_num_def)

lemma hex_num_upper: "list_all is_xdigit s \<Longrightarrow> hex_num (map to_upper s) = hex_num s"
  by (induction s rule: rev_induct) (simp_all add: hex_num_snoc hex_val_upper)

lemma hex_num_zeros: "hex_num (replicate k (CHR ''0'') @ s) = hex_num s"
proof -
  have z: "hex_val (CHR ''0'') = Some 0" by code_simp
  have "foldl (\<lambda>a c. 16 * a + (case hex_val c of Some d \<Rightarrow> d | None \<Rightarrow> 0)) 0 (replicate k (CHR ''0'')) = (0::nat)"
    by (induction k) (auto simp: z)
  then show ?thesis by (simp add: hex_num_def)
qed

lemma skip_char_split: "\<exists>k. s = replicate k c @ skip_char c s"
proof (induction s)
  case (Cons a s)
  then obtain k where k: "s = replicate k c @ skip_char c s" by blast
  show ?case
  proof (cases "a = c")
    case True
    then have "a # s = replicate (Suc k) c @ skip_char c (a # s)" using k by (simp add: skip_char_def)
    then show ?thesis by blast
  qed (auto simp: skip_char_def intro: exI [of _ 0])
qed (simp add: skip_char_def)

lemma hex_num_skip: "hex_num (skip_char (CHR ''0'') s) = hex_num s"
  using skip_char_split [of s "CHR ''0''"] hex_num_zeros by metis

lemma hex_val_inj: "is_xdigit c \<Longrightarrow> is_xdigit d \<Longrightarrow> \<not> is_lower c \<Longrightarrow> \<not> is_lower d \<Longrightarrow> hex_val c = hex_val d \<Longrightarrow> c = d"
proof -
  assume h: "is_xdigit c" "is_xdigit d" "\<not> is_lower c" "\<not> is_lower d" "hex_val c = hex_val d"
  then have "byte c = byte d"
    by (auto simp: hex_val_def is_xdigit_def is_digit_def is_lower_def simp del: of_char_eq_iff split: if_splits)
  then show "c = d" by simp
qed

lemma hex_val_xdigit: "is_xdigit c \<Longrightarrow> \<exists>d<16. hex_val c = Some d"
  by (auto simp: hex_val_def is_xdigit_def is_digit_def)

lemma hex_num_pos: "list_all is_xdigit s \<Longrightarrow> s \<noteq> [] \<Longrightarrow> hd s \<noteq> CHR ''0'' \<Longrightarrow> 0 < hex_num s"
proof (induction s rule: rev_induct)
  case (snoc c s)
  show ?case
  proof (cases "s = []")
    case True
    with snoc.prems have c: "is_xdigit c" "c \<noteq> CHR ''0''" by auto
    then have "byte c \<noteq> 48" by (auto simp flip: byte_inject)
    with c(1) have "hex_val c \<noteq> Some 0" by (auto simp: hex_val_def is_xdigit_def is_digit_def)
    with hex_val_xdigit [OF c(1)] True show ?thesis by (auto simp: hex_num_def)
  next
    case False
    with snoc show ?thesis by (simp add: hex_num_snoc hd_append)
  qed
qed simp

lemma hex_num_inj:
  "list_all (\<lambda>c. is_xdigit c \<and> \<not> is_lower c) s \<Longrightarrow> list_all (\<lambda>c. is_xdigit c \<and> \<not> is_lower c) t \<Longrightarrow>
   s = [] \<or> hd s \<noteq> CHR ''0'' \<Longrightarrow> t = [] \<or> hd t \<noteq> CHR ''0'' \<Longrightarrow> hex_num s = hex_num t \<Longrightarrow> s = t"
proof (induction s arbitrary: t rule: rev_induct)
  case Nil
  then show ?case using hex_num_pos [of t] by (auto simp: list_all_iff hex_num_def)
next
  case (snoc c s)
  have xs: "list_all is_xdigit (s @ [c])" using snoc.prems(1) by (auto simp: list_all_iff)
  have "0 < hex_num (s @ [c])" using snoc.prems(3) by (intro hex_num_pos [OF xs]) auto
  with snoc.prems(5) have "t \<noteq> []" by (auto simp: hex_num_def)
  then obtain u d where t: "t = u @ [d]" by (metis append_butlast_last_id)
  obtain a b where a: "hex_val c = Some a" "a < 16" and b: "hex_val d = Some b" "b < 16"
    using hex_val_xdigit [of c] hex_val_xdigit [of d] snoc.prems(1,2) t by auto
  from snoc.prems(5) have "16 * hex_num s + a = 16 * hex_num u + b" by (simp add: t hex_num_snoc a b)
  then have "a = b" "hex_num s = hex_num u" using a(2) b(2) by presburger+
  moreover have "c = d" using snoc.prems(1,2) t a b \<open>a = b\<close> by (intro hex_val_inj) auto
  moreover have "s = u"
  proof (rule snoc.IH)
    show "s = [] \<or> hd s \<noteq> CHR ''0''" using snoc.prems(3) by (cases s) auto
    show "u = [] \<or> hd u \<noteq> CHR ''0''" using snoc.prems(4) t by (cases u) auto
  qed (use snoc.prems t \<open>hex_num s = hex_num u\<close> in auto)
  ultimately show ?case by (simp add: t)
qed

lemma pad_left_inj:
  assumes "pad_left n c s = pad_left n c t" "s = [] \<or> hd s \<noteq> c" "t = [] \<or> hd t \<noteq> c"
  shows "s = t"
proof -
  have "skip_char c (pad_left n c u) = u" if "u = [] \<or> hd u \<noteq> c" for u
  proof -
    have "dropWhile (\<lambda>d. d = c) (replicate k c @ u) = dropWhile (\<lambda>d. d = c) u" for k by (induction k) auto
    with that show ?thesis by (cases u) (auto simp: skip_char_def pad_left_def)
  qed
  with assms show ?thesis by metis
qed

text \<open>
  Ids are canonical: two hexadecimal spellings have the same normal form exactly when they denote
  the same number, so \<open>1\<close>, \<open>01\<close> and \<open>0x0001\<close> are one key and different keys never collide.
\<close>

lemma key_norm_id_canonical:
  assumes "hex_id a" "hex_id b"
  shows "key_norm_id a = key_norm_id b \<longleftrightarrow> hex_number a = hex_number b"
proof -
  define t where "t s = skip_char (CHR ''0'') (map to_upper (strip_0x s))" for s
  have n: "key_norm_id s = pad_left 2 (CHR ''0'') (t s)" "hex_num (t s) = hex_number s"
    "list_all (\<lambda>c. is_xdigit c \<and> \<not> is_lower c) (t s)" "t s = [] \<or> hd (t s) \<noteq> CHR ''0''" if "hex_id s" for s
  proof -
    from that show "key_norm_id s = pad_left 2 (CHR ''0'') (t s)" by (simp add: key_norm_id_def hex_id_def t_def)
    from that show "hex_num (t s) = hex_number s" by (simp add: t_def hex_num_skip hex_id_def hex_num_upper hex_number_def)
    have "set (t s) \<subseteq> to_upper ` set (strip_0x s)"
      using skip_char_set [of "CHR ''0''" "map to_upper (strip_0x s)"] by (auto simp: t_def)
    with that show "list_all (\<lambda>c. is_xdigit c \<and> \<not> is_lower c) (t s)"
      by (auto simp: hex_id_def list_all_iff str_simps)
    show "t s = [] \<or> hd (t s) \<noteq> CHR ''0''" unfolding t_def using skip_char_hd by blast
  qed
  note na = n [OF assms(1)] and nb = n [OF assms(2)]
  show ?thesis
  proof
    assume "key_norm_id a = key_norm_id b"
    then have "t a = t b" using na(1,4) nb(1,4) pad_left_inj [of 2 "CHR ''0''" "t a" "t b"] by simp
    with na(2) nb(2) show "hex_number a = hex_number b" by simp
  next
    assume "hex_number a = hex_number b"
    then have "t a = t b" using na(2-4) nb(2-4) by (intro hex_num_inj) auto
    with na(1) nb(1) show "key_norm_id a = key_norm_id b" by simp
  qed
qed

lemma key_norm_id_canonical_witness:
  "key_norm_id ''0x00a'' = key_norm_id ''A'' \<and> key_norm_id ''10'' \<noteq> key_norm_id ''1''"
proof
  have h: "hex_id ''0x00a''" "hex_id ''A''" "hex_id ''10''" "hex_id ''1''" by code_simp+
  show "key_norm_id ''0x00a'' = key_norm_id ''A''"
    by (subst key_norm_id_canonical [OF h(1,2)]) code_simp
  show "key_norm_id ''10'' \<noteq> key_norm_id ''1''"
    by (subst key_norm_id_canonical [OF h(3,4)]) code_simp
qed

section \<open>The ring as a keyed store\<close>

text \<open>
  A ring is a store keyed by protocol, network and key id; \<open>ring_wf\<close> is its shape. The laws of the
  locale \<open>key_value\<close> hold of it, so that what is known of a keyed store (among it, what a sequence
  of insertions leaves) is known of the ring.
\<close>

definition nets_wf :: "(string, net_keys) omap \<Rightarrow> bool" where
  "nets_wf f \<longleftrightarrow> om_wf f \<and> list_all (\<lambda>(k, n). om_wf n \<and> n \<noteq> []) f"

definition ring_wf :: "key_ring \<Rightarrow> bool" where
  "ring_wf r \<longleftrightarrow> om_wf r \<and> list_all (\<lambda>(k, f). nets_wf f \<and> f \<noteq> []) r"

lemma ring_wf_Nil: "ring_wf []"
  by (simp add: ring_wf_def)

lemma ring_wf_fam: "ring_wf r \<Longrightarrow> om_get r fam = Some f \<Longrightarrow> nets_wf f \<and> f \<noteq> []"
  using om_get_all [of "\<lambda>k f. nets_wf f \<and> f \<noteq> []" r fam f] by (simp add: ring_wf_def)

lemma nets_wf_net: "nets_wf f \<Longrightarrow> om_get f net = Some n \<Longrightarrow> om_wf n \<and> n \<noteq> []"
  using om_get_all [of "\<lambda>k n. om_wf n \<and> n \<noteq> []" f net n] by (simp add: nets_wf_def)

lemma nets_wf_put: "nets_wf f \<Longrightarrow> om_wf n \<Longrightarrow> n \<noteq> [] \<Longrightarrow> nets_wf (om_put net n f)"
  by (auto simp: nets_wf_def intro: om_put_all)

lemma nets_wf_del: "nets_wf f \<Longrightarrow> nets_wf (om_del net f)"
  by (auto simp: nets_wf_def intro: om_del_all)

lemma ring_wf_put: "ring_wf r \<Longrightarrow> nets_wf f \<Longrightarrow> f \<noteq> [] \<Longrightarrow> ring_wf (om_put fam f r)"
  by (auto simp: ring_wf_def intro: om_put_all)

lemma ring_wf_del: "ring_wf r \<Longrightarrow> ring_wf (om_del fam r)"
  by (auto simp: ring_wf_def intro: om_del_all)

lemma ring_at_wf: "ring_wf r \<Longrightarrow> nets_wf (om_at [] r fam)"
  by (auto simp: om_at_def nets_wf_def [of "[]"] dest: ring_wf_fam split: option.splits)

lemma nets_at_wf: "nets_wf f \<Longrightarrow> om_wf (om_at [] f net)"
  by (auto simp: om_at_def dest: nets_wf_net split: option.splits)

lemma ring_put_wf: "ring_wf r \<Longrightarrow> ring_wf (ring_put fam net k e r)"
  by (simp add: ring_put_def Let_def ring_wf_put nets_wf_put ring_at_wf nets_at_wf)

lemma ring_del_wf: "ring_wf r \<Longrightarrow> ring_wf (fst (ring_del fam net k r))"
proof -
  assume r: "ring_wf r"
  show ?thesis
  proof (cases "om_get r fam")
    case (Some f)
    note f = ring_wf_fam [OF r Some]
    then have p: "nets_wf (om_put net n' f)" if "om_wf n'" "n' \<noteq> []" for n' using that by (simp add: nets_wf_put)
    from f have d: "nets_wf (om_del net f)" by (simp add: nets_wf_del)
    show ?thesis
    proof (cases "om_get f net")
      case n: (Some n)
      with f have "om_wf (om_del k n)" using nets_wf_net by auto
      with r p d Some n show ?thesis by (auto simp: ring_del_def Let_def ring_wf_put ring_wf_del)
    qed (use r Some in \<open>simp add: ring_del_def\<close>)
  qed (use r in \<open>simp add: ring_del_def\<close>)
qed

lemma nets_wf_wf: "nets_wf f \<Longrightarrow> om_wf f"
  by (simp add: nets_wf_def)

lemma ring_get_at: "ring_get r fam net k = om_get (om_at [] (om_at [] r fam) net) k"
  by (simp add: ring_get_def om_at_def split: option.splits)

lemma om_at_put: "om_wf m \<Longrightarrow> om_at d (om_put k v m) j = (if j = k then v else om_at d m j)"
  by (simp add: om_at_def om_get_put)

lemma ring_get_put: "ring_wf r \<Longrightarrow> ring_get (ring_put fam net k e r) g m j =
   (if g = fam \<and> m = net \<and> j = k then Some e else ring_get r g m j)"
  using ring_at_wf [of r fam] nets_at_wf [of "om_at [] r fam" net] nets_wf_wf [of "om_at [] r fam"]
  by (simp add: ring_get_at ring_put_def Let_def om_at_put om_get_put ring_wf_def)

lemma om_at_del: "om_at d (om_del k m) j = (if j = k then d else om_at d m j)"
  by (simp add: om_at_def om_get_del)

lemma ring_get_del: 
  assumes "ring_wf r"
  shows "ring_get (fst (ring_del fam net i r)) g m j = (if g = fam \<and> m = net \<and> j = i then None else ring_get r g m j)"
proof (cases "ring_get r fam net i")
  case None
  then have "fst (ring_del fam net i r) = r"
    by (auto simp: ring_del_def ring_get_def om_has_def split: option.splits)
  with None show ?thesis by auto
next
  case (Some e)
  then obtain f n where f: "om_get r fam = Some f" "om_get f net = Some n" "om_has n i"
    by (auto simp: ring_get_def om_has_def split: option.splits)
  define n' where "n' = om_del i n"
  define f' where "f' = (if n' = [] then om_del net f else om_put net n' f)"
  have r': "fst (ring_del fam net i r) = (if f' = [] then om_del fam r else om_put fam f' r)"
    by (simp add: ring_del_def f Let_def n'_def f'_def)
  have wf: "om_wf r" "om_wf f" using assms ring_wf_fam [OF assms f(1)] by (auto simp: ring_wf_def nets_wf_def)
  have "om_at [] f' m = (if m = net then n' else om_at [] f m)" for m
    using wf by (auto simp: f'_def om_at_del om_at_put)
  moreover have "om_at [] (fst (ring_del fam net i r)) g = (if g = fam then f' else om_at [] r g)" for g
    using wf by (auto simp: r' om_at_del om_at_put)
  moreover have "om_at [] r fam = f" "om_at [] f net = n" using f by (simp_all add: om_at_def)
  ultimately show ?thesis by (auto simp: ring_get_at n'_def om_get_del)
qed

lemma ring_get_Nil: "ring_get [] f n k = None"
  by (simp add: ring_get_def)

interpretation ring_store: key_value "[]" "\<lambda>r (f, n, k). ring_get r f n k" "\<lambda>(f, n, k) e. ring_put f n k e"
  "\<lambda>(f, n, k) r. fst (ring_del f n k r)" ring_wf
  by unfold_locales
    (auto simp: ring_wf_Nil ring_put_wf ring_del_wf ring_get_put ring_get_del ring_get_Nil split: if_splits)

lemma om_at_ext:
  assumes "om_wf r" "om_wf s" "\<And>k. om_at [] r k = om_at [] s k"
    "list_all (\<lambda>(k, f). f \<noteq> []) r" "list_all (\<lambda>(k, f). f \<noteq> []) s"
  shows "r = s"
proof (rule om_ext [OF assms(1,2)])
  fix k
  have "om_get m k = (if om_at [] m k = [] then None else Some (om_at [] m k))"
    if "list_all (\<lambda>(k, f). f \<noteq> []) m" for m :: "('a \<times> 'b list) list"
    using that by (auto simp: om_at_def dest: om_get_all split: option.splits)
  with assms(3-5) show "om_get r k = om_get s k" by simp
qed

lemma list_all_snd: "list_all (\<lambda>(k, f). P f \<and> Q f) m \<Longrightarrow> list_all (\<lambda>(k, f). Q f) m"
  by (auto simp: list_all_iff)

lemma ring_ext:
  assumes "ring_wf r" "ring_wf s" "\<And>f n k. ring_get r f n k = ring_get s f n k"
  shows "r = s"
proof (rule om_at_ext)
  fix fam
  have f: "nets_wf (om_at [] r fam)" "nets_wf (om_at [] s fam)" using assms(1,2) by (simp_all add: ring_at_wf)
  show "om_at [] r fam = om_at [] s fam"
  proof (rule om_at_ext)
    fix net
    show "om_at [] (om_at [] r fam) net = om_at [] (om_at [] s fam) net"
      using assms(3) [of fam net] f by (intro om_ext) (simp_all add: nets_at_wf ring_get_at)
  qed (use f in \<open>auto simp: nets_wf_def dest: list_all_snd\<close>)
qed (use assms(1,2) in \<open>auto simp: ring_wf_def dest: list_all_snd\<close>)

section \<open>Its invariant\<close>

definition ring_flat :: "key_ring \<Rightarrow> ((string \<times> string \<times> string) \<times> key_entry) list" where
  "ring_flat r = concat (map (\<lambda>(f, ns). concat (map (\<lambda>(n, ks). map (\<lambda>(k, e). ((f, n, k), e)) ks) ns)) r)"

definition entry_ok :: "string \<Rightarrow> key_entry \<Rightarrow> bool" where
  "entry_ok k e \<longleftrightarrow> id_ok k \<and> value_ok (ke_value e) \<and> (ke_alg e = [] \<or> id_ok (ke_alg e))"

definition ring_ok :: "key_ring \<Rightarrow> bool" where
  "ring_ok r \<longleftrightarrow> ring_wf r \<and> list_all (\<lambda>((f, n, k), e). entry_ok k e) (ring_flat r)"

lemma ring_flat_get: "ring_wf r \<Longrightarrow> ((f, n, k), e) \<in> set (ring_flat r) \<longleftrightarrow> ring_get r f n k = Some e"
proof -
  assume r: "ring_wf r"
  have "((f, n, k), e) \<in> set (ring_flat r) \<longleftrightarrow>
    (\<exists>ns ks. om_get r f = Some ns \<and> om_get ns n = Some ks \<and> om_get ks k = Some e)" (is "?l = ?r")
  proof
    assume ?l
    then obtain ns ks where m: "(f, ns) \<in> set r" "(n, ks) \<in> set ns" "(k, e) \<in> set ks"
      by (auto simp: ring_flat_def)
    have "om_get r f = Some ns" using m(1) r by (simp add: om_wf_get_iff ring_wf_def)
    moreover from ring_wf_fam [OF r this] m(2) have "om_get ns n = Some ks"
      by (simp add: om_wf_get_iff nets_wf_def)
    moreover from ring_wf_fam [OF r calculation(1)] nets_wf_net [OF _ this] m(3) have "om_get ks k = Some e"
      by (simp add: om_wf_get_iff)
    ultimately show ?r by blast
  next
    assume ?r
    then show ?l by (force simp: ring_flat_def dest!: om_get_Some_in)
  qed
  then show ?thesis by (auto simp: ring_get_def split: option.splits)
qed

lemma ring_ok_iff: "ring_ok r \<longleftrightarrow> ring_wf r \<and> (\<forall>f n k e. ring_get r f n k = Some e \<longrightarrow> entry_ok k e)"
  by (fastforce simp: ring_ok_def list_all_iff simp flip: ring_flat_get)

lemma ring_put_ok: "ring_ok r \<Longrightarrow> entry_ok k e \<Longrightarrow> ring_ok (ring_put fam net k e r)"
  by (auto simp: ring_ok_iff ring_put_wf ring_get_put split: if_splits)

lemma ring_del_ok: "ring_ok r \<Longrightarrow> ring_ok (fst (ring_del fam net k r))"
  by (auto simp: ring_ok_iff ring_del_wf ring_get_del split: if_splits)

lemma norm_entry_ok: "key_norm_id k \<noteq> [] \<Longrightarrow> key_norm_value v \<noteq> [] \<Longrightarrow>
   entry_ok (key_norm_id k) \<lparr>ke_alg = key_norm_id a, ke_value = key_norm_value v, ke_added = t\<rparr>"
  by (cases "key_norm_id a = []") (auto simp: entry_ok_def key_norm_id_ok key_norm_value_ok)

lemma foldl_inv: "(\<And>a x. I a \<Longrightarrow> I (f a x)) \<Longrightarrow> I a \<Longrightarrow> I (foldl f a xs)"
  by (induction xs arbitrary: a) auto

lemma parse_entry_ok: "ring_ok r \<Longrightarrow> ring_ok (keyring_parse_entry fam net r ik)"
  by (auto simp: keyring_parse_entry_def Let_def intro: ring_put_ok norm_entry_ok split: jval.splits)

lemma parse_net_ok: "ring_ok r \<Longrightarrow> ring_ok (keyring_parse_net fam r nk)"
  by (auto simp: keyring_parse_net_def intro: foldl_inv parse_entry_ok split: jval.splits)

lemma parse_fam_ok: "ring_ok r \<Longrightarrow> ring_ok (keyring_parse_fam r fk)"
  by (auto simp: keyring_parse_fam_def intro: foldl_inv parse_net_ok split: jval.splits)

lemma ring_ok_Nil: "ring_ok []"
  by (simp add: ring_ok_def ring_wf_Nil ring_flat_def)

lemma keyring_parse_ok: "ring_ok (keyring_parse v)"
  by (auto simp: keyring_parse_def intro: foldl_inv parse_fam_ok ring_ok_Nil split: option.splits jval.splits)

text \<open>Every ring the server can come to hold: loaded from any document, then changed.\<close>

inductive ring_reach :: "key_ring \<Rightarrow> bool" where
  load: "ring_reach (keyring_parse v)"
| set: "ring_reach r \<Longrightarrow> ring_reach (fst (keyring_set fam net kid alg v now r))"
| remove: "ring_reach r \<Longrightarrow> ring_reach (fst (keyring_remove fam net kid r))"

lemma ring_reach_ok: "ring_reach r \<Longrightarrow> ring_ok r"
  by (induction rule: ring_reach.induct)
    (auto simp: keyring_parse_ok keyring_set_def keyring_remove_def Let_def ring_put_ok norm_entry_ok ring_del_ok)

section \<open>What the operations do\<close>

text \<open>
  Setting a key: when both id and value are well formed it is stored under the id's normal form,
  with the value's normal form, replacing what was there and touching no other key; otherwise the
  ring is unchanged and the caller is told.
\<close>

lemma keyring_set_stores:
  assumes "ring_reach r" "keyring_set fam net kid alg v now r = (r', b)"
  shows "b = (fam \<noteq> [] \<and> net \<noteq> [] \<and> key_norm_id kid \<noteq> [] \<and> key_norm_value v \<noteq> []) \<and>
    ring_get r' g m j =
      (if b \<and> (g, m, j) = (fam, net, key_norm_id kid)
       then Some \<lparr>ke_alg = key_norm_id alg, ke_value = key_norm_value v, ke_added = now\<rparr>
       else ring_get r g m j)"
proof -
  have "ring_wf r" using ring_reach_ok [OF assms(1)] by (simp add: ring_ok_def)
  from ring_store.get_put [OF this, of "(fam, net, key_norm_id kid)" _ "(g, m, j)"] assms(2)
  show ?thesis by (auto simp: keyring_set_def Let_def split: if_splits)
qed

lemma keyring_set_stores_witness:
  "ring_get (fst (keyring_set ''p25'' ''n'' ''0x7'' ''84'' ''ab cd'' 5 [])) ''p25'' ''n'' ''07'' =
     Some \<lparr>ke_alg = ''84'', ke_value = ''ABCD'', ke_added = 5\<rparr>"
proof -
  have r: "ring_reach []" using ring_reach.load [of JNull] by (simp add: keyring_parse_def v_get_def)
  have "keyring_set ''p25'' ''n'' ''0x7'' ''84'' ''ab cd'' 5 [] =
    ([(''p25'', [(''n'', [(''07'', \<lparr>ke_alg = ''84'', ke_value = ''ABCD'', ke_added = 5\<rparr>)])])], True)" by code_simp
  moreover have "key_norm_id ''0x7'' = ''07''" "key_norm_id ''84'' = ''84''" "key_norm_value ''ab cd'' = ''ABCD''"
    by code_simp+
  ultimately show ?thesis using keyring_set_stores [OF r, of "''p25''" "''n''" "''0x7''" "''84''" "''ab cd''" 5 _ _ "''p25''" "''n''" "''07''"]
    by simp
qed

lemma keyring_has_get: "keyring_has fam net kid r \<longleftrightarrow> ring_get r fam net (key_norm_id kid) \<noteq> None"
  by (auto simp: keyring_has_def ring_get_def om_has_def split: option.splits)

text \<open>
  Removing a key: it reports whether the ring had the key, afterwards the ring does not have it,
  and every other key is as before.
\<close>

lemma keyring_remove_removes:
  assumes "ring_reach r" "keyring_remove fam net kid r = (r', b)"
  shows "b = keyring_has fam net kid r \<and> \<not> keyring_has fam net kid r' \<and>
    ring_get r' g m j = (if (g, m, j) = (fam, net, key_norm_id kid) then None else ring_get r g m j)"
proof -
  have r: "ring_wf r" using ring_reach_ok [OF assms(1)] by (simp add: ring_ok_def)
  have "b = (ring_get r fam net (key_norm_id kid) \<noteq> None)"
    using assms(2) by (auto simp: keyring_remove_def ring_del_def ring_get_def om_has_def Let_def split: option.splits if_splits)
  moreover have "r' = fst (ring_del fam net (key_norm_id kid) r)" using assms(2) by (simp add: keyring_remove_def)
  ultimately show ?thesis by (auto simp: keyring_has_get ring_get_del [OF r])
qed

lemma keyring_remove_removes_witness:
  "\<not> keyring_has ''p25'' ''n'' ''7'' (fst (keyring_remove ''p25'' ''n'' ''07'' (fst (keyring_set ''p25'' ''n'' ''0x7'' ''84'' ''abcd'' 5 []))))"
proof -
  have "ring_reach []" using ring_reach.load [of JNull] by (simp add: keyring_parse_def v_get_def)
  then have r: "ring_reach (fst (keyring_set ''p25'' ''n'' ''0x7'' ''84'' ''abcd'' 5 []))" by (rule ring_reach.set)
  have "key_norm_id ''07'' = key_norm_id ''7''" by code_simp
  then show ?thesis
    using keyring_remove_removes [OF r, of "''p25''" "''n''" "''07''" "fst (keyring_remove ''p25'' ''n'' ''07'' (fst (keyring_set ''p25'' ''n'' ''0x7'' ''84'' ''abcd'' 5 [])))" "snd (keyring_remove ''p25'' ''n'' ''07'' (fst (keyring_set ''p25'' ''n'' ''0x7'' ''84'' ''abcd'' 5 [])))"]
    by (auto simp: keyring_has_get)
qed

definition ring_map_values :: "(string \<Rightarrow> string) \<Rightarrow> key_ring \<Rightarrow> key_ring" where
  "ring_map_values f r = om_map (om_map (om_map (\<lambda>e. e\<lparr>ke_value := f (ke_value e)\<rparr>))) r"

lemma jmap_om_map: "jmap f (om_map g m) = jmap (\<lambda>v. f (g v)) m"
  by (simp add: jmap_def om_map_def split_def comp_def)

text \<open>
  What the browser is told says nothing about key values: replacing every value of the ring by
  anything else leaves the text the same.
\<close>

lemma keyring_loaded_hides_values:
  "keyring_loaded_json (ring_map_values f r) = keyring_loaded_json r"
  by (simp add: keyring_loaded_json_def ring_map_values_def jmap_om_map)

section \<open>The keys file\<close>

definition entry_doc :: "key_entry \<Rightarrow> jdoc" where
  "entry_doc e = DObj [(''alg'', DStr (ke_alg e)), (''key'', DStr (ke_value e)), (''added'', DInt (ke_added e))]"

definition map_doc :: "('a \<Rightarrow> jdoc) \<Rightarrow> (string, 'a) omap \<Rightarrow> jdoc" where
  "map_doc f m = DObj (map (\<lambda>(k, v). (k, f v)) m)"

definition ring_doc :: "key_ring \<Rightarrow> jdoc" where
  "ring_doc r = map_doc (map_doc (map_doc entry_doc)) r"

lemma jmap_doc: "jd_text (map_doc f m) = jmap (\<lambda>v. jd_text (f v)) m"
  by (simp add: map_doc_def jmap_def split_def comp_def)

lemma key_entry_json_doc: "key_entry_json e = jd_text (entry_doc e)"
  by (simp add: key_entry_json_def entry_doc_def jq_def jesc_char_def)

lemma keyring_json_doc: "keyring_json r = jd_text (ring_doc r)"
  by (simp add: keyring_json_def ring_doc_def jmap_doc key_entry_json_doc [abs_def])

definition ring_times_ok :: "key_ring \<Rightarrow> bool" where
  "ring_times_ok r \<longleftrightarrow> list_all (\<lambda>(k, e). \<bar>ke_added e\<bar> \<le> 2 ^ 53) (ring_flat r)"

lemma map_doc_fits: "jd_fits (Suc d) (map_doc f m) \<longleftrightarrow> list_all (\<lambda>(k, v). jd_fits d (f v)) m"
  by (auto simp: map_doc_def list_all_iff)

lemma ring_doc_fits: "ring_times_ok r \<Longrightarrow> jd_fits 64 (ring_doc r)"
proof -
  assume t: "ring_times_ok r"
  have "\<bar>ke_added e\<bar> \<le> 2 ^ 53" if "(f, ns) \<in> set r" "(n, ks) \<in> set ns" "(k, e) \<in> set ks" for f ns n ks k e
    using t that by (force simp: ring_times_ok_def ring_flat_def list_all_iff)
  then have "jd_fits (Suc (Suc (Suc (Suc (Suc d))))) (ring_doc r)" for d
    unfolding ring_doc_def map_doc_fits entry_doc_def by (auto simp: list_all_iff)
  from this [of 59] show ?thesis by simp
qed

definition put_entry :: "key_ring \<Rightarrow> (string \<times> string \<times> string) \<times> key_entry \<Rightarrow> key_ring" where
  "put_entry r x = (case x of ((f, n, k), e) \<Rightarrow> ring_put f n k e r)"

lemma parse_entry_doc: "entry_ok k e \<Longrightarrow> \<bar>ke_added e\<bar> \<le> 2 ^ 53 \<Longrightarrow>
  keyring_parse_entry fam net r (k, jd_val (entry_doc e)) = ring_put fam net k e r"
  by (cases e; cases "ke_alg e = []")
    (auto simp: keyring_parse_entry_def entry_doc_def v_str_def v_get_def Let_def entry_ok_def
      key_norm_id_fixed key_norm_value_fixed key_norm_id_def [of "[]"] strip_0x_def id_ok_def value_ok_def)

lemma parse_nets_doc:
  "\<forall>(k, e) \<in> set ks. entry_ok k e \<and> \<bar>ke_added e\<bar> \<le> 2 ^ 53 \<Longrightarrow>
   foldl (keyring_parse_entry fam net) r (map (\<lambda>(k, e). (k, jd_val (entry_doc e))) ks) =
   foldl put_entry r (map (\<lambda>(k, e). ((fam, net, k), e)) ks)"
  by (induction ks arbitrary: r) (auto simp: parse_entry_doc put_entry_def)

lemma jd_val_map_doc: "jd_val (map_doc f m) = JObj (map (\<lambda>(k, v). (k, jd_val (f v))) m)"
  by (simp add: map_doc_def split_def comp_def)

lemma parse_fam_doc:
  "\<forall>(n, ks) \<in> set ns. \<forall>(k, e) \<in> set ks. entry_ok k e \<and> \<bar>ke_added e\<bar> \<le> 2 ^ 53 \<Longrightarrow>
   foldl (keyring_parse_net fam) r (map (\<lambda>(n, ks). (n, jd_val (map_doc entry_doc ks))) ns) =
   foldl put_entry r (concat (map (\<lambda>(n, ks). map (\<lambda>(k, e). ((fam, n, k), e)) ks) ns))"
  by (induction ns arbitrary: r) (auto simp: keyring_parse_net_def jd_val_map_doc parse_nets_doc)

lemma parse_ring_doc:
  "\<forall>(f, ns) \<in> set r. \<forall>(n, ks) \<in> set ns. \<forall>(k, e) \<in> set ks. entry_ok k e \<and> \<bar>ke_added e\<bar> \<le> 2 ^ 53 \<Longrightarrow>
   foldl keyring_parse_fam r0 (map (\<lambda>(f, ns). (f, jd_val (map_doc (map_doc entry_doc) ns))) r) =
   foldl put_entry r0 (ring_flat r)"
  by (induction r arbitrary: r0)
    (auto simp: keyring_parse_fam_def jd_val_map_doc [of "map_doc entry_doc"] parse_fam_doc ring_flat_def)

lemma nets_flat_distinct:
  "nets_wf ns \<Longrightarrow> distinct (map fst (concat (map (\<lambda>(n, ks). map (\<lambda>(k, e). ((f, n, k), e)) ks) ns)))"
proof (induction ns)
  case (Cons p ns)
  obtain n ks where p: "p = (n, ks)" by (cases p)
  have "distinct (map (\<lambda>(k, e). (f, n, k)) ks)"
  proof -
    have "map (\<lambda>(k, e). (f, n, k)) ks = map (\<lambda>k. (f, n, k)) (map fst ks)" by (simp add: split_def)
    moreover have "distinct (map fst ks)" using Cons.prems by (simp add: p nets_wf_def om_wf_distinct)
    ultimately show ?thesis by (simp only: distinct_map [of "\<lambda>k. (f, n, k)"]) (simp add: inj_on_def)
  qed
  with Cons show ?case
    by (auto simp: p nets_wf_def om_wf_Cons comp_def split_def)
qed simp

lemma ring_flat_distinct: "ring_wf r \<Longrightarrow> distinct (map fst (ring_flat r))"
proof (induction r)
  case (Cons p r)
  obtain f ns where p: "p = (f, ns)" by (cases p)
  have "distinct (map fst (concat (map (\<lambda>(n, ks). map (\<lambda>(k, e). ((f, n, k), e)) ks) ns)))"
    using Cons.prems by (intro nets_flat_distinct) (simp add: p ring_wf_def)
  with Cons show ?case
    by (auto simp: p ring_flat_def ring_wf_def om_wf_Cons)
qed (simp add: ring_flat_def)

lemma ring_flat_rebuild: "ring_wf r \<Longrightarrow> foldl put_entry [] (ring_flat r) = r"
proof -
  assume r: "ring_wf r"
  have f: "foldl put_entry [] (ring_flat r) = foldl (\<lambda>acc (k, e). (case k of (f, n, k) \<Rightarrow> \<lambda>e. ring_put f n k e) e acc) [] (ring_flat r)"
    by (rule arg_cong [where f = "\<lambda>h. foldl h [] (ring_flat r)"]) (auto simp: put_entry_def fun_eq_iff)
  have "map_of (rev (ring_flat r)) (f, n, k) = ring_get r f n k" for f n k
  proof -
    have "map_of (rev (ring_flat r)) (f, n, k) = Some e \<longleftrightarrow> ring_get r f n k = Some e" for e
    proof -
      have "distinct (map fst (rev (ring_flat r)))" using ring_flat_distinct [OF r] by (metis distinct_rev rev_map)
      from map_of_eq_Some_iff [OF this] show ?thesis by (simp add: ring_flat_get [OF r])
    qed
    then show ?thesis by (metis option.exhaust)
  qed
  with ring_store.put_all [OF ring_wf_Nil, of "ring_flat r"] show ?thesis
    unfolding f by (intro ring_ext [OF _ r]) (auto simp: ring_get_Nil split: option.splits)
qed


text \<open>
  C35. Saving and loading: the keys file holds the ring as JSON, and loading it, whatever else the file
  holds beside it, gives the very same ring.
\<close>

lemma keyring_file_round_trip:
  assumes "ring_ok r" "ring_times_ok r"
  shows "mj_parse (keyring_json r) = Inr (jd_val (ring_doc r)) \<and>
    keyring_parse (JObj ((''keys'', jd_val (ring_doc r)) # others)) = r"
proof
  have "jd_fits 65 (ring_doc r)"
  proof -
    have "jd_fits d x \<Longrightarrow> jd_fits (Suc d) x" for d x
      by (induction d x rule: jd_fits.induct) (auto simp: list_all_iff)
    from this [OF ring_doc_fits [OF assms(2)]] show ?thesis by simp
  qed
  with keyring_json_doc [of r] show "mj_parse (keyring_json r) = Inr (jd_val (ring_doc r))"
    using reads_doc by simp
next
  have ok: "\<forall>(f, ns) \<in> set r. \<forall>(n, ks) \<in> set ns. \<forall>(k, e) \<in> set ks. entry_ok k e \<and> \<bar>ke_added e\<bar> \<le> 2 ^ 53"
  proof (clarify, intro conjI)
    fix f ns n ks k e assume m: "(f, ns) \<in> set r" "(n, ks) \<in> set ns" "(k, e) \<in> set ks"
    then have "((f, n, k), e) \<in> set (ring_flat r)" by (force simp: ring_flat_def)
    with assms show "entry_ok k e" "\<bar>ke_added e\<bar> \<le> 2 ^ 53"
      by (auto simp: ring_ok_def ring_times_ok_def list_all_iff)
  qed
  have "keyring_parse (JObj ((''keys'', jd_val (ring_doc r)) # others)) = foldl put_entry [] (ring_flat r)"
    using parse_ring_doc [OF ok, of "[]"] by (simp add: keyring_parse_def v_get_def ring_doc_def jd_val_map_doc [of "map_doc (map_doc entry_doc)"])
  also have "\<dots> = r" using assms(1) by (intro ring_flat_rebuild) (simp add: ring_ok_def)
  finally show "keyring_parse (JObj ((''keys'', jd_val (ring_doc r)) # others)) = r" .
qed

lemma keyring_file_round_trip_witness:
  "keyring_parse (JObj [(''keys'', jd_val (ring_doc [(''p25'', [(''n'', [(''07'', \<lparr>ke_alg = ''84'', ke_value = ''ABCD'', ke_added = 5\<rparr>)])])])), (''bp'', JNull)]) =
   [(''p25'', [(''n'', [(''07'', \<lparr>ke_alg = ''84'', ke_value = ''ABCD'', ke_added = 5\<rparr>)])])]"
proof -
  have "ring_ok [(''p25'', [(''n'', [(''07'', \<lparr>ke_alg = ''84'', ke_value = ''ABCD'', ke_added = 5\<rparr>)])])]"
    by code_simp
  moreover have "ring_times_ok [(''p25'', [(''n'', [(''07'', \<lparr>ke_alg = ''84'', ke_value = ''ABCD'', ke_added = 5\<rparr>)])])]"
    by (simp add: ring_times_ok_def ring_flat_def)
  ultimately show ?thesis using keyring_file_round_trip by blast
qed

section \<open>Key lists\<close>

lemma key_cols_join: "concat (key_cols v) = v"
  by (induction v rule: key_cols.induct) (subst key_cols.simps, simp)

lemma key_cols_width: "c \<in> set (key_cols v) \<Longrightarrow> 0 < length c \<and> length c \<le> 16"
  by (induction v rule: key_cols.induct) (subst (asm) (2) key_cols.simps, auto split: if_splits)

lemma first_rows_ids:
  "fst ` set (first_rows seen es) = fst ` set es - set seen \<and> distinct (map fst (first_rows seen es)) \<and>
   set (first_rows seen es) \<subseteq> set es"
  by (induction seen es rule: first_rows.induct) auto

lemma first_rows_first: "k \<notin> set seen \<Longrightarrow> map_of (first_rows seen es) k = map_of es k"
  by (induction seen es rule: first_rows.induct) auto

text \<open>
  The key list handed to the decoder has one row for every key id of the protocol (of all
  protocols when none is named) and no second row for an id; the row's value is the first one in ring
  order, and a row's columns are at most 16 digits wide and join to the value.
\<close>

lemma key_list_rows:
  "distinct (map fst (first_rows [] (ring_entries r fam))) \<and>
   fst ` set (first_rows [] (ring_entries r fam)) = fst ` set (ring_entries r fam) \<and>
   om_get (first_rows [] (ring_entries r fam)) k = om_get (ring_entries r fam) k \<and>
   concat (key_cols v) = v \<and> list_all (\<lambda>c. c \<noteq> [] \<and> length c \<le> 16) (key_cols v)"
  using first_rows_ids [of "[]" "ring_entries r fam"]
  by (auto simp: first_rows_first key_cols_join list_all_iff dest: key_cols_width)

lemma key_list_example:
  "keyring_csv [(''p25'', [(''n'', [(''07'', \<lparr>ke_alg = ''84'', ke_value = ''000102030405060708090A'', ke_added = 5\<rparr>)])])] ''p25'' ''n'' =
   ''KEY ID,KEY'' @ [CHR 0x0A] @ ''07,0001020304050607,08090A'' @ [CHR 0x0A]"
  by (simp add: keyring_csv_def key_list_header_def key_row_def key_cols.simps)

end
