(* ===== verification/Net_Merges.thy ===== *)
theory Net_Merges
  imports Mjson
begin

text \<open>
  Network merges of \<open>src/assoc_merge.hpp\<close> (\<open>NetMerges\<close>, \<open>merge_root\<close>, \<open>merges_add\<close>,
  \<open>merges_remove\<close>, \<open>merges_count\<close>, \<open>merges_union\<close>, \<open>merges_json\<close>): per protocol, the key a network
  is shown under. The rules are flat: a target is never itself merged. \<open>nm_ok\<close> is that invariant,
  with the bound on the rules of a protocol; every operation keeps it, and \<open>merge_root\<close> after an
  operation is given in terms of \<open>merge_root\<close> before it.
\<close>

type_synonym net_merges = "(string, (string, string) omap) omap"

definition kMaxMergesPerFamily :: nat where
  "kMaxMergesPerFamily = 500"

definition merge_root :: "net_merges \<Rightarrow> string \<Rightarrow> string \<Rightarrow> string" where
  "merge_root m fam key =
     (case om_get m fam of
        None \<Rightarrow> key
      | Some F \<Rightarrow> (case om_get F key of None \<Rightarrow> key | Some t \<Rightarrow> t))"

definition merges_add :: "net_merges \<Rightarrow> string \<Rightarrow> string \<Rightarrow> string \<Rightarrow> net_merges \<times> bool" where
  "merges_add m fam src dst =
     (if fam = [] \<or> src = [] \<or> dst = [] then (m, False)
      else let r = merge_root m fam dst
        in if r = src \<or> merge_root m fam src = r then (m, False)
           else let F = om_at [] m fam
             in if \<not> om_has F src \<and> kMaxMergesPerFamily \<le> length F then (om_put fam F m, False)
                else (om_put fam (om_map (\<lambda>v. if v = src then r else v) (om_put src r F)) m, True))"

definition merges_remove :: "net_merges \<Rightarrow> string \<Rightarrow> string \<Rightarrow> net_merges \<times> bool" where
  "merges_remove m fam key =
     (case om_get m fam of
        None \<Rightarrow> (m, False)
      | Some F \<Rightarrow>
          (let erased = om_has F key;
               F' = (if erased then om_del key F else om_filter (\<lambda>k v. v \<noteq> key) F);
               changed = (erased \<or> length F' < length F)
           in (if F' = [] then om_del fam m else om_put fam F' m, changed)))"

definition merges_count :: "net_merges \<Rightarrow> nat" where
  "merges_count m = sum_list (map (\<lambda>f. length (snd f)) m)"

definition merges_union_step :: "net_merges \<Rightarrow> string \<times> string \<times> string \<Rightarrow> net_merges" where
  "merges_union_step into r =
     (case r of (fam, k, t) \<Rightarrow>
        if (case om_get into fam of None \<Rightarrow> False | Some F \<Rightarrow> om_has F k) then into
        else fst (merges_add into fam k t))"

definition merge_rules :: "net_merges \<Rightarrow> (string \<times> string \<times> string) list" where
  "merge_rules m = concat (map (\<lambda>(fam, F). map (\<lambda>(k, t). (fam, k, t)) F) m)"

definition merges_union :: "net_merges \<Rightarrow> net_merges \<Rightarrow> net_merges" where
  "merges_union into from = foldl merges_union_step into (merge_rules from)"

definition merges_json :: "net_merges \<Rightarrow> string" where
  "merges_json m =
     ''{'' @ jcommas (map (\<lambda>(f, F). jq f @ '':'' @ jobj F) (filter (\<lambda>(f, F). F \<noteq> []) m)) @ ''}''"

section \<open>The rules stay flat\<close>

definition fam_flat :: "(string, string) omap \<Rightarrow> bool" where
  "fam_flat F \<longleftrightarrow> om_wf F \<and> F \<noteq> [] \<and> length F \<le> kMaxMergesPerFamily \<and>
     list_all (\<lambda>(k, t). k \<noteq> [] \<and> t \<noteq> [] \<and> \<not> om_has F t) F"

definition nm_ok :: "net_merges \<Rightarrow> bool" where
  "nm_ok m \<longleftrightarrow> om_wf m \<and> list_all (\<lambda>(f, F). f \<noteq> [] \<and> fam_flat F) m"

lemma nm_ok_Nil [simp]: "nm_ok []"
  by (simp add: nm_ok_def)

lemma nm_ok_wf: "nm_ok m \<Longrightarrow> om_wf m"
  by (simp add: nm_ok_def)

lemma nm_ok_fam: "nm_ok m \<Longrightarrow> om_get m fam = Some F \<Longrightarrow> fam \<noteq> [] \<and> fam_flat F"
  by (auto simp: nm_ok_def list_all_iff dest!: om_get_Some_in)

lemma nm_ok_put: "nm_ok m \<Longrightarrow> fam \<noteq> [] \<Longrightarrow> fam_flat F \<Longrightarrow> nm_ok (om_put fam F m)"
  unfolding nm_ok_def list_all_iff
proof (intro conjI ballI)
  fix p
  assume h: "om_wf m \<and> (\<forall>p \<in> set m. case p of (f, F) \<Rightarrow> f \<noteq> [] \<and> fam_flat F)" "fam \<noteq> []" "fam_flat F"
    and "p \<in> set (om_put fam F m)"
  then have "om_get (om_put fam F m) (fst p) = Some (snd p)" by (simp add: om_wf_get_iff)
  with h show "case p of (f, F) \<Rightarrow> f \<noteq> [] \<and> fam_flat F"
    by (cases p) (auto simp: om_get_put dest: om_get_Some_in split: if_splits)
qed simp

lemma nm_ok_del: "nm_ok m \<Longrightarrow> nm_ok (om_del fam m)"
  by (auto simp: nm_ok_def list_all_iff om_del_def)

lemma fam_flatD:
  "fam_flat F \<Longrightarrow> om_get F k = Some t \<Longrightarrow> k \<noteq> [] \<and> t \<noteq> [] \<and> om_get F t = None"
  by (auto simp: fam_flat_def list_all_iff om_has_def dest!: om_get_Some_in)

lemma fam_flatI:
  assumes "om_wf F" "F \<noteq> []" "length F \<le> kMaxMergesPerFamily"
    "\<And>k t. om_get F k = Some t \<Longrightarrow> k \<noteq> [] \<and> t \<noteq> [] \<and> om_get F t = None"
  shows "fam_flat F"
  unfolding fam_flat_def list_all_iff om_has_def
  using assms(1-3) assms(4) [OF iffD2 [OF om_wf_get_iff [OF assms(1)]]] by auto

text \<open>A network's root is its own root.\<close>

lemma merge_root_root: "nm_ok m \<Longrightarrow> merge_root m fam (merge_root m fam x) = merge_root m fam x"
  by (auto simp: merge_root_def dest!: nm_ok_fam dest: fam_flatD split: option.splits)

lemma merge_root_nonempty: "nm_ok m \<Longrightarrow> x \<noteq> [] \<Longrightarrow> merge_root m fam x \<noteq> []"
  by (auto simp: merge_root_def dest!: nm_ok_fam fam_flatD split: option.splits)

lemma at_get: "om_get (om_at [] m fam) x = (case om_get m fam of None \<Rightarrow> None | Some F \<Rightarrow> om_get F x)"
  by (simp add: om_at_def split: option.splits)

lemma merge_root_at: "merge_root m fam x = (case om_get (om_at [] m fam) x of None \<Rightarrow> x | Some t \<Rightarrow> t)"
  by (simp add: merge_root_def om_at_def split: option.splits)

lemma at_wf: "nm_ok m \<Longrightarrow> om_wf (om_at [] m fam)"
  by (auto simp: om_at_def fam_flat_def dest!: nm_ok_fam split: option.splits)

lemma at_flatD: "nm_ok m \<Longrightarrow> om_get (om_at [] m fam) k = Some t \<Longrightarrow> k \<noteq> [] \<and> t \<noteq> [] \<and> om_get (om_at [] m fam) t = None"
  by (auto simp: at_get dest: nm_ok_fam fam_flatD split: option.splits)

lemma at_length: "nm_ok m \<Longrightarrow> length (om_at [] m fam) \<le> kMaxMergesPerFamily"
  by (auto simp: om_at_def fam_flat_def dest!: nm_ok_fam split: option.splits)

lemma merges_add_cases:
  assumes "merges_add m fam src dst = (m', b)" "nm_ok m"
  obtains (same) "m' = m" "\<not> b"
  | (added) F r where "b" "fam \<noteq> []" "src \<noteq> []" "dst \<noteq> []" "F = om_at [] m fam" "r = merge_root m fam dst"
      "r \<noteq> src" "merge_root m fam src \<noteq> r" "om_has F src \<or> length F < kMaxMergesPerFamily"
      "m' = om_put fam (om_map (\<lambda>v. if v = src then r else v) (om_put src r F)) m"
proof -
  have id: "om_put fam (om_at [] m fam) m = m" if "kMaxMergesPerFamily \<le> length (om_at [] m fam)"
  proof (rule om_ext)
    fix k
    have "om_get m fam \<noteq> None" using that by (auto simp: om_at_def kMaxMergesPerFamily_def split: option.splits)
    then show "om_get (om_put fam (om_at [] m fam) m) k = om_get m k"
      using nm_ok_wf [OF assms(2)] by (auto simp: om_get_put om_at_def)
  qed (use nm_ok_wf [OF assms(2)] in auto)
  show thesis
  proof (cases b)
    case True
    with assms(1) show thesis
      by (intro added) (auto simp: merges_add_def Let_def split: if_splits)
  next
    case False
    with assms(1) id show thesis
      by (intro same) (auto simp: merges_add_def Let_def split: if_splits)
  qed
qed

lemma merges_add_ok:
  assumes "nm_ok m"
  shows "nm_ok (fst (merges_add m fam src dst))"
proof (cases "merges_add m fam src dst")
  case (Pair m' b)
  from this assms show ?thesis
  proof (cases rule: merges_add_cases)
    case same
    with Pair assms show ?thesis by simp
  next
    case (added F r)
    let ?g = "\<lambda>v. if v = src then r else v"
    have wf: "om_wf F" using assms added by (simp add: at_wf)
    have r: "om_get F r = None" "r \<noteq> []"
    proof -
      show "om_get F r = None" using assms added(5,6) at_flatD [OF assms, of fam]
        by (auto simp: merge_root_at split: option.splits)
      show "r \<noteq> []" using merge_root_nonempty [OF assms added(4)] added(6) by simp
    qed
    have "fam_flat (om_map ?g (om_put src r F))"
    proof (rule fam_flatI)
      show "length (om_map ?g (om_put src r F)) \<le> kMaxMergesPerFamily"
        using at_length [OF assms, of fam] added(5,9) wf by (auto simp: om_length_put)
      have "om_length": "length (om_put src r F) \<noteq> 0" using wf by (auto simp: om_length_put om_has_def)
      then show "om_map ?g (om_put src r F) \<noteq> []" by (metis length_0_conv om_length_map)
    next
      fix k t
      assume "om_get (om_map ?g (om_put src r F)) k = Some t"
      then have "k = src \<and> t = r \<or> k \<noteq> src \<and> (\<exists>v. om_get F k = Some v \<and> t = ?g v)"
        using wf added(7) by (auto simp: om_get_map om_get_put split: if_splits)
      then consider "k = src" "t = r" | v where "k \<noteq> src" "om_get F k = Some v" "t = ?g v"
        by blast
      then show "k \<noteq> [] \<and> t \<noteq> [] \<and> om_get (om_map ?g (om_put src r F)) t = None"
      proof cases
        case 1
        with added r wf show ?thesis by (auto simp: om_get_map om_get_put)
      next
        case 2
        with added(5) at_flatD [OF assms, of fam k v] added(7) r wf show ?thesis
          by (auto simp: om_get_map om_get_put)
      qed
    qed (use wf in auto)
    with added assms Pair show ?thesis by (simp add: nm_ok_put)
  qed
qed

lemma merges_remove_ok:
  assumes "nm_ok m"
  shows "nm_ok (fst (merges_remove m fam key))"
proof (cases "om_get m fam")
  case (Some F)
  with assms have F: "fam \<noteq> []" "fam_flat F" using nm_ok_fam by auto
  define F' where "F' = (if om_has F key then om_del key F else om_filter (\<lambda>k v. v \<noteq> key) F)"
  have sub: "om_get F' k = Some t \<Longrightarrow> om_get F k = Some t" for k t
    using F by (auto simp: F'_def om_get_del om_get_filter_wf fam_flat_def split: if_splits option.splits)
  have "fam_flat F'" if "F' \<noteq> []"
  proof (rule fam_flatI)
    show "om_wf F'" using F by (auto simp: F'_def fam_flat_def)
    have "length F' \<le> length F" by (auto simp: F'_def om_filter_def)
    with F show "length F' \<le> kMaxMergesPerFamily" by (auto simp: fam_flat_def)
    fix k t assume "om_get F' k = Some t"
    with sub fam_flatD [OF F(2), of k t] show "k \<noteq> [] \<and> t \<noteq> [] \<and> om_get F' t = None"
      by (metis option.exhaust option.distinct(1))
  qed (rule that)
  with Some F assms show ?thesis
    by (simp add: merges_remove_def Let_def F'_def [symmetric] nm_ok_put nm_ok_del)
qed (use assms in \<open>simp add: merges_remove_def\<close>)

lemma merges_union_ok: "nm_ok into \<Longrightarrow> nm_ok (merges_union into from)"
proof -
  have "nm_ok m \<Longrightarrow> nm_ok (foldl merges_union_step m rs)" for m rs
    by (induction rs arbitrary: m) (auto simp: merges_union_step_def merges_add_ok split: prod.splits)
  then show "nm_ok into \<Longrightarrow> nm_ok (merges_union into from)" by (simp add: merges_union_def)
qed

text \<open>Every way the server changes its rules, from an empty set.\<close>

inductive nm_reach :: "net_merges \<Rightarrow> bool" where
  empty: "nm_reach []"
| add: "nm_reach m \<Longrightarrow> nm_reach (fst (merges_add m fam src dst))"
| remove: "nm_reach m \<Longrightarrow> nm_reach (fst (merges_remove m fam key))"
| union: "nm_reach m \<Longrightarrow> nm_reach (merges_union m from)"

lemma nm_reach_ok: "nm_reach m \<Longrightarrow> nm_ok m"
  by (induction rule: nm_reach.induct) (simp_all add: merges_add_ok merges_remove_ok merges_union_ok)

section \<open>What the operations mean\<close>

text \<open>
  However the rules were changed (merges added, removed, taken over from an import), following
  them once is enough: the network a network is shown under is shown under itself, and a protocol
  never has more than the allowed number of rules.
\<close>

lemma merges_reachable_flat:
  "nm_reach m \<Longrightarrow> merge_root m fam (merge_root m fam x) = merge_root m fam x \<and>
     length (om_at [] m fam) \<le> kMaxMergesPerFamily"
  by (simp add: nm_reach_ok merge_root_root at_length)

lemma merges_reachable_flat_witness:
  "merge_root [(''dmr'', [(''a'', ''c''), (''b'', ''c'')])] ''dmr'' (merge_root [(''dmr'', [(''a'', ''c''), (''b'', ''c'')])] ''dmr'' ''a'') = ''c'' \<and>
   length (om_at [] [(''dmr'', [(''a'', ''c''), (''b'', ''c'')])] ''dmr'') \<le> kMaxMergesPerFamily"
proof -
  have "nm_reach (fst (merges_add (fst (merges_add [] ''dmr'' ''a'' ''b'')) ''dmr'' ''b'' ''c''))"
    by (intro nm_reach.intros)
  moreover have "fst (merges_add (fst (merges_add [] ''dmr'' ''a'' ''b'')) ''dmr'' ''b'' ''c'') =
      [(''dmr'', [(''a'', ''c''), (''b'', ''c'')])]" by code_simp
  ultimately show ?thesis
    using merges_reachable_flat [of "[(''dmr'', [(''a'', ''c''), (''b'', ''c'')])]" "''dmr''" "''a''"]
    by (simp add: merge_root_def)
qed

text \<open>
  A successful \<open>merges_add\<close> joins two groups and touches nothing else: exactly the network named
  and those shown under it move, and they move to the network the target is shown under.
\<close>

lemma merges_add_joins:
  assumes "nm_ok m" "merges_add m fam src dst = (m', True)"
  shows "merge_root m' g x =
    (if g = fam \<and> (x = src \<or> merge_root m fam x = src) then merge_root m fam dst else merge_root m g x)"
  using assms(2,1)
proof (cases rule: merges_add_cases)
  case (added F r)
  have wf: "om_wf m" "om_wf F" using assms(1) added(5) by (auto simp: nm_ok_wf at_wf)
  show ?thesis
  proof (cases "g = fam")
    case True
    have "om_at [] m' fam = om_map (\<lambda>v. if v = src then r else v) (om_put src r F)"
      using wf(1) by (simp add: added(10) om_at_def om_get_put)
    with True wf(2) added(5-7) show ?thesis
      by (auto simp: merge_root_at om_get_map om_get_put split: option.splits)
  next
    case False
    with wf(1) show ?thesis by (simp add: added(10) merge_root_def om_get_put)
  qed
qed simp

lemma merges_add_joins_witness:
  "merge_root [(''p25'', [(''a'', ''c''), (''b'', ''c'')])] ''p25'' ''a'' = merge_root [(''p25'', [(''a'', ''b'')])] ''p25'' ''c''"
proof -
  have "nm_ok [(''p25'', [(''a'', ''b'')])]" by code_simp
  moreover have "merges_add [(''p25'', [(''a'', ''b'')])] ''p25'' ''b'' ''c'' =
      ([(''p25'', [(''a'', ''c''), (''b'', ''c'')])], True)" by code_simp
  ultimately show ?thesis
    using merges_add_joins [of "[(''p25'', [(''a'', ''b'')])]" "''p25''" "''b''" "''c''" _ "''p25''" "''a''"]
    by (simp add: merge_root_def)
qed

text \<open>
  \<open>merges_remove\<close> undoes a merge: a merged network is shown under itself again, a network others
  were shown under lets all of them go, and every other network is shown as before.
\<close>

lemma merges_remove_frees:
  assumes "nm_ok m"
  shows "merge_root (fst (merges_remove m fam key)) g x =
    (if g = fam \<and> (x = key \<or> om_get (om_at [] m fam) key = None \<and> merge_root m fam x = key) then x
     else merge_root m g x)"
proof (cases "om_get m fam")
  case None
  then show ?thesis by (auto simp: merges_remove_def merge_root_def)
next
  case (Some F)
  with assms have F: "fam_flat F" "om_wf F" "om_wf m" by (auto simp: fam_flat_def nm_ok_wf dest: nm_ok_fam)
  define F' where "F' = (if om_has F key then om_del key F else om_filter (\<lambda>k v. v \<noteq> key) F)"
  have at: "om_at [] m fam = F" using Some by (simp add: om_at_def)
  have m': "merges_remove m fam key = (if F' = [] then om_del fam m else om_put fam F' m, om_has F key \<or> length F' < length F)"
    using Some by (simp add: merges_remove_def Let_def F'_def)
  show ?thesis
  proof (cases "g = fam")
    case False
    with F(3) show ?thesis by (auto simp: m' merge_root_def om_get_put om_get_del)
  next
    case True
    have "om_get (om_at [] (fst (merges_remove m fam key)) fam) x = om_get F' x"
      using F(3) by (auto simp: m' om_at_def om_get_put om_get_del)
    moreover have "om_get F' x = (if om_has F key then (if x = key then None else om_get F x)
        else case om_get F x of Some v \<Rightarrow> if v \<noteq> key then Some v else None | None \<Rightarrow> None)"
      using F(2) by (simp add: F'_def om_get_del om_get_filter_wf)
    ultimately show ?thesis using True
      by (auto simp: merge_root_at at om_has_def split: option.splits)
  qed
qed

lemma merges_remove_frees_witness:
  "merge_root (fst (merges_remove [(''p25'', [(''a'', ''c''), (''b'', ''c'')])] ''p25'' ''c'')) ''p25'' ''a'' = ''a''"
proof -
  have "nm_ok [(''p25'', [(''a'', ''c''), (''b'', ''c'')])]" by code_simp
  from merges_remove_frees [OF this, of "''p25''" "''c''" "''p25''" "''a''"]
  show ?thesis by (simp add: merge_root_def om_at_def)
qed

text \<open>
  Taking over the merges of another dataset never drops a rule the receiver already has: a network
  it shows under another one still is shown under another one.
\<close>

lemma merges_union_keeps_rules:
  assumes "nm_ok into" "om_has (om_at [] into fam) k"
  shows "om_has (om_at [] (merges_union into from) fam) k"
proof -
  have step: "om_has (om_at [] (fst (merges_add m f s t)) fam) k"
    if "nm_ok m" "om_has (om_at [] m fam) k" for m f s t
  proof (cases "merges_add m f s t")
    case (Pair m' b)
    from Pair that(1) show ?thesis
    proof (cases rule: merges_add_cases)
      case (added F r)
      with that Pair nm_ok_wf [OF that(1)] at_wf [OF that(1), of f] show ?thesis
        by (auto simp: om_at_def om_get_put om_has_def om_get_map split: if_splits)
    qed (use Pair that in simp)
  qed
  have "nm_ok m \<Longrightarrow> om_has (om_at [] m fam) k \<Longrightarrow> om_has (om_at [] (foldl merges_union_step m rs) fam) k" for m rs
  proof (induction rs arbitrary: m)
    case (Cons r rs)
    obtain f s t where r: "r = (f, s, t)" by (cases r)
    have "nm_ok (merges_union_step m r)" using Cons.prems by (simp add: merges_union_step_def r merges_add_ok)
    moreover have "om_has (om_at [] (merges_union_step m r) fam) k"
      using Cons.prems step by (simp add: merges_union_step_def r)
    ultimately show ?case using Cons.IH by simp
  qed simp
  with assms show ?thesis by (simp add: merges_union_def)
qed

end
