(* ===== verification/Dataset.thy ===== *)
theory Dataset
  imports Net_Merges "HOL-Library.Word"
begin

unbundle bit_operations_syntax

text \<open>
  The explorer's data in plain form (\<open>src/assoc_merge.hpp\<close>): networks, talkgroups, radios and calls of
  each protocol, the server runs the data came from and the network merges; the bounded histories
  and key counters they hold; and their JSON text (\<open>families_json\<close>, \<open>sources_json\<close>, \<open>export_json\<close>).
\<close>

section \<open>The records\<close>

type_synonym counts = "(string, nat) omap"

record ds_network =
  n_key :: string
  n_label :: string
  n_confidence :: string
  n_ids :: "(string, string) omap"
  n_sites :: "string oset"
  n_freqs :: "int oset"
  n_sessions :: nat
  n_calls :: nat
  n_first :: int
  n_last :: int
  n_keys :: counts

record ds_talkgroup =
  t_id :: string
  t_radios :: counts
  t_networks :: "string oset"
  t_calls :: nat
  t_emerg :: nat
  t_enc :: nat
  t_first :: int
  t_last :: int
  t_keys :: counts

type_synonym track = "(int \<times> string) list"

record ds_radio =
  r_id :: string
  r_aliases :: "string list"
  r_tgs :: counts
  r_peers :: counts
  r_networks :: "string oset"
  r_keys :: counts
  r_calls :: nat
  r_first :: int
  r_last :: int
  r_pos :: string
  r_pos_t :: int
  r_track :: track

record ds_call =
  c_id :: nat
  c_session :: nat
  c_streams :: nat
  c_net :: string
  c_site :: string
  c_slot :: string
  c_src :: string
  c_tgt :: string
  c_alias :: string
  c_text :: string
  c_svc :: string
  c_pos :: string
  c_priv :: bool
  c_voice :: bool
  c_data :: bool
  c_emerg :: bool
  c_enc :: bool
  c_open :: bool
  c_alg :: string
  c_kid :: string
  c_start :: int
  c_last :: int
  c_freq :: int
  c_audio :: string
  c_audio_ms :: nat
  c_qual :: string
  c_qsil :: dbl
  c_qrep :: dbl
  c_qerr :: dbl
  c_qframes :: nat

record ds_family =
  f_networks :: "(string, ds_network) omap"
  f_tgs :: "(string, ds_talkgroup) omap"
  f_radios :: "(string, ds_radio) omap"
  f_calls :: "ds_call list"

record ds_source =
  s_instance :: string
  s_name :: string
  s_since :: int
  s_through :: int

record dataset =
  d_id :: nat
  d_label :: string
  d_exported :: int
  d_sources :: "ds_source list"
  d_fams :: "(string, ds_family) omap"
  d_merges :: net_merges

text \<open>What the default constructors give.\<close>

definition ds_network0 :: ds_network where
  "ds_network0 = \<lparr>n_key = [], n_label = [], n_confidence = [], n_ids = [], n_sites = [], n_freqs = [],
     n_sessions = 0, n_calls = 0, n_first = 0, n_last = 0, n_keys = []\<rparr>"

definition ds_talkgroup0 :: ds_talkgroup where
  "ds_talkgroup0 = \<lparr>t_id = [], t_radios = [], t_networks = [], t_calls = 0, t_emerg = 0, t_enc = 0,
     t_first = 0, t_last = 0, t_keys = []\<rparr>"

definition ds_radio0 :: ds_radio where
  "ds_radio0 = \<lparr>r_id = [], r_aliases = [], r_tgs = [], r_peers = [], r_networks = [], r_keys = [],
     r_calls = 0, r_first = 0, r_last = 0, r_pos = [], r_pos_t = 0, r_track = []\<rparr>"

definition ds_call0 :: ds_call where
  "ds_call0 = \<lparr>c_id = 0, c_session = 0, c_streams = 1, c_net = [], c_site = [], c_slot = [], c_src = [],
     c_tgt = [], c_alias = [], c_text = [], c_svc = [], c_pos = [], c_priv = False, c_voice = False,
     c_data = False, c_emerg = False, c_enc = False, c_open = False, c_alg = [], c_kid = [], c_start = 0,
     c_last = 0, c_freq = 0, c_audio = [], c_audio_ms = 0, c_qual = [], c_qsil = DFin 0, c_qrep = DFin 0,
     c_qerr = DFin 0, c_qframes = 0\<rparr>"

definition ds_family0 :: ds_family where
  "ds_family0 = \<lparr>f_networks = [], f_tgs = [], f_radios = [], f_calls = []\<rparr>"

definition dataset0 :: dataset where
  "dataset0 = \<lparr>d_id = 0, d_label = [], d_exported = 0, d_sources = [], d_fams = [], d_merges = []\<rparr>"

section \<open>Position histories and key counters\<close>

definition kMaxTrack :: nat where
  "kMaxTrack = 100"

definition track_add :: "track \<Rightarrow> int \<Rightarrow> string \<Rightarrow> track" where
  "track_add tr t pos =
     (if tr \<noteq> [] \<and> snd (last tr) = pos then butlast tr @ [(max (fst (last tr)) t, pos)]
      else let tr' = tr @ [(t, pos)]
        in if kMaxTrack < length tr' then drop (length tr' - kMaxTrack) tr' else tr')"

definition svc_rank :: "string \<Rightarrow> nat" where
  "svc_rank s =
     (if s = [] then 0 else if s = ''preamble'' then 1 else if s = ''ack'' then 2
      else if s = ''data'' then 3 else 4)"

definition enc_key :: "string \<Rightarrow> string \<Rightarrow> string" where
  "enc_key alg kid = alg @ '':'' @ kid"

definition kMaxKeys :: nat where
  "kMaxKeys = 32"

definition key_add :: "string \<Rightarrow> nat \<Rightarrow> counts \<Rightarrow> counts" where
  "key_add k n m =
     (case om_get m k of
        Some v \<Rightarrow> om_put k (v + n) m
      | None \<Rightarrow> if length m < kMaxKeys then om_put k n m else m)"

text \<open>\<open>m[k] += n\<close> on a counter map.\<close>

definition count_add :: "string \<Rightarrow> nat \<Rightarrow> counts \<Rightarrow> counts" where
  "count_add k n m = om_put k (om_at 0 m k + n) m"

definition kDefaultMaxCalls :: nat where
  "kDefaultMaxCalls = 10000"

text \<open>
  \<open>env\<close> is the value of \<open>DSD_NET_MAX_CALLS\<close>, \<open>strtoul\<close> its decimal reading: leading spaces and a
  sign are accepted, a minus sign negates modulo \<open>2 ^ 64\<close>, and an overflow gives the maximum.
\<close>

definition strtoul :: "string \<Rightarrow> nat" where
  "strtoul s =
     (let t = skip_ws s; neg = (t \<noteq> [] \<and> hd t = CHR ''-'');
          u = (if t \<noteq> [] \<and> (hd t = CHR ''-'' \<or> hd t = CHR ''+'') then tl t else t);
          v = dec_val (takeWhile is_digit u)
      in if 2 ^ 64 \<le> v then 2 ^ 64 - 1 else if neg \<and> v \<noteq> 0 then 2 ^ 64 - v else v)"

definition max_calls_setting :: "string option \<Rightarrow> nat" where
  "max_calls_setting env =
     (let n = (case env of Some v \<Rightarrow> if v \<noteq> [] then strtoul v else kDefaultMaxCalls | None \<Rightarrow> kDefaultMaxCalls)
      in if n < 10 then 10 else n)"

definition kTwinGapMs :: int where
  "kTwinGapMs = 4000"

section \<open>JSON text\<close>

definition jlist :: "('a \<Rightarrow> string) \<Rightarrow> 'a list \<Rightarrow> string" where
  "jlist f xs = ''['' @ jcommas (map f xs) @ '']''"

definition opt_keys :: "counts \<Rightarrow> string" where
  "opt_keys k = (if k \<noteq> [] then jt '',`keys`:'' @ jcounts k else [])"

definition network_json :: "ds_network \<Rightarrow> string" where
  "network_json n =
     jt ''{`key`:'' @ jq (n_key n) @ jt '',`label`:'' @ jq (n_label n) @ jt '',`confidence`:'' @ jq (n_confidence n) @
     jt '',`ids`:'' @ jobj (n_ids n) @ jt '',`sites`:'' @ jarr (n_sites n) @ jt '',`freqs`:'' @ jnums (n_freqs n) @
     jt '',`sessions`:'' @ nat_dec (n_sessions n) @ jt '',`calls`:'' @ nat_dec (n_calls n) @
     jt '',`first`:'' @ int_dec (n_first n) @ jt '',`last`:'' @ int_dec (n_last n) @ opt_keys (n_keys n) @ ''}''"

definition talkgroup_json :: "ds_talkgroup \<Rightarrow> string" where
  "talkgroup_json t =
     jt ''{`id`:'' @ jq (t_id t) @ jt '',`networks`:'' @ jarr (t_networks t) @ jt '',`radios`:'' @ jcounts (t_radios t) @
     jt '',`calls`:'' @ nat_dec (t_calls t) @ jt '',`emerg`:'' @ nat_dec (t_emerg t) @ jt '',`enc`:'' @ nat_dec (t_enc t) @
     jt '',`first`:'' @ int_dec (t_first t) @ jt '',`last`:'' @ int_dec (t_last t) @ opt_keys (t_keys t) @ ''}''"

definition track_json :: "track \<Rightarrow> string" where
  "track_json tr = jlist (\<lambda>(t, p). ''['' @ int_dec t @ '','' @ jq p @ '']'') tr"

definition radio_json :: "ds_radio \<Rightarrow> string" where
  "radio_json r =
     jt ''{`id`:'' @ jq (r_id r) @ jt '',`aliases`:'' @ jarr (r_aliases r) @ jt '',`tgs`:'' @ jcounts (r_tgs r) @
     jt '',`peers`:'' @ jcounts (r_peers r) @ jt '',`networks`:'' @ jarr (r_networks r) @
     jt '',`calls`:'' @ nat_dec (r_calls r) @ jt '',`first`:'' @ int_dec (r_first r) @ jt '',`last`:'' @ int_dec (r_last r) @
     opt_keys (r_keys r) @
     (if r_pos r \<noteq> [] then jt '',`pos`:'' @ jq (r_pos r) @ jt '',`pos_t`:'' @ int_dec (r_pos_t r) else []) @
     (if r_track r \<noteq> [] then jt '',`track`:'' @ track_json (r_track r) else []) @ ''}''"

definition call_json :: "ds_call \<Rightarrow> string" where
  "call_json k =
     jt ''{`id`:'' @ nat_dec (c_id k) @ jt '',`session`:'' @ nat_dec (c_session k) @ jt '',`net`:'' @ jq (c_net k) @
     jt '',`site`:'' @ jq (c_site k) @ jt '',`freq`:'' @ int_dec (c_freq k) @ jt '',`slot`:'' @ jq (c_slot k) @
     jt '',`src`:'' @ jq (c_src k) @ jt '',`tgt`:'' @ jq (c_tgt k) @ jt '',`alias`:'' @ jq (c_alias k) @
     jt '',`text`:'' @ jq (c_text k) @ jt '',`priv`:'' @ jb (c_priv k) @ jt '',`voice`:'' @ jb (c_voice k) @
     jt '',`data`:'' @ jb (c_data k) @ jt '',`emerg`:'' @ jb (c_emerg k) @ jt '',`enc`:'' @ jb (c_enc k) @
     jt '',`open`:'' @ jb (c_open k) @ jt '',`streams`:'' @ nat_dec (c_streams k) @
     jt '',`start`:'' @ int_dec (c_start k) @ jt '',`last`:'' @ int_dec (c_last k) @
     (if c_audio k \<noteq> [] then jt '',`audio`:'' @ jq (c_audio k) @ jt '',`audio_ms`:'' @ nat_dec (c_audio_ms k) else []) @
     (if c_svc k \<noteq> [] then jt '',`svc`:'' @ jq (c_svc k) else []) @
     (if c_pos k \<noteq> [] then jt '',`pos`:'' @ jq (c_pos k) else []) @
     (if c_kid k \<noteq> [] then jt '',`alg`:'' @ jq (c_alg k) @ jt '',`kid`:'' @ jq (c_kid k) else []) @
     (if c_qual k \<noteq> [] then jt '',`q`:'' @ jq (c_qual k) @ jt '',`qs`:'' @ fmt_dbl (c_qsil k) @
        jt '',`qr`:'' @ fmt_dbl (c_qrep k) @ jt '',`qe`:'' @ fmt_dbl (c_qerr k) @ jt '',`qn`:'' @ nat_dec (c_qframes k)
      else []) @ ''}''"

definition family_json :: "ds_family \<Rightarrow> string" where
  "family_json F =
     jt ''{`networks`:'' @ jlist (\<lambda>p. network_json (snd p)) (f_networks F) @
     jt '',`talkgroups`:'' @ jlist (\<lambda>p. talkgroup_json (snd p)) (f_tgs F) @
     jt '',`radios`:'' @ jlist (\<lambda>p. radio_json (snd p)) (f_radios F) @
     jt '',`calls`:'' @ jlist call_json (f_calls F) @ ''}''"

definition families_json :: "dataset \<Rightarrow> string" where
  "families_json d =
     ''{'' @ jcommas (map (\<lambda>(fam, F). jq fam @ '':'' @ family_json F) (d_fams d)) @ ''}''"

definition source_json :: "ds_source \<Rightarrow> string" where
  "source_json s =
     jt ''{`instance`:'' @ jq (s_instance s) @ jt '',`name`:'' @ jq (s_name s) @
     jt '',`since`:'' @ int_dec (s_since s) @ jt '',`through`:'' @ int_dec (s_through s) @ ''}''"

definition sources_json :: "ds_source list \<Rightarrow> string" where
  "sources_json ss = jlist source_json ss"

text \<open>The rules about networks the dataset holds; a protocol without one gets no entry.\<close>

definition merges_held :: "dataset \<Rightarrow> net_merges" where
  "merges_held d =
     filter (\<lambda>(fam, R). R \<noteq> [])
       (map (\<lambda>(fam, R). (fam,
            case om_get (d_fams d) fam of
              None \<Rightarrow> []
            | Some F \<Rightarrow> om_filter (\<lambda>k v. om_has (f_networks F) k \<or> om_has (f_networks F) v) R)) (d_merges d))"

definition export_json :: "dataset \<Rightarrow> int \<Rightarrow> string \<Rightarrow> string \<Rightarrow> string" where
  "export_json d now inst name =
     (let mg = merges_held d
      in jt ''{`format`:`dsd-net-export`,`format_version`:1,`source`:`dsd-server`,`instance`:'' @ jq inst @
         jt '',`name`:'' @ jq name @ jt '',`exported`:'' @ int_dec now @ jt '',`now`:'' @ int_dec now @
         jt '',`sources`:'' @ sources_json (d_sources d) @
         (if mg = [] then [] else jt '',`merges`:'' @ merges_json mg) @ jt '',`families`:'' @ families_json d @ ''}'')"

section \<open>Content identities\<close>

definition fnv_step :: "64 word \<Rightarrow> char \<Rightarrow> 64 word" where
  "fnv_step h c = (h XOR word_of_nat (byte c)) * 1099511628211"

fun nat_hex :: "nat \<Rightarrow> string" where
  "nat_hex n = (if n < 16 then [hex_digit n] else nat_hex (n div 16) @ [hex_digit (n mod 16)])"

declare nat_hex.simps [simp del]

definition fnv_hex :: "string \<Rightarrow> string" where
  "fnv_hex s = pad_left 16 (CHR ''0'') (nat_hex (unat (foldl fnv_step 1469598103934665603 s)))"

section \<open>Bounds\<close>

lemma track_add_bound: "length tr \<le> kMaxTrack \<Longrightarrow> length (track_add tr t pos) \<le> kMaxTrack"
  by (cases tr rule: rev_cases) (auto simp: track_add_def Let_def)

lemma track_add_no_repeat:
  assumes "distinct_adj (map snd tr)"
  shows "distinct_adj (map snd (track_add tr t pos))"
proof (cases tr rule: rev_cases)
  case Nil
  then show ?thesis by (simp add: track_add_def kMaxTrack_def)
next
  case (snoc ys y)
  show ?thesis
  proof (cases "snd y = pos")
    case True
    with snoc assms show ?thesis by (auto simp: track_add_def)
  next
    case False
    define tr' where "tr' = tr @ [(t, pos)]"
    have d: "distinct_adj (map snd tr')"
      using assms False by (simp add: tr'_def snoc distinct_adj_append_iff)
    have "distinct_adj (map snd (take n tr') @ map snd (drop n tr'))" for n
      using d by (metis append_take_drop_id map_append)
    then have "distinct_adj (map snd (drop n tr'))" for n
      by (meson distinct_adj_append_iff)
    moreover have "track_add tr t pos = drop (length tr' - kMaxTrack) tr'"
      using False snoc by (simp add: track_add_def tr'_def Let_def)
    ultimately show ?thesis by simp
  qed
qed

lemma key_add_bound: "om_wf m \<Longrightarrow> length m \<le> kMaxKeys \<Longrightarrow> length (key_add k n m) \<le> kMaxKeys"
  by (auto simp: key_add_def om_length_put om_has_def split: option.splits)

lemma key_add_wf [wf_intros, simp]: "om_wf m \<Longrightarrow> om_wf (key_add k n m)"
  by (simp add: key_add_def split: option.splits)

lemma count_add_wf [wf_intros, simp]: "om_wf m \<Longrightarrow> om_wf (count_add k n m)"
  by (simp add: count_add_def)

lemma max_calls_setting_min: "10 \<le> max_calls_setting env"
  by (simp add: max_calls_setting_def Let_def)


end
