(* ===== verification/Dataset_Import.thy ===== *)
theory Dataset_Import
  imports Dataset
begin

text \<open>
  Reading an uploaded export (\<open>dataset_from_export\<close> and \<open>dataset_from_export_text\<close> of
  \<open>src/assoc_merge.hpp\<close>): the records of each protocol, the server runs the data came from, the
  qualification of keys that are local to the export's own run, and its network merges. The inflate
  routine of zlib is the parameter \<open>inflate\<close>.
\<close>

section \<open>Readers of one field\<close>

definition j_u :: "jval \<Rightarrow> string \<Rightarrow> nat" where
  "j_u v k = (let d = v_num v k in if dbl_pos d then to_u64 d else 0)"

definition j_i64 :: "jval \<Rightarrow> string \<Rightarrow> int" where
  "j_i64 v k = to_i64 (v_num v k)"

definition j_arr :: "jval option \<Rightarrow> jval list" where
  "j_arr v = (case v of Some (JArr xs) \<Rightarrow> xs | _ \<Rightarrow> [])"

definition j_obj :: "jval option \<Rightarrow> (string \<times> jval) list" where
  "j_obj v = (case v of Some (JObj ms) \<Rightarrow> ms | _ \<Rightarrow> [])"

definition j_strset :: "jval option \<Rightarrow> string oset" where
  "j_strset v = foldl (\<lambda>acc e. case e of JStr s \<Rightarrow> os_put s acc | _ \<Rightarrow> acc) [] (j_arr v)"

definition j_countmap :: "jval option \<Rightarrow> counts" where
  "j_countmap v =
     foldl (\<lambda>acc (k, e). case e of JNum d \<Rightarrow> if dbl_pos d then count_add k (to_u64 d) acc else acc | _ \<Rightarrow> acc)
       [] (j_obj v)"

section \<open>The records\<close>

definition read_network :: "jval \<Rightarrow> ds_network" where
  "read_network e =
     \<lparr>n_key = v_str e ''key'', n_label = v_str e ''label'', n_confidence = v_str e ''confidence'',
      n_ids = foldl (\<lambda>acc (k, x). case x of JStr s \<Rightarrow> om_put k s acc | _ \<Rightarrow> acc) [] (j_obj (v_get e ''ids'')),
      n_sites = j_strset (v_get e ''sites''),
      n_freqs = foldl (\<lambda>acc x. case x of JNum d \<Rightarrow> if dbl_pos d then os_put (to_i64 d) acc else acc | _ \<Rightarrow> acc)
        [] (j_arr (v_get e ''freqs'')),
      n_sessions = j_u e ''sessions'', n_calls = j_u e ''calls'', n_first = j_i64 e ''first'',
      n_last = j_i64 e ''last'', n_keys = j_countmap (v_get e ''keys'')\<rparr>"

definition read_talkgroup :: "jval \<Rightarrow> ds_talkgroup" where
  "read_talkgroup e =
     \<lparr>t_id = v_str e ''id'', t_radios = j_countmap (v_get e ''radios''),
      t_networks = j_strset (v_get e ''networks''), t_calls = j_u e ''calls'', t_emerg = j_u e ''emerg'',
      t_enc = j_u e ''enc'', t_first = j_i64 e ''first'', t_last = j_i64 e ''last'',
      t_keys = j_countmap (v_get e ''keys'')\<rparr>"

definition read_track :: "jval option \<Rightarrow> track" where
  "read_track v =
     foldl (\<lambda>tr x. case x of JArr [JNum d, JStr p] \<Rightarrow> track_add tr (to_i64 d) p | _ \<Rightarrow> tr) [] (j_arr v)"

definition read_radio :: "jval \<Rightarrow> ds_radio" where
  "read_radio e =
     \<lparr>r_id = v_str e ''id'',
      r_aliases = foldl (\<lambda>acc x. case x of JStr s \<Rightarrow> acc @ [s] | _ \<Rightarrow> acc) [] (j_arr (v_get e ''aliases'')),
      r_tgs = j_countmap (v_get e ''tgs''), r_peers = j_countmap (v_get e ''peers''),
      r_networks = j_strset (v_get e ''networks''), r_keys = j_countmap (v_get e ''keys''),
      r_calls = j_u e ''calls'', r_first = j_i64 e ''first'', r_last = j_i64 e ''last'',
      r_pos = v_str e ''pos'', r_pos_t = j_i64 e ''pos_t'', r_track = read_track (v_get e ''track'')\<rparr>"

definition read_call :: "jval \<Rightarrow> ds_call" where
  "read_call e =
     \<lparr>c_id = j_u e ''id'', c_session = j_u e ''session'', c_streams = max 1 (j_u e ''streams''),
      c_net = v_str e ''net'', c_site = v_str e ''site'', c_slot = v_str e ''slot'', c_src = v_str e ''src'',
      c_tgt = v_str e ''tgt'', c_alias = v_str e ''alias'', c_text = v_str e ''text'', c_svc = v_str e ''svc'',
      c_pos = v_str e ''pos'', c_priv = v_bool e ''priv'', c_voice = v_bool e ''voice'',
      c_data = v_bool e ''data'', c_emerg = v_bool e ''emerg'', c_enc = v_bool e ''enc'', c_open = False,
      c_alg = v_str e ''alg'', c_kid = v_str e ''kid'', c_start = j_i64 e ''start'', c_last = j_i64 e ''last'',
      c_freq = j_i64 e ''freq'', c_audio = v_str e ''audio'', c_audio_ms = j_u e ''audio_ms'',
      c_qual = v_str e ''q'', c_qsil = v_num e ''qs'', c_qrep = v_num e ''qr'', c_qerr = v_num e ''qe'',
      c_qframes = j_u e ''qn'' mod 2 ^ 32\<rparr>"

text \<open>A record without its key is skipped; a repeated key keeps the last record.\<close>

definition put_by :: "('r \<Rightarrow> string) \<Rightarrow> (jval \<Rightarrow> 'r) \<Rightarrow> (string, 'r) omap \<Rightarrow> jval list \<Rightarrow> (string, 'r) omap" where
  "put_by key rd m es = foldl (\<lambda>acc e. let r = rd e in if key r = [] then acc else om_put (key r) r acc) m es"

definition read_family :: "ds_family \<Rightarrow> jval \<Rightarrow> ds_family" where
  "read_family F v =
     F\<lparr>f_networks := put_by n_key read_network (f_networks F) (j_arr (v_get v ''networks'')),
       f_tgs := put_by t_id read_talkgroup (f_tgs F) (j_arr (v_get v ''talkgroups'')),
       f_radios := put_by r_id read_radio (f_radios F) (j_arr (v_get v ''radios'')),
       f_calls := f_calls F @ map read_call (j_arr (v_get v ''calls''))\<rparr>"

definition read_fam_step :: "(string, ds_family) omap \<Rightarrow> string \<times> jval \<Rightarrow> (string, ds_family) omap" where
  "read_fam_step acc m =
     (case snd m of
        JObj _ \<Rightarrow> om_put (fst m) (read_family (om_at ds_family0 acc (fst m)) (snd m)) acc
      | _ \<Rightarrow> acc)"

definition read_families :: "(string \<times> jval) list \<Rightarrow> (string, ds_family) omap" where
  "read_families ms = foldl read_fam_step [] ms"

definition read_source :: "jval \<Rightarrow> ds_source" where
  "read_source e =
     \<lparr>s_instance = v_str e ''instance'', s_name = v_str e ''name'', s_since = j_i64 e ''since'',
      s_through = j_i64 e ''through''\<rparr>"

definition read_sources :: "jval option \<Rightarrow> ds_source list" where
  "read_sources v = filter (\<lambda>s. s_instance s \<noteq> []) (map read_source (j_arr v))"

section \<open>Keys that are local to the export's own run\<close>

record channel_merge =
  cm_per_receiver :: bool
  cm_home :: string

definition has_tilde :: "string \<Rightarrow> bool" where
  "has_tilde k \<longleftrightarrow> find_char (CHR ''~'') k \<noteq> None"

definition middle_dot :: string where
  "middle_dot = [CHR '' '', CHR 0xC2, CHR 0xB7, CHR '' '']"

text \<open>The key a network is qualified under, when it is.\<close>

definition qualify :: "channel_merge \<Rightarrow> string \<Rightarrow> string \<Rightarrow> ds_network \<Rightarrow> string option" where
  "qualify cm tag who n =
     (if has_tilde (n_key n) then None
      else if n_confidence n = ''channel'' then
        (if cm_per_receiver cm \<and> who \<noteq> cm_home cm then Some (n_key n @ ''~'' @ who) else None)
      else if n_confidence n \<noteq> ''strong'' then Some (n_key n @ ''~'' @ tag)
      else None)"

definition requalify :: "channel_merge \<Rightarrow> string \<Rightarrow> string \<Rightarrow> ds_network \<Rightarrow> ds_network" where
  "requalify cm tag who n =
     (case qualify cm tag who n of
        None \<Rightarrow> n
      | Some k \<Rightarrow> n\<lparr>n_key := k, n_label := n_label n @ middle_dot @ who\<rparr>)"

definition remap_of :: "channel_merge \<Rightarrow> string \<Rightarrow> string \<Rightarrow> ds_family \<Rightarrow> (string, string) omap" where
  "remap_of cm tag who F =
     foldl (\<lambda>acc (_, n). case qualify cm tag who n of None \<Rightarrow> acc | Some k \<Rightarrow> om_put (n_key n) k acc) [] (f_networks F)"

definition rename :: "(string, string) omap \<Rightarrow> string \<Rightarrow> string" where
  "rename rm k = om_at k rm k"

definition rename_set :: "(string, string) omap \<Rightarrow> string oset \<Rightarrow> string oset" where
  "rename_set rm s = foldl (\<lambda>acc k. os_put (rename rm k) acc) [] s"

definition qualify_family :: "channel_merge \<Rightarrow> string \<Rightarrow> string \<Rightarrow> ds_family \<Rightarrow> ds_family" where
  "qualify_family cm tag who F =
     (let rm = remap_of cm tag who F;
          F' = F\<lparr>f_networks := foldl (\<lambda>acc (_, n). let q = requalify cm tag who n in om_emplace (n_key q) q acc)
                 [] (f_networks F)\<rparr>
      in if rm = [] then F'
         else F'\<lparr>f_tgs := om_map (\<lambda>t. t\<lparr>t_networks := rename_set rm (t_networks t)\<rparr>) (f_tgs F),
                 f_radios := om_map (\<lambda>r. r\<lparr>r_networks := rename_set rm (r_networks r)\<rparr>) (f_radios F),
                 f_calls := map (\<lambda>c. c\<lparr>c_net := rename rm (c_net c)\<rparr>) (f_calls F)\<rparr>)"

section \<open>Its network merges\<close>

text \<open>The key a rule means; empty for a stream-scoped network of some other run.\<close>

definition rule_key :: "channel_merge \<Rightarrow> string \<Rightarrow> string \<Rightarrow> (string, string) omap \<Rightarrow> (string, ds_network) omap \<Rightarrow> string \<Rightarrow> string" where
  "rule_key cm inst who rm nets k =
     (case om_get rm k of
        Some q \<Rightarrow> q
      | None \<Rightarrow>
          if om_has nets k \<or> has_tilde k then k
          else (case rfind_char (CHR ''@'') k of
              None \<Rightarrow> if starts_with k ''unknown:'' then [] else k
            | Some i \<Rightarrow>
                if starts_with k ''unknown:'' \<or> (i + 1 < length k \<and> k ! (i + 1) = CHR ''s'') then []
                else if cm_per_receiver cm \<and> inst \<noteq> [] \<and> who \<noteq> cm_home cm then k @ ''~'' @ who
                else k))"

definition read_rule :: "(string \<Rightarrow> string) \<Rightarrow> (string, ds_network) omap \<Rightarrow> string \<Rightarrow> net_merges \<Rightarrow> string \<times> jval \<Rightarrow> net_merges" where
  "read_rule key nets fam mg kv =
     (case snd kv of
        JStr t \<Rightarrow>
          (let src = key (fst kv); dst = key t
           in if src = [] \<or> dst = [] \<or> (\<not> om_has nets src \<and> \<not> om_has nets dst) then mg
              else fst (merges_add mg fam src dst))
      | _ \<Rightarrow> mg)"

definition read_merges :: "channel_merge \<Rightarrow> string \<Rightarrow> string \<Rightarrow> (string \<Rightarrow> (string, string) omap) \<Rightarrow> (string, ds_family) omap \<Rightarrow> (string \<times> jval) list \<Rightarrow> net_merges" where
  "read_merges cm inst who remaps fams ms =
     foldl (\<lambda>mg (fam, v).
         case (om_get fams fam, v) of
           (Some F, JObj rs) \<Rightarrow>
             foldl (read_rule (rule_key cm inst who (remaps fam) (f_networks F)) (f_networks F) fam) mg rs
         | _ \<Rightarrow> mg) [] ms"

section \<open>The whole export\<close>

definition err_recording :: string where
  "err_recording = ''this is a recording (raw decoder input), not an export -- convert it with net-replay --export''"

definition err_format :: string where
  "err_format = jt ''not a dsd-server explorer export (expected format `dsd-net-export`)''"

definition export_fams :: "jval \<Rightarrow> string + (string \<times> jval) list" where
  "export_fams v =
     (case v of
        JObj _ \<Rightarrow>
          if v_get v ''op'' \<noteq> None then Inl err_recording
          else (case v_get v ''families'' of
              Some (JObj ms) \<Rightarrow>
                if v_str v ''format'' \<noteq> [] \<and> v_str v ''format'' \<noteq> ''dsd-net-export'' then Inl err_format else Inr ms
            | _ \<Rightarrow> Inl err_format)
      | _ \<Rightarrow> Inl ''not a JSON object'')"

definition export_time :: "jval \<Rightarrow> int" where
  "export_time v = (if j_i64 v ''exported'' \<noteq> 0 then j_i64 v ''exported'' else j_i64 v ''now'')"

text \<open>
  Provenance: the sources the export lists, or the run it is of; and that run's identity and name. An
  export without any is given an identity derived from its content.
\<close>

definition export_run :: "string \<Rightarrow> jval \<Rightarrow> dataset \<Rightarrow> ds_source list \<times> string \<times> string" where
  "export_run label v d =
     (let srcs = read_sources (v_get v ''sources'');
          anon = (srcs = [] \<and> v_str v ''instance'' = []);
          inst = (if anon then ''anon-'' @ take 12 (fnv_hex (families_json d)) else v_str v ''instance'');
          name = (if anon \<and> v_str v ''name'' = [] then label else v_str v ''name'')
      in (if srcs = [] then [\<lparr>s_instance = inst, s_name = name, s_since = 0, s_through = d_exported d\<rparr>] else srcs,
          inst, name))"

definition run_remap :: "channel_merge \<Rightarrow> string \<Rightarrow> string \<Rightarrow> string \<Rightarrow> (string, ds_family) omap \<Rightarrow> string \<Rightarrow> (string, string) omap" where
  "run_remap cm inst tag who fams fam =
     (if inst = [] then []
      else case om_get fams fam of None \<Rightarrow> [] | Some F \<Rightarrow> remap_of cm tag who F)"

definition qualify_fams :: "channel_merge \<Rightarrow> string \<Rightarrow> string \<Rightarrow> string \<Rightarrow> (string, ds_family) omap \<Rightarrow> (string, ds_family) omap" where
  "qualify_fams cm inst tag who fams = (if inst = [] then fams else om_map (qualify_family cm tag who) fams)"

definition dataset_from_export :: "channel_merge \<Rightarrow> string \<Rightarrow> jval \<Rightarrow> string + dataset" where
  "dataset_from_export cm label v =
     (case export_fams v of
        Inl e \<Rightarrow> Inl e
      | Inr ms \<Rightarrow>
          (let d = dataset0\<lparr>d_label := label, d_exported := export_time v, d_fams := read_families ms\<rparr>
           in case export_run label v d of
                (srcs, inst, name) \<Rightarrow>
                  (let tag = take 8 inst;
                       who = (if name = [] then tag else name);
                       fams = qualify_fams cm inst tag who (d_fams d)
                   in Inr (d\<lparr>d_sources := srcs, d_fams := fams,
                         d_merges := read_merges cm inst who (run_remap cm inst tag who (d_fams d)) fams
                           (j_obj (v_get v ''merges''))\<rparr>))))"

definition gunzip_if_needed :: "(string \<Rightarrow> string option) \<Rightarrow> nat \<Rightarrow> string \<Rightarrow> string option" where
  "gunzip_if_needed inflate max_out data =
     (if length data < 2 \<or> data ! 0 \<noteq> CHR 0x1F \<or> data ! 1 \<noteq> CHR 0x8B then Some data
      else (case inflate data of
          None \<Rightarrow> None
        | Some out \<Rightarrow> if max_out < length out then None else Some out))"

definition dataset_from_export_text :: "(string \<Rightarrow> string option) \<Rightarrow> channel_merge \<Rightarrow> string \<Rightarrow> string \<Rightarrow> string + dataset" where
  "dataset_from_export_text inflate cm label text =
     (case gunzip_if_needed inflate (512 * 2 ^ 20) text of
        None \<Rightarrow> Inl ''corrupt gzip data''
      | Some t \<Rightarrow>
          if take 16 t = jt ''{`op`:`header`,'' then Inl err_recording
          else (case mj_parse t of
              Inl e \<Rightarrow> Inl (''not valid JSON ('' @ e @ '')'')
            | Inr v \<Rightarrow> dataset_from_export cm label v))"

section \<open>What reading an export guarantees\<close>

text \<open>
  The code recognises a raw decoder recording by its first line, but compares sixteen characters with
  a text of fifteen, so the test never succeeds on a longer text: the upload is refused with a JSON
  error instead of the explanation.
\<close>

lemma recording_check_dead: "15 < length t \<Longrightarrow> take 16 t \<noteq> jt ''{`op`:`header`,''"
proof
  assume "15 < length t" "take 16 t = jt ''{`op`:`header`,''"
  then have "length (take 16 t) = 15" by simp
  with \<open>15 < length t\<close> show False by simp
qed

text \<open>
  A raw decoder recording (a header line, then event lines) that is uploaded as an export is
  reported as malformed JSON: the check meant to say what it is never fires.
\<close>

lemma recording_misreported:
  "dataset_from_export_text inflate cm label (jt ''{`op`:`header`,`v`:1}'' @ [CHR 0x0A] @ jt ''{`op`:`end`}'') =
   Inl ''not valid JSON (trailing data after JSON at byte 22)''"
proof -
  have "mj_parse (jt ''{`op`:`header`,`v`:1}'' @ [CHR 0x0A] @ jt ''{`op`:`end`}'') = Inl ''trailing data after JSON at byte 22''"
    by code_simp
  then show ?thesis
    by (simp add: dataset_from_export_text_def gunzip_if_needed_def)
qed

end
