(* ===== verification/Dataset_Merge.thy ===== *)
theory Dataset_Merge
  imports Dataset
begin

text \<open>
  Merging datasets (\<open>src/assoc_merge.hpp\<close>): \<open>fold_call\<close> joins two receivers' records of one call,
  \<open>uncount\<close> takes back what counting the second record added, \<open>merge_into\<close> folds one dataset into
  another, \<open>cap_calls\<close> bounds a call list and \<open>finalize_merge\<close> orders and renumbers it.
\<close>

section \<open>Counters\<close>

definition cnt_dec :: "string \<Rightarrow> counts \<Rightarrow> counts" where
  "cnt_dec k m =
     (case om_get m k of
        None \<Rightarrow> m
      | Some v \<Rightarrow> if v \<le> 1 then om_del k m else om_put k (v - 1) m)"

definition call_key :: "ds_call \<Rightarrow> string" where
  "call_key c = (if c_kid c = [] then [] else enc_key (c_alg c) (c_kid c))"

definition dec_key :: "string \<Rightarrow> counts \<Rightarrow> counts" where
  "dec_key key m = (if key \<noteq> [] then cnt_dec key m else m)"

definition uncount :: "ds_family \<Rightarrow> ds_call \<Rightarrow> ds_family" where
  "uncount F dup =
     (let key = call_key dup;
          rad = om_modify (c_src dup) (\<lambda>r. r\<lparr>r_calls := r_calls r - 1, r_keys := dec_key key (r_keys r)\<rparr>) (f_radios F);
          nets = om_modify (c_net dup) (\<lambda>n. n\<lparr>n_calls := n_calls n - 1, n_keys := dec_key key (n_keys n)\<rparr>) (f_networks F)
      in if c_priv dup then
           F\<lparr>f_networks := nets,
             f_radios := om_modify (c_tgt dup) (\<lambda>p. p\<lparr>r_peers := cnt_dec (c_src dup) (r_peers p)\<rparr>)
               (om_modify (c_src dup) (\<lambda>r. r\<lparr>r_peers := cnt_dec (c_tgt dup) (r_peers r)\<rparr>) rad)\<rparr>
         else
           F\<lparr>f_networks := nets,
             f_radios := om_modify (c_src dup) (\<lambda>r. r\<lparr>r_tgs := cnt_dec (c_tgt dup) (r_tgs r)\<rparr>) rad,
             f_tgs := om_modify (c_tgt dup)
               (\<lambda>t. t\<lparr>t_calls := t_calls t - 1, t_radios := cnt_dec (c_src dup) (t_radios t),
                     t_emerg := (if c_emerg dup then t_emerg t - 1 else t_emerg t),
                     t_enc := (if c_enc dup then t_enc t - 1 else t_enc t),
                     t_keys := dec_key key (t_keys t)\<rparr>) (f_tgs F)\<rparr>)"

definition fold_call :: "ds_call \<Rightarrow> ds_call \<Rightarrow> ds_call" where
  "fold_call w d =
     (let better = (c_qual d \<noteq> [] \<and> (c_qual w = [] \<or> c_qframes w < c_qframes d)) in
      w\<lparr>c_voice := c_voice w \<or> c_voice d,
        c_data := c_data w \<or> c_data d,
        c_emerg := c_emerg w \<or> c_emerg d,
        c_enc := c_enc w \<or> c_enc d,
        c_alg := (if c_kid w = [] then c_alg d else c_alg w),
        c_kid := (if c_kid w = [] then c_kid d else c_kid w),
        c_alias := (if c_alias w = [] then c_alias d else c_alias w),
        c_text := (if c_text d \<noteq> [] \<and> \<not> str_has (c_text w) (c_text d)
                   then (if c_text w = [] then c_text d else c_text w @ '' | '' @ c_text d) else c_text w),
        c_slot := (if c_slot w = [] then c_slot d else c_slot w),
        c_site := (if c_site w = [] then c_site d else c_site w),
        c_svc := (if svc_rank (c_svc w) < svc_rank (c_svc d) then c_svc d else c_svc w),
        c_pos := (if c_pos w = [] then c_pos d else c_pos w),
        c_audio := (if c_audio w = [] then c_audio d else c_audio w),
        c_audio_ms := (if c_audio w = [] then c_audio_ms d else c_audio_ms w),
        c_qual := (if better then c_qual d else c_qual w),
        c_qsil := (if better then c_qsil d else c_qsil w),
        c_qrep := (if better then c_qrep d else c_qrep w),
        c_qerr := (if better then c_qerr d else c_qerr w),
        c_qframes := (if better then c_qframes d else c_qframes w),
        c_start := min (c_start w) (c_start d),
        c_last := max (c_last w) (c_last d),
        c_streams := c_streams w + c_streams d\<rparr>)"

section \<open>Folding one dataset into another\<close>

definition conf_rank :: "string \<Rightarrow> nat" where
  "conf_rank c = (if c = ''strong'' then 3 else if c = ''channel'' then 2 else if c = ''weak'' then 1 else 0)"

definition lo_time :: "int \<Rightarrow> int \<Rightarrow> int" where
  "lo_time a b = (if a = 0 then b else if b = 0 then a else min a b)"

definition add_keys :: "counts \<Rightarrow> counts \<Rightarrow> counts" where
  "add_keys m xs = foldl (\<lambda>acc (k, n). key_add k n acc) m xs"

definition add_counts :: "counts \<Rightarrow> counts \<Rightarrow> counts" where
  "add_counts m xs = foldl (\<lambda>acc (k, n). count_add k n acc) m xs"

definition join_network :: "ds_network \<Rightarrow> ds_network \<Rightarrow> ds_network" where
  "join_network n m =
     n\<lparr>n_ids := foldl (\<lambda>acc (k, v). om_emplace k v acc) (n_ids n) (n_ids m),
       n_sites := os_union (n_sites n) (n_sites m),
       n_freqs := os_union (n_freqs n) (n_freqs m),
       n_sessions := n_sessions n + n_sessions m,
       n_calls := n_calls n + n_calls m,
       n_keys := add_keys (n_keys n) (n_keys m),
       n_first := lo_time (n_first n) (n_first m),
       n_last := max (n_last n) (n_last m)\<rparr>"

definition merge_network :: "ds_network \<Rightarrow> ds_network \<Rightarrow> ds_network" where
  "merge_network n m =
     join_network
       (if conf_rank (n_confidence n) < conf_rank (n_confidence m)
        then n\<lparr>n_confidence := n_confidence m, n_label := n_label m\<rparr> else n) m"

definition merge_talkgroup :: "ds_talkgroup \<Rightarrow> ds_talkgroup \<Rightarrow> ds_talkgroup" where
  "merge_talkgroup t m =
     t\<lparr>t_radios := add_counts (t_radios t) (t_radios m),
       t_networks := os_union (t_networks t) (t_networks m),
       t_calls := t_calls t + t_calls m,
       t_emerg := t_emerg t + t_emerg m,
       t_enc := t_enc t + t_enc m,
       t_keys := add_keys (t_keys t) (t_keys m),
       t_first := lo_time (t_first t) (t_first m),
       t_last := max (t_last t) (t_last m)\<rparr>"

definition add_alias :: "string list \<Rightarrow> string \<Rightarrow> string list" where
  "add_alias xs a = (if length xs < 8 \<and> a \<notin> set xs then xs @ [a] else xs)"

definition merge_track :: "track \<Rightarrow> track \<Rightarrow> track" where
  "merge_track a b =
     (if b = [] then a else foldl (\<lambda>tr (t, p). track_add tr t p) [] (sort_key fst (a @ b)))"

definition merge_radio :: "ds_radio \<Rightarrow> ds_radio \<Rightarrow> ds_radio" where
  "merge_radio r m =
     (let newer = (r_pos m \<noteq> [] \<and> r_pos_t r \<le> r_pos_t m) in
      r\<lparr>r_aliases := foldl add_alias (r_aliases r) (r_aliases m),
        r_tgs := add_counts (r_tgs r) (r_tgs m),
        r_peers := add_counts (r_peers r) (r_peers m),
        r_keys := add_keys (r_keys r) (r_keys m),
        r_networks := os_union (r_networks r) (r_networks m),
        r_calls := r_calls r + r_calls m,
        r_first := lo_time (r_first r) (r_first m),
        r_last := max (r_last r) (r_last m),
        r_pos := (if newer then r_pos m else r_pos r),
        r_pos_t := (if newer then r_pos_t m else r_pos_t r),
        r_track := merge_track (r_track r) (r_track m)\<rparr>)"

text \<open>\<open>insert(kv)\<close> where the key is new, and the field-by-field merge where it is not.\<close>

definition merge_maps :: "('v \<Rightarrow> 'v \<Rightarrow> 'v) \<Rightarrow> (string, 'v) omap \<Rightarrow> (string, 'v) omap \<Rightarrow> (string, 'v) omap" where
  "merge_maps f T F =
     foldl (\<lambda>acc (k, v). case om_get acc k of None \<Rightarrow> om_put k v acc | Some w \<Rightarrow> om_put k (f w v) acc) T F"

definition is_twin :: "(string \<Rightarrow> string) \<Rightarrow> ds_call \<Rightarrow> ds_call \<Rightarrow> bool" where
  "is_twin rt x c \<longleftrightarrow>
     (c_net x = c_net c \<or> rt (c_net x) = rt (c_net c)) \<and> c_src x = c_src c \<and> c_priv x = c_priv c \<and>
     c_start c \<le> c_last x + kTwinGapMs \<and> c_start x \<le> c_last c + kTwinGapMs"

text \<open>
  \<open>by_tgt\<close> lists the calls the target dataset had before (the first \<open>n\<close>) with both parties known, in
  list order for each target.
\<close>

definition twin_index :: "(string \<Rightarrow> string) \<Rightarrow> nat \<Rightarrow> ds_call list \<Rightarrow> ds_call \<Rightarrow> nat option" where
  "twin_index rt n cs c =
     (if c_src c \<noteq> [] \<and> c_tgt c \<noteq> [] \<and> c_net c \<noteq> [] then
        find (\<lambda>i. c_src (cs ! i) \<noteq> [] \<and> c_tgt (cs ! i) = c_tgt c \<and> is_twin rt (cs ! i) c) [0..<n]
      else None)"

definition merge_call :: "(string \<Rightarrow> string) \<Rightarrow> nat \<Rightarrow> ds_family \<Rightarrow> ds_call \<Rightarrow> ds_family" where
  "merge_call rt n T c =
     (case twin_index rt n (f_calls T) c of
        Some i \<Rightarrow> uncount (T\<lparr>f_calls := (f_calls T)[i := fold_call (f_calls T ! i) c]\<rparr>) c
      | None \<Rightarrow> T\<lparr>f_calls := f_calls T @ [c]\<rparr>)"

definition merge_family :: "(string \<Rightarrow> string) \<Rightarrow> ds_family \<Rightarrow> ds_family \<Rightarrow> ds_family" where
  "merge_family rt T F =
     foldl (merge_call rt (length (f_calls T)))
       (T\<lparr>f_networks := merge_maps merge_network (f_networks T) (f_networks F),
          f_tgs := merge_maps merge_talkgroup (f_tgs T) (f_tgs F),
          f_radios := merge_maps merge_radio (f_radios T) (f_radios F)\<rparr>)
       (f_calls F)"

definition merge_into :: "dataset \<Rightarrow> dataset \<Rightarrow> dataset" where
  "merge_into into from =
     (let rules = merges_union (d_merges into) (d_merges from)
      in into\<lparr>d_merges := rules,
           d_fams := foldl (\<lambda>acc (fam, F). om_put fam (merge_family (merge_root rules fam) (om_at ds_family0 acc fam) F) acc)
             (d_fams into) (d_fams from),
           d_sources := d_sources into @ d_sources from\<rparr>)"

section \<open>Bounding and ordering\<close>

text \<open>From the oldest call on, drop audio-less calls until none is over the bound.\<close>

fun drop_old :: "nat \<Rightarrow> ds_call list \<Rightarrow> ds_call list" where
  "drop_old over [] = []"
| "drop_old 0 cs = cs"
| "drop_old (Suc over) (c # cs) =
     (if c_audio c = [] then drop_old over cs else c # drop_old (Suc over) cs)"

definition cap_calls :: "ds_call list \<Rightarrow> nat \<Rightarrow> ds_call list" where
  "cap_calls C cap =
     (let audioless = length (filter (\<lambda>c. c_audio c = []) C)
      in if audioless \<le> cap then C else rev (drop_old (audioless - cap) (rev C)))"

definition renumber :: "ds_call list \<Rightarrow> ds_call list" where
  "renumber C = map (\<lambda>(i, c). c\<lparr>c_id := length C - i\<rparr>) (enumerate 0 C)"

definition finalize_family :: "bool \<Rightarrow> nat \<Rightarrow> ds_family \<Rightarrow> ds_family" where
  "finalize_family ren cap F =
     (let C = cap_calls (sort_key (\<lambda>c. - c_start c) (f_calls F)) cap
      in F\<lparr>f_calls := (if ren then renumber C else C)\<rparr>)"

definition finalize_merge :: "bool \<Rightarrow> nat \<Rightarrow> dataset \<Rightarrow> dataset" where
  "finalize_merge ren cap d = d\<lparr>d_fams := om_map (finalize_family ren cap) (d_fams d)\<rparr>"

section \<open>Bounding a call list\<close>

abbreviation has_audio :: "ds_call \<Rightarrow> bool" where
  "has_audio c \<equiv> c_audio c \<noteq> []"

lemma drop_old_audio: "filter has_audio (drop_old n cs) = filter has_audio cs"
  by (induction n cs rule: drop_old.induct) auto

lemma drop_old_less: "filter (\<lambda>c. c_audio c = []) (drop_old n cs) = drop n (filter (\<lambda>c. c_audio c = []) cs)"
  by (induction n cs rule: drop_old.induct) auto

lemma drop_old_subseq: "subseq (drop_old n cs) cs"
  by (induction n cs rule: drop_old.induct) auto

lemma subseq_rev: "subseq xs ys \<Longrightarrow> subseq (rev xs) (rev ys)"
  by (induction rule: list_emb.induct) (auto simp: list_emb_append_mono intro: list_emb_append2)

lemma subseq_rev_iff: "subseq (rev xs) ys \<longleftrightarrow> subseq xs (rev ys)"
  using subseq_rev [of "rev xs" ys] subseq_rev [of xs "rev ys"] by auto

text \<open>
  Bounding a newest-first call list keeps every call with audio and exactly the newest \<open>cap\<close> calls
  without, in their order, and invents none.
\<close>

lemma cap_calls_keeps:
  "filter has_audio (cap_calls C cap) = filter has_audio C \<and>
   filter (\<lambda>c. c_audio c = []) (cap_calls C cap) = take cap (filter (\<lambda>c. c_audio c = []) C) \<and>
   subseq (cap_calls C cap) C"
  by (auto simp: cap_calls_def Let_def drop_old_audio drop_old_less drop_old_subseq rev_filter [symmetric]
      subseq_rev_iff drop_rev)


lemma sorted_wrt_subseq: "subseq xs ys \<Longrightarrow> sorted_wrt P ys \<Longrightarrow> sorted_wrt P xs"
  by (induction rule: list_emb.induct) (auto dest: list_emb_set)

lemma cap_calls_subseq: "subseq (cap_calls C cap) C"
  by (auto simp: cap_calls_def Let_def drop_old_subseq subseq_rev_iff)

lemma renumber_starts: "map c_start (renumber C) = map c_start C"
  by (simp add: renumber_def case_prod_beta comp_def)
    (metis (no_types, lifting) length_enumerate map_equality_iff nth_enumerate_eq snd_conv)

lemma renumber_ids: "map c_id (renumber C) = rev [1..<Suc (length C)]"
  by (rule nth_equalityI) (auto simp: renumber_def nth_enumerate_eq rev_nth simp del: upt_Suc)

lemma renumber_length: "length (renumber C) = length C"
  by (simp add: renumber_def)

text \<open>
  After merging, every protocol's calls stand newest first, and when they are renumbered their ids
  count down to 1 along the list, so no two calls share one.
\<close>

lemma finalize_merge_ordered:
  assumes "om_get (d_fams (finalize_merge ren cap d)) fam = Some F"
  shows "sorted (map (\<lambda>c. - c_start c) (f_calls F)) \<and>
    (ren \<longrightarrow> map c_id (f_calls F) = rev [1..<Suc (length (f_calls F))])"
proof -
  from assms obtain G where G: "F = finalize_family ren cap G"
    by (auto simp: finalize_merge_def om_get_map)
  define C where "C = cap_calls (sort_key (\<lambda>c. - c_start c) (f_calls G)) cap"
  have "sorted_wrt (\<lambda>a b. - c_start a \<le> - c_start b) C"
    unfolding C_def by (rule sorted_wrt_subseq [OF cap_calls_subseq]) (metis sorted_map sorted_sort_key)
  then have s: "sorted (map (\<lambda>c. - c_start c) C)" by (simp add: sorted_map)
  have neg: "map (\<lambda>c. - c_start c) xs = map uminus (map c_start xs)" for xs :: "ds_call list" by simp
  have "map (\<lambda>c. - c_start c) (renumber C) = map (\<lambda>c. - c_start c) C" by (simp only: neg renumber_starts)
  with s show ?thesis
    by (cases ren) (simp_all add: G finalize_family_def C_def [symmetric] renumber_ids renumber_length)
qed

section \<open>Well-formed datasets\<close>

text \<open>Every map is ordered, and every entry is filed under its own key.\<close>

definition fam_wf :: "ds_family \<Rightarrow> bool" where
  "fam_wf F \<longleftrightarrow> om_wf (f_networks F) \<and> om_wf (f_tgs F) \<and> om_wf (f_radios F) \<and>
     list_all (\<lambda>(k, n). n_key n = k) (f_networks F) \<and> list_all (\<lambda>(k, t). t_id t = k) (f_tgs F) \<and>
     list_all (\<lambda>(k, r). r_id r = k) (f_radios F)"

definition ds_wf :: "dataset \<Rightarrow> bool" where
  "ds_wf d \<longleftrightarrow> om_wf (d_fams d) \<and> list_all (\<lambda>(k, F). fam_wf F) (d_fams d) \<and> nm_ok (d_merges d)"

lemma om_modify_all: "list_all (\<lambda>(k, v). P k v) m \<Longrightarrow> (\<And>v. P j v \<Longrightarrow> P j (f v)) \<Longrightarrow> list_all (\<lambda>(k, v). P k v) (om_modify j f m)"
  by (induction m) (auto simp: om_modify_def)

lemma uncount_wf: "fam_wf F \<Longrightarrow> fam_wf (uncount F c)"
  by (auto simp: fam_wf_def uncount_def Let_def intro!: om_modify_all)

lemma uncount_calls [simp]: "f_calls (uncount F c) = f_calls F"
  by (simp add: uncount_def Let_def)

lemma merge_maps_wf: "om_wf T \<Longrightarrow> om_wf (merge_maps f T F)"
  unfolding merge_maps_def
  by (induction F arbitrary: T) (auto split: option.splits)

lemma merge_maps_all:
  assumes "\<And>k w v. P k w \<Longrightarrow> P k v \<Longrightarrow> P k (f w v)"
  shows "list_all (\<lambda>(k, v). P k v) T \<Longrightarrow> list_all (\<lambda>(k, v). P k v) F \<Longrightarrow> list_all (\<lambda>(k, v). P k v) (merge_maps f T F)"
  unfolding merge_maps_def
proof (induction F arbitrary: T)
  case (Cons p F)
  obtain k v where p: "p = (k, v)" by (cases p)
  show ?case
  proof (cases "om_get T k")
    case (Some w)
    with Cons.prems p assms om_get_all [OF Cons.prems(1) Some] show ?thesis
      by (auto intro!: Cons.IH om_put_all)
  qed (use Cons p in \<open>auto intro!: Cons.IH om_put_all\<close>)
qed simp

lemma merge_keys:
  "n_key (merge_network n m) = n_key n" "t_id (merge_talkgroup t t') = t_id t" "r_id (merge_radio r r') = r_id r"
  by (simp_all add: merge_network_def join_network_def merge_talkgroup_def merge_radio_def Let_def)

lemma merge_call_wf: "fam_wf T \<Longrightarrow> fam_wf (merge_call rt n T c)"
  by (auto simp: merge_call_def fam_wf_def [of "ds_family.f_calls_update _ _"] uncount_wf
      intro!: uncount_wf split: option.splits)
    (simp_all add: fam_wf_def)

lemma foldl_invariant: "(\<And>a x. I a \<Longrightarrow> I (f a x)) \<Longrightarrow> I a \<Longrightarrow> I (foldl f a xs)"
  by (induction xs arbitrary: a) auto

lemma merge_family_wf: "fam_wf T \<Longrightarrow> fam_wf F \<Longrightarrow> fam_wf (merge_family rt T F)"
  unfolding merge_family_def
  by (rule foldl_invariant [where I = fam_wf, OF merge_call_wf])
    (auto simp: fam_wf_def merge_maps_wf merge_keys intro!: merge_maps_all)

lemma fam_wf0: "fam_wf ds_family0"
  by (simp add: fam_wf_def ds_family0_def)

lemma merge_into_wf:
  assumes "ds_wf into" "ds_wf from"
  shows "ds_wf (merge_into into from)"
proof -
  have "om_wf acc \<Longrightarrow> list_all (\<lambda>(k, F). fam_wf F) acc \<Longrightarrow> list_all (\<lambda>(k, F). fam_wf F) fs \<Longrightarrow>
    om_wf (foldl (\<lambda>acc (fam, F). om_put fam (merge_family (merge_root r fam) (om_at ds_family0 acc fam) F) acc) acc fs) \<and>
    list_all (\<lambda>(k, F). fam_wf F) (foldl (\<lambda>acc (fam, F). om_put fam (merge_family (merge_root r fam) (om_at ds_family0 acc fam) F) acc) acc fs)"
    for acc fs r
  proof (induction fs arbitrary: acc)
    case (Cons p fs)
    obtain fam F where p: "p = (fam, F)" by (cases p)
    have "fam_wf (om_at ds_family0 acc fam)" using om_at_all [of fam_wf acc ds_family0 fam] Cons.prems fam_wf0 by auto
    then have "fam_wf (merge_family (merge_root r fam) (om_at ds_family0 acc fam) F)"
      using Cons.prems(3) by (simp add: p merge_family_wf)
    with Cons.prems show ?case by (simp add: p, intro Cons.IH) (auto intro: om_put_all)
  qed simp
  from this [of "d_fams into" "d_fams from" "merges_union (d_merges into) (d_merges from)"] assms
  show ?thesis by (simp add: ds_wf_def merge_into_def Let_def merges_union_ok)
qed

section \<open>What merging keeps\<close>

definition streams :: "ds_call list \<Rightarrow> nat" where
  "streams cs = sum_list (map c_streams cs)"

lemma fold_call_streams [simp]: "c_streams (fold_call w d) = c_streams w + c_streams d"
  by (simp add: fold_call_def Let_def)

lemma streams_update:
  assumes "i < length cs"
  shows "streams (cs[i := fold_call (cs ! i) c]) = streams cs + c_streams c"
proof -
  have "map c_streams cs ! i \<le> sum_list (map c_streams cs)" using assms by (intro elem_le_sum_list) simp
  with assms show ?thesis by (simp add: streams_def map_update sum_list_update)
qed

lemma twin_index_less: "twin_index rt n cs c = Some i \<Longrightarrow> i < n"
  by (auto simp: twin_index_def find_Some_iff split: if_splits)

lemma merge_call_streams:
  "n \<le> length (f_calls T) \<Longrightarrow> streams (f_calls (merge_call rt n T c)) = streams (f_calls T) + c_streams c \<and>
    n \<le> length (f_calls (merge_call rt n T c))"
  by (auto simp: merge_call_def streams_update dest: twin_index_less split: option.splits)
    (simp add: streams_def)

lemma merge_calls_streams:
  "n \<le> length (f_calls T) \<Longrightarrow> streams (f_calls (foldl (merge_call rt n) T cs)) = streams (f_calls T) + streams cs"
proof (induction cs arbitrary: T)
  case (Cons c cs)
  from merge_call_streams [OF Cons.prems, of rt c] Cons.IH [of "merge_call rt n T c"]
  show ?case by (simp add: streams_def)
qed (simp add: streams_def)

text \<open>
  No reception is lost or invented when a receiver's calls are merged: the streams on which the
  merged calls were heard are those of both sides, whether a call was new or folded into its twin.
\<close>

lemma merge_family_streams:
  "streams (f_calls (merge_family rt T F)) = streams (f_calls T) + streams (f_calls F)"
  by (simp add: merge_family_def merge_calls_streams)

lemma merge_maps_empty_from:
  "om_wf (T @ F) \<Longrightarrow> merge_maps f T F = T @ F"
  unfolding merge_maps_def
proof (induction F arbitrary: T)
  case (Cons p F)
  obtain k v where p: "p = (k, v)" by (cases p)
  from Cons.prems have w: "om_wf (T @ [(k, v)])" "om_wf ((T @ [(k, v)]) @ F)"
    by (auto simp: p om_wf_append om_wf_Cons)
  then have "om_get T k = None" by (force simp: om_wf_append map_of_eq_None_iff)
  with Cons.IH [OF w(2)] om_put_snoc [OF w(1)] show ?case by (simp add: p)
qed simp

lemma merge_maps_Nil: "om_wf F \<Longrightarrow> merge_maps f [] F = F"
  using merge_maps_empty_from [of "[]" F f] by simp

lemma merge_calls_empty: "foldl (merge_call rt 0) T cs = T\<lparr>f_calls := f_calls T @ cs\<rparr>"
  by (induction cs arbitrary: T) (simp_all add: merge_call_def twin_index_def)

lemma merge_family_empty: "fam_wf F \<Longrightarrow> merge_family rt ds_family0 F = F"
  by (cases F) (simp add: merge_maps_Nil merge_family_def ds_family0_def merge_calls_empty fam_wf_def)

text \<open>
  Merging a single dataset shows exactly its data: nothing is counted twice, dropped or reordered.
\<close>

lemma merge_into_empty:
  assumes "ds_wf d"
  shows "d_fams (merge_into dataset0 d) = d_fams d \<and> d_sources (merge_into dataset0 d) = d_sources d"
proof -
  have "om_wf (acc @ fs) \<Longrightarrow> list_all (\<lambda>(k, F). fam_wf F) fs \<Longrightarrow>
    foldl (\<lambda>acc (fam, F). om_put fam (merge_family (merge_root r fam) (om_at ds_family0 acc fam) F) acc) acc fs = acc @ fs"
    for acc fs r
  proof (induction fs arbitrary: acc)
    case (Cons p fs)
    obtain k v where p: "p = (k, v)" by (cases p)
    from Cons.prems have w: "om_wf (acc @ [(k, v)])" "om_wf ((acc @ [(k, v)]) @ fs)"
      by (auto simp: p om_wf_append om_wf_Cons)
    then have "om_get acc k = None" by (force simp: om_wf_append map_of_eq_None_iff)
    then have "om_at ds_family0 acc k = ds_family0" by (simp add: om_at_def)
    with Cons.IH [OF w(2)] om_put_snoc [OF w(1)] Cons.prems(2) show ?case by (simp add: p merge_family_empty)
  qed simp
  from this [of "[]" "d_fams d"] assms show ?thesis
    by (simp add: ds_wf_def merge_into_def Let_def dataset0_def)
qed

lemma merge_into_empty_witness:
  "d_fams (merge_into dataset0 (dataset0\<lparr>d_fams := [(''dmr'', ds_family0\<lparr>f_calls := [ds_call0, ds_call0]\<rparr>)]\<rparr>)) =
   [(''dmr'', ds_family0\<lparr>f_calls := [ds_call0, ds_call0]\<rparr>)]"
proof -
  have "ds_wf (dataset0\<lparr>d_fams := [(''dmr'', ds_family0\<lparr>f_calls := [ds_call0, ds_call0]\<rparr>)]\<rparr>)"
    by (simp add: ds_wf_def dataset0_def fam_wf_def ds_family0_def)
  from merge_into_empty [OF this] show ?thesis by (simp add: dataset0_def)
qed

lemma finalize_merge_ordered_witness:
  "sorted (map (\<lambda>c. - c_start c) (f_calls (finalize_family True 1 (ds_family0\<lparr>f_calls := [ds_call0, ds_call0\<lparr>c_start := 5\<rparr>]\<rparr>))))"
proof -
  have "om_get (d_fams (finalize_merge True 1 (dataset0\<lparr>d_fams := [(''dmr'', ds_family0\<lparr>f_calls := [ds_call0, ds_call0\<lparr>c_start := 5\<rparr>]\<rparr>)]\<rparr>))) ''dmr'' =
    Some (finalize_family True 1 (ds_family0\<lparr>f_calls := [ds_call0, ds_call0\<lparr>c_start := 5\<rparr>]\<rparr>))"
    by (simp add: finalize_merge_def om_map_def)
  from finalize_merge_ordered [OF this] show ?thesis by blast
qed

end
