(* ===== verification/Provenance.thy ===== *)
theory Provenance
  imports Dataset_Import Dataset_Merge
begin

text \<open>
  Provenance (\<open>src/assoc_merge.hpp\<close>): which datasets may be shown together without counting anything
  twice (\<open>src_contains\<close>, \<open>src_overlaps\<close>, \<open>covered\<close>, \<open>judge\<close>), and \<open>merge_exports\<close>, the merge of
  several export files, with its report. \<open>env\<close> is the call bound's environment variable.
\<close>

section \<open>Server runs\<close>

definition src_contains :: "ds_source \<Rightarrow> ds_source \<Rightarrow> bool" where
  "src_contains a b \<longleftrightarrow> s_instance a = s_instance b \<and> s_since a \<le> s_since b \<and> s_through b \<le> s_through a"

definition src_overlaps :: "ds_source \<Rightarrow> ds_source \<Rightarrow> bool" where
  "src_overlaps a b \<longleftrightarrow>
     s_instance a = s_instance b \<and>
     ((s_since a = s_since b \<and> s_through a = s_through b) \<or> (s_since a < s_through b \<and> s_since b < s_through a))"

definition covered :: "ds_source list \<Rightarrow> ds_source list \<Rightarrow> bool" where
  "covered xs ys \<longleftrightarrow> list_all (\<lambda>x. list_ex (\<lambda>y. src_contains y x) ys) xs"

definition span_time :: "int \<Rightarrow> string" where
  "span_time ms =
     (if ms = 0 then ''start''
      else let t = tdiv ms 1000; sod = t mod 86400
           in case civil_of_days (t div 86400) of
                (y, m, d) \<Rightarrow> pad2 m @ ''-'' @ pad2 d @ '' '' @ pad2 (sod div 3600) @ '':'' @ pad2 (sod mod 3600 div 60))"

definition span_text :: "ds_source \<Rightarrow> string" where
  "span_text s =
     (let a = span_time (s_since s); z = span_time (s_through s);
          zz = (if length a = 11 \<and> length z = 11 \<and> take 5 a = take 5 z then drop 6 z else z)
      in (if s_name s = [] then take 8 (s_instance s) else s_name s) @ '' '' @ a @ [CHR 0xE2, CHR 0x80, CHR 0x93] @ zz @ ''Z'')"

section \<open>May a dataset join?\<close>

datatype verdict = VAdd "nat list" | VSkip string | VRefuse string

definition any_overlap :: "ds_source list \<Rightarrow> ds_source list \<Rightarrow> bool" where
  "any_overlap xs ys \<longleftrightarrow> list_ex (\<lambda>a. list_ex (src_overlaps a) ys) xs"

definition partly_text :: "string \<Rightarrow> string" where
  "partly_text l =
     ''it partly overlaps '' @ l @ '' (same server run, overlapping time) -- merging would count the same calls twice''"

fun judge_layers :: "ds_source list \<Rightarrow> nat \<Rightarrow> nat list \<Rightarrow> dataset list \<Rightarrow> verdict" where
  "judge_layers xs i reps [] = VAdd reps"
| "judge_layers xs i reps (L # Ls) =
     (if \<not> any_overlap xs (d_sources L) then judge_layers xs (Suc i) reps Ls
      else if covered (d_sources L) xs then judge_layers xs (Suc i) (reps @ [i]) Ls
      else VRefuse (partly_text (d_label L)))"

definition judge :: "dataset \<Rightarrow> dataset list \<Rightarrow> ds_source list option \<Rightarrow> verdict" where
  "judge x layers live =
     (let xs = d_sources x; lv = (case live of None \<Rightarrow> [] | Some l \<Rightarrow> l);
          everything = lv @ concat (map d_sources layers)
      in if xs \<noteq> [] \<and> covered xs everything then
           VSkip (if live \<noteq> None \<and> covered xs lv then ''it is this server'' @ [CHR 0x27] @ ''s own live data (already shown)''
                  else ''already included'' @
                    (case find (\<lambda>L. covered xs (d_sources L)) layers of None \<Rightarrow> [] | Some L \<Rightarrow> '' in '' @ d_label L))
         else if live \<noteq> None \<and> any_overlap xs lv then
           VRefuse (''it overlaps this server'' @ [CHR 0x27] @
             ''s live data -- importing it would count the same calls twice (Clear first to import it)'')
         else judge_layers xs 0 [] layers)"

section \<open>Merging files\<close>

record merge_report =
  mr_label :: string
  mr_status :: string
  mr_message :: string

definition rm_nth :: "nat \<Rightarrow> 'a list \<Rightarrow> 'a list" where
  "rm_nth i xs = take i xs @ drop (Suc i) xs"

definition mark_replaced :: "string \<Rightarrow> string \<Rightarrow> merge_report list \<Rightarrow> merge_report list" where
  "mark_replaced label file rs =
     map (\<lambda>r. if mr_label r = label \<and> mr_status r \<noteq> ''invalid''
       then r\<lparr>mr_status := ''replaced'', mr_message := ''superseded by '' @ file @ '' (a newer export of the same run)''\<rparr>
       else r) rs"

definition replace_one :: "string \<Rightarrow> nat \<Rightarrow> dataset list \<times> merge_report list \<times> string \<Rightarrow> dataset list \<times> merge_report list \<times> string" where
  "replace_one file i st =
     (case st of (layers, report, replaced) \<Rightarrow>
        (rm_nth i layers, mark_replaced (d_label (layers ! i)) file report,
         replaced @ (if replaced = [] then [] else '', '') @ d_label (layers ! i)))"

definition merge_file ::
  "(string \<Rightarrow> string option) \<Rightarrow> channel_merge \<Rightarrow> dataset list \<times> merge_report list \<Rightarrow> string \<times> string \<Rightarrow> dataset list \<times> merge_report list" where
  "merge_file inflate cm st f =
     (case st of (layers, report) \<Rightarrow>
        (case dataset_from_export_text inflate cm (fst f) (snd f) of
           Inl e \<Rightarrow> (layers, report @ [\<lparr>mr_label = fst f, mr_status = ''invalid'', mr_message = e\<rparr>])
         | Inr x \<Rightarrow>
             (case judge x layers None of
                VSkip w \<Rightarrow> (layers, report @ [\<lparr>mr_label = fst f, mr_status = ''skipped'', mr_message = w\<rparr>])
              | VRefuse w \<Rightarrow> (layers, report @ [\<lparr>mr_label = fst f, mr_status = ''refused'', mr_message = w\<rparr>])
              | VAdd reps \<Rightarrow>
                  (case foldr (replace_one (fst f)) reps (layers, report, []) of
                     (layers', report', replaced) \<Rightarrow>
                       (layers' @ [x],
                        report' @ [\<lparr>mr_label = fst f, mr_status = ''merged'',
                          mr_message = (if replaced = [] then ''merged'' else ''merged (replaces '' @ replaced @ '')'')\<rparr>])))))"

definition merge_layers ::
  "(string \<Rightarrow> string option) \<Rightarrow> channel_merge \<Rightarrow> (string \<times> string) list \<Rightarrow> dataset list \<times> merge_report list" where
  "merge_layers inflate cm files = foldl (merge_file inflate cm) ([], []) files"

definition merge_exports ::
  "(string \<Rightarrow> string option) \<Rightarrow> string option \<Rightarrow> channel_merge \<Rightarrow> (string \<times> string) list \<Rightarrow> dataset \<times> merge_report list" where
  "merge_exports inflate env cm files =
     (case merge_layers inflate cm files of (layers, report) \<Rightarrow>
        (finalize_merge True (max_calls_setting env)
           (foldl (\<lambda>out l. let m = merge_into out l in m\<lparr>d_exported := max (d_exported m) (d_exported l)\<rparr>)
              (dataset0\<lparr>d_label := ''merged''\<rparr>) layers), report))"

section \<open>Nothing is shown twice\<close>

lemma src_overlaps_sym: "src_overlaps a b \<longleftrightarrow> src_overlaps b a"
  by (auto simp: src_overlaps_def)

lemma any_overlap_sym: "any_overlap xs ys \<longleftrightarrow> any_overlap ys xs"
  unfolding any_overlap_def list_ex_iff using src_overlaps_sym by blast

lemma judge_layers_add:
  "judge_layers xs i reps Ls = VAdd rs \<Longrightarrow>
     rs = reps @ filter (\<lambda>j. any_overlap xs (d_sources (Ls ! (j - i)))) [i..<i + length Ls] \<and>
     (\<forall>L \<in> set Ls. any_overlap xs (d_sources L) \<longrightarrow> covered (d_sources L) xs)"
proof (induction xs i reps Ls arbitrary: rs rule: judge_layers.induct)
  case (2 xs i reps L Ls)
  have up: "[i..<i + length (L # Ls)] = i # [Suc i..<Suc i + length Ls]" by (simp add: upt_conv_Cons del: upt_Suc)
  have shift: "filter (\<lambda>j. any_overlap xs (d_sources ((L # Ls) ! (j - i)))) [Suc i..<Suc i + length Ls] =
    filter (\<lambda>j. any_overlap xs (d_sources (Ls ! (j - Suc i)))) [Suc i..<Suc i + length Ls]"
    by (rule filter_cong) (auto simp: nth_Cons')
  show ?case
  proof (cases "any_overlap xs (d_sources L)")
    case True
    with 2(3) have c: "covered (d_sources L) xs" by (auto split: if_splits)
    with True 2(2) [OF _ c] 2(3) show ?thesis by (simp only: up filter.simps shift) auto
  next
    case False
    with 2(1) [OF False] 2(3) show ?thesis by (simp only: up filter.simps shift) auto
  qed
qed simp

text \<open>
  C24. \<open>judge\<close> admits a dataset only when nothing would be counted twice: it overlaps neither the live
  data nor any layer except those it names for replacement, and each of those is wholly contained in
  the dataset that replaces it, so replacing them loses nothing.
\<close>

lemma judge_admits_safely:
  assumes "judge x layers live = VAdd rs"
  shows "(\<forall>l. live = Some l \<longrightarrow> \<not> any_overlap (d_sources x) l) \<and>
    (\<forall>i < length layers. if i \<in> set rs then covered (d_sources (layers ! i)) (d_sources x)
       else \<not> any_overlap (d_sources x) (d_sources (layers ! i)))"
proof -
  have j: "judge_layers (d_sources x) 0 [] layers = VAdd rs" and
    l: "\<forall>l. live = Some l \<longrightarrow> \<not> any_overlap (d_sources x) l"
    using assms by (auto simp: judge_def Let_def split: if_splits)
  from judge_layers_add [OF j] l show ?thesis by auto
qed

lemma judge_admits_safely_witness:
  "let a = dataset0\<lparr>d_sources := [\<lparr>s_instance = ''i'', s_name = [], s_since = 0, s_through = 5\<rparr>]\<rparr>;
       b = dataset0\<lparr>d_sources := [\<lparr>s_instance = ''i'', s_name = [], s_since = 0, s_through = 9\<rparr>]\<rparr>
   in covered (d_sources a) (d_sources b)"
proof -
  have "judge (dataset0\<lparr>d_sources := [\<lparr>s_instance = ''i'', s_name = [], s_since = 0, s_through = 9\<rparr>]\<rparr>)
      [dataset0\<lparr>d_sources := [\<lparr>s_instance = ''i'', s_name = [], s_since = 0, s_through = 5\<rparr>]\<rparr>] None = VAdd [0]"
    by (simp add: judge_def covered_def src_contains_def any_overlap_def src_overlaps_def)
  from judge_admits_safely [OF this] show ?thesis by simp
qed

lemma rm_nth_append: "i < length xs \<Longrightarrow> rm_nth i (xs @ ys) = rm_nth i xs @ ys"
  by (simp add: rm_nth_def)

lemma rm_nth_length: "i < length xs \<Longrightarrow> length (rm_nth i xs) = length xs - 1"
  by (simp add: rm_nth_def)

lemma foldr_rm_append:
  "sorted_wrt (<) is \<Longrightarrow> \<forall>i \<in> set is. i < length xs \<Longrightarrow>
    foldr rm_nth is (xs @ ys) = foldr rm_nth is xs @ ys \<and> length (foldr rm_nth is xs) + length is = length xs"
proof (induction "is")
  case (Cons i js)
  have "i + length js < length xs"
  proof -
    have "set js \<subseteq> {i<..<length xs}" using Cons.prems by auto
    then have "card (set js) \<le> length xs - i - 1" using card_mono [of "{i<..<length xs}" "set js"] by simp
    moreover have "card (set js) = length js" using Cons.prems(1) by (simp add: distinct_card strict_sorted_iff)
    ultimately have "length js \<le> length xs - Suc i" "i < length xs" using Cons.prems(2) by auto
    then show ?thesis by arith
  qed
  moreover have IH: "foldr rm_nth js (xs @ ys) = foldr rm_nth js xs @ ys" "length (foldr rm_nth js xs) + length js = length xs"
    using Cons by auto
  ultimately show ?case by (simp add: rm_nth_append rm_nth_length)
qed simp

lemma foldr_rm_filter:
  "foldr rm_nth (filter (\<lambda>i. Q (xs ! i)) [0..<length xs]) xs = filter (\<lambda>y. \<not> Q y) xs"
proof (induction xs rule: rev_induct)
  case (snoc y xs)
  let ?is = "filter (\<lambda>i. Q (xs ! i)) [0..<length xs]"
  have same: "filter (\<lambda>i. Q ((xs @ [y]) ! i)) [0..<length xs] = ?is" by (rule filter_cong) (auto simp: nth_append)
  have ap: "foldr rm_nth ?is (xs @ [y]) = foldr rm_nth ?is xs @ [y]"
    by (intro conjunct1 [OF foldr_rm_append]) (auto simp: sorted_wrt_filter)
  have "rm_nth (length xs) (xs @ [y]) = xs" by (simp add: rm_nth_def)
  with snoc same ap show ?case by simp
qed simp

lemma mark_replaced_labels: "map mr_label (mark_replaced l f rs) = map mr_label rs"
  by (simp add: mark_replaced_def)

lemma replace_one_parts:
  "fst (replace_one f i st) = rm_nth i (fst st)"
  "map mr_label (fst (snd (replace_one f i st))) = map mr_label (fst (snd st))"
  by (simp_all add: replace_one_def mark_replaced_labels split: prod.splits)

lemma replace_fold:
  "fst (foldr (replace_one f) is st) = foldr rm_nth is (fst st) \<and>
   map mr_label (fst (snd (foldr (replace_one f) is st))) = map mr_label (fst (snd st))"
  by (induction "is") (simp_all add: replace_one_parts)

definition layers_apart :: "dataset list \<Rightarrow> bool" where
  "layers_apart Ls \<longleftrightarrow> sorted_wrt (\<lambda>a b. \<not> any_overlap (d_sources a) (d_sources b)) Ls"

lemma merge_file_apart:
  assumes "layers_apart (fst st)"
  shows "layers_apart (fst (merge_file inflate cm st f)) \<and>
    map mr_label (snd (merge_file inflate cm st f)) = map mr_label (snd st) @ [fst f]"
proof (cases st)
  case (Pair layers report)
  show ?thesis
  proof (cases "dataset_from_export_text inflate cm (fst f) (snd f)")
    case (Inr x)
    show ?thesis
    proof (cases "judge x layers None")
      case (VAdd rs)
      have "judge_layers (d_sources x) 0 [] layers = VAdd rs"
        using VAdd by (auto simp: judge_def Let_def split: if_splits)
      from judge_layers_add [OF this]
      have rs: "rs = filter (\<lambda>j. any_overlap (d_sources x) (d_sources (layers ! j))) [0..<length layers]" by simp
      obtain ls' rp' rd' where fo: "foldr (replace_one (fst f)) rs (layers, report, []) = (ls', rp', rd')"
        by (cases "foldr (replace_one (fst f)) rs (layers, report, [])")
      with replace_fold [of "fst f" rs "(layers, report, [])"]
      have "ls' = foldr rm_nth rs layers" "map mr_label rp' = map mr_label report" by simp_all
      moreover have "foldr rm_nth rs layers = filter (\<lambda>L. \<not> any_overlap (d_sources x) (d_sources L)) layers"
        unfolding rs by (rule foldr_rm_filter)
      ultimately show ?thesis using assms Pair Inr VAdd fo
        by (auto simp: merge_file_def layers_apart_def sorted_wrt_append sorted_wrt_filter any_overlap_sym)
    qed (use assms Pair Inr in \<open>auto simp: merge_file_def\<close>)
  qed (use assms Pair in \<open>auto simp: merge_file_def\<close>)
qed

lemma layers_and_labels:
  "layers_apart (fst (merge_layers inflate cm files)) \<and>
   map mr_label (snd (merge_layers inflate cm files)) = map fst files"
proof -
  have "layers_apart (fst st) \<Longrightarrow> layers_apart (fst (foldl (merge_file inflate cm) st fs)) \<and>
    map mr_label (snd (foldl (merge_file inflate cm) st fs)) = map mr_label (snd st) @ map fst fs" for st fs
    by (induction fs arbitrary: st) (auto simp: merge_file_apart)
  from this [of "([], [])" files] show ?thesis by (simp add: merge_layers_def layers_apart_def)
qed

text \<open>
  C25. Whatever files are opened together, in whatever order, the layers that are merged are pairwise
  apart: no server run contributes the same span of time twice. And every file gets exactly one line
  of the report, in the order given.
\<close>

lemma merge_layers_apart:
  "layers_apart (fst (merge_layers inflate cm files)) \<and>
   map mr_label (snd (merge_layers inflate cm files)) = map fst files"
  by (rule layers_and_labels)

section \<open>Imported data is well formed and its local keys are its own\<close>

lemma put_by_props:
  "om_wf m \<Longrightarrow> om_wf (put_by key rd m es)"
  "list_all (\<lambda>(k, r). key r = k) m \<Longrightarrow> list_all (\<lambda>(k, r). key r = k) (put_by key rd m es)"
  unfolding put_by_def
  by (rule foldl_invariant [where I = om_wf]; auto simp: Let_def)
     (rule foldl_invariant [where I = "list_all (\<lambda>(k, r). key r = k)"]; auto simp: Let_def intro!: om_put_all)

lemma read_family_wf: "fam_wf F \<Longrightarrow> fam_wf (read_family F v)"
  by (auto simp: fam_wf_def read_family_def put_by_props)

lemma read_families_wf: "om_wf (read_families ms) \<and> list_all (\<lambda>(k, F). fam_wf F) (read_families ms)"
  unfolding read_families_def
proof (rule foldl_invariant [where I = "\<lambda>acc. om_wf acc \<and> list_all (\<lambda>(k, F). fam_wf F) acc"])
  fix acc :: "(string, ds_family) omap" and m assume h: "om_wf acc \<and> list_all (\<lambda>(k, F). fam_wf F) acc"
  have "fam_wf (om_at ds_family0 acc fam)" for fam using om_at_all [of fam_wf acc ds_family0 fam] h fam_wf0 by auto
  with h show "om_wf (read_fam_step acc m) \<and> list_all (\<lambda>(k, F). fam_wf F) (read_fam_step acc m)"
    by (auto simp: read_fam_step_def intro!: om_put_all read_family_wf split: jval.split)
qed simp

lemma qualified_networks:
  fixes cm tag who
  defines "nets \<equiv> \<lambda>m. foldl (\<lambda>acc (_, n). let q = requalify cm tag who n in om_emplace (n_key q) q acc) [] m"
  shows "om_wf (nets m) \<and> list_all (\<lambda>(k, n). n_key n = k) (nets m) \<and>
    list_all (\<lambda>(k, n). \<exists>n0 \<in> snd ` set m. n = requalify cm tag who n0) (nets m)"
proof -
  have "om_wf acc \<Longrightarrow> list_all (\<lambda>(k, n). n_key n = k) acc \<Longrightarrow> list_all (\<lambda>(k, n). Q n) acc \<Longrightarrow>
    \<forall>p \<in> set m. Q (requalify cm tag who (snd p)) \<Longrightarrow>
    (let r = foldl (\<lambda>acc (_, n). let q = requalify cm tag who n in om_emplace (n_key q) q acc) acc m in
     om_wf r \<and> list_all (\<lambda>(k, n). n_key n = k) r \<and> list_all (\<lambda>(k, n). Q n) r)" for acc Q
  proof (induction m arbitrary: acc)
    case (Cons p m)
    obtain k n where p: "p = (k, n)" by (cases p)
    show ?case using Cons.prems
      by (simp add: p Let_def, intro Cons.IH [unfolded Let_def]) (auto simp: p intro!: om_emplace_all)
  qed (simp add: Let_def)
  from this [of "[]" "\<lambda>n. \<exists>n0 \<in> snd ` set m. n = requalify cm tag who n0"] show ?thesis
    by (auto simp: nets_def Let_def)
qed

lemma qualify_family_wf: "fam_wf F \<Longrightarrow> fam_wf (qualify_family cm tag who F)"
  using qualified_networks [of cm tag who "f_networks F"]
  by (auto simp: fam_wf_def qualify_family_def Let_def om_map_all)

lemma read_merges_ok: "nm_ok (read_merges cm inst who remaps fams ms)"
proof -
  have r: "nm_ok mg \<Longrightarrow> nm_ok (read_rule key nets fam mg kv)" for key nets fam mg kv
    by (auto simp: read_rule_def Let_def merges_add_ok split: jval.splits)
  show ?thesis unfolding read_merges_def
    by (rule foldl_invariant [where I = nm_ok])
      (auto intro!: foldl_invariant [where I = nm_ok] r split: prod.splits option.splits jval.splits)
qed

lemma dataset_from_export_fams:
  assumes "dataset_from_export cm label v = Inr d"
  shows "nm_ok (d_merges d) \<and> (\<exists>ms tag who.
    d_fams d = om_map (qualify_family cm tag who) (read_families ms) \<or>
    v_str v ''instance'' = [] \<and> d_fams d = read_families ms)"
proof -
  from assms obtain ms where ms: "export_fams v = Inr ms" by (auto simp: dataset_from_export_def split: sum.splits)
  define d0 where "d0 = dataset0\<lparr>d_label := label, d_exported := export_time v, d_fams := read_families ms\<rparr>"
  obtain srcs inst name where run: "export_run label v d0 = (srcs, inst, name)" by (cases "export_run label v d0")
  then have i: "inst = [] \<Longrightarrow> v_str v ''instance'' = []"
    by (auto simp: export_run_def Let_def split: if_splits)
  have "d_fams d = qualify_fams cm inst (take 8 inst) (if name = [] then take 8 inst else name) (d_fams d0)" "nm_ok (d_merges d)"
    using assms run by (auto simp: dataset_from_export_def ms d0_def [symmetric] Let_def read_merges_ok)
  with i show ?thesis by (auto simp: qualify_fams_def d0_def)
qed

lemma dataset_from_export_wf: "dataset_from_export cm label v = Inr d \<Longrightarrow> ds_wf d"
proof -
  assume h: "dataset_from_export cm label v = Inr d"
  have "fam_wf F \<Longrightarrow> fam_wf (qualify_family cm tag who F)" for F tag who by (rule qualify_family_wf)
  then have q: "list_all (\<lambda>(k, F). fam_wf F) m \<Longrightarrow> list_all (\<lambda>(k, F). fam_wf (qualify_family cm tag who F)) m" for m :: "(string, ds_family) omap" and tag who
    by (auto simp: list_all_iff)
  from dataset_from_export_fams [OF h] read_families_wf q show ?thesis
    by (auto simp: ds_wf_def om_map_all)
qed

text \<open>
  After reading an export that names its server run, a network key that is only meaningful within
  one run never stays bare: every network is strongly identified, or a channel, or its key carries a
  qualifier, and the qualifier added here is the run's own tag. So such keys of two runs with
  different tags never meet.
\<close>

lemma imported_keys_qualified:
  assumes "dataset_from_export cm label v = Inr d" "v_str v ''instance'' \<noteq> []"
    "om_get (d_fams d) fam = Some F" "om_get (f_networks F) k = Some n"
  shows "n_key n = k \<and> (n_confidence n \<in> {''strong'', ''channel''} \<or> has_tilde k)"
proof -
  from dataset_from_export_fams [OF assms(1)] assms(2) obtain ms tag who
    where "d_fams d = om_map (qualify_family cm tag who) (read_families ms)" by auto
  with assms(3) obtain G where G: "F = qualify_family cm tag who G" by (auto simp: om_get_map)
  define nets where "nets = foldl (\<lambda>acc (_, n). let q = requalify cm tag who n in om_emplace (n_key q) q acc) [] (f_networks G)"
  have fn: "f_networks F = nets" by (simp add: G qualify_family_def nets_def Let_def)
  from qualified_networks [of cm tag who "f_networks G", folded nets_def] assms(4) fn
  have "n_key n = k \<and> (\<exists>n0. n = requalify cm tag who n0)"
    using om_get_all [of "\<lambda>k n. n_key n = k" nets k n]
      om_get_all [of "\<lambda>k n. \<exists>n0 \<in> snd ` set (f_networks G). n = requalify cm tag who n0" nets k n] by auto
  then obtain n0 where n0: "n_key n = k" "n = requalify cm tag who n0" by blast
  have tilde: "has_tilde (a @ CHR ''~'' # b)" for a b
    by (auto simp: has_tilde_def find_char_None_iff)
  from n0 show ?thesis
    by (auto simp: requalify_def qualify_def tilde split: if_splits option.splits)
qed

lemma imported_keys_qualified_witness:
  "has_tilde ''s1~01234567'' \<or> ''weak'' \<in> {''strong'', ''channel''}"
proof -
  define v where "v = JObj [(''instance'', JStr ''0123456789''), (''families'', JObj [(''dmr'', JObj [(''networks'',
      JArr [JObj [(''key'', JStr ''s1''), (''confidence'', JStr ''weak'')]])])])]"
  have i: "v_str v ''instance'' \<noteq> []" by (simp add: v_def v_str_def v_get_def)
  have "case dataset_from_export \<lparr>cm_per_receiver = False, cm_home = []\<rparr> [] v of Inl _ \<Rightarrow> False
    | Inr d \<Rightarrow> (case om_get (d_fams d) ''dmr'' of None \<Rightarrow> False
        | Some F \<Rightarrow> (case om_get (f_networks F) ''s1~01234567'' of None \<Rightarrow> False | Some n \<Rightarrow> n_confidence n = ''weak''))"
    by (simp add: v_def dataset_from_export_def export_fams_def v_get_def v_str_def v_num_def dataset0_def export_time_def
        j_i64_def j_u_def j_arr_def j_obj_def read_families_def read_fam_step_def read_family_def put_by_def read_network_def
        Let_def om_at_def export_run_def read_sources_def qualify_fams_def qualify_family_def requalify_def qualify_def
        has_tilde_def om_emplace_def om_has_def om_map_def ds_family0_def remap_of_def)
  then obtain d F n where w: "dataset_from_export \<lparr>cm_per_receiver = False, cm_home = []\<rparr> [] v = Inr d"
    "om_get (d_fams d) ''dmr'' = Some F" "om_get (f_networks F) ''s1~01234567'' = Some n" "n_confidence n = ''weak''"
    by (auto split: sum.splits option.splits)
  from imported_keys_qualified [OF w(1) i w(2) w(3)] w(4) show ?thesis by simp
qed

end
