(* ===== verification/Graphml.thy ===== *)
theory Graphml
  imports Dataset_Merge
begin

text \<open>
  \<open>apply_merges\<close> and \<open>graphml\<close> of \<open>src/assoc_merge.hpp\<close>: the network merges applied to the data itself,
  and the GraphML document. The document's nodes and edges are lists first, so that what an edge
  names can be compared with the nodes there are; the text is their printing.
\<close>

section \<open>Applying the merges\<close>

definition group_step :: "(string \<Rightarrow> string) \<Rightarrow> (string, ds_network) omap \<Rightarrow> string \<times> ds_network \<Rightarrow> (string, ds_network) omap" where
  "group_step rt acc p =
     (case p of (k, m) \<Rightarrow>
        (case om_get acc (rt k) of
           None \<Rightarrow> om_put (rt k) (m\<lparr>n_key := rt k\<rparr>) acc
         | Some n \<Rightarrow>
             om_put (rt k)
               (join_network
                  (if conf_rank (n_confidence n) < conf_rank (n_confidence m) then n\<lparr>n_confidence := n_confidence m\<rparr> else n) m)
               acc))"

definition group_networks :: "(string \<Rightarrow> string) \<Rightarrow> (string, ds_network) omap \<Rightarrow> (string, ds_network) omap" where
  "group_networks rt nets =
     foldl (group_step rt) (foldl (group_step rt) [] (filter (\<lambda>p. rt (fst p) = fst p) nets))
       (filter (\<lambda>p. rt (fst p) \<noteq> fst p) nets)"

definition root_set :: "(string \<Rightarrow> string) \<Rightarrow> string oset \<Rightarrow> string oset" where
  "root_set rt s = foldl (\<lambda>acc k. os_put (rt k) acc) [] s"

definition apply_family :: "(string \<Rightarrow> string) \<Rightarrow> ds_family \<Rightarrow> ds_family" where
  "apply_family rt F =
     F\<lparr>f_networks := group_networks rt (f_networks F),
       f_tgs := om_map (\<lambda>t. t\<lparr>t_networks := root_set rt (t_networks t)\<rparr>) (f_tgs F),
       f_radios := om_map (\<lambda>r. r\<lparr>r_networks := root_set rt (r_networks r)\<rparr>) (f_radios F),
       f_calls := map (\<lambda>c. c\<lparr>c_net := rt (c_net c)\<rparr>) (f_calls F)\<rparr>"

definition apply_merges :: "dataset \<Rightarrow> dataset" where
  "apply_merges d =
     d\<lparr>d_fams := map (\<lambda>(fam, F). (fam,
          case om_get (d_merges d) fam of
            None \<Rightarrow> F
          | Some R \<Rightarrow> if R = [] then F else apply_family (\<lambda>k. om_at k R k) F)) (d_fams d),
       d_merges := []\<rparr>"

section \<open>The graph\<close>

record graph_edge =
  e_src :: string
  e_dst :: string
  e_type :: string
  e_calls :: nat

definition nid :: "string \<Rightarrow> string \<Rightarrow> string \<Rightarrow> string" where
  "nid fam t i = fam @ '':'' @ t @ '':'' @ i"

definition radio_edges :: "string \<Rightarrow> ds_family \<Rightarrow> ds_radio \<Rightarrow> graph_edge list" where
  "radio_edges fam F r =
     map (\<lambda>(t, n). \<lparr>e_src = nid fam ''r'' (r_id r), e_dst = nid fam ''t'' t, e_type = ''talkgroup'', e_calls = n\<rparr>)
       (filter (\<lambda>(t, n). om_has (f_tgs F) t) (r_tgs r)) @
     map (\<lambda>(p, n). \<lparr>e_src = nid fam ''r'' (r_id r), e_dst = nid fam ''r'' p, e_type = ''private'', e_calls = n\<rparr>)
       (filter (\<lambda>(p, n). r_id r < p \<and> om_has (f_radios F) p) (r_peers r)) @
     map (\<lambda>k. \<lparr>e_src = nid fam ''r'' (r_id r), e_dst = nid fam ''n'' k, e_type = ''member'', e_calls = 0\<rparr>)
       (filter (om_has (f_networks F)) (r_networks r))"

definition tg_edges :: "string \<Rightarrow> ds_family \<Rightarrow> string \<times> ds_talkgroup \<Rightarrow> graph_edge list" where
  "tg_edges fam F p =
     map (\<lambda>k. \<lparr>e_src = nid fam ''t'' (fst p), e_dst = nid fam ''n'' k, e_type = ''member'', e_calls = 0\<rparr>)
       (filter (om_has (f_networks F)) (t_networks (snd p)))"

definition family_edges :: "string \<Rightarrow> ds_family \<Rightarrow> graph_edge list" where
  "family_edges fam F =
     concat (map (\<lambda>p. radio_edges fam F (snd p)) (f_radios F)) @ concat (map (tg_edges fam F) (f_tgs F))"

definition family_nodes :: "string \<Rightarrow> ds_family \<Rightarrow> string list" where
  "family_nodes fam F =
     map (\<lambda>p. nid fam ''n'' (n_key (snd p))) (f_networks F) @
     map (\<lambda>p. nid fam ''t'' (t_id (snd p))) (f_tgs F) @
     map (\<lambda>p. nid fam ''r'' (r_id (snd p))) (f_radios F)"

section \<open>The text\<close>

definition nl :: string where
  "nl = [CHR 0x0A]"

fun join_with :: "string \<Rightarrow> string list \<Rightarrow> string" where
  "join_with sep [] = []"
| "join_with sep (x # xs) = foldl (\<lambda>acc y. acc @ (if acc = [] then [] else sep) @ y) x xs"

definition g_dt :: "string \<Rightarrow> string \<Rightarrow> string" where
  "g_dt k v = jt ''      <data key=`'' @ k @ jt ''`>'' @ xesc v @ ''</data>'' @ nl"

definition g_dn :: "string \<Rightarrow> nat \<Rightarrow> string" where
  "g_dn k v = jt ''      <data key=`'' @ k @ jt ''`>'' @ nat_dec v @ ''</data>'' @ nl"

definition g_open :: "string \<Rightarrow> string" where
  "g_open i = jt ''    <node id=`'' @ xesc i @ jt ''`>'' @ nl"

definition g_close :: string where
  "g_close = ''    </node>'' @ nl"

definition net_labels :: "ds_family \<Rightarrow> string oset \<Rightarrow> string" where
  "net_labels F ks = join_with ''; '' (map (\<lambda>k. case om_get (f_networks F) k of None \<Rightarrow> k | Some n \<Rightarrow> n_label n) ks)"

definition network_node :: "string \<Rightarrow> ds_network \<Rightarrow> string" where
  "network_node fam n =
     (let freqs = join_with ''; '' (map freq_text (n_freqs n)) in
      g_open (nid fam ''n'' (n_key n)) @ g_dt ''type'' ''network'' @ g_dt ''protocol'' fam @ g_dt ''label'' (n_label n) @
      g_dn ''calls'' (n_calls n) @ g_dt ''confidence'' (n_confidence n) @
      g_dt ''identifiers'' (join_with ''; '' (map (\<lambda>(k, v). k @ ''='' @ v) (n_ids n))) @
      g_dt ''sites'' (join_with ''; '' (n_sites n)) @ (if freqs \<noteq> [] then g_dt ''frequencies'' freqs else []) @
      g_dt ''first_seen'' (iso (n_first n)) @ g_dt ''last_seen'' (iso (n_last n)) @ g_close)"

definition talkgroup_node :: "string \<Rightarrow> ds_family \<Rightarrow> ds_talkgroup \<Rightarrow> string" where
  "talkgroup_node fam F t =
     g_open (nid fam ''t'' (t_id t)) @ g_dt ''type'' ''talkgroup'' @ g_dt ''protocol'' fam @
     g_dt ''label'' (''TG '' @ t_id t) @ g_dn ''calls'' (t_calls t) @ g_dn ''radios'' (length (t_radios t)) @
     g_dn ''emergencies'' (t_emerg t) @ g_dn ''encrypted'' (t_enc t) @ g_dt ''networks'' (net_labels F (t_networks t)) @
     g_dt ''first_seen'' (iso (t_first t)) @ g_dt ''last_seen'' (iso (t_last t)) @ g_close"

definition radio_node :: "string \<Rightarrow> ds_family \<Rightarrow> ds_radio \<Rightarrow> string" where
  "radio_node fam F r =
     (let al = join_with '' / '' (r_aliases r) in
      g_open (nid fam ''r'' (r_id r)) @ g_dt ''type'' ''radio'' @ g_dt ''protocol'' fam @
      g_dt ''label'' (if al = [] then r_id r else r_id r @ '' ('' @ al @ '')'') @ g_dn ''calls'' (r_calls r) @
      g_dt ''aliases'' al @ g_dn ''talkgroups'' (length (r_tgs r)) @ g_dt ''networks'' (net_labels F (r_networks r)) @
      g_dt ''first_seen'' (iso (r_first r)) @ g_dt ''last_seen'' (iso (r_last r)) @ g_close)"

definition edge_text :: "nat \<Rightarrow> graph_edge \<Rightarrow> string" where
  "edge_text i e =
     jt ''    <edge id=`e'' @ nat_dec i @ jt ''` source=`'' @ xesc (e_src e) @ jt ''` target=`'' @ xesc (e_dst e) @ jt ''`>'' @ nl @
     g_dt ''etype'' (e_type e) @
     jt ''      <data key=`weight`>'' @ nat_dec (if e_calls e \<noteq> 0 then e_calls e else 1) @ ''</data>'' @ nl @
     (if e_calls e \<noteq> 0 then g_dn ''ecalls'' (e_calls e) else []) @ ''    </edge>'' @ nl"

fun edges_text :: "nat \<Rightarrow> graph_edge list \<Rightarrow> string" where
  "edges_text i [] = []"
| "edges_text i (e # es) = edge_text (Suc i) e @ edges_text (Suc i) es"

definition family_text :: "string \<Rightarrow> ds_family \<Rightarrow> nat \<Rightarrow> string" where
  "family_text fam F eid =
     concat (map (\<lambda>p. network_node fam (snd p)) (f_networks F)) @
     concat (map (\<lambda>p. talkgroup_node fam F (snd p)) (f_tgs F)) @
     concat (map (\<lambda>p. radio_node fam F (snd p)) (f_radios F)) @
     edges_text eid (family_edges fam F)"

fun families_text :: "nat \<Rightarrow> (string \<times> ds_family) list \<Rightarrow> string" where
  "families_text eid [] = []"
| "families_text eid ((fam, F) # fs) = family_text fam F eid @ families_text (eid + length (family_edges fam F)) fs"

definition key_text :: "string \<times> string \<Rightarrow> string" where
  "key_text p = jt ''  <key id=`'' @ fst p @ jt ''` for=`node` attr.name=`'' @ fst p @ jt ''` attr.type=`'' @ snd p @ jt ''`/>'' @ nl"

definition node_keys :: "(string \<times> string) list" where
  "node_keys =
     [(''type'', ''string''), (''protocol'', ''string''), (''label'', ''string''), (''calls'', ''long''),
      (''aliases'', ''string''), (''networks'', ''string''), (''radios'', ''long''), (''talkgroups'', ''long''),
      (''emergencies'', ''long''), (''encrypted'', ''long''), (''confidence'', ''string''),
      (''identifiers'', ''string''), (''sites'', ''string''), (''frequencies'', ''string''),
      (''first_seen'', ''string''), (''last_seen'', ''string'')]"

definition shown_dataset :: "dataset \<Rightarrow> dataset" where
  "shown_dataset d = (if d_merges d = [] then d else apply_merges d)"

definition graphml :: "dataset \<Rightarrow> int \<Rightarrow> string" where
  "graphml d now =
     jt ''<?xml version=`1.0` encoding=`UTF-8`?>'' @ nl @
     jt ''<graphml xmlns=`http://graphml.graphdrawing.org/xmlns` xmlns:xsi=`http://www.w3.org/2001/XMLSchema-instance` '' @
     jt ''xsi:schemaLocation=`http://graphml.graphdrawing.org/xmlns http://graphml.graphdrawing.org/xmlns/1.0/graphml.xsd`>'' @ nl @
     ''  <!-- dsd-server network explorer export, '' @ iso now @ '' -->'' @ nl @
     concat (map key_text node_keys) @
     jt ''  <key id=`etype` for=`edge` attr.name=`type` attr.type=`string`/>'' @ nl @
     jt ''  <key id=`weight` for=`edge` attr.name=`weight` attr.type=`double`/>'' @ nl @
     jt ''  <key id=`ecalls` for=`edge` attr.name=`calls` attr.type=`long`/>'' @ nl @
     jt ''  <graph id=`dsd-net` edgedefault=`undirected`>'' @ nl @
     families_text 0 (d_fams (shown_dataset d)) @ ''  </graph>'' @ nl @ ''</graphml>'' @ nl"

section \<open>What applying the merges keeps\<close>

definition total_calls :: "(string, ds_network) omap \<Rightarrow> nat" where
  "total_calls nets = sum_list (map (\<lambda>p. n_calls (snd p)) nets)"

lemma total_calls_put:
  "om_wf m \<Longrightarrow> total_calls (om_put k v m) + (case om_get m k of None \<Rightarrow> 0 | Some w \<Rightarrow> n_calls w) = total_calls m + n_calls v"
proof (induction k v m rule: om_put.induct)
  case (2 k v a b m)
  have "om_get m k = None" if "k < a"
    using that 2(2) by (auto simp: om_wf_Cons map_of_eq_None_iff)
  with 2 show ?case by (auto simp: total_calls_def om_wf_Cons split: option.splits)
qed (simp add: total_calls_def)

lemma join_network_simps [simp]:
  "n_calls (join_network n m) = n_calls n + n_calls m" "n_key (join_network n m) = n_key n"
  by (simp_all add: join_network_def)

lemma group_step_props:
  assumes "om_wf acc"
  shows "om_wf (group_step rt acc p) \<and> total_calls (group_step rt acc p) = total_calls acc + n_calls (snd p) \<and>
    fst ` set (group_step rt acc p) = insert (rt (fst p)) (fst ` set acc)"
proof (cases "om_get acc (rt (fst p))")
  case None
  with total_calls_put [OF assms, of "rt (fst p)"] assms show ?thesis
    by (cases p) (simp add: group_step_def om_put_keys)
next
  case (Some n)
  define v where "v = join_network (if conf_rank (n_confidence n) < conf_rank (n_confidence (snd p))
    then n\<lparr>n_confidence := n_confidence (snd p)\<rparr> else n) (snd p)"
  have g: "group_step rt acc p = om_put (rt (fst p)) v acc"
    using Some by (cases p) (simp add: group_step_def v_def)
  have "n_calls v = n_calls n + n_calls (snd p)" by (simp add: v_def)
  with total_calls_put [OF assms, of "rt (fst p)" v] assms Some show ?thesis
    by (simp add: g om_put_keys)
qed

lemma group_steps_props:
  "om_wf acc \<Longrightarrow> om_wf (foldl (group_step rt) acc ps) \<and>
    total_calls (foldl (group_step rt) acc ps) = total_calls acc + total_calls ps \<and>
    fst ` set (foldl (group_step rt) acc ps) = fst ` set acc \<union> rt ` fst ` set ps"
proof (induction ps arbitrary: acc)
  case (Cons p ps)
  with group_step_props [OF Cons.prems, of rt p] show ?case by (auto simp: total_calls_def)
qed (simp add: total_calls_def)

lemma total_calls_partition: "total_calls (filter P m) + total_calls (filter (\<lambda>p. \<not> P p) m) = total_calls m"
  by (induction m) (auto simp: total_calls_def)

text \<open>
  Applying the merges joins networks without losing a call: the networks that remain are exactly
  those others are shown under, and together they have as many calls as before.
\<close>

lemma group_networks_totals:
  "total_calls (group_networks rt nets) = total_calls nets \<and>
   fst ` set (group_networks rt nets) = rt ` fst ` set nets \<and> om_wf (group_networks rt nets)"
proof -
  define a where "a = foldl (group_step rt) [] (filter (\<lambda>p. rt (fst p) = fst p) nets)"
  have "om_wf a \<and> total_calls a = total_calls (filter (\<lambda>p. rt (fst p) = fst p) nets) \<and>
      fst ` set a = rt ` fst ` set (filter (\<lambda>p. rt (fst p) = fst p) nets)"
    using group_steps_props [of "[]" rt] by (simp add: a_def total_calls_def)
  moreover have "set (filter P nets) \<union> set (filter (\<lambda>p. \<not> P p) nets) = set nets" for P :: "string \<times> ds_network \<Rightarrow> bool"
    by auto
  then have "rt ` fst ` set (filter P nets) \<union> rt ` fst ` set (filter (\<lambda>p. \<not> P p) nets) = rt ` fst ` set nets"
    for P :: "string \<times> ds_network \<Rightarrow> bool" by (metis image_Un)
  ultimately show ?thesis
    using group_steps_props [of a rt "filter (\<lambda>p. rt (fst p) \<noteq> fst p) nets"]
      total_calls_partition [of "\<lambda>p. rt (fst p) = fst p" nets]
    by (simp add: group_networks_def a_def [symmetric])
qed

section \<open>Every edge joins two nodes\<close>

lemma has_node:
  "fam_wf F \<Longrightarrow> om_has (f_networks F) k \<Longrightarrow> nid fam ''n'' k \<in> set (family_nodes fam F)"
  "fam_wf F \<Longrightarrow> om_has (f_tgs F) k \<Longrightarrow> nid fam ''t'' k \<in> set (family_nodes fam F)"
  "fam_wf F \<Longrightarrow> om_has (f_radios F) k \<Longrightarrow> nid fam ''r'' k \<in> set (family_nodes fam F)"
proof -
  have has: "om_has m k \<Longrightarrow> list_all (\<lambda>(k, v). f v = k) m \<Longrightarrow> \<exists>v. (k, v) \<in> set m \<and> f v = k" for m and f :: "'a \<Rightarrow> string"
    by (fastforce simp: om_has_iff list_all_iff)
  show "fam_wf F \<Longrightarrow> om_has (f_networks F) k \<Longrightarrow> nid fam ''n'' k \<in> set (family_nodes fam F)"
    using has [of "f_networks F" n_key] by (force simp: family_nodes_def fam_wf_def)
  show "fam_wf F \<Longrightarrow> om_has (f_tgs F) k \<Longrightarrow> nid fam ''t'' k \<in> set (family_nodes fam F)"
    using has [of "f_tgs F" t_id] by (force simp: family_nodes_def fam_wf_def)
  show "fam_wf F \<Longrightarrow> om_has (f_radios F) k \<Longrightarrow> nid fam ''r'' k \<in> set (family_nodes fam F)"
    using has [of "f_radios F" r_id] by (force simp: family_nodes_def fam_wf_def)
qed

lemma family_edges_nodes:
  assumes "fam_wf F" "e \<in> set (family_edges fam F)"
  shows "e_src e \<in> set (family_nodes fam F) \<and> e_dst e \<in> set (family_nodes fam F)"
proof -
  consider p where "p \<in> set (f_radios F)" "e \<in> set (radio_edges fam F (snd p))"
    | p where "p \<in> set (f_tgs F)" "e \<in> set (tg_edges fam F p)"
    using assms(2) by (auto simp: family_edges_def)
  then show ?thesis
  proof cases
    case 1
    then have "nid fam ''r'' (r_id (snd p)) \<in> set (family_nodes fam F)" by (force simp: family_nodes_def)
    with 1(2) has_node [OF assms(1)] show ?thesis by (auto simp: radio_edges_def)
  next
    case 2
    then have "om_has (f_tgs F) (fst p)" by (force simp: om_has_iff)
    with 2(2) has_node [OF assms(1)] show ?thesis by (auto simp: tg_edges_def)
  qed
qed

lemma apply_family_wf:
  assumes "fam_wf F"
  shows "fam_wf (apply_family rt F)"
proof -
  have step: "list_all (\<lambda>(k, n). n_key n = k) (group_step rt acc p)"
    if "list_all (\<lambda>(k, n). n_key n = k) acc" for acc p
    using that by (auto simp: group_step_def intro!: om_put_all dest: om_get_all split: prod.splits option.splits)
  have "list_all (\<lambda>(k, n). n_key n = k) (group_networks rt (f_networks F))"
    unfolding group_networks_def by (intro foldl_invariant [where I = "list_all (\<lambda>(k, n). n_key n = k)", OF step]) auto
  with assms group_networks_totals [of rt "f_networks F"] show ?thesis
    by (simp add: fam_wf_def apply_family_def om_map_all)
qed

text \<open>
  The exported graph is closed: in every protocol both ends of every edge are nodes of the
  document, also after the network merges were applied.
\<close>

lemma graph_edges_closed:
  assumes "ds_wf d" "(fam, F) \<in> set (d_fams (shown_dataset d))" "e \<in> set (family_edges fam F)"
  shows "e_src e \<in> set (family_nodes fam F) \<and> e_dst e \<in> set (family_nodes fam F)"
proof (rule family_edges_nodes [OF _ assms(3)])
  show "fam_wf F" using assms(1,2)
    by (auto simp: shown_dataset_def apply_merges_def ds_wf_def list_all_iff intro!: apply_family_wf
        split: if_splits option.splits)
qed

lemma graph_edges_closed_witness:
  "nid ''dmr'' ''n'' ''x'' \<in> set (family_nodes ''dmr''
     (ds_family0\<lparr>f_networks := [(''x'', ds_network0\<lparr>n_key := ''x''\<rparr>)],
       f_tgs := [(''1'', ds_talkgroup0\<lparr>t_id := ''1'', t_networks := [''x'']\<rparr>)]\<rparr>))"
proof -
  define F where "F = ds_family0\<lparr>f_networks := [(''x'', ds_network0\<lparr>n_key := ''x''\<rparr>)],
       f_tgs := [(''1'', ds_talkgroup0\<lparr>t_id := ''1'', t_networks := [''x'']\<rparr>)]\<rparr>"
  have "ds_wf (dataset0\<lparr>d_fams := [(''dmr'', F)]\<rparr>)"
    by (simp add: ds_wf_def dataset0_def fam_wf_def F_def ds_family0_def)
  moreover have "(''dmr'', F) \<in> set (d_fams (shown_dataset (dataset0\<lparr>d_fams := [(''dmr'', F)]\<rparr>)))"
    by (simp add: shown_dataset_def dataset0_def)
  moreover have "\<lparr>e_src = nid ''dmr'' ''t'' ''1'', e_dst = nid ''dmr'' ''n'' ''x'', e_type = ''member'', e_calls = 0\<rparr> \<in>
      set (family_edges ''dmr'' F)"
    by (simp add: family_edges_def tg_edges_def F_def ds_family0_def ds_talkgroup0_def om_has_def)
  ultimately show ?thesis using graph_edges_closed by (fastforce simp: F_def)
qed

end
