(* ===== verification/Assoc_Log.thy ===== *)
theory Assoc_Log
  imports Mjson "HOL-Library.Word"
begin

text \<open>
  Recordings of what the explorer's model was fed (\<open>src/assoc_log.hpp\<close>) and the decoder events they
  hold (\<open>src/dsd_backend_types.hpp\<close>): the lines of a recording, their byte-exact reader, and the
  recorder with its size cap. What zlib compresses is the list of lines written.
\<close>

section \<open>Decoder events\<close>

record dsd_event =
  ev_raw :: string
  ev_kind :: string
  ev_tg :: string
  ev_src :: string
  ev_slot :: string
  ev_cc :: string
  ev_ran :: string
  ev_nac :: string
  ev_emerg :: string
  ev_alias :: string
  ev_crc :: string
  ev_msg :: string
  ev_extra :: string
  ev_voice_frame :: "64 word"
  ev_voice_err :: int

definition dsd_event0 :: dsd_event where
  "dsd_event0 = \<lparr>ev_raw = [], ev_kind = [], ev_tg = [], ev_src = [], ev_slot = [], ev_cc = [], ev_ran = [],
     ev_nac = [], ev_emerg = [], ev_alias = [], ev_crc = [], ev_msg = [], ev_extra = [], ev_voice_frame = 0,
     ev_voice_err = -1\<rparr>"

definition crc_error_wire :: "string \<Rightarrow> string" where
  "crc_error_wire v = (if v = ''1'' then ''1'' else ''0'')"

section \<open>Writing a line\<close>

definition lesc_char :: "char \<Rightarrow> string" where
  "lesc_char c =
     (if c = dq then [bslash, dq]
      else if c = bslash then [bslash, bslash]
      else if byte c < 0x20 \<or> 0x7F \<le> byte c then u_escape c
      else [c])"

definition lq :: "string \<Rightarrow> string" where
  "lq s = dq # concat (map lesc_char s) @ [dq]"

definition ev_fields :: "dsd_event \<Rightarrow> (string \<times> string) list" where
  "ev_fields e =
     [(''kind'', ev_kind e), (''tg'', ev_tg e), (''src'', ev_src e), (''slot'', ev_slot e), (''cc'', ev_cc e),
      (''ran'', ev_ran e), (''nac'', ev_nac e), (''em'', ev_emerg e), (''alias'', ev_alias e), (''crc'', ev_crc e),
      (''msg'', ev_msg e), (''extra'', ev_extra e), (''raw'', ev_raw e)]"

definition event_line :: "int \<Rightarrow> nat \<Rightarrow> dsd_event \<Rightarrow> string" where
  "event_line t sid e =
     jt ''{`op`:`ev`,`t`:'' @ int_dec t @ jt '',`s`:'' @ nat_dec sid @
     concat (map (\<lambda>(k, v). if v \<noteq> [] then jt '',`'' @ k @ jt ''`:'' @ lq v else []) (ev_fields e)) @ ''}''"

section \<open>Reading a line\<close>

text \<open>A reader fails, throws (\<open>std::stoul\<close> found no number), or gives a value.\<close>

datatype 'a log_res = LBad | LThrow | LOk 'a

definition strip_hex_prefix :: "string \<Rightarrow> string" where
  "strip_hex_prefix s =
     (case s of
        a # b # c # r \<Rightarrow> if a = CHR ''0'' \<and> (b = CHR ''x'' \<or> b = CHR ''X'') \<and> is_xdigit c then c # r else s
      | _ \<Rightarrow> s)"

text \<open>\<open>static_cast<unsigned>(std::stoul(s, nullptr, 16))\<close> of at most four characters.\<close>

definition stoul16 :: "string \<Rightarrow> nat option" where
  "stoul16 s =
     (let t = skip_ws s; neg = (t \<noteq> [] \<and> hd t = CHR ''-'');
          u = strip_hex_prefix (if t \<noteq> [] \<and> (hd t = CHR ''-'' \<or> hd t = CHR ''+'') then tl t else t);
          ds = takeWhile is_xdigit u; v = hex_num ds
      in if ds = [] then None else Some (if neg \<and> v \<noteq> 0 then 2 ^ 32 - v else v))"

definition cp_bytes :: "nat \<Rightarrow> string" where
  "cp_bytes cp =
     (if cp \<le> 0xFF then [chr cp]
      else if cp < 0x800 then [chr (0xC0 + cp div 64), chr (0x80 + cp mod 64)]
      else [chr (or (cp div 4096) 0xE0 mod 256), chr (0x80 + cp div 64 mod 64), chr (0x80 + cp mod 64)])"

definition log_unesc :: "char \<Rightarrow> char" where
  "log_unesc e =
     (if e = CHR ''n'' then CHR 0x0A else if e = CHR ''r'' then CHR 0x0D else if e = CHR ''t'' then CHR 0x09
      else if e = CHR ''b'' then CHR 0x08 else if e = CHR ''f'' then CHR 0x0C else e)"

function log_body :: "string \<Rightarrow> string \<Rightarrow> (string \<times> string) log_res" where
  "log_body acc s =
     (case s of
        [] \<Rightarrow> LBad
      | c # r \<Rightarrow>
          if c = dq then LOk (acc, r)
          else if c \<noteq> bslash then log_body (acc @ [c]) r
          else (case r of
              [] \<Rightarrow> LBad
            | e # r1 \<Rightarrow>
                if e = CHR ''u'' then
                  (if length r1 < 4 then LBad
                   else (case stoul16 (take 4 r1) of
                       None \<Rightarrow> LThrow
                     | Some cp \<Rightarrow> log_body (acc @ cp_bytes cp) (drop 4 r1)))
                else log_body (acc @ [log_unesc e]) r1))"
  by auto
termination by (relation "measure (\<lambda>(acc, s). length s)") auto

declare log_body.simps [simp del]

definition log_str :: "string \<Rightarrow> (string \<times> string) log_res" where
  "log_str s = (case s of c # r \<Rightarrow> if c = dq then log_body [] r else LBad | [] \<Rightarrow> LBad)"

definition log_ws :: "string \<Rightarrow> string" where
  "log_ws s = dropWhile (\<lambda>c. c = CHR '' '' \<or> c = CHR 0x09 \<or> c = CHR 0x0D) s"

definition lit_char :: "char \<Rightarrow> bool" where
  "lit_char c \<longleftrightarrow> c \<noteq> CHR '','' \<and> c \<noteq> CHR ''}'' \<and> c \<noteq> CHR '' ''"

definition log_value :: "string \<Rightarrow> (string \<times> string) log_res" where
  "log_value s =
     (if s \<noteq> [] \<and> hd s = dq then log_str s
      else (let v = takeWhile lit_char s in if v = [] then LBad else LOk (v, drop (length v) s)))"

text \<open>One key and its value, and what follows after spaces.\<close>

definition log_member :: "string \<Rightarrow> (string \<times> string \<times> string) log_res" where
  "log_member s =
     (case log_str (log_ws s) of
        LBad \<Rightarrow> LBad | LThrow \<Rightarrow> LThrow
      | LOk (k, r) \<Rightarrow>
          (case log_ws r of
             [] \<Rightarrow> LBad
           | c # r1 \<Rightarrow>
               if c \<noteq> CHR '':'' then LBad
               else (case log_value (log_ws r1) of
                   LBad \<Rightarrow> LBad | LThrow \<Rightarrow> LThrow
                 | LOk (v, r2) \<Rightarrow> LOk (k, v, log_ws r2))))"

lemma log_ws_length: "length (log_ws s) \<le> length s"
  by (simp add: log_ws_def length_dropWhile_le)

text \<open>The reader one step at a time.\<close>

lemma log_body_step:
  "log_body acc [] = LBad"
  "log_body acc (dq # r) = LOk (acc, r)"
  "c \<noteq> dq \<Longrightarrow> c \<noteq> bslash \<Longrightarrow> log_body acc (c # r) = log_body (acc @ [c]) r"
  "log_body acc [bslash] = LBad"
  "log_body acc (bslash # CHR ''u'' # r) =
     (if length r < 4 then LBad
      else case stoul16 (take 4 r) of None \<Rightarrow> LThrow | Some cp \<Rightarrow> log_body (acc @ cp_bytes cp) (drop 4 r))"
  "e \<noteq> CHR ''u'' \<Longrightarrow> log_body acc (bslash # e # r) = log_body (acc @ [log_unesc e]) r"
  by (subst log_body.simps, simp)+

lemma log_body_length: "log_body acc s = LOk (v, r) \<Longrightarrow> length r \<le> length s"
proof (induction "length s" arbitrary: acc s rule: less_induct)
  case less
  show ?case
  proof (cases s)
    case Nil
    with less.prems show ?thesis by (simp add: log_body_step)
  next
    case (Cons c t)
    consider "c = dq" | "c \<noteq> dq" "c \<noteq> bslash" | "c = bslash" "t = []"
      | e u where "c = bslash" "t = e # u" "e \<noteq> CHR ''u''" | u where "c = bslash" "t = CHR ''u'' # u"
      by (cases t) auto
    then show ?thesis
    proof cases
      case 2
      with less.prems Cons have "log_body (acc @ [c]) t = LOk (v, r)" by (simp add: log_body_step)
      from less.hyps [OF _ this] Cons show ?thesis by simp
    next
      case 4
      with less.prems Cons have "log_body (acc @ [log_unesc e]) u = LOk (v, r)" by (simp add: log_body_step)
      from less.hyps [OF _ this] 4 Cons show ?thesis by simp
    next
      case 5
      with less.prems Cons obtain cp where "log_body (acc @ cp_bytes cp) (drop 4 u) = LOk (v, r)"
        by (auto simp: log_body_step split: if_splits option.splits)
      from less.hyps [OF _ this] 5 Cons have "length r \<le> length u - 4" by simp
      with 5 Cons show ?thesis by simp
    qed (use less.prems Cons in \<open>simp_all add: log_body_step\<close>)
  qed
qed

lemma log_str_length: "log_str s = LOk (v, r) \<Longrightarrow> length r \<le> length s"
  by (auto simp: log_str_def split: list.splits if_splits dest!: log_body_length)

lemma log_value_length: "log_value s = LOk (v, r) \<Longrightarrow> length r \<le> length s"
  by (auto simp: log_value_def Let_def split: if_splits dest!: log_str_length)

lemma log_member_length: "log_member s = LOk (k, v, r) \<Longrightarrow> length r \<le> length s"
proof -
  assume h: "log_member s = LOk (k, v, r)"
  then obtain r0 r1 r2 where "log_str (log_ws s) = LOk (k, r0)" "log_ws r0 = CHR '':'' # r1"
    "log_value (log_ws r1) = LOk (v, r2)" "r = log_ws r2"
    by (auto simp: log_member_def split: log_res.splits list.splits if_splits prod.splits)
  then show ?thesis
    using log_str_length [of "log_ws s" k r0] log_value_length [of "log_ws r1" v r2] log_ws_length [of s]
      log_ws_length [of r0] log_ws_length [of r1] log_ws_length [of r2] by simp
qed

function log_loop :: "(string, string) omap \<Rightarrow> string \<Rightarrow> (string, string) omap log_res" where
  "log_loop m s =
     (case log_member s of
        LBad \<Rightarrow> LBad | LThrow \<Rightarrow> LThrow
      | LOk (k, v, r) \<Rightarrow>
          (case r of
             [] \<Rightarrow> LBad
           | c # t \<Rightarrow> if c = CHR '','' then log_loop (om_put k v m) t
                     else if c = CHR ''}'' then LOk (om_put k v m) else LBad))"
  by auto
termination
  by (relation "measure (\<lambda>(m, s). length s)") (auto dest!: log_member_length)

declare log_loop.simps [simp del]

definition parse_line :: "string \<Rightarrow> (string, string) omap log_res" where
  "parse_line s =
     (case log_ws s of
        [] \<Rightarrow> LBad
      | c # r \<Rightarrow>
          if c \<noteq> CHR ''{'' then LBad
          else (case log_ws r of d # t \<Rightarrow> if d = CHR ''}'' then LOk [] else log_loop [] (d # t) | [] \<Rightarrow> log_loop [] []))"

definition line_event :: "(string, string) omap \<Rightarrow> dsd_event" where
  "line_event m =
     dsd_event0\<lparr>ev_kind := om_at [] m ''kind'', ev_tg := om_at [] m ''tg'', ev_src := om_at [] m ''src'',
       ev_slot := om_at [] m ''slot'', ev_cc := om_at [] m ''cc'', ev_ran := om_at [] m ''ran'',
       ev_nac := om_at [] m ''nac'', ev_emerg := om_at [] m ''em'', ev_alias := om_at [] m ''alias'',
       ev_crc := om_at [] m ''crc'', ev_msg := om_at [] m ''msg'', ev_extra := om_at [] m ''extra'',
       ev_raw := om_at [] m ''raw''\<rparr>"

definition utc_stamp :: "int \<Rightarrow> string" where
  "utc_stamp ms =
     (let t = tdiv ms 1000; sod = t mod 86400
      in case civil_of_days (t div 86400) of
           (y, m, d) \<Rightarrow> int_dec y @ pad2 m @ pad2 d @ ''_'' @
             pad2 (sod div 3600) @ pad2 (sod div 60 mod 60) @ pad2 (sod mod 60))"

section \<open>The recorder\<close>

record recorder =
  rc_on :: bool
  rc_path :: string
  rc_last_path :: string
  rc_bytes :: nat
  rc_max :: nat
  rc_truncated :: bool
  rc_last_flush :: int
  rc_out :: "string list"

definition recorder0 :: recorder where
  "recorder0 = \<lparr>rc_on = False, rc_path = [], rc_last_path = [], rc_bytes = 0, rc_max = 0, rc_truncated = False,
     rc_last_flush = 0, rc_out = []\<rparr>"

definition rec_stop :: "recorder \<Rightarrow> recorder" where
  "rec_stop r = (if rc_on r then r\<lparr>rc_on := False, rc_path := []\<rparr> else r)"

text \<open>The first free name: \<open>net_<stamp>\<close>, then numbered from 2; \<open>taken\<close> are the names in the folder.\<close>

definition rec_name :: "string list \<Rightarrow> string \<Rightarrow> string" where
  "rec_name taken stamp =
     (if ''net_'' @ stamp @ ''.jsonl.gz'' \<notin> set taken then ''net_'' @ stamp @ ''.jsonl.gz''
      else hd (filter (\<lambda>n. n \<notin> set taken)
             (map (\<lambda>k. ''net_'' @ stamp @ ''_'' @ nat_dec k @ ''.jsonl.gz'') [2..<length taken + 3])))"

definition rec_start :: "(string \<Rightarrow> bool) \<Rightarrow> string list \<Rightarrow> string \<Rightarrow> nat \<Rightarrow> int \<Rightarrow> recorder \<Rightarrow> recorder \<times> bool" where
  "rec_start can taken dir max_bytes now r =
     (let path = dir @ ''/'' @ rec_name taken (utc_stamp now); r1 = rec_stop r
      in if \<not> can path then (r1, False)
         else (\<lparr>rc_on = True, rc_path = path, rc_last_path = path, rc_bytes = 0, rc_max = max_bytes,
                rc_truncated = False, rc_last_flush = now, rc_out = []\<rparr>, True))"

definition rec_write :: "string \<Rightarrow> int \<Rightarrow> recorder \<Rightarrow> recorder" where
  "rec_write line now r =
     (if \<not> rc_on r \<or> rc_truncated r then r
      else if rc_max r \<noteq> 0 \<and> rc_max r < rc_bytes r + length line + 1 then
        r\<lparr>rc_truncated := True, rc_out := rc_out r @ [jt ''{`op`:`truncated`}'']\<rparr>
      else r\<lparr>rc_out := rc_out r @ [line], rc_bytes := rc_bytes r + length line + 1,
             rc_last_flush := (if 1000 \<le> now - rc_last_flush r then now else rc_last_flush r)\<rparr>)"

section \<open>What is recorded is read back\<close>

lemma hex_digit_xdigit: "d < 16 \<Longrightarrow> is_xdigit (hex_digit d)"
  by (auto simp: is_xdigit_def is_digit_def hex_digit_def byte_chr)

lemma stoul16_u: "stoul16 [CHR ''0'', CHR ''0'', hex_digit (byte c div 16), hex_digit (byte c mod 16)] = Some (byte c)"
proof -
  have b: "byte c div 16 < 16" using byte_less [of c] by (intro less_mult_imp_div_less) simp
  have z: "is_xdigit (CHR ''0'')" "\<not> is_space (CHR ''0'')" by code_simp+
  have "stoul16 [CHR ''0'', CHR ''0'', hex_digit h, hex_digit l] = Some (16 * h + l)" if "h < 16" "l < 16" for h l
    using that z hex_digit_xdigit [of h] hex_digit_xdigit [of l]
    by (simp add: stoul16_def skip_ws_def strip_hex_prefix_def hex_num_def hex_val_zero hex_val_hex_digit)
  from this [OF b, of "byte c mod 16"] show ?thesis by simp
qed

interpretation log_codec: text_codec lesc_char log_body "\<lambda>acc r. LOk (acc, r)" dq "\<lambda>_. True"
proof unfold_locales
  fix c acc r
  have u: "log_body acc (u_escape c @ r) = log_body (acc @ [c]) r"
    using byte_less [of c] by (simp add: u_escape_def log_body_step stoul16_u cp_bytes_def less_Suc_eq_le [of _ 255, simplified])
  have q: "log_body acc (bslash # dq # r) = log_body (acc @ [dq]) r"
    "log_body acc (bslash # bslash # r) = log_body (acc @ [bslash]) r"
    by (simp_all add: log_body_step log_unesc_def)
  show "log_body acc (lesc_char c @ r) = log_body (acc @ [c]) r"
    using u q by (auto simp: lesc_char_def log_body_step)
qed (simp add: log_body_step)

lemma log_str_lq: "log_str (lq s @ r) = LOk (s, r)"
  using log_codec.read_encoded [of s "[]" r] by (simp add: log_str_def lq_def)

text \<open>A member as the code writes it: a plain key, and a quoted string or a bare number.\<close>

definition lit_ok :: "string \<Rightarrow> bool" where
  "lit_ok v \<longleftrightarrow> v \<noteq> [] \<and> list_all (\<lambda>c. lit_char c \<and> c \<noteq> dq \<and> c \<noteq> CHR 0x09 \<and> c \<noteq> CHR 0x0D) v"

definition member_text :: "bool \<times> string \<times> string \<Rightarrow> string" where
  "member_text f = (case f of (quoted, k, v) \<Rightarrow> lq k @ '':'' @ (if quoted then lq v else v))"

definition member_ok :: "bool \<times> string \<times> string \<Rightarrow> bool" where
  "member_ok f = (case f of (quoted, k, v) \<Rightarrow> quoted \<or> lit_ok v)"

definition ends_member :: "string \<Rightarrow> bool" where
  "ends_member r \<longleftrightarrow> r \<noteq> [] \<and> (hd r = CHR '','' \<or> hd r = CHR ''}'')"

lemma log_ws_quoted: "log_ws (lq s @ r) = lq s @ r"
  by (simp add: log_ws_def lq_def)

lemma log_member_text:
  assumes "member_ok (b, k, v)" "ends_member r"
  shows "log_member (member_text (b, k, v) @ r) = LOk (k, v, r)"
proof -
  have r: "log_ws r = r" using assms(2) by (cases r) (auto simp: ends_member_def log_ws_def)
  have c: "log_ws (CHR '':'' # t) = CHR '':'' # t" for t by (simp add: log_ws_def)
  have "log_value (log_ws ((if b then lq v else v) @ r)) = LOk (v, r)"
  proof (cases b)
    case True
    then show ?thesis by (simp add: log_ws_quoted log_value_def log_str_lq) (simp add: lq_def)
  next
    case False
    with assms(1) have v: "v \<noteq> []" "\<forall>c \<in> set v. lit_char c" "hd v \<noteq> dq" "hd v \<noteq> CHR 0x09" "hd v \<noteq> CHR 0x0D" "hd v \<noteq> CHR '' ''"
      by (auto simp: member_ok_def lit_ok_def list_all_iff lit_char_def)
    then have w: "log_ws (v @ r) = v @ r" by (cases v) (auto simp: log_ws_def)
    have "takeWhile lit_char r = []" using assms(2) by (cases r) (auto simp: ends_member_def lit_char_def)
    then have "takeWhile lit_char (v @ r) = v" using v(2) by (simp add: takeWhile_append2)
    with v w False show ?thesis by (simp add: log_value_def Let_def)
  qed
  then show ?thesis
    by (simp add: member_text_def log_member_def log_ws_quoted log_str_lq c r)
qed

lemma log_loop_text:
  "\<forall>f \<in> set (f # fs). member_ok f \<Longrightarrow>
    log_loop m (member_text f @ concat (map (\<lambda>f. CHR '','' # member_text f) fs) @ ''}'') =
    LOk (foldl (\<lambda>acc (b, k, v). om_put k v acc) m (f # fs))"
proof (induction fs arbitrary: f m)
  case Nil
  obtain b k v where f: "f = (b, k, v)" by (cases f)
  have "log_member (member_text f @ ''}'') = LOk (k, v, ''}'')"
    using Nil by (simp add: f log_member_text ends_member_def)
  then show ?case by (subst log_loop.simps) (simp add: f)
next
  case (Cons g gs)
  obtain b k v where f: "f = (b, k, v)" by (cases f)
  let ?t = "concat (map (\<lambda>f. CHR '','' # member_text f) (g # gs)) @ ''}''"
  have "log_member (member_text f @ ?t) = LOk (k, v, ?t)"
    using Cons.prems by (simp only: f, intro log_member_text) (simp_all add: ends_member_def)
  then show ?case using Cons.IH [of g "om_put k v m"] Cons.prems by (subst log_loop.simps) (simp add: f)
qed

lemma parse_line_text:
  assumes "\<forall>f \<in> set (f # fs). member_ok f"
  shows "parse_line (CHR ''{'' # member_text f @ concat (map (\<lambda>f. CHR '','' # member_text f) fs) @ ''}'') =
    LOk (foldl (\<lambda>acc (b, k, v). om_put k v acc) [] (f # fs))"
proof -
  have "log_ws (CHR ''{'' # t) = CHR ''{'' # t" for t by (simp add: log_ws_def)
  moreover obtain b k v where "f = (b, k, v)" by (cases f)
  then have "member_text f = dq # concat (map lesc_char k) @ dq # CHR '':'' # (if b then lq v else v)"
    by (simp add: member_text_def lq_def)
  moreover from this have "log_ws (member_text f @ t) = member_text f @ t" for t by (simp add: log_ws_def)
  ultimately show ?thesis using log_loop_text [OF assms, of "[]"] by (simp add: parse_line_def)
qed

lemma get_puts:
  "om_wf m \<Longrightarrow> om_get (foldl (\<lambda>acc (b, k, v). om_put k v acc) m fs) j =
    (case map_of (rev (map snd fs)) j of None \<Rightarrow> om_get m j | Some v \<Rightarrow> Some v)"
  by (induction fs arbitrary: m) (auto simp: om_get_put map_add_def split: option.splits)

definition ev_member :: "string \<times> string \<Rightarrow> bool \<times> string \<times> string" where
  "ev_member f = (True, fst f, snd f)"

definition ev_members :: "int \<Rightarrow> nat \<Rightarrow> dsd_event \<Rightarrow> (bool \<times> string \<times> string) list" where
  "ev_members t sid e =
     [(True, ''op'', ''ev''), (False, ''t'', int_dec t), (False, ''s'', nat_dec sid)] @
     map ev_member (filter (\<lambda>f. snd f \<noteq> []) (ev_fields e))"

definition plain_key :: "string \<Rightarrow> bool" where
  "plain_key k \<longleftrightarrow> list_all (\<lambda>c. c \<noteq> dq \<and> c \<noteq> bslash \<and> 0x20 \<le> byte c \<and> byte c < 0x7F) k"

lemma lq_plain: "plain_key k \<Longrightarrow> lq k = dq # k @ [dq]"
  by (induction k) (auto simp: plain_key_def lq_def lesc_char_def)

lemma event_line_text:
  "event_line t sid e = CHR ''{'' # member_text (hd (ev_members t sid e)) @
     concat (map (\<lambda>f. CHR '','' # member_text f) (tl (ev_members t sid e))) @ ''}''"
proof -
  have k: "plain_key ''op''" "plain_key ''t''" "plain_key ''s''" "plain_key ''ev''" by code_simp+
  have f: "\<forall>f \<in> set (ev_fields e). plain_key (fst f)" unfolding ev_fields_def by (simp; code_simp)
  have "concat (map (\<lambda>(k, v). if v \<noteq> [] then jt '',`'' @ k @ jt ''`:'' @ lq v else []) fs) =
    concat (map (\<lambda>f. CHR '','' # member_text f) (map ev_member (filter (\<lambda>f. snd f \<noteq> []) fs)))"
    if "\<forall>f \<in> set fs. plain_key (fst f)" for fs
    using that by (induction fs) (auto simp: ev_member_def member_text_def lq_plain)
  from this [OF f] k show ?thesis
    by (simp add: event_line_def ev_members_def member_text_def lq_plain)
qed

lemma lit_ok_dec: "lit_ok (nat_dec n)" "lit_ok (int_dec i)"
proof -
  have n: "lit_ok (nat_dec n)" for n
  proof -
    have "\<forall>c \<in> set (nat_dec n). is_digit c" using nat_dec_digits by blast
    moreover have "\<not> is_digit (CHR '','')" "\<not> is_digit (CHR ''}'')" "\<not> is_digit (CHR '' '')" "\<not> is_digit dq"
      "\<not> is_digit (CHR 0x09)" "\<not> is_digit (CHR 0x0D)" by code_simp+
    ultimately show ?thesis by (auto simp: lit_ok_def nat_dec_nonempty list_all_iff lit_char_def)
  qed
  then show "lit_ok (nat_dec n)" "lit_ok (int_dec i)" by (auto simp: int_dec_def lit_ok_def lit_char_def)
qed

lemma map_of_members:
  "distinct (map fst fs) \<Longrightarrow>
    map_of (rev (map snd (map ev_member (filter (\<lambda>f. snd f \<noteq> []) fs)))) k = (case map_of fs k of Some [] \<Rightarrow> None | v \<Rightarrow> v)"
proof -
  assume d: "distinct (map fst fs)"
  let ?g = "filter (\<lambda>f. snd f \<noteq> []) fs"
  have m: "map snd (map ev_member ?g) = ?g" by (induction fs) (auto simp: ev_member_def)
  have "distinct (map fst ?g)" using d by (induction fs) auto
  then have "map_of (rev ?g) = map_of ?g" by (intro map_of_inject_set [THEN iffD2]) (simp_all add: rev_map [symmetric])
  moreover have "map_of ?g k = (case map_of fs k of Some [] \<Rightarrow> None | v \<Rightarrow> v)"
    using d by (induction fs) (auto split: option.splits list.splits simp: map_of_eq_None_iff image_iff)
  ultimately show ?thesis unfolding m by simp
qed

lemma ev_fields_distinct: "distinct (map fst (ev_fields e))"
  by (simp add: ev_fields_def)

lemma om_at_members:
  assumes "m = foldl (\<lambda>acc (b, k, v). om_put k v acc) [] (ev_members t sid e)"
  shows "om_get m ''op'' = Some ''ev''" "om_get m ''t'' = Some (int_dec t)" "om_get m ''s'' = Some (nat_dec sid)"
    "k \<notin> {''op'', ''t'', ''s''} \<Longrightarrow> om_at [] m k = (case map_of (ev_fields e) k of None \<Rightarrow> [] | Some v \<Rightarrow> v)"
proof -
  have g: "om_get m j = (case map_of (ev_fields e) j of None \<Rightarrow> map_of [(''s'', nat_dec sid), (''t'', int_dec t), (''op'', ''ev'')] j
      | Some [] \<Rightarrow> map_of [(''s'', nat_dec sid), (''t'', int_dec t), (''op'', ''ev'')] j | Some v \<Rightarrow> Some v)" for j
    unfolding assms get_puts [OF om_wf_Nil] ev_members_def map_append rev_append map_of_append map_add_def
      map_of_members [OF ev_fields_distinct]
    by (simp split: option.split list.split)
  have "map_of (ev_fields e) ''op'' = None" "map_of (ev_fields e) ''t'' = None" "map_of (ev_fields e) ''s'' = None"
    by (simp_all add: ev_fields_def)
  then show "om_get m ''op'' = Some ''ev''" "om_get m ''t'' = Some (int_dec t)" "om_get m ''s'' = Some (nat_dec sid)"
    by (simp_all add: g)
  show "om_at [] m k = (case map_of (ev_fields e) k of None \<Rightarrow> [] | Some v \<Rightarrow> v)" if "k \<notin> {''op'', ''t'', ''s''}"
    using that by (auto simp: om_at_def g split: option.split list.split)
qed

lemma event_line_parses:
  "\<exists>m. parse_line (event_line t sid e) = LOk m \<and> om_get m ''op'' = Some ''ev'' \<and>
     om_get m ''t'' = Some (int_dec t) \<and> om_get m ''s'' = Some (nat_dec sid) \<and>
     line_event m = e\<lparr>ev_voice_frame := 0, ev_voice_err := -1\<rparr>"
proof -
  let ?ms = "ev_members t sid e"
  define m where "m = foldl (\<lambda>acc (b, k, v). om_put k v acc) [] ?ms"
  have ok: "\<forall>f \<in> set ?ms. member_ok f" by (auto simp: ev_members_def member_ok_def lit_ok_dec ev_member_def)
  have c: "?ms = hd ?ms # tl ?ms" by (simp add: ev_members_def)
  have "parse_line (event_line t sid e) = LOk m"
    unfolding event_line_text m_def using parse_line_text [of "hd ?ms" "tl ?ms"] ok by (simp only: c [symmetric])
  moreover have "line_event m = e\<lparr>ev_voice_frame := 0, ev_voice_err := -1\<rparr>"
    by (simp add: line_event_def om_at_members(4) [OF m_def] ev_fields_def dsd_event0_def)
  ultimately show ?thesis using om_at_members(1-3) [OF m_def] by auto
qed

text \<open>
  C4. What is recorded of an event is read back byte for byte: whatever bytes the decoder printed, the
  line parses, names its operation, time and stream, and gives the event back. Only the AMBE frame is
  not recorded: it comes back as no frame.
\<close>

lemma log_round_trip:
  "\<exists>m. parse_line (event_line t sid e) = LOk m \<and> om_get m ''op'' = Some ''ev'' \<and>
     om_get m ''t'' = Some (int_dec t) \<and> om_get m ''s'' = Some (nat_dec sid) \<and>
     line_event m = e\<lparr>ev_voice_frame := 0, ev_voice_err := -1\<rparr>"
  by (rule event_line_parses)

section \<open>The size cap of a recording\<close>

definition rec_lines :: "(string \<times> int) list \<Rightarrow> recorder \<Rightarrow> recorder" where
  "rec_lines ls r = foldl (\<lambda>r (l, t). rec_write l t r) r ls"

definition rec_inv :: "nat \<Rightarrow> recorder \<Rightarrow> string list \<Rightarrow> bool" where
  "rec_inv mx r ls \<longleftrightarrow> rc_on r \<and> rc_max r = mx \<and> (mx = 0 \<or> rc_bytes r \<le> mx) \<and>
     (\<exists>n \<le> length ls. rc_bytes r = sum_list (map (\<lambda>l. length l + 1) (take n ls)) \<and>
        (if rc_truncated r then n < length ls \<and> mx < rc_bytes r + length (ls ! n) + 1 \<and>
             rc_out r = take n ls @ [jt ''{`op`:`truncated`}'']
         else n = length ls \<and> rc_out r = ls))"

lemma rec_inv_write: "rec_inv mx r ls \<Longrightarrow> rec_inv mx (rec_write l t r) (ls @ [l])"
proof -
  assume h: "rec_inv mx r ls"
  then obtain n where n: "n \<le> length ls" "rc_bytes r = sum_list (map (\<lambda>l. length l + 1) (take n ls))"
    "if rc_truncated r then n < length ls \<and> mx < rc_bytes r + length (ls ! n) + 1 \<and>
             rc_out r = take n ls @ [jt ''{`op`:`truncated`}'']
         else n = length ls \<and> rc_out r = ls" by (auto simp: rec_inv_def)
  show ?thesis
  proof (cases "rc_truncated r")
    case True
    with h n show ?thesis by (auto simp: rec_inv_def rec_write_def nth_append intro!: exI [of _ n])
  next
    case False
    with n have e: "rc_out r = ls" "rc_bytes r = sum_list (map (\<lambda>l. length l + 1) ls)" by auto
    show ?thesis
    proof (cases "mx \<noteq> 0 \<and> mx < rc_bytes r + length l + 1")
      case True
      with h False e show ?thesis by (auto simp: rec_inv_def rec_write_def intro!: exI [of _ "length ls"])
    next
      case no: False
      with h False e show ?thesis by (auto simp: rec_inv_def rec_write_def intro!: exI [of _ "Suc (length ls)"])
    qed
  qed
qed

lemma rec_inv_lines: "rec_inv mx r ks \<Longrightarrow> rec_inv mx (rec_lines ls r) (ks @ map fst ls)"
proof (induction ls arbitrary: r ks)
  case (Cons p ls)
  from Cons.IH [OF rec_inv_write [OF Cons.prems, of "fst p" "snd p"]] show ?case
    by (simp add: rec_lines_def split_def)
qed (simp add: rec_lines_def)

text \<open>
  C34. A recording holds every line it was given, in order, up to the size cap, and is closed by the
  truncation marker exactly when a line did not fit: the lines kept never exceed the cap and none in
  the middle is lost.
\<close>

lemma recording_is_prefix:
  assumes "rec_start can taken dir mx now r = (r0, True)"
  shows "let r' = rec_lines ls r0; kept = (if rc_truncated r' then butlast (rc_out r') else rc_out r')
    in rc_bytes r' = sum_list (map (\<lambda>l. length l + 1) kept) \<and> (mx = 0 \<or> rc_bytes r' \<le> mx) \<and>
       (if rc_truncated r'
        then last (rc_out r') = jt ''{`op`:`truncated`}'' \<and>
             (\<exists>n < length ls. kept = take n (map fst ls) \<and> mx < rc_bytes r' + length (fst (ls ! n)) + 1)
        else kept = map fst ls)"
proof -
  have "rec_inv mx r0 []" using assms by (auto simp: rec_start_def rec_inv_def Let_def split: if_splits)
  from rec_inv_lines [OF this, of ls] have "rec_inv mx (rec_lines ls r0) (map fst ls)" by simp
  then obtain n where n: "n \<le> length ls" "mx = 0 \<or> rc_bytes (rec_lines ls r0) \<le> mx"
    "rc_bytes (rec_lines ls r0) = sum_list (map (\<lambda>l. length l + 1) (take n (map fst ls)))"
    "if rc_truncated (rec_lines ls r0) then n < length ls \<and> mx < rc_bytes (rec_lines ls r0) + length (map fst ls ! n) + 1 \<and>
       rc_out (rec_lines ls r0) = take n (map fst ls) @ [jt ''{`op`:`truncated`}'']
     else n = length ls \<and> rc_out (rec_lines ls r0) = map fst ls"
    unfolding rec_inv_def length_map by blast
  show ?thesis
  proof (cases "rc_truncated (rec_lines ls r0)")
    case True
    with n(4) have t: "n < length ls" "mx < rc_bytes (rec_lines ls r0) + length (fst (ls ! n)) + 1"
      "rc_out (rec_lines ls r0) = take n (map fst ls) @ [jt ''{`op`:`truncated`}'']" by auto
    from t(1,2) n(2,3) show ?thesis unfolding Let_def t(3) using True by (simp add: exI [of _ n])
  next
    case False
    with n show ?thesis by (simp add: Let_def)
  qed
qed

lemma recording_is_prefix_witness:
  "rc_bytes (rec_lines [(''abcd'', 1), (''efgh'', 2)] (fst (rec_start (\<lambda>p. True) [] ''d'' 7 0 recorder0))) \<le> 7"
proof -
  let ?r = "rec_start (\<lambda>p. True) [] ''d'' 7 0 recorder0"
  have "snd ?r" unfolding rec_start_def Let_def by simp
  then have "?r = (fst ?r, True)" by (cases ?r) simp
  from recording_is_prefix [OF this, of "[(''abcd'', 1), (''efgh'', 2)]", unfolded Let_def, THEN conjunct2, THEN conjunct1]
  show ?thesis by (elim disjE) simp_all
qed

end
