(* ===== verification/Audio_Store.thy ===== *)
theory Audio_Store
  imports Json_Text "HOL-Library.Word" "HOL-Library.Sublist"
begin

text \<open>
  The store of call recordings (\<open>src/assoc_audio.hpp\<close>): its index, the files being written and the
  bytes on disk. The directory is part of the state (name to contents); whether a file can be created
  is the parameter \<open>can\<close>, what the directory holds when recording starts is an argument of
  \<open>as_enable\<close>. Entries with equal times keep their listing order there, which \<open>std::sort\<close> leaves open.
\<close>

section \<open>The state\<close>

type_synonym pcm = "16 word list"

record aentry =
  ae_name :: string
  ae_bytes :: nat
  ae_mtime :: int

record awriter =
  aw_samples :: nat
  aw_patched :: int

record astore =
  as_on :: bool
  as_dir :: string
  as_cap :: nat
  as_total :: nat
  as_max_age :: int
  as_index :: "aentry list"
  as_open :: "(string, awriter) omap"
  as_evicted :: "string list"
  as_disk :: "(string, string) omap"

definition astore0 :: astore where
  "astore0 = \<lparr>as_on = False, as_dir = [], as_cap = 0, as_total = 0, as_max_age = 0, as_index = [], as_open = [],
     as_evicted = [], as_disk = []\<rparr>"

section \<open>Names\<close>

definition safe_char :: "char \<Rightarrow> bool" where
  "safe_char c \<longleftrightarrow> is_alnum c \<or> c = CHR ''_'' \<or> c = CHR ''-'' \<or> c = CHR ''.''"

definition valid_name :: "string \<Rightarrow> bool" where
  "valid_name n \<longleftrightarrow>
     10 \<le> length n \<and> length n \<le> 96 \<and> starts_with n ''call_'' \<and> ends_with n ''.wav'' \<and>
     list_all safe_char n \<and> \<not> str_has n ''..''"

definition make_name :: "int \<Rightarrow> string \<Rightarrow> nat \<Rightarrow> string" where
  "make_name start inst call =
     (let i = take 8 (filter is_alnum inst)
      in take 95 (''call_'' @ int_dec start @ ''_'' @ (if i = [] then ''x'' else i) @ ''_'' @ nat_dec call @ ''.wav''))"

section \<open>File contents\<close>

definition kRate :: nat where
  "kRate = 8000"

definition put32 :: "32 word \<Rightarrow> string" where
  "put32 v = map (\<lambda>i. chr (unat (drop_bit (8 * i) v) mod 256)) [0, 1, 2, 3]"

definition put16 :: "16 word \<Rightarrow> string" where
  "put16 v = map (\<lambda>i. chr (unat (drop_bit (8 * i) v) mod 256)) [0, 1]"

definition wav_header :: "nat \<Rightarrow> string" where
  "wav_header samples =
     (let data = (of_nat (min (samples * 2) 0xFFFFFFF0) :: 32 word)
      in ''RIFF'' @ put32 (36 + data) @ ''WAVEfmt '' @ put32 16 @ put16 1 @ put16 1 @ put32 (of_nat kRate) @
         put32 (of_nat kRate * 2) @ put16 2 @ put16 16 @ ''data'' @ put32 data)"

definition pcm_bytes :: "pcm \<Rightarrow> string" where
  "pcm_bytes xs = concat (map put16 xs)"

section \<open>The operations\<close>

fun find_entry :: "string \<Rightarrow> aentry list \<Rightarrow> aentry option" where
  "find_entry n [] = None"
| "find_entry n (e # es) = (if ae_name e = n then Some e else find_entry n es)"

fun upd_entry :: "string \<Rightarrow> (aentry \<Rightarrow> aentry) \<Rightarrow> aentry list \<Rightarrow> aentry list" where
  "upd_entry n f [] = []"
| "upd_entry n f (e # es) = (if ae_name e = n then f e # es else e # upd_entry n f es)"

fun del_entry :: "string \<Rightarrow> aentry list \<Rightarrow> aentry list" where
  "del_entry n [] = []"
| "del_entry n (e # es) = (if ae_name e = n then es else e # del_entry n es)"

text \<open>The header brought up to date in place; the contents after it stay.\<close>

definition as_patch :: "string \<Rightarrow> awriter \<Rightarrow> astore \<Rightarrow> astore" where
  "as_patch n w s = s\<lparr>as_disk := om_modify n (\<lambda>c. wav_header (aw_samples w) @ drop 44 c) (as_disk s)\<rparr>"

fun enforce_loop :: "(string, awriter) omap \<Rightarrow> nat \<Rightarrow> int \<Rightarrow> int \<Rightarrow> nat \<Rightarrow> aentry list \<Rightarrow> nat \<times> aentry list \<times> string list" where
  "enforce_loop op cap age now tot [] = (tot, [], [])"
| "enforce_loop op cap age now tot (e # es) =
     (if \<not> (cap < tot \<or> (0 < age \<and> age < now - ae_mtime e)) then (tot, e # es, [])
      else if om_has op (ae_name e) then
        (case enforce_loop op cap age now tot es of (t, kept, gone) \<Rightarrow> (t, e # kept, gone))
      else
        (case enforce_loop op cap age now (tot - min tot (ae_bytes e)) es of
           (t, kept, gone) \<Rightarrow> (t, kept, ae_name e # gone)))"

definition as_enforce :: "int \<Rightarrow> astore \<Rightarrow> astore" where
  "as_enforce now s =
     (case enforce_loop (as_open s) (as_cap s) (as_max_age s) now (as_total s) (as_index s) of
        (t, kept, gone) \<Rightarrow>
          s\<lparr>as_total := t, as_index := kept, as_evicted := as_evicted s @ gone,
            as_disk := filter (\<lambda>p. fst p \<notin> set gone) (as_disk s)\<rparr>)"

text \<open>
  \<open>listing\<close> gives the regular files of the directory: name, contents and modification time in seconds;
  \<open>None\<close> when the directory cannot be made.
\<close>

definition as_enable :: "(string \<times> string \<times> int) list option \<Rightarrow> string \<Rightarrow> nat \<Rightarrow> int \<Rightarrow> int \<Rightarrow> astore \<Rightarrow> astore \<times> bool" where
  "as_enable listing dir cap age now s =
     (case listing of
        None \<Rightarrow> (s, False)
      | Some fs \<Rightarrow>
          (let ours = filter (\<lambda>(n, c, t). valid_name n) fs;
               ix = sort_key ae_mtime (map (\<lambda>(n, c, t). \<lparr>ae_name = n, ae_bytes = length c, ae_mtime = t * 1000\<rparr>) ours)
           in (as_enforce now
                 (s\<lparr>as_dir := dir, as_cap := cap, as_max_age := age, as_index := ix,
                    as_total := sum_list (map ae_bytes ix), as_on := True,
                    as_disk := foldl (\<lambda>d (n, c, t). om_put n c d) [] fs\<rparr>), True)))"

definition as_disable :: "astore \<Rightarrow> astore" where
  "as_disable s = (foldl (\<lambda>s (n, w). as_patch n w s) s (as_open s))\<lparr>as_open := [], as_on := False\<rparr>"

definition as_create :: "(string \<Rightarrow> bool) \<Rightarrow> string \<Rightarrow> int \<Rightarrow> astore \<Rightarrow> astore \<times> bool" where
  "as_create can n now s =
     (if \<not> as_on s \<or> \<not> valid_name n \<or> om_has (as_open s) n \<or> \<not> can n then (s, False)
      else (s\<lparr>as_disk := om_put n (wav_header 0) (as_disk s),
              as_open := om_put n \<lparr>aw_samples = 0, aw_patched = now\<rparr> (as_open s),
              as_index := as_index s @ [\<lparr>ae_name = n, ae_bytes = 44, ae_mtime = now\<rparr>],
              as_total := as_total s + 44\<rparr>, True))"

definition as_append :: "string \<Rightarrow> pcm \<Rightarrow> int \<Rightarrow> astore \<Rightarrow> astore" where
  "as_append n xs now s =
     (case om_get (as_open s) n of
        None \<Rightarrow> s
      | Some w \<Rightarrow>
          if xs = [] then s
          else
            (let w1 = w\<lparr>aw_samples := aw_samples w + length xs\<rparr>;
                 s1 = s\<lparr>as_disk := om_modify n (\<lambda>c. c @ pcm_bytes xs) (as_disk s),
                        as_total := as_total s + length xs * 2,
                        as_index := upd_entry n (\<lambda>e. e\<lparr>ae_bytes := ae_bytes e + length xs * 2, ae_mtime := now\<rparr>) (as_index s)\<rparr>;
                 s2 = (if 1000 \<le> now - aw_patched w1
                       then (as_patch n w1 s1)\<lparr>as_open := om_put n (w1\<lparr>aw_patched := now\<rparr>) (as_open s)\<rparr>
                       else s1\<lparr>as_open := om_put n w1 (as_open s)\<rparr>)
             in if as_cap s2 < as_total s2 then as_enforce now s2 else s2))"

definition as_finish :: "string \<Rightarrow> astore \<Rightarrow> astore" where
  "as_finish n s =
     (case om_get (as_open s) n of
        None \<Rightarrow> s
      | Some w \<Rightarrow> (as_patch n w s)\<lparr>as_open := om_del n (as_open s)\<rparr>)"

definition as_remove_entry :: "string \<Rightarrow> astore \<Rightarrow> astore" where
  "as_remove_entry n s =
     (case find_entry n (as_index s) of
        None \<Rightarrow> s
      | Some e \<Rightarrow> s\<lparr>as_total := as_total s - min (as_total s) (ae_bytes e), as_disk := om_del n (as_disk s),
                    as_index := del_entry n (as_index s)\<rparr>)"

definition as_discard :: "string \<Rightarrow> astore \<Rightarrow> astore" where
  "as_discard n s = as_remove_entry n (as_finish n s)"

definition as_remove_all :: "astore \<Rightarrow> astore \<times> nat \<times> nat" where
  "as_remove_all s =
     (let gone = filter (\<lambda>e. \<not> om_has (as_open s) (ae_name e)) (as_index s)
      in (s\<lparr>as_index := filter (\<lambda>e. om_has (as_open s) (ae_name e)) (as_index s),
            as_total := foldl (\<lambda>t e. t - min t (ae_bytes e)) (as_total s) gone,
            as_disk := filter (\<lambda>p. fst p \<notin> ae_name ` set gone) (as_disk s)\<rparr>,
          length gone, sum_list (map ae_bytes gone)))"

definition as_take_evicted :: "astore \<Rightarrow> astore \<times> string list" where
  "as_take_evicted s = (s\<lparr>as_evicted := []\<rparr>, as_evicted s)"

definition as_samples :: "string \<Rightarrow> astore \<Rightarrow> nat" where
  "as_samples n s = (case om_get (as_open s) n of None \<Rightarrow> 0 | Some w \<Rightarrow> aw_samples w)"

definition as_has :: "string \<Rightarrow> astore \<Rightarrow> bool" where
  "as_has n s \<longleftrightarrow> valid_name n \<and> find_entry n (as_index s) \<noteq> None"

definition as_path_for :: "string \<Rightarrow> int \<Rightarrow> astore \<Rightarrow> astore \<times> string" where
  "as_path_for n now s =
     (if \<not> valid_name n \<or> find_entry n (as_index s) = None then (s, [])
      else (case om_get (as_open s) n of
          None \<Rightarrow> s
        | Some w \<Rightarrow> (as_patch n w s)\<lparr>as_open := om_put n (w\<lparr>aw_patched := now\<rparr>) (as_open s)\<rparr>,
        as_dir s @ ''/'' @ n))"

record astatus =
  st_on :: bool
  st_dir :: string
  st_bytes :: nat
  st_cap :: nat
  st_files :: nat
  st_open :: nat
  st_max_age :: int

definition as_status :: "astore \<Rightarrow> astatus" where
  "as_status s = \<lparr>st_on = as_on s, st_dir = as_dir s, st_bytes = as_total s, st_cap = as_cap s,
     st_files = length (as_index s), st_open = length (as_open s), st_max_age = as_max_age s\<rparr>"

section \<open>The index accounts for the disk space\<close>

definition store_wf :: "astore \<Rightarrow> bool" where
  "store_wf s \<longleftrightarrow>
     om_wf (as_open s) \<and> om_wf (as_disk s) \<and> as_total s = sum_list (map ae_bytes (as_index s)) \<and>
     fst ` set (as_open s) \<subseteq> ae_name ` set (as_index s)"

lemma upd_entry_names: "(\<And>e. ae_name (f e) = ae_name e) \<Longrightarrow> map ae_name (upd_entry n f es) = map ae_name es"
  by (induction es) auto

lemma upd_entry_bytes:
  "n \<in> ae_name ` set es \<Longrightarrow> (\<And>e. ae_bytes (f e) = ae_bytes e + k) \<Longrightarrow>
    sum_list (map ae_bytes (upd_entry n f es)) = sum_list (map ae_bytes es) + k"
  by (induction es) auto

lemma find_entry_None: "find_entry n es = None \<longleftrightarrow> n \<notin> ae_name ` set es"
  by (induction es) auto

lemma del_entry_bytes:
  "find_entry n es = Some e \<Longrightarrow> sum_list (map ae_bytes (del_entry n es)) = sum_list (map ae_bytes es) - ae_bytes e \<and>
     ae_bytes e \<le> sum_list (map ae_bytes es)"
  by (induction es) (auto split: if_splits)

lemma del_entry_names: "ae_name ` set es - {n} \<subseteq> ae_name ` set (del_entry n es)"
  by (induction es) auto

lemma enforce_loop_props:
  "enforce_loop op cap age now tot es = (t, kept, gone) \<Longrightarrow> tot = x + sum_list (map ae_bytes es) \<Longrightarrow>
     t = x + sum_list (map ae_bytes kept) \<and> (t \<le> cap \<or> (\<forall>e \<in> set kept. om_has op (ae_name e))) \<and>
     (\<forall>n \<in> set gone. \<not> om_has op n) \<and> subseq kept es \<and>
     (\<forall>e \<in> set es. om_has op (ae_name e) \<longrightarrow> e \<in> set kept) \<and> length kept + length gone = length es"
proof (induction es arbitrary: tot t kept gone x)
  case (Cons e es)
  show ?case
  proof (cases "\<not> (cap < tot \<or> (0 < age \<and> age < now - ae_mtime e))")
    case True
    with Cons.prems show ?thesis by auto
  next
    case over: False
    define d where "d = (if om_has op (ae_name e) then tot else tot - min tot (ae_bytes e))"
    obtain t' k g where r: "enforce_loop op cap age now d es = (t', k, g)" by (cases "enforce_loop op cap age now d es")
    show ?thesis
    proof (cases "om_has op (ae_name e)")
      case True
      with over Cons.prems r have e: "t = t'" "kept = e # k" "gone = g" "d = (x + ae_bytes e) + sum_list (map ae_bytes es)"
        by (auto simp: d_def)
      from Cons.IH [OF r e(4)] show ?thesis unfolding e(1-3) using True by (simp; blast)
    next
      case no: False
      with over Cons.prems r have e: "t = t'" "kept = k" "gone = ae_name e # g" "d = x + sum_list (map ae_bytes es)"
        by (auto simp: d_def)
      from Cons.IH [OF r e(4)] show ?thesis unfolding e(1-3) using no by (auto intro: subseq_Cons')
    qed
  qed
qed simp

section \<open>Sequences of operations\<close>

text \<open>What \<open>AssocModel\<close> asks of the store, one call per constructor; it enables only a store that is off.\<close>

datatype store_op =
    OpEnable "(string \<times> string \<times> int) list option" string nat int int
  | OpDisable
  | OpCreate string int
  | OpAppend string pcm int
  | OpFinish string
  | OpDiscard string
  | OpRemoveAll
  | OpTakeEvicted
  | OpPathFor string int

fun run_op :: "(string \<Rightarrow> bool) \<Rightarrow> store_op \<Rightarrow> astore \<Rightarrow> astore" where
  "run_op can (OpEnable l d c a t) s = (if as_on s then s else fst (as_enable l d c a t s))"
| "run_op can OpDisable s = as_disable s"
| "run_op can (OpCreate n t) s = fst (as_create can n t s)"
| "run_op can (OpAppend n xs t) s = as_append n xs t s"
| "run_op can (OpFinish n) s = as_finish n s"
| "run_op can (OpDiscard n) s = as_discard n s"
| "run_op can OpRemoveAll s = fst (as_remove_all s)"
| "run_op can OpTakeEvicted s = fst (as_take_evicted s)"
| "run_op can (OpPathFor n t) s = fst (as_path_for n t s)"

definition run_ops :: "(string \<Rightarrow> bool) \<Rightarrow> store_op list \<Rightarrow> astore \<Rightarrow> astore" where
  "run_ops can ops s = foldl (\<lambda>s p. run_op can p s) s ops"

lemma as_patch_simps [simp]:
  "as_on (as_patch n w s) = as_on s" "as_open (as_patch n w s) = as_open s" "as_index (as_patch n w s) = as_index s"
  "as_total (as_patch n w s) = as_total s" "as_cap (as_patch n w s) = as_cap s"
  "as_max_age (as_patch n w s) = as_max_age s" "om_wf (as_disk (as_patch n w s)) = om_wf (as_disk s)"
  by (simp_all add: as_patch_def)

lemma as_enforce_simps [simp]:
  "as_on (as_enforce t s) = as_on s" "as_open (as_enforce t s) = as_open s" "as_cap (as_enforce t s) = as_cap s"
  by (simp_all add: as_enforce_def split: prod.splits)

lemma as_enforce_wf:
  assumes "store_wf s"
  shows "store_wf (as_enforce t s) \<and>
    (as_total (as_enforce t s) \<le> as_cap s \<or> (\<forall>e \<in> set (as_index (as_enforce t s)). om_has (as_open s) (ae_name e)))"
proof -
  obtain tt k g where r: "enforce_loop (as_open s) (as_cap s) (as_max_age s) t (as_total s) (as_index s) = (tt, k, g)"
    by (cases "enforce_loop (as_open s) (as_cap s) (as_max_age s) t (as_total s) (as_index s)")
  from enforce_loop_props [OF r, of 0] assms
  have p: "tt = sum_list (map ae_bytes k)" "tt \<le> as_cap s \<or> (\<forall>e \<in> set k. om_has (as_open s) (ae_name e))"
    "\<forall>e \<in> set (as_index s). om_has (as_open s) (ae_name e) \<longrightarrow> e \<in> set k" by (auto simp: store_wf_def)
  have "fst ` set (as_open s) \<subseteq> ae_name ` set k"
  proof
    fix m assume m: "m \<in> fst ` set (as_open s)"
    with assms have "m \<in> ae_name ` set (as_index s)" by (auto simp: store_wf_def)
    then obtain e where "e \<in> set (as_index s)" "m = ae_name e" by auto
    with m p(3) show "m \<in> ae_name ` set k" by (auto simp: om_has_iff)
  qed
  with p(1,2) r assms show ?thesis by (simp add: as_enforce_def store_wf_def)
qed

lemma store_wf_open: "store_wf s \<Longrightarrow> om_get (as_open s) n = Some w \<Longrightarrow> n \<in> ae_name ` set (as_index s)"
  by (auto simp: store_wf_def dest!: om_get_Some_in)

lemma append_before_cap:
  assumes "store_wf s" "om_get (as_open s) n = Some w"
  shows "store_wf (s\<lparr>as_disk := om_modify n f (as_disk s), as_total := as_total s + k,
    as_index := upd_entry n (\<lambda>e. e\<lparr>ae_bytes := ae_bytes e + k, ae_mtime := t\<rparr>) (as_index s)\<rparr>)"
proof -
  let ?f = "\<lambda>e. e\<lparr>ae_bytes := ae_bytes e + k, ae_mtime := t\<rparr>"
  have nm: "map ae_name (upd_entry n ?f es) = map ae_name es" for es by (rule upd_entry_names) simp
  have "ae_name ` set (upd_entry n ?f (as_index s)) = ae_name ` set (as_index s)"
    using nm [of "as_index s"] by (metis image_set)
  with assms store_wf_open [OF assms] show ?thesis
    by (simp add: store_wf_def upd_entry_bytes)
qed

lemma store_wf_reopen:
  "store_wf s \<Longrightarrow> n \<in> ae_name ` set (as_index s) \<Longrightarrow> store_wf (s\<lparr>as_open := om_put n w (as_open s)\<rparr>)"
  by (auto simp: store_wf_def om_put_keys)

lemma as_patch_wf [simp]: "store_wf (as_patch n w s) = store_wf s"
  by (simp add: store_wf_def)

lemma as_append_wf:
  assumes "store_wf s"
  shows "store_wf (as_append n xs t s) \<and>
    (xs \<noteq> [] \<and> om_has (as_open s) n \<longrightarrow>
      as_total (as_append n xs t s) \<le> as_cap s \<or>
      (\<forall>e \<in> set (as_index (as_append n xs t s)). om_has (as_open (as_append n xs t s)) (ae_name e)))"
proof (cases "om_get (as_open s) n = None \<or> xs = []")
  case True
  then have "as_append n xs t s = s" by (cases "om_get (as_open s) n") (auto simp: as_append_def)
  with True show ?thesis using assms by (auto simp: om_has_def)
next
  case False
  then obtain w where w: "om_get (as_open s) n = Some w" by auto
  define s1 where "s1 = s\<lparr>as_disk := om_modify n (\<lambda>c. c @ pcm_bytes xs) (as_disk s),
    as_total := as_total s + length xs * 2,
    as_index := upd_entry n (\<lambda>e. e\<lparr>ae_bytes := ae_bytes e + length xs * 2, ae_mtime := t\<rparr>) (as_index s)\<rparr>"
  have s1: "store_wf s1" unfolding s1_def by (rule append_before_cap [OF assms w])
  have o1: "as_open s1 = as_open s" "as_cap s1 = as_cap s" by (simp_all add: s1_def)
  then have n1: "n \<in> ae_name ` set (as_index s1)" using store_wf_open [OF s1, of n w] w by simp
  define s2 where "s2 = (if 1000 \<le> t - aw_patched w
     then (as_patch n (w\<lparr>aw_samples := aw_samples w + length xs\<rparr>) s1)\<lparr>as_open := om_put n (w\<lparr>aw_samples := aw_samples w + length xs, aw_patched := t\<rparr>) (as_open s)\<rparr>
     else s1\<lparr>as_open := om_put n (w\<lparr>aw_samples := aw_samples w + length xs\<rparr>) (as_open s)\<rparr>)"
  have s2: "store_wf s2" "as_cap s2 = as_cap s"
    using store_wf_reopen [of "as_patch n (w\<lparr>aw_samples := aw_samples w + length xs\<rparr>) s1" n] store_wf_reopen [OF s1 n1] s1 n1
    by (simp_all add: s2_def o1)
  have a: "as_append n xs t s = (if as_cap s2 < as_total s2 then as_enforce t s2 else s2)"
    using w False by (simp add: as_append_def s2_def s1_def Let_def)
  show ?thesis using as_enforce_wf [OF s2(1), of t] s2 by (auto simp: a)
qed

lemma as_finish_wf: "store_wf s \<Longrightarrow> store_wf (as_finish n s)"
  by (auto simp: as_finish_def store_wf_def om_del_keys split: option.splits)

lemma as_finish_parts:
  "as_index (as_finish n s) = as_index s" "as_total (as_finish n s) = as_total s"
  "om_wf (as_open s) \<Longrightarrow> as_open (as_finish n s) = om_del n (as_open s)"
  by (auto simp: as_finish_def om_del_absent om_has_def split: option.splits)

lemma as_discard_wf: "store_wf s \<Longrightarrow> store_wf (as_discard n s)"
proof -
  assume w: "store_wf s"
  then have w1: "store_wf (as_finish n s)" by (rule as_finish_wf)
  have "n \<notin> fst ` set (as_open (as_finish n s))"
    using w by (simp add: as_finish_parts store_wf_def om_del_keys)
  with w1 del_entry_names [of "as_index (as_finish n s)" n]
  have "fst ` set (as_open (as_finish n s)) \<subseteq> ae_name ` set (del_entry n (as_index (as_finish n s)))"
    unfolding store_wf_def by blast
  with w1 show ?thesis
    by (simp add: as_discard_def as_remove_entry_def store_wf_def split: option.splits)
      (use del_entry_bytes [of n "as_index (as_finish n s)"] in \<open>simp add: min_def\<close>)
qed

lemma foldl_minus:
  "sum_list (map ae_bytes es) + x = t \<Longrightarrow> foldl (\<lambda>t e. t - min t (ae_bytes e)) t es = x"
  by (induction es arbitrary: t) auto

lemma sum_filter_split:
  "sum_list (map f (filter (\<lambda>x. \<not> P x) xs)) + sum_list (map f (filter P xs)) = (sum_list (map f xs) :: nat)"
  by (induction xs) auto

lemma as_remove_all_wf:
  assumes "store_wf s"
  shows "store_wf (fst (as_remove_all s))"
proof -
  let ?P = "\<lambda>e. om_has (as_open s) (ae_name e)"
  have "fst ` set (as_open s) \<subseteq> ae_name ` set (filter ?P (as_index s))"
  proof
    fix m assume m: "m \<in> fst ` set (as_open s)"
    with assms have "m \<in> ae_name ` set (as_index s)" by (auto simp: store_wf_def)
    then obtain e where e: "e \<in> set (as_index s)" "m = ae_name e" by auto
    with m have "e \<in> set (filter ?P (as_index s))" by (simp add: om_has_iff)
    with e(2) show "m \<in> ae_name ` set (filter ?P (as_index s))" by blast
  qed
  with assms foldl_minus [OF sum_filter_split [of ae_bytes ?P "as_index s"]] show ?thesis
    by (simp add: as_remove_all_def Let_def store_wf_def)
qed

lemma as_create_wf: "store_wf s \<Longrightarrow> store_wf (fst (as_create can n t s))"
  by (auto simp: as_create_def store_wf_def om_put_keys)

lemma as_disable_wf: "store_wf s \<Longrightarrow> store_wf (as_disable s)"
proof -
  have "store_wf s \<Longrightarrow> store_wf (foldl (\<lambda>s (n, w). as_patch n w s) s ws)" for ws
    by (induction ws arbitrary: s) (auto split: prod.split)
  then show "store_wf s \<Longrightarrow> store_wf (as_disable s)" by (simp add: as_disable_def store_wf_def)
qed

lemma as_path_for_wf:
  assumes "store_wf s"
  shows "store_wf (fst (as_path_for n t s))"
proof (cases "om_get (as_open s) n")
  case None
  with assms show ?thesis by (simp add: as_path_for_def)
next
  case (Some w)
  have "store_wf (as_patch n w s)" "n \<in> ae_name ` set (as_index (as_patch n w s))"
    using assms store_wf_open [OF assms Some] by simp_all
  from store_wf_reopen [OF this] assms Some show ?thesis by (simp add: as_path_for_def)
qed

lemma listing_wf:
  "om_wf m \<Longrightarrow> om_wf (foldl (\<lambda>d (n, c, t :: int). om_put n (c :: string) d) m fs)"
  by (induction fs arbitrary: m) (auto split: prod.split)

lemma as_enable_wf:
  assumes "as_open s = []" "store_wf s"
  shows "store_wf (fst (as_enable l d c a t s))"
proof (cases l)
  case None
  with assms show ?thesis by (simp add: as_enable_def)
next
  case (Some fs)
  define ix where "ix = sort_key ae_mtime (map (\<lambda>(n, c, t). \<lparr>ae_name = n, ae_bytes = length c, ae_mtime = t * 1000\<rparr>)
    (filter (\<lambda>(n, c, t). valid_name n) fs))"
  have "store_wf (s\<lparr>as_dir := d, as_cap := c, as_max_age := a, as_index := ix, as_total := sum_list (map ae_bytes ix),
      as_on := True, as_disk := foldl (\<lambda>d (n, c, t). om_put n c d) [] fs\<rparr>)"
    using assms by (simp add: store_wf_def listing_wf)
  then show ?thesis by (simp add: as_enable_def Some Let_def ix_def [symmetric] as_enforce_wf)
qed

lemma run_op_wf:
  assumes "store_wf s" "\<not> as_on s \<longrightarrow> as_open s = []"
  shows "store_wf (run_op can p s)"
  using assms
  by (cases p) (simp_all add: as_enable_wf as_disable_wf as_create_wf as_append_wf as_finish_wf as_discard_wf
      as_remove_all_wf as_path_for_wf as_take_evicted_def store_wf_def [of "as_evicted_update f s" for f] store_wf_def [of s])

lemma run_op_off:
  assumes "\<not> as_on s \<longrightarrow> as_open s = []"
  shows "\<not> as_on (run_op can p s) \<longrightarrow> as_open (run_op can p s) = []"
proof -
  have on: "as_on (as_append n xs t s) = as_on s" "as_on (as_discard n s) = as_on s" "as_on (as_finish n s) = as_on s" for n xs t
    by (auto simp: as_append_def as_discard_def as_remove_entry_def as_finish_def Let_def split: option.split)
  have op: "as_open s = [] \<Longrightarrow> as_open (as_append n xs t s) = [] \<and> as_open (as_discard n s) = [] \<and> as_open (as_finish n s) = []" for n xs t
    by (auto simp: as_append_def as_discard_def as_remove_entry_def as_finish_def split: option.split)
  show ?thesis
    using assms
    by (cases p) (auto simp: on op as_enable_def as_disable_def as_create_def as_remove_all_def as_path_for_def
        as_take_evicted_def Let_def split: option.split)
qed

definition store_reach :: "(string \<Rightarrow> bool) \<Rightarrow> store_op list \<Rightarrow> astore" where
  "store_reach can ops = run_ops can ops astore0"

lemma run_ops_snoc: "run_ops can (ops @ [p]) s = run_op can p (run_ops can ops s)"
  by (simp add: run_ops_def)

lemma store_reach_wf: "store_wf (store_reach can ops) \<and> (\<not> as_on (store_reach can ops) \<longrightarrow> as_open (store_reach can ops) = [])"
proof (induction ops rule: rev_induct)
  case (snoc p ops)
  then show ?case unfolding store_reach_def run_ops_snoc using run_op_wf run_op_off by metis
qed (simp add: store_reach_def run_ops_def astore0_def store_wf_def)

section \<open>No recording is on disk without being counted\<close>

text \<open>Every file of the folder that has a recording's name is in the index.\<close>

definition disk_indexed :: "astore \<Rightarrow> bool" where
  "disk_indexed s \<longleftrightarrow> Collect valid_name \<inter> fst ` set (as_disk s) \<subseteq> ae_name ` set (as_index s)"

lemma inter_mono: "A \<inter> D \<subseteq> I \<Longrightarrow> D' \<subseteq> D \<Longrightarrow> I \<inter> D' \<subseteq> I' \<Longrightarrow> A \<inter> D' \<subseteq> I'" for A :: "'a set"
  by blast

lemma disk_indexed_mono:
  "disk_indexed s \<Longrightarrow> fst ` set (as_disk t) \<subseteq> fst ` set (as_disk s) \<Longrightarrow>
   ae_name ` set (as_index s) \<inter> fst ` set (as_disk t) \<subseteq> ae_name ` set (as_index t) \<Longrightarrow> disk_indexed t"
  unfolding disk_indexed_def by (rule inter_mono)

lemma patch_indexed: "disk_indexed (as_patch n w s) = disk_indexed s"
  by (simp add: disk_indexed_def as_patch_def om_modify_keys)

lemma open_indexed: "disk_indexed (s\<lparr>as_open := p\<rparr>) = disk_indexed s" "disk_indexed (s\<lparr>as_on := b\<rparr>) = disk_indexed s"
  by (simp_all add: disk_indexed_def)

lemma enforce_loop_names:
  "enforce_loop op cap age now tot es = (t, kept, gone) \<Longrightarrow> ae_name ` set es \<subseteq> ae_name ` set kept \<union> set gone"
proof (induction es arbitrary: tot t kept gone)
  case (Cons e es)
  show ?case
  proof (cases "cap < tot \<or> (0 < age \<and> age < now - ae_mtime e)")
    case True
    define d where "d = (if om_has op (ae_name e) then tot else tot - min tot (ae_bytes e))"
    obtain t' k g where r: "enforce_loop op cap age now d es = (t', k, g)" by (cases "enforce_loop op cap age now d es")
    with True Cons.prems have "kept = (if om_has op (ae_name e) then e # k else k)" "gone = (if om_has op (ae_name e) then g else ae_name e # g)"
      by (auto simp: d_def split: if_splits)
    with Cons.IH [OF r] show ?thesis by auto
  qed (use Cons.prems in auto)
qed simp

lemma enforce_indexed:
  assumes "disk_indexed s"
  shows "disk_indexed (as_enforce t s)"
proof -
  obtain tt k g where r: "enforce_loop (as_open s) (as_cap s) (as_max_age s) t (as_total s) (as_index s) = (tt, k, g)"
    by (cases "enforce_loop (as_open s) (as_cap s) (as_max_age s) t (as_total s) (as_index s)")
  show ?thesis
    by (rule disk_indexed_mono [OF assms]) (use enforce_loop_names [OF r] in \<open>auto simp: as_enforce_def r\<close>)
qed

lemma append_indexed:
  assumes "disk_indexed s"
  shows "disk_indexed (as_append n xs t s)"
proof (cases "om_get (as_open s) n = None \<or> xs = []")
  case False
  then obtain w where w: "om_get (as_open s) n = Some w" by auto
  define s1 where "s1 = s\<lparr>as_disk := om_modify n (\<lambda>c. c @ pcm_bytes xs) (as_disk s),
    as_total := as_total s + length xs * 2,
    as_index := upd_entry n (\<lambda>e. e\<lparr>ae_bytes := ae_bytes e + length xs * 2, ae_mtime := t\<rparr>) (as_index s)\<rparr>"
  have "map ae_name (as_index s1) = map ae_name (as_index s)" unfolding s1_def by (simp add: upd_entry_names)
  then have "ae_name ` set (as_index s1) = ae_name ` set (as_index s)" by (metis image_set)
  then have s1: "disk_indexed s1" using assms by (simp add: disk_indexed_def s1_def om_modify_keys)
  then show ?thesis using w False by (simp add: as_append_def Let_def s1_def [symmetric] open_indexed patch_indexed enforce_indexed)
qed (use assms in \<open>auto simp: as_append_def split: option.split\<close>)

lemma discard_indexed:
  assumes "disk_indexed s"
  shows "disk_indexed (as_discard n s)"
proof -
  have f: "disk_indexed (as_finish n s)" using assms by (simp add: as_finish_def patch_indexed open_indexed split: option.split)
  show ?thesis unfolding as_discard_def
    by (rule disk_indexed_mono [OF f])
      (use del_entry_names [of "as_index (as_finish n s)" n] in \<open>auto simp: as_remove_entry_def om_del_keys split: option.splits\<close>)
qed

lemma enable_indexed: "disk_indexed s \<Longrightarrow> disk_indexed (fst (as_enable l d c a t s))"
proof -
  have k: "fst ` set (foldl (\<lambda>d (n, c, t :: int). om_put n (c :: string) d) m fs) = fst ` set m \<union> fst ` set fs" for m fs
  proof (induction fs arbitrary: m)
    case (Cons p fs)
    show ?case by (cases p) (simp add: Cons.IH om_put_keys)
  qed simp
  have "disk_indexed (s\<lparr>as_dir := d, as_cap := c, as_max_age := a,
      as_index := sort_key ae_mtime (map (\<lambda>(n, c, t). \<lparr>ae_name = n, ae_bytes = length c, ae_mtime = t * 1000\<rparr>) (filter (\<lambda>(n, c, t). valid_name n) fs)),
      as_total := tot, as_on := True, as_disk := foldl (\<lambda>d (n, c, t). om_put n c d) [] fs\<rparr>)" for fs tot
    by (force simp: disk_indexed_def k)
  then show "disk_indexed s \<Longrightarrow> ?thesis" by (simp add: as_enable_def Let_def enforce_indexed split: option.split)
qed

lemma run_op_indexed:
  assumes "disk_indexed s"
  shows "disk_indexed (run_op can p s)"
proof -
  have d: "disk_indexed s \<Longrightarrow> disk_indexed (foldl (\<lambda>s (n, w). as_patch n w s) s ws)" for ws
    by (induction ws arbitrary: s) (auto simp: patch_indexed split: prod.split)
  have c: "disk_indexed (fst (as_create can n t s))" for n t
    using assms by (auto simp: disk_indexed_def as_create_def om_put_keys)
  have r: "disk_indexed (fst (as_remove_all s))"
    by (rule disk_indexed_mono [OF assms]) (auto simp: as_remove_all_def Let_def)
  show ?thesis using assms d [of "as_open s"] c r
    by (cases p) (simp_all add: enable_indexed append_indexed discard_indexed as_disable_def as_finish_def as_path_for_def
        as_take_evicted_def disk_indexed_def [of "as_evicted_update f s" for f] disk_indexed_def [of s] patch_indexed open_indexed
        split: option.split)
qed

lemma store_reach_indexed: "disk_indexed (store_reach can ops)"
proof (induction ops rule: rev_induct)
  case (snoc p ops)
  then show ?case unfolding store_reach_def run_ops_snoc by (rule run_op_indexed)
qed (simp add: store_reach_def run_ops_def astore0_def disk_indexed_def)

text \<open>
  C33. Whatever the model asked of the recording store, its byte count is exactly what its index holds, every file
  being written is indexed, and so is every recording in the folder. Right after a block of audio is written the
  store is within its cap, or every file it still has is one being written. Between blocks nothing looks at the
  cap: a call that passed it and then ends stays until the next block.
\<close>

lemma audio_disk_bounded:
  "as_total (store_reach can ops) = sum_list (map ae_bytes (as_index (store_reach can ops))) \<and>
   fst ` set (as_open (store_reach can ops)) \<subseteq> ae_name ` set (as_index (store_reach can ops)) \<and>
   Collect valid_name \<inter> fst ` set (as_disk (store_reach can ops)) \<subseteq> ae_name ` set (as_index (store_reach can ops)) \<and>
   (let s = store_reach can ops; s' = as_append n xs t s
    in xs = [] \<or> om_get (as_open s) n = None \<or> as_total s' \<le> as_cap s \<or>
       list_all (\<lambda>e. om_has (as_open s') (ae_name e)) (as_index s'))"
  using store_reach_wf [of can ops] store_reach_indexed [of can ops] as_append_wf [of "store_reach can ops" n xs t]
  by (auto simp: store_wf_def disk_indexed_def Let_def list_all_iff om_has_def)

section \<open>A recording is complete\<close>

definition holds :: "string \<Rightarrow> pcm \<Rightarrow> astore \<Rightarrow> bool" where
  "holds n xs s \<longleftrightarrow>
     (case (om_get (as_open s) n, om_get (as_disk s) n) of
        (Some w, Some c) \<Rightarrow> aw_samples w = length xs \<and> 44 \<le> length c \<and> drop 44 c = pcm_bytes xs
      | _ \<Rightarrow> False)"

lemma wav_header_length [simp]: "length (wav_header n) = 44"
  by (simp add: wav_header_def put32_def put16_def Let_def)

lemma enforce_loop_gone: "enforce_loop op cap age now tot es = (t, kept, gone) \<Longrightarrow> m \<in> set gone \<Longrightarrow> \<not> om_has op m"
proof (induction es arbitrary: tot t kept gone)
  case (Cons e es)
  show ?case
  proof (cases "cap < tot \<or> (0 < age \<and> age < now - ae_mtime e)")
    case True
    define d where "d = (if om_has op (ae_name e) then tot else tot - min tot (ae_bytes e))"
    obtain t' k g where r: "enforce_loop op cap age now d es = (t', k, g)" by (cases "enforce_loop op cap age now d es")
    with True Cons.prems have "gone = (if om_has op (ae_name e) then g else ae_name e # g)"
      by (auto simp: d_def split: if_splits)
    with Cons.IH [OF r] Cons.prems(2) show ?thesis by (auto split: if_splits)
  qed (use Cons.prems in auto)
qed simp

lemma enforce_disk: "om_has (as_open s) n \<Longrightarrow> om_get (as_disk (as_enforce t s)) n = om_get (as_disk s) n"
proof -
  assume o: "om_has (as_open s) n"
  obtain tt k g where r: "enforce_loop (as_open s) (as_cap s) (as_max_age s) t (as_total s) (as_index s) = (tt, k, g)"
    by (cases "enforce_loop (as_open s) (as_cap s) (as_max_age s) t (as_total s) (as_index s)")
  with o have "n \<notin> set g" using enforce_loop_gone [OF r] by auto
  then have "om_get (filter (\<lambda>p. fst p \<notin> set g) d) n = om_get d n" for d :: "(string, string) omap"
    by (induction d) auto
  with r show ?thesis by (simp add: as_enforce_def)
qed

definition spares :: "string \<Rightarrow> store_op \<Rightarrow> bool" where
  "spares n p \<longleftrightarrow> p \<noteq> OpDisable \<and> p \<noteq> OpFinish n \<and> p \<noteq> OpDiscard n"

definition op_pcm :: "string \<Rightarrow> store_op \<Rightarrow> pcm" where
  "op_pcm n p = (case p of OpAppend m xs t \<Rightarrow> if m = n then xs else [] | _ \<Rightarrow> [])"

lemma pcm_bytes_append: "pcm_bytes (xs @ ys) = pcm_bytes xs @ pcm_bytes ys"
  by (simp add: pcm_bytes_def)

lemma holds_enforce: "holds n xs s \<Longrightarrow> holds n xs (as_enforce t s)"
  using enforce_disk [of s n t] by (auto simp: holds_def om_has_def split: option.splits)

lemma holds_patch: "om_get (as_open s) m = Some w \<Longrightarrow> holds n xs s \<Longrightarrow> holds n xs (as_patch m w s)"
  by (cases "m = n") (auto simp: holds_def as_patch_def om_get_modify split: option.splits)

lemma holds_reopen:
  "holds n ys s \<Longrightarrow> map_option aw_samples (om_get p n) = map_option aw_samples (om_get (as_open s) n) \<Longrightarrow>
    holds n ys (s\<lparr>as_open := p\<rparr>)"
  by (auto simp: holds_def split: option.splits)

lemma holds_append:
  assumes "holds n xs s" "om_wf (as_open s)"
  shows "holds n (xs @ (if m = n then ys else [])) (as_append m ys t s)"
proof (cases "om_get (as_open s) m")
  case None
  with assms show ?thesis by (auto simp: as_append_def holds_def split: option.splits)
next
  case (Some w)
  show ?thesis
  proof (cases "ys = []")
    case False
    define w1 where "w1 = w\<lparr>aw_samples := aw_samples w + length ys\<rparr>"
    define s1 where "s1 = s\<lparr>as_disk := om_modify m (\<lambda>c. c @ pcm_bytes ys) (as_disk s),
      as_total := as_total s + length ys * 2,
      as_index := upd_entry m (\<lambda>e. e\<lparr>ae_bytes := ae_bytes e + length ys * 2, ae_mtime := t\<rparr>) (as_index s),
      as_open := om_put m w1 (as_open s)\<rparr>"
    have h1: "holds n (xs @ (if m = n then ys else [])) s1"
      using assms Some by (auto simp: holds_def s1_def w1_def om_get_modify om_get_put pcm_bytes_append split: option.splits)
    define s2 where "s2 = (if 1000 \<le> t - aw_patched w
       then (as_patch m w1 s1)\<lparr>as_open := om_put m (w1\<lparr>aw_patched := t\<rparr>) (as_open s)\<rparr> else s1)"
    have "holds n (xs @ (if m = n then ys else [])) (as_patch m w1 s1)"
      by (rule holds_patch [OF _ h1]) (simp add: s1_def om_get_put assms(2))
    from holds_reopen [OF this, of "om_put m (w1\<lparr>aw_patched := t\<rparr>) (as_open s)"] h1
    have "holds n (xs @ (if m = n then ys else [])) s2"
      by (simp add: s2_def s1_def om_get_put assms(2))
    moreover have "as_append m ys t s = (if as_cap s2 < as_total s2 then as_enforce t s2 else s2)"
      using Some False by (simp add: as_append_def s2_def s1_def w1_def Let_def as_patch_def)
    ultimately show ?thesis by (simp add: holds_enforce)
  qed (use assms Some in \<open>simp add: as_append_def\<close>)
qed

lemma holds_finish: "holds n xs s \<Longrightarrow> m \<noteq> n \<Longrightarrow> holds n xs (as_finish m s)"
  by (auto simp: holds_def as_finish_def as_patch_def om_get_modify om_get_del split: option.splits)

lemma om_get_filter_key: "P k \<Longrightarrow> om_get (filter (\<lambda>p. P (fst p)) m) k = om_get m k"
  by (induction m) auto

lemma holds_step:
  assumes "holds n xs s" "store_wf s" "as_on s" "spares n p"
  shows "holds n (xs @ op_pcm n p) (run_op can p s) \<and> store_wf (run_op can p s) \<and> as_on (run_op can p s)"
proof -
  have o: "om_has (as_open s) n" "om_wf (as_open s)" "om_wf (as_disk s)"
    using assms(1,2) by (auto simp: holds_def om_has_def store_wf_def split: option.splits)
  have wf: "store_wf (run_op can p s)" using assms by (intro run_op_wf) auto
  have "holds n (xs @ op_pcm n p) (run_op can p s) \<and> as_on (run_op can p s)"
  proof (cases p)
    case (OpCreate m t)
    with assms o show ?thesis by (auto simp: as_create_def op_pcm_def holds_def om_get_put split: option.splits)
  next
    case (OpAppend m ys t)
    have "as_on (as_append m ys t s) = as_on s" by (auto simp: as_append_def Let_def split: option.split)
    with holds_append [OF assms(1) o(2), of m ys t] OpAppend assms show ?thesis by (simp add: op_pcm_def)
  next
    case (OpFinish m)
    with assms holds_finish [of n xs s m] show ?thesis
      by (auto simp: op_pcm_def spares_def as_finish_def split: option.splits)
  next
    case (OpDiscard m)
    have "holds n xs (as_remove_entry m s')" if "holds n xs s'" "m \<noteq> n" for s'
      using that by (auto simp: holds_def as_remove_entry_def om_get_del split: option.splits)
    with OpDiscard assms holds_finish [of n xs s m] show ?thesis
      by (auto simp: op_pcm_def spares_def as_discard_def as_remove_entry_def as_finish_def split: option.splits)
  next
    case OpRemoveAll
    define g where "g = ae_name ` {e \<in> set (as_index s). \<not> om_has (as_open s) (ae_name e)}"
    have "n \<notin> g" using o(1) by (auto simp: g_def)
    then have "om_get (filter (\<lambda>p. fst p \<notin> g) (as_disk s)) n = om_get (as_disk s) n"
      by (rule om_get_filter_key [where P = "\<lambda>k. k \<notin> g"])
    with OpRemoveAll assms show ?thesis by (simp add: op_pcm_def as_remove_all_def Let_def holds_def g_def)
  next
    case (OpPathFor m t)
    show ?thesis
    proof (cases "om_get (as_open s) m")
      case (Some w)
      from holds_patch [OF Some assms(1)] Some o assms OpPathFor show ?thesis
        by (cases "m = n") (auto simp: op_pcm_def as_path_for_def holds_def as_patch_def om_get_put split: option.splits)
    qed (use assms OpPathFor in \<open>auto simp: op_pcm_def as_path_for_def\<close>)
  qed (use assms in \<open>auto simp: op_pcm_def spares_def as_take_evicted_def holds_def\<close>)
  with wf show ?thesis by simp
qed

lemma holds_run:
  "holds n xs s \<Longrightarrow> store_wf s \<Longrightarrow> as_on s \<Longrightarrow> list_all (spares n) ps \<Longrightarrow>
    holds n (xs @ concat (map (op_pcm n) ps)) (run_ops can ps s)"
proof (induction ps arbitrary: xs s)
  case (Cons p ps)
  from holds_step [OF Cons.prems(1,2,3), of p can] Cons.prems(4) Cons.IH [of "xs @ op_pcm n p" "run_op can p s"] Cons.prems(4)
  show ?case by (simp add: run_ops_def)
qed (simp add: run_ops_def)

text \<open>
  C23. A call's recording is complete: once its file is created, whatever the store does for other calls
  or to keep within its cap, after the call ends the file holds a header for exactly the samples that
  were appended to it and then those samples, in order.
\<close>

lemma audio_file_complete:
  assumes "as_create can n t (store_reach can ops) = (s, True)" "list_all (spares n) later"
  shows "om_get (as_disk (as_finish n (run_ops can later s))) n =
    Some (wav_header (length (concat (map (op_pcm n) later))) @ pcm_bytes (concat (map (op_pcm n) later)))"
proof -
  have wf: "store_wf s" using as_create_wf [of "store_reach can ops" can n t] store_reach_wf [of can ops] assms(1) by simp
  have w0: "om_wf (as_open (store_reach can ops))" "om_wf (as_disk (store_reach can ops))"
    using store_reach_wf [of can ops] by (simp_all add: store_wf_def)
  have "holds n [] s \<and> as_on s"
    using assms(1) w0 by (auto simp: as_create_def holds_def om_get_put pcm_bytes_def split: if_splits)
  with holds_run [of n "[]" s later can] wf assms(2)
  have "holds n (concat (map (op_pcm n) later)) (run_ops can later s)" by simp
  then show ?thesis by (auto simp: holds_def as_finish_def as_patch_def om_get_modify split: option.splits)
qed

lemma audio_file_complete_witness:
  "om_get (as_disk (as_finish ''call_1_x_1.wav''
     (run_ops (\<lambda>n. True) [OpAppend ''call_1_x_1.wav'' [1, 0x0203] 5]
       (fst (as_create (\<lambda>n. True) ''call_1_x_1.wav'' 1 (store_reach (\<lambda>n. True) [OpEnable (Some []) ''d'' 10 0 1])))))) ''call_1_x_1.wav'' =
   Some (wav_header 2 @ [CHR 0x01, CHR 0x00, CHR 0x03, CHR 0x02])"
proof -
  let ?s = "store_reach (\<lambda>n. True) [OpEnable (Some []) ''d'' 10 0 1]"
  have "valid_name ''call_1_x_1.wav''" by code_simp
  then have "snd (as_create (\<lambda>n. True) ''call_1_x_1.wav'' 1 ?s)"
    by (simp add: as_create_def store_reach_def run_ops_def astore0_def as_enable_def as_enforce_def om_has_def)
  then have c: "as_create (\<lambda>n. True) ''call_1_x_1.wav'' 1 ?s = (fst (as_create (\<lambda>n. True) ''call_1_x_1.wav'' 1 ?s), True)"
    by (metis prod.collapse)
  have "pcm_bytes [1, 0x0203] = [CHR 0x01, CHR 0x00, CHR 0x03, CHR 0x02]" by code_simp
  then show ?thesis
    using audio_file_complete [OF c, of "[OpAppend ''call_1_x_1.wav'' [1, 0x0203] 5]"] by (simp add: spares_def op_pcm_def numeral_2_eq_2)
qed

section \<open>Only the store's own files\<close>

text \<open>
  The path served for a recording never leaves the store's folder: it is the folder, a slash and a
  name of the store's own alphabet, which holds no slash and no two dots in a row; anything else gets
  the empty path.
\<close>

lemma audio_path_confined:
  "snd (as_path_for n t s) = [] \<or>
   snd (as_path_for n t s) = as_dir s @ ''/'' @ n \<and> CHR ''/'' \<notin> set n \<and> \<not> str_has n ''..'' \<and>
     n \<in> ae_name ` set (as_index s)"
proof -
  have "\<not> safe_char (CHR ''/'')" by code_simp
  then have "list_all safe_char n \<Longrightarrow> CHR ''/'' \<notin> set n" by (auto simp: list_all_iff)
  then show ?thesis by (auto simp: as_path_for_def valid_name_def find_entry_None)
qed

lemma safe_digits: "list_all safe_char (nat_dec n) \<and> CHR ''.'' \<notin> set (nat_dec n)"
proof -
  have "\<forall>c \<in> set (nat_dec n). is_digit c" using nat_dec_digits by (simp add: list_all_iff)
  moreover have "\<not> is_digit (CHR ''.'')" by code_simp
  ultimately show ?thesis by (auto simp: list_all_iff safe_char_def is_alnum_def)
qed

lemma safe_int: "list_all safe_char (int_dec i) \<and> CHR ''.'' \<notin> set (int_dec i)"
  using safe_digits by (auto simp: int_dec_def safe_char_def)

lemma no_double_dot:
  "CHR ''.'' \<notin> set a \<Longrightarrow> \<not> str_has (a @ ''.wav'') ''..''"
proof
  assume "CHR ''.'' \<notin> set a" "str_has (a @ ''.wav'') ''..''"
  then obtain x y where "a @ ''.wav'' = x @ ''..'' @ y" by (auto simp: str_has_iff_sublist sublist_def)
  then have "count_list (a @ ''.wav'') (CHR ''.'') = count_list (x @ ''..'' @ y) (CHR ''.'')" by simp
  with \<open>CHR ''.'' \<notin> set a\<close> show False by (simp add: count_list_0_iff)
qed

text \<open>
  Every name the model makes for a call's recording is one the store accepts and serves, whatever
  the server's instance text holds.
\<close>

lemma make_name_valid:
  assumes "\<bar>start\<bar> < 2 ^ 63" "call < 2 ^ 64"
  shows "valid_name (make_name start inst call)"
proof -
  define i where "i = (if take 8 (filter is_alnum inst) = [] then ''x'' else take 8 (filter is_alnum inst))"
  define a where "a = ''call_'' @ int_dec start @ ''_'' @ i @ ''_'' @ nat_dec call"
  have l: "length (nat_dec (nat \<bar>start\<bar>)) \<le> 19" "length (nat_dec call) \<le> 20"
    using assms using nat_dec_length [of "nat \<bar>start\<bar>" 18] nat_dec_length [of call 19] by (auto simp: nat_less_iff)
  have li: "length (int_dec start) \<le> 20" using l(1) by (auto simp: int_dec_def)
  have i8: "length i \<le> 8" by (simp add: i_def)
  then have "length (a @ ''.wav'') \<le> 95" using l li by (simp add: a_def)
  moreover have "make_name start inst call = take 95 (a @ ''.wav'')"
    by (simp add: make_name_def Let_def a_def i_def)
  ultimately have n: "make_name start inst call = a @ ''.wav''" by simp
  have si: "list_all safe_char i \<and> CHR ''.'' \<notin> set i"
  proof -
    have "\<not> is_alnum (CHR ''.'')" "safe_char (CHR ''x'')" by code_simp+
    moreover have "set (take 8 (filter is_alnum inst)) \<subseteq> {c. is_alnum c}" using set_take_subset by fastforce
    ultimately show ?thesis by (auto simp: i_def list_all_iff safe_char_def)
  qed
  have c: "safe_char (CHR ''_'')" "list_all safe_char ''call_''" "list_all safe_char ''.wav''" by code_simp+
  have dot: "CHR ''.'' \<notin> set a" using safe_digits safe_int si by (simp add: a_def)
  have "length i \<le> 8" "0 < length (nat_dec call)" "0 < length i" by (auto simp: i_def nat_dec_nonempty)
  with l li have "10 \<le> length (a @ ''.wav'')" "length (a @ ''.wav'') \<le> 96" by (simp_all add: a_def)
  moreover have "list_all safe_char (a @ ''.wav'')" using safe_digits safe_int si c by (simp add: a_def)
  moreover have "starts_with (a @ ''.wav'') ''call_''" by (simp add: starts_with_def a_def)
  moreover have "ends_with (a @ ''.wav'') ''.wav''" by (simp add: ends_with_def)
  ultimately show ?thesis using no_double_dot [OF dot] by (simp add: valid_name_def n)
qed

lemma make_name_valid_witness: "valid_name (make_name 1700000000000 ''../etc'' 7)"
  by (rule make_name_valid) simp_all

end
