(* ===== verification/Assoc_Text.thy ===== *)
theory Assoc_Text
  imports Assoc_Log Audio_Store
begin

text \<open>
  The pure part of the association model (\<open>src/assoc_model.hpp\<close>): protocol families, what a decoder
  line says (\<open>is_private\<close>, \<open>is_data\<close>, ...), ids and extra fields, the identity a stream derives from
  the tokens it heard (\<open>derive\<close>, \<open>site_label\<close>), key normal forms and the settings read from the
  environment (\<open>env\<close> is the variable's value).
\<close>

section \<open>Protocol families\<close>

definition assoc_family :: "string \<Rightarrow> string" where
  "assoc_family l =
     (if l = ''dmr'' then ''dmr''
      else if l = ''p25p1'' \<or> l = ''p25p2'' \<or> l = ''p25'' then ''p25''
      else if l = ''nxdn48'' \<or> l = ''nxdn96'' \<or> l = ''nxdn'' then ''nxdn''
      else if l = ''dpmr'' then ''dpmr''
      else if l = ''dstar'' then ''dstar''
      else if l = ''ysf'' then ''ysf''
      else if l = ''tetra'' \<or> l = ''tetrakit'' then ''tetra''
      else if l = ''provoice'' \<or> starts_with l ''edacs'' then ''edacs''
      else if l = ''x2tdma'' then ''x2tdma''
      else if l = ''auto'' then ''auto''
      else if l = ''pager-auto'' \<or> starts_with l ''pocsag'' \<or> l = ''flex'' then []
      else l)"

definition quality_ambe2_family :: "string \<Rightarrow> bool" where
  "quality_ambe2_family f \<longleftrightarrow> f \<in> {''dmr'', ''nxdn'', ''p25'', ''dpmr'', ''ysf'', ''x2tdma''}"

definition quality_no_frames_is_unknown :: "string \<Rightarrow> bool" where
  "quality_no_frames_is_unknown f \<longleftrightarrow> quality_ambe2_family f \<and> f \<noteq> ''p25''"

section \<open>Text helpers\<close>

definition upper :: "string \<Rightarrow> string" where
  "upper s = map to_upper s"

function tokens :: "char \<Rightarrow> string \<Rightarrow> string list" where
  "tokens c s =
     (if s = [] then []
      else (let t = takeWhile (\<lambda>d. d \<noteq> c) s
            in t # tokens c (drop (Suc (length t)) s)))"
  by auto
termination by (relation "measure (\<lambda>(c, s). length s)") auto

declare tokens.simps [simp del]

definition extra_token :: "(string, string) omap \<Rightarrow> string \<Rightarrow> (string, string) omap" where
  "extra_token m tok =
     (let t = trim_char (CHR '' '') tok
      in case find_char (CHR ''='') t of
           None \<Rightarrow> m
         | Some i \<Rightarrow> if i = 0 then m else om_put (take i t) (drop (Suc i) t) m)"

definition parse_extra :: "string \<Rightarrow> (string, string) omap" where
  "parse_extra s = foldl extra_token [] (tokens (CHR '';'') s)"

definition norm_id :: "string \<Rightarrow> string" where
  "norm_id s =
     (let t = trim_char (CHR '' '') s
      in if t = [] then []
         else if list_all is_digit t then skip_char (CHR ''0'') t
         else if list_ex (\<lambda>c. c = CHR ''*'' \<or> c = CHR ''?'') t then []
         else t)"

definition infer_family :: "string \<Rightarrow> string" where
  "infer_family raw =
     (let up = upper raw
      in if str_has up ''P25'' then ''p25''
         else if str_has up ''NXDN'' then ''nxdn''
         else if str_has up ''DPMR'' then ''dpmr''
         else if str_has up ''DSTAR'' \<or> str_has up ''D-STAR'' then ''dstar''
         else if str_has up ''YSF'' then ''ysf''
         else if str_has up ''EDACS'' \<or> str_has up ''PROVOICE'' then ''edacs''
         else if str_has up ''X2-TDMA'' \<or> str_has up ''X2TDMA'' then ''x2tdma''
         else if str_has up ''DMR'' then ''dmr''
         else [])"

section \<open>What a line says\<close>

type_synonym extra = "(string, string) omap"

definition is_private :: "string \<Rightarrow> extra \<Rightarrow> bool" where
  "is_private up x \<longleftrightarrow>
     (case om_get x ''unit_target'' of Some v \<Rightarrow> v \<noteq> ''0'' \<and> v \<noteq> [] | None \<Rightarrow> False) \<or>
     str_has up ''PRIVATE'' \<or> str_has up ''UNIT TO UNIT'' \<or> str_has up ''UNIT-TO-UNIT'' \<or>
     str_has up ''INDIV'' \<or> str_has up ''I-CALL'' \<or> str_has up ''U2U''"

definition is_roster :: "string \<Rightarrow> bool" where
  "is_roster up \<longleftrightarrow> str_has up ''CALL(S)'' \<and> str_has up ''LSN''"

definition is_data :: "string \<Rightarrow> bool" where
  "is_data up \<longleftrightarrow>
     str_has up '' DATA'' \<or> str_has up ''SMS'' \<or> str_has up ''UDT'' \<or> str_has up ''SHORT DATA'' \<or> str_has up ''TEXT:''"

definition is_encrypted :: "string \<Rightarrow> extra \<Rightarrow> bool" where
  "is_encrypted up x \<longleftrightarrow>
     (case om_get x ''alg_id'' of
        Some a \<Rightarrow> (let v = skip_char (CHR ''0'') (upper a) in v \<noteq> [] \<and> v \<noteq> ''80'')
      | None \<Rightarrow> False) \<or>
     (case om_get x ''encr'' of Some v \<Rightarrow> v \<noteq> [] \<and> v \<noteq> ''0'' | None \<Rightarrow> False) \<or>
     str_has up ''ENCRYPTED''"

definition is_voice_sync :: "string \<Rightarrow> bool" where
  "is_voice_sync up \<longleftrightarrow>
     str_has up ''| VC'' \<or> str_has up ''VOICE'' \<or> str_has up ''LDU'' \<or> str_has up ''HDU'' \<or> str_has up ''V/D''"

definition is_traffic_sync :: "string \<Rightarrow> bool" where
  "is_traffic_sync up \<longleftrightarrow>
     \<not> str_has up ''IDLE'' \<and>
     (is_voice_sync up \<or> str_has up ''| DATA'' \<or> str_has up ''R12'' \<or> str_has up ''R34'' \<or>
      str_has up ''R1_'' \<or> str_has up ''RTCH'')"

section \<open>Network identity\<close>

definition is_anchor :: "string \<Rightarrow> string \<Rightarrow> bool" where
  "is_anchor fam k \<longleftrightarrow>
     (if fam = ''p25'' then k = ''wacn'' \<or> k = ''system_id'' \<or> k = ''nac''
      else if fam = ''dmr'' then k = ''network_id'' \<or> k = ''cc''
      else if fam = ''nxdn'' then k = ''system_code'' \<or> k = ''ran''
      else if fam = ''tetra'' then k = ''mcc'' \<or> k = ''mnc'' \<or> k = ''cc''
      else if fam = ''dpmr'' then k = ''cc''
      else if fam = ''dstar'' then k = ''rpt1''
      else if fam = ''ysf'' then k = ''downlink''
      else if fam = ''edacs'' then k = ''system_id''
      else False)"

definition is_weak_anchor :: "string \<Rightarrow> bool" where
  "is_weak_anchor k \<longleftrightarrow> k = ''cc'' \<or> k = ''nac'' \<or> k = ''ran''"

definition is_site_key :: "string \<Rightarrow> string \<Rightarrow> bool" where
  "is_site_key fam k \<longleftrightarrow>
     (if fam = ''p25'' then k = ''rfss'' \<or> k = ''site_id''
      else if fam = ''dmr'' then k = ''site_id''
      else if fam = ''nxdn'' then k = ''site_code'' \<or> k = ''location_id''
      else if fam = ''tetra'' then k = ''la''
      else False)"

definition dot_sep :: string where
  "dot_sep = [CHR '' '', CHR 0xC2, CHR 0xB7, CHR '' '']"

definition site_label :: "string \<Rightarrow> (string, string) omap \<Rightarrow> string" where
  "site_label fam ids =
     (let g = om_at [] ids
      in if fam = ''p25'' then
           (if g ''rfss'' \<noteq> [] \<and> g ''site_id'' \<noteq> [] then ''RFSS '' @ g ''rfss'' @ dot_sep @ ''Site '' @ g ''site_id''
            else if g ''site_id'' \<noteq> [] then ''Site '' @ g ''site_id'' else [])
         else if fam = ''dmr'' then (if g ''site_id'' = [] then [] else ''Site '' @ g ''site_id'')
         else if fam = ''nxdn'' then
           (if g ''site_code'' \<noteq> [] then ''Site '' @ g ''site_code'' @
              (if g ''location_id'' = [] then [] else dot_sep @ ''Loc '' @ g ''location_id'')
            else if g ''location_id'' = [] then [] else ''Loc '' @ g ''location_id'')
         else if fam = ''tetra'' then (if g ''la'' = [] then [] else ''LA '' @ g ''la'')
         else [])"

record net_id =
  ni_key :: string
  ni_label :: string
  ni_conf :: string
  ni_weak_key :: string
  ni_weak_val :: string

definition net_id0 :: net_id where
  "net_id0 = \<lparr>ni_key = [], ni_label = [], ni_conf = [], ni_weak_key = [], ni_weak_val = []\<rparr>"

definition strong_id :: "string \<Rightarrow> string \<Rightarrow> net_id" where
  "strong_id k l = \<lparr>ni_key = k, ni_label = l, ni_conf = ''strong'', ni_weak_key = [], ni_weak_val = []\<rparr>"

definition weak_id :: "string \<Rightarrow> string \<Rightarrow> string \<Rightarrow> string \<Rightarrow> net_id" where
  "weak_id k l wk wv = \<lparr>ni_key = k, ni_label = l, ni_conf = ''weak'', ni_weak_key = wk, ni_weak_val = wv\<rparr>"

definition derive :: "string \<Rightarrow> (string, string) omap \<Rightarrow> net_id" where
  "derive fam ids =
     (let g = om_at [] ids
      in if fam = ''p25'' then
           (if g ''wacn'' \<noteq> [] \<and> g ''system_id'' \<noteq> [] then
              strong_id (''wacn:'' @ g ''wacn'' @ ''/sys:'' @ g ''system_id'')
                (''WACN '' @ g ''wacn'' @ dot_sep @ ''SYS '' @ g ''system_id'')
            else if g ''system_id'' \<noteq> [] then strong_id (''sys:'' @ g ''system_id'') (''SYS '' @ g ''system_id'')
            else if g ''nac'' \<noteq> [] then weak_id (''nac:'' @ g ''nac'') (''NAC '' @ g ''nac'') ''nac'' (g ''nac'')
            else net_id0)
         else if fam = ''dmr'' then
           (if g ''network_id'' \<noteq> [] then
              strong_id (''net:'' @ g ''network_id'')
                (''Network '' @ g ''network_id'' @ (if g ''network_type'' = [] then [] else '' ('' @ g ''network_type'' @ '')''))
            else if g ''cc'' \<noteq> [] then weak_id (''cc:'' @ g ''cc'') (''Color Code '' @ g ''cc'') ''cc'' (g ''cc'')
            else net_id0)
         else if fam = ''nxdn'' then
           (if g ''system_code'' \<noteq> [] then strong_id (''sys:'' @ g ''system_code'') (''System '' @ g ''system_code'')
            else if g ''ran'' \<noteq> [] then weak_id (''ran:'' @ g ''ran'') (''RAN '' @ g ''ran'') ''ran'' (g ''ran'')
            else net_id0)
         else if fam = ''tetra'' then
           (if g ''mcc'' \<noteq> [] \<and> g ''mnc'' \<noteq> [] then
              strong_id (''mcc:'' @ g ''mcc'' @ ''/mnc:'' @ g ''mnc'') (''MCC '' @ g ''mcc'' @ dot_sep @ ''MNC '' @ g ''mnc'')
            else if g ''cc'' \<noteq> [] then weak_id (''cc:'' @ g ''cc'') (''Colour Code '' @ g ''cc'') ''cc'' (g ''cc'')
            else net_id0)
         else if fam = ''dpmr'' then
           (if g ''cc'' \<noteq> [] then weak_id (''cc:'' @ g ''cc'') (''Channel Code '' @ g ''cc'') ''cc'' (g ''cc'') else net_id0)
         else if fam = ''dstar'' then
           (if g ''rpt1'' \<noteq> [] then weak_id (''rpt:'' @ g ''rpt1'') (''Repeater '' @ g ''rpt1'') ''rpt1'' (g ''rpt1'') else net_id0)
         else if fam = ''ysf'' then
           (if g ''downlink'' \<noteq> [] then weak_id (''dl:'' @ g ''downlink'') (''Downlink '' @ g ''downlink'') ''downlink'' (g ''downlink'')
            else net_id0)
         else if fam = ''edacs'' then
           (if g ''system_id'' \<noteq> [] then strong_id (''sys:'' @ g ''system_id'') (''System '' @ g ''system_id'') else net_id0)
         else net_id0)"

text \<open>The identity tokens a line carries.\<close>

definition line_tokens :: "string \<Rightarrow> dsd_event \<Rightarrow> extra \<Rightarrow> (string, string) omap" where
  "line_tokens fam ev x =
     (let a = (if ev_cc ev \<noteq> [] \<and> fam \<in> {''dmr'', ''dpmr'', ''tetra''} then om_put ''cc'' (ev_cc ev) [] else []);
          b = (if ev_nac ev \<noteq> [] \<and> fam = ''p25'' then om_put ''nac'' (ev_nac ev) a else a);
          c = (if ev_ran ev \<noteq> [] \<and> fam = ''nxdn'' then om_put ''ran'' (ev_ran ev) b else b)
      in foldl (\<lambda>m (k, v).
           if v = [] \<or> (fam = ''dstar'' \<and> k = ''rpt1'' \<and> upper v = ''DIRECT'') then m
           else if is_anchor fam k \<or> is_site_key fam k \<or> (fam = ''dmr'' \<and> k = ''network_type'') then om_put k v m
           else m) c x)"

section \<open>Frequencies and keys\<close>

definition channel_hz :: "dbl \<Rightarrow> int \<Rightarrow> int" where
  "channel_hz hz step =
     (if \<not> dbl_pos hz then 0
      else (case hz of
          DFin x \<Rightarrow>
            if step \<le> 1 then to_i64 (round_dbl (x + 1 / 2))
            else (case round_dbl (x / of_int step) of
                DFin y \<Rightarrow> to_i64 (round_dbl (y + 1 / 2)) * step
              | d \<Rightarrow> to_i64 d * step)
        | d \<Rightarrow> if step \<le> 1 then to_i64 d else to_i64 d * step))"

definition net_on_freq :: "string \<Rightarrow> int \<Rightarrow> bool" where
  "net_on_freq net freq \<longleftrightarrow> ends_with net (''@'' @ int_dec freq)"

definition hex_key_norm :: "string \<Rightarrow> nat \<Rightarrow> string" where
  "hex_key_norm s digits =
     (let up = map to_upper (filter (\<lambda>c. \<not> is_space c) s)
      in if \<not> list_all is_xdigit (filter (\<lambda>c. \<not> is_space c) s) then []
         else if up = [] \<or> digits < length up \<or> list_all (\<lambda>c. c = CHR ''0'') up then []
         else replicate (digits - length up) (CHR ''0'') @ up)"

record net_key_kind =
  nk_id :: string
  nk_digits :: nat
  nk_forced :: bool
  nk_allow256 :: bool

definition net_key_kinds :: "net_key_kind list" where
  "net_key_kinds =
     map (\<lambda>(i, d, f, a). \<lparr>nk_id = i, nk_digits = d, nk_forced = f, nk_allow256 = a\<rparr>)
       [(''ep'', 10, False, False), (''tytep'', 32, True, False), (''tytbp'', 4, True, False),
        (''anybp'', 4, True, False), (''tytap'', 32, True, True), (''bfap'', 32, True, True), (''rtap'', 32, True, True)]"

definition find_kind :: "string \<Rightarrow> net_key_kind option" where
  "find_kind i = find (\<lambda>k. nk_id k = i) net_key_kinds"

definition net_key_norm :: "string \<Rightarrow> string \<Rightarrow> string" where
  "net_key_norm kind s =
     (case find_kind kind of
        None \<Rightarrow> []
      | Some k \<Rightarrow>
          (let digits = filter (\<lambda>c. \<not> is_space c) s
           in if nk_allow256 k \<and> length digits = 64 then hex_key_norm digits 64
              else hex_key_norm digits (nk_digits k)))"

section \<open>Names of imported audio\<close>

lemma drop_shorter: "dropWhile is_digit r = u # t \<Longrightarrow> length t < length r"
  by (metis length_dropWhile_le Suc_le_eq length_Cons)

text \<open>Any \<open>i<n>_\<close> prefixes (an import of an import) are dropped.\<close>

function drop_import_prefix :: "string \<Rightarrow> string" where
  "drop_import_prefix n =
     (case n of
        i # d # r \<Rightarrow>
          if r \<noteq> [] \<and> i = CHR ''i'' \<and> is_digit d then
            (case dropWhile is_digit r of
               u # t \<Rightarrow> if u = CHR ''_'' then drop_import_prefix t else n
             | [] \<Rightarrow> n)
          else n
      | _ \<Rightarrow> n)"
  by auto
termination by (relation "measure length") (auto dest!: drop_shorter)

declare drop_import_prefix.simps [simp del]

definition import_audio_base :: "string \<Rightarrow> string" where
  "import_audio_base n = (let m = drop_import_prefix n in if valid_name m then m else [])"

section \<open>Settings\<close>

definition default_per_receiver :: "string option \<Rightarrow> bool" where
  "default_per_receiver env \<longleftrightarrow> env = Some ''receiver''"

definition default_name :: "string option \<Rightarrow> string \<Rightarrow> string" where
  "default_name env host =
     (case env of
        Some n \<Rightarrow> if n \<noteq> [] then n else if host \<noteq> [] then host else ''dsd-server''
      | None \<Rightarrow> if host \<noteq> [] then host else ''dsd-server'')"

definition dev_tools :: "string option \<Rightarrow> bool" where
  "dev_tools env =
     (case env of
        Some v \<Rightarrow> v \<noteq> [] \<and> (hd v \<in> {CHR ''1'', CHR ''y'', CHR ''Y'', CHR ''t'', CHR ''T''} \<or> v = ''on'')
      | None \<Rightarrow> False)"

definition on_unless_off :: "string option \<Rightarrow> bool" where
  "on_unless_off env =
     (case env of
        Some v \<Rightarrow> v = [] \<or> \<not> (hd v \<in> {CHR ''0'', CHR ''n'', CHR ''N'', CHR ''f'', CHR ''F''} \<or> v = ''off'')
      | None \<Rightarrow> True)"

definition quality_default :: "string option \<Rightarrow> bool" where
  "quality_default env =
     (case env of
        Some v \<Rightarrow> v = [] \<or> hd v \<notin> {CHR ''0'', CHR ''n'', CHR ''N'', CHR ''f'', CHR ''F''}
      | None \<Rightarrow> True)"

definition map_json :: "string option \<Rightarrow> string option \<Rightarrow> string" where
  "map_json tiles attrib =
     jt ''{`tiles`:'' @ jq (case tiles of Some t \<Rightarrow> t | None \<Rightarrow> []) @ jt '',`attrib`:'' @
     jq (case attrib of Some a \<Rightarrow> a | None \<Rightarrow> []) @ ''}''"

end
