(* ===== verification/Voice_Quality.thy ===== *)
theory Voice_Quality
  imports Floats "HOL-Library.Word" "HOL-Library.Multiset"
begin

text \<open>
  The voice-quality analyzer of one call (\<open>src/audio_quality.hpp\<close>): the counters it keeps per AMBE
  frame at their machine widths, the summary and the verdict. The error limit is a parameter, read
  from the environment by \<open>unusable_err_per_frame\<close>.
\<close>

section \<open>The analyzer\<close>

datatype vverdict = VUnknown | VGood | VMarginal | VUnusable

definition kSilenceFrame :: "64 word" where
  "kSilenceFrame = 0xF801A99F8CE080"

definition kMinFrames :: "32 word" where
  "kMinFrames = 50"

definition kClearSilenceFrames :: "32 word" where
  "kClearSilenceFrames = 2"

text \<open>\<open>env\<close> is the value of \<open>DSD_NET_QUALITY_MAX_ERR\<close>; \<open>atof\<close> gives 0 where no number starts.\<close>

definition unusable_err_per_frame :: "string option \<Rightarrow> dbl" where
  "unusable_err_per_frame env =
     (case env of
        None \<Rightarrow> DFin 2
      | Some e \<Rightarrow>
          (let d = (case strtod e of None \<Rightarrow> DFin 0 | Some (x, n) \<Rightarrow> x)
           in if e \<noteq> [] \<and> dbl_pos d then d else DFin 2))"

record vsummary =
  vs_frames :: "32 word"
  vs_silence :: "32 word"
  vs_repeats :: "32 word"
  vs_sil :: dbl
  vs_rep :: dbl
  vs_err :: dbl
  vs_verdict :: vverdict

definition vsummary0 :: vsummary where
  "vsummary0 = \<lparr>vs_frames = 0, vs_silence = 0, vs_repeats = 0, vs_sil = DFin 0, vs_rep = DFin 0, vs_err = DFin 0,
     vs_verdict = VUnknown\<rparr>"

definition frame_of :: "string \<Rightarrow> 64 word" where
  "frame_of hex =
     (if hex = [] \<or> 16 < length hex \<or> \<not> list_all is_xdigit hex then 0 else word_of_nat (hex_num hex))"

record voice_quality =
  vq_frames :: "32 word"
  vq_silence :: "32 word"
  vq_repeats :: "32 word"
  vq_err_sum :: "64 word"
  vq_err_frames :: "32 word"
  vq_prev :: "64 word"
  vq_have_prev :: bool

definition vq_reset :: voice_quality where
  "vq_reset = \<lparr>vq_frames = 0, vq_silence = 0, vq_repeats = 0, vq_err_sum = 0, vq_err_frames = 0, vq_prev = 0,
     vq_have_prev = False\<rparr>"

definition feed_frame :: "64 word \<Rightarrow> int \<Rightarrow> voice_quality \<Rightarrow> voice_quality" where
  "feed_frame frame err q =
     q\<lparr>vq_frames := vq_frames q + 1,
       vq_silence := (if frame = kSilenceFrame then vq_silence q + 1 else vq_silence q),
       vq_repeats := (if vq_have_prev q \<and> frame = vq_prev q then vq_repeats q + 1 else vq_repeats q),
       vq_prev := frame, vq_have_prev := True,
       vq_err_sum := (if 0 \<le> err then vq_err_sum q + word_of_int err else vq_err_sum q),
       vq_err_frames := (if 0 \<le> err then vq_err_frames q + 1 else vq_err_frames q)\<rparr>"

text \<open>The quotient of two counters as doubles; a 64-bit counter is rounded when it is converted.\<close>

definition ratio :: "nat \<Rightarrow> nat \<Rightarrow> dbl" where
  "ratio a b = (case round_dbl (of_nat a) of DFin x \<Rightarrow> round_dbl (x / of_nat b) | d \<Rightarrow> d)"

definition dbl_le :: "dbl \<Rightarrow> dbl \<Rightarrow> bool" where
  "dbl_le a b =
     (case (a, b) of
        (DNaN, _) \<Rightarrow> False | (_, DNaN) \<Rightarrow> False
      | (DInf True, b) \<Rightarrow> b = DInf True | (DInf False, _) \<Rightarrow> True
      | (_, DInf p) \<Rightarrow> p
      | (DFin x, DFin y) \<Rightarrow> x \<le> y)"

definition classify :: "dbl \<Rightarrow> 32 word \<Rightarrow> 32 word \<Rightarrow> dbl \<Rightarrow> vverdict" where
  "classify max_err frames silence err =
     (if frames < kMinFrames then VUnknown
      else if dbl_le max_err err then VUnusable
      else if kClearSilenceFrames \<le> silence then VGood
      else VUnknown)"

definition vq_summary :: "dbl \<Rightarrow> voice_quality \<Rightarrow> vsummary" where
  "vq_summary max_err q =
     (let err = (if vq_err_frames q \<noteq> 0 then ratio (unat (vq_err_sum q)) (unat (vq_err_frames q)) else DFin 0)
      in \<lparr>vs_frames = vq_frames q, vs_silence = vq_silence q, vs_repeats = vq_repeats q,
          vs_sil = (if vq_frames q \<noteq> 0 then ratio (unat (vq_silence q)) (unat (vq_frames q)) else DFin 0),
          vs_rep = (if vq_frames q \<noteq> 0 then ratio (unat (vq_repeats q)) (unat (vq_frames q)) else DFin 0),
          vs_err = err, vs_verdict = classify max_err (vq_frames q) (vq_silence q) err\<rparr>)"

definition verdict_str :: "vverdict \<Rightarrow> string" where
  "verdict_str v =
     (case v of VGood \<Rightarrow> ''good'' | VMarginal \<Rightarrow> ''marginal'' | VUnusable \<Rightarrow> ''unusable'' | VUnknown \<Rightarrow> ''unknown'')"

section \<open>What the verdict says of the frames heard\<close>

text \<open>The frames of a call in the order they were decoded: codeword and error count.\<close>

type_synonym frames = "(64 word \<times> int) list"

definition feed_all :: "frames \<Rightarrow> voice_quality" where
  "feed_all fs = foldl (\<lambda>q (f, e). feed_frame f e q) vq_reset fs"

definition silences :: "frames \<Rightarrow> nat" where
  "silences fs = length (filter (\<lambda>p. fst p = kSilenceFrame) fs)"

definition known_errs :: "frames \<Rightarrow> nat list" where
  "known_errs fs = map (\<lambda>p. nat (snd p)) (filter (\<lambda>p. 0 \<le> snd p) fs)"

definition mean_err :: "frames \<Rightarrow> dbl" where
  "mean_err fs = (if known_errs fs = [] then DFin 0 else ratio (sum_list (known_errs fs)) (length (known_errs fs)))"

definition verdict_spec :: "dbl \<Rightarrow> frames \<Rightarrow> vverdict" where
  "verdict_spec max_err fs =
     (if length fs < 50 then VUnknown
      else if dbl_le max_err (mean_err fs) then VUnusable
      else if 2 \<le> silences fs then VGood else VUnknown)"

lemma feed_frame_counts:
  "vq_frames (feed_frame f e q) = vq_frames q + 1"
  "vq_silence (feed_frame f e q) = vq_silence q + (if f = kSilenceFrame then 1 else 0)"
  "vq_err_frames (feed_frame f e q) = vq_err_frames q + (if 0 \<le> e then 1 else 0)"
  "vq_err_sum (feed_frame f e q) = vq_err_sum q + (if 0 \<le> e then of_nat (nat e) else 0)"
  by (simp_all add: feed_frame_def)

lemma list_counts:
  "length (fs @ [p]) = length fs + 1"
  "silences (fs @ [p]) = silences fs + (if fst p = kSilenceFrame then 1 else 0)"
  "length (known_errs (fs @ [p])) = length (known_errs fs) + (if 0 \<le> snd p then 1 else 0)"
  "sum_list (known_errs (fs @ [p])) = sum_list (known_errs fs) + (if 0 \<le> snd p then nat (snd p) else 0)"
  by (simp_all add: silences_def known_errs_def)

lemma feed_all_snoc: "feed_all (fs @ [p]) = feed_frame (fst p) (snd p) (feed_all fs)"
  by (simp add: feed_all_def split_def)

lemma feed_all_counts:
  "vq_frames (feed_all fs) = of_nat (length fs) \<and> vq_silence (feed_all fs) = of_nat (silences fs) \<and>
   vq_err_frames (feed_all fs) = of_nat (length (known_errs fs)) \<and>
   vq_err_sum (feed_all fs) = of_nat (sum_list (known_errs fs))"
proof (induction fs rule: rev_induct)
  case Nil
  then show ?case by (simp add: feed_all_def vq_reset_def silences_def known_errs_def)
next
  case (snoc p fs)
  then show ?case
    by (simp only: feed_all_snoc feed_frame_counts list_counts of_nat_add of_nat_1 semiring_1_class.of_nat_0 if_distrib [where f = of_nat] conj_absorb simp_thms)
qed

lemma unat_small: "n < 2 ^ LENGTH('a) \<Longrightarrow> unat (of_nat n :: 'a::len word) = n"
  by (simp add: unat_of_nat take_bit_nat_eq_self)

lemma silences_le: "silences fs \<le> length fs" "length (known_errs fs) \<le> length fs"
  by (simp_all add: silences_def known_errs_def)

text \<open>
  C36. The analyzer's 32- and 64-bit counters implement its abstract verdict: as long as the counters
  cannot wrap, the verdict of a call is the one the list of its frames deserves (too short, too many
  errors on average, real pauses heard, or undecided).
\<close>

lemma voice_verdict_refines:
  assumes "length fs < 2 ^ 32" "sum_list (known_errs fs) < 2 ^ 64"
  shows "vs_verdict (vq_summary max_err (feed_all fs)) = verdict_spec max_err fs"
proof -
  have n: "unat (of_nat k :: 32 word) = k" if "k \<le> length fs" for k
    using that assms(1) by (intro unat_small) simp
  define L S E T where "L = (of_nat (length fs) :: 32 word)" and "S = (of_nat (silences fs) :: 32 word)"
    and "E = (of_nat (length (known_errs fs)) :: 32 word)" and "T = (of_nat (sum_list (known_errs fs)) :: 64 word)"
  have u: "unat L = length fs" "unat S = silences fs" "unat E = length (known_errs fs)" "unat T = sum_list (known_errs fs)"
    unfolding L_def S_def E_def T_def using n silences_le [of fs] assms(2) by (auto intro!: unat_small)
  have z: "E = 0 \<longleftrightarrow> known_errs fs = []" using u(3) unat_eq_zero [of E] by simp
  have lt: "L < kMinFrames \<longleftrightarrow> length fs < 50" "kClearSilenceFrames \<le> S \<longleftrightarrow> 2 \<le> silences fs"
    by (simp_all only: word_less_nat_alt word_le_nat_alt u kMinFrames_def kClearSilenceFrames_def) simp_all
  have c: "vq_frames (feed_all fs) = L" "vq_silence (feed_all fs) = S" "vq_err_frames (feed_all fs) = E"
    "vq_err_sum (feed_all fs) = T"
    using feed_all_counts [of fs] by (simp_all only: L_def S_def E_def T_def)
  have "(if E \<noteq> 0 then ratio (unat T) (unat E) else DFin 0) = mean_err fs"
    by (simp only: z u mean_err_def) simp
  then show ?thesis
    by (simp only: vq_summary_def Let_def vsummary.simps c classify_def lt verdict_spec_def)
qed

lemma voice_verdict_refines_witness:
  "vs_verdict (vq_summary (DFin 2) (feed_all (replicate 50 (kSilenceFrame, 0)))) = VGood"
proof -
  have "known_errs (replicate 50 (kSilenceFrame, 0)) = replicate 50 0" "silences (replicate 50 (kSilenceFrame, 0)) = 50"
    by (simp_all add: known_errs_def silences_def filter_replicate)
  then have "verdict_spec (DFin 2) (replicate 50 (kSilenceFrame, 0)) = VGood" "sum_list (known_errs (replicate 50 (kSilenceFrame, 0))) < 2 ^ 64"
    by (simp_all add: verdict_spec_def mean_err_def ratio_def round_dbl_def dbl_le_def sum_list_replicate)
  then show ?thesis using voice_verdict_refines [of "replicate 50 (kSilenceFrame, 0)" "DFin 2"] by simp
qed

lemma verdict_never_marginal: "vs_verdict (vq_summary max_err q) \<noteq> VMarginal"
  by (simp add: vq_summary_def Let_def classify_def)

end
