(* ===== verification/Assoc_State.thy ===== *)
theory Assoc_State
  imports Assoc_Text Voice_Quality Dataset_Import Keyring
begin

text \<open>
  The state of the association model (\<open>AssocModel\<close> of \<open>src/assoc_model.hpp\<close>): calls, networks,
  talkgroups and radios of each protocol family, the stream contexts, and everything else the class
  keeps; and the operations on the entities of one family (\<open>ensure_*\<close>, \<open>count_call\<close>, \<open>set_private\<close>,
  \<open>note_*\<close>). A reference \<open>Call&\<close> into a family's list is the call itself, passed and returned beside
  the family; the list is updated under the call's id.
\<close>

section \<open>The records\<close>

record call =
  k_id :: nat
  k_session :: nat
  k_net :: string
  k_site :: string
  k_slot :: string
  k_src :: string
  k_tgt :: string
  k_alias :: string
  k_text :: string
  k_svc :: string
  k_pos :: string
  k_priv :: bool
  k_voice :: bool
  k_data :: bool
  k_emerg :: bool
  k_enc :: bool
  k_open :: bool
  k_counted :: bool
  k_alg :: string
  k_kid :: string
  k_key_noted :: bool
  k_audio :: string
  k_audio_sid :: nat
  k_audio_slot :: int
  k_audio_samples :: nat
  k_keep :: bool
  k_no_audio :: bool
  k_keyed_audio :: bool
  k_start :: int
  k_last :: int
  k_tx_end :: int
  k_frames :: nat
  k_streams :: nat
  k_freq :: int
  k_qual :: vsummary

definition call0 :: call where
  "call0 = \<lparr>k_id = 0, k_session = 0, k_net = [], k_site = [], k_slot = [], k_src = [], k_tgt = [], k_alias = [],
     k_text = [], k_svc = [], k_pos = [], k_priv = False, k_voice = False, k_data = False, k_emerg = False,
     k_enc = False, k_open = True, k_counted = False, k_alg = [], k_kid = [], k_key_noted = False, k_audio = [],
     k_audio_sid = 0, k_audio_slot = -1, k_audio_samples = 0, k_keep = False, k_no_audio = False,
     k_keyed_audio = False, k_start = 0, k_last = 0, k_tx_end = 0, k_frames = 0, k_streams = 1, k_freq = 0,
     k_qual = vsummary0\<rparr>"

record network =
  nw_key :: string
  nw_label :: string
  nw_conf :: string
  nw_ids :: "(string, string) omap"
  nw_sites :: "string oset"
  nw_freqs :: "int oset"
  nw_sessions :: "nat oset"
  nw_calls :: nat
  nw_first :: int
  nw_last :: int
  nw_keys :: counts

definition network0 :: network where
  "network0 = \<lparr>nw_key = [], nw_label = [], nw_conf = [], nw_ids = [], nw_sites = [], nw_freqs = [], nw_sessions = [],
     nw_calls = 0, nw_first = 0, nw_last = 0, nw_keys = []\<rparr>"

record talkgroup =
  tg_id :: string
  tg_radios :: counts
  tg_networks :: "string oset"
  tg_calls :: nat
  tg_emerg :: nat
  tg_enc :: nat
  tg_first :: int
  tg_last :: int
  tg_keys :: counts

definition talkgroup0 :: talkgroup where
  "talkgroup0 = \<lparr>tg_id = [], tg_radios = [], tg_networks = [], tg_calls = 0, tg_emerg = 0, tg_enc = 0, tg_first = 0,
     tg_last = 0, tg_keys = []\<rparr>"

record radio =
  rd_id :: string
  rd_aliases :: "string list"
  rd_tgs :: counts
  rd_peers :: counts
  rd_keys :: counts
  rd_networks :: "string oset"
  rd_calls :: nat
  rd_first :: int
  rd_last :: int
  rd_pos :: string
  rd_pos_t :: int
  rd_track :: track

definition radio0 :: radio where
  "radio0 = \<lparr>rd_id = [], rd_aliases = [], rd_tgs = [], rd_peers = [], rd_keys = [], rd_networks = [], rd_calls = 0,
     rd_first = 0, rd_last = 0, rd_pos = [], rd_pos_t = 0, rd_track = []\<rparr>"

record family =
  fm_networks :: "(string, network) omap"
  fm_tgs :: "(string, talkgroup) omap"
  fm_radios :: "(string, radio) omap"
  fm_calls :: "call list"

definition family0 :: family where
  "family0 = \<lparr>fm_networks = [], fm_tgs = [], fm_radios = [], fm_calls = []\<rparr>"

record preroll =
  pr_pcm :: pcm
  pr_last :: int
  pr_audible :: bool

definition preroll0 :: preroll where
  "preroll0 = \<lparr>pr_pcm = [], pr_last = 0, pr_audible = False\<rparr>"

record ctx =
  cx_family :: string
  cx_label :: string
  cx_ids :: "(string, string) omap"
  cx_net :: string
  cx_site :: string
  cx_strong :: bool
  cx_adjacent :: bool
  cx_live :: bool
  cx_running :: bool
  cx_freq :: int
  cx_started :: int
  cx_heard :: int
  cx_active :: "(string, nat) omap"
  cx_slot_call :: "(string, nat) omap"
  cx_pending :: "(string, string \<times> nat) omap"
  cx_preroll :: "(int, preroll) omap"

definition ctx0 :: ctx where
  "ctx0 = \<lparr>cx_family = [], cx_label = [], cx_ids = [], cx_net = [], cx_site = [], cx_strong = False,
     cx_adjacent = False, cx_live = False, cx_running = False, cx_freq = 0, cx_started = 0, cx_heard = 0,
     cx_active = [], cx_slot_call = [], cx_pending = [], cx_preroll = []\<rparr>"

text \<open>Uploaded audio of an import: what its calls ask for, and the files there are.\<close>

record audio_want =
  wa_fam :: string
  wa_call :: nat
  wa_ms :: nat

record import_audio =
  ia_want :: "(string, audio_want list) omap"
  ia_files :: "(string, nat) omap"

definition import_audio0 :: import_audio where
  "import_audio0 = \<lparr>ia_want = [], ia_files = []\<rparr>"

type_synonym net_secrets = "(string, (string, string) omap) omap"

text \<open>
  \<open>m_files\<close> are the files the model keeps (rules, keys, imported audio); \<open>m_disk_ok\<close> says whether they
  can be written. \<open>m_max_err\<close> and \<open>m_quality_on\<close> are read from the environment once.
\<close>

record model =
  m_fams :: "(string, family) omap"
  m_sess :: "(nat, ctx) omap"
  m_version :: nat
  m_next_call :: nat
  m_rec :: recorder
  m_instance :: string
  m_name :: string
  m_since :: int
  m_imports :: "dataset list"
  m_next_import :: nat
  m_import_audio :: "(nat, import_audio) omap"
  m_import_root :: string
  m_import_cap :: nat
  m_merges :: net_merges
  m_merges_file :: string
  m_keys :: key_ring
  m_bp :: "(string, (string, int) omap) omap"
  m_net_keys :: "(string, net_secrets) omap"
  m_keys_file :: string
  m_per_receiver :: bool
  m_max_calls :: nat
  m_audio :: astore
  m_audio_on :: bool
  m_quality_on :: bool
  m_quality :: "(nat, voice_quality) omap"
  m_max_err :: dbl
  m_files :: "(string, string) omap"
  m_disk_ok :: bool

text \<open>
  A new model. What its members are initialised with outside the model is given: the random instance
  text, the host's name, the clock, the settings of the environment, and the disk.
\<close>

definition model0 :: "string \<Rightarrow> string \<Rightarrow> int \<Rightarrow> bool \<Rightarrow> nat \<Rightarrow> bool \<Rightarrow> dbl \<Rightarrow> bool \<Rightarrow> model" where
  "model0 inst name since per_receiver cap quality err disk =
     \<lparr>m_fams = [], m_sess = [], m_version = 0, m_next_call = 0, m_rec = recorder0, m_instance = inst, m_name = name,
      m_since = since, m_imports = [], m_next_import = 0, m_import_audio = [], m_import_root = [], m_import_cap = 0,
      m_merges = [], m_merges_file = [], m_keys = [], m_bp = [], m_net_keys = [], m_keys_file = [],
      m_per_receiver = per_receiver, m_max_calls = cap, m_audio = astore0, m_audio_on = False, m_quality_on = quality,
      m_quality = [], m_max_err = err, m_files = [], m_disk_ok = disk\<rparr>"

section \<open>Tunables\<close>

definition kContinueMs :: int where "kContinueMs = 4000"
definition kMaxRadios :: nat where "kMaxRadios = 3000"
definition kMaxTalkgroups :: nat where "kMaxTalkgroups = 1500"
definition kMaxNetworks :: nat where "kMaxNetworks = 200"
definition kMaxEdgesPerNode :: nat where "kMaxEdgesPerNode = 300"
definition kMaxAliases :: nat where "kMaxAliases = 5"
definition kMaxFreqs :: nat where "kMaxFreqs = 64"
definition kPrerollMs :: int where "kPrerollMs = 1000"
definition kPrerollSamples :: nat where "kPrerollSamples = 8000"
definition kAudiblePeak :: int where "kAudiblePeak = 64"
definition kMinAudioSamples :: nat where "kMinAudioSamples = 1600"

section \<open>Bounded tables of entities\<close>

fun oldest :: "('v \<Rightarrow> int) \<Rightarrow> 'k \<times> 'v \<Rightarrow> ('k \<times> 'v) list \<Rightarrow> 'k" where
  "oldest tm b [] = fst b"
| "oldest tm b (p # ps) = oldest tm (if tm (snd p) < tm (snd b) then p else b) ps"

definition evict_oldest :: "('v \<Rightarrow> int) \<Rightarrow> ('k, 'v) omap \<Rightarrow> ('k, 'v) omap" where
  "evict_oldest tm m = (case m of [] \<Rightarrow> [] | p # ps \<Rightarrow> om_del (oldest tm p ps) m)"

text \<open>The entry under a key, made from \<open>new\<close> when there is none, after the oldest went if the table is full.\<close>

definition ensure :: "('v \<Rightarrow> int) \<Rightarrow> nat \<Rightarrow> string \<Rightarrow> 'v \<Rightarrow> (string, 'v) omap \<Rightarrow> (string, 'v) omap" where
  "ensure tm cap k new m =
     (if om_has m k then m else om_put k new (if cap \<le> length m then evict_oldest tm m else m))"

definition ensure_network :: "string \<Rightarrow> int \<Rightarrow> family \<Rightarrow> family" where
  "ensure_network k now F =
     F\<lparr>fm_networks := ensure nw_last kMaxNetworks k (network0\<lparr>nw_key := k, nw_first := now, nw_last := now\<rparr>) (fm_networks F)\<rparr>"

definition ensure_radio :: "string \<Rightarrow> int \<Rightarrow> family \<Rightarrow> family" where
  "ensure_radio k now F =
     F\<lparr>fm_radios := ensure rd_last kMaxRadios k (radio0\<lparr>rd_id := k, rd_first := now, rd_last := now\<rparr>) (fm_radios F)\<rparr>"

definition ensure_tg :: "string \<Rightarrow> int \<Rightarrow> family \<Rightarrow> family" where
  "ensure_tg k now F =
     F\<lparr>fm_tgs := ensure tg_last kMaxTalkgroups k (talkgroup0\<lparr>tg_id := k, tg_first := now, tg_last := now\<rparr>) (fm_tgs F)\<rparr>"

definition upd_network :: "string \<Rightarrow> (network \<Rightarrow> network) \<Rightarrow> family \<Rightarrow> family" where
  "upd_network k f F = F\<lparr>fm_networks := om_modify k f (fm_networks F)\<rparr>"

definition upd_radio :: "string \<Rightarrow> (radio \<Rightarrow> radio) \<Rightarrow> family \<Rightarrow> family" where
  "upd_radio k f F = F\<lparr>fm_radios := om_modify k f (fm_radios F)\<rparr>"

definition upd_tg :: "string \<Rightarrow> (talkgroup \<Rightarrow> talkgroup) \<Rightarrow> family \<Rightarrow> family" where
  "upd_tg k f F = F\<lparr>fm_tgs := om_modify k f (fm_tgs F)\<rparr>"

definition add_net :: "string \<Rightarrow> string oset \<Rightarrow> string oset" where
  "add_net net s = (if net \<noteq> [] then os_put net s else s)"

definition bump :: "string \<Rightarrow> int \<Rightarrow> counts \<Rightarrow> counts" where
  "bump k d m =
     (case om_get m k of
        None \<Rightarrow> if 0 < d \<and> length m < kMaxEdgesPerNode then om_put k (nat d) m else m
      | Some v \<Rightarrow> if d < 0 \<and> int v \<le> - d then om_del k m else om_put k (nat (int v + d)) m)"

section \<open>What a call does to the entities\<close>

definition touch_radio :: "string \<Rightarrow> string \<Rightarrow> string \<Rightarrow> int \<Rightarrow> family \<Rightarrow> family" where
  "touch_radio i net alias now F =
     upd_radio i (\<lambda>r. r\<lparr>rd_last := now, rd_networks := add_net net (rd_networks r),
         rd_aliases := (if alias \<noteq> [] \<and> alias \<notin> set (rd_aliases r) \<and> length (rd_aliases r) < kMaxAliases
                        then rd_aliases r @ [alias] else rd_aliases r)\<rparr>)
       (ensure_radio i now F)"

definition note_service :: "extra \<Rightarrow> int \<Rightarrow> family \<times> call \<Rightarrow> family \<times> call" where
  "note_service x now st =
     (case st of (F, k) \<Rightarrow>
        (let k1 = (case om_get x ''svc'' of
                     Some s \<Rightarrow> if svc_rank (k_svc k) < svc_rank s then k\<lparr>k_svc := s\<rparr> else k
                   | None \<Rightarrow> k)
         in (case om_get x ''gps'' of
               None \<Rightarrow> (F, k1)
             | Some g \<Rightarrow>
                 if g = [] then (F, k1)
                 else (upd_radio (k_src k1) (\<lambda>r. r\<lparr>rd_pos := g, rd_pos_t := now, rd_track := track_add (rd_track r) now g\<rparr>) F,
                       k1\<lparr>k_pos := g\<rparr>))))"

definition note_enc_counts :: "family \<times> call \<Rightarrow> family \<times> call" where
  "note_enc_counts st =
     (case st of (F, k) \<Rightarrow>
        if \<not> k_counted k \<or> k_kid k = [] \<or> k_key_noted k then (F, k)
        else
          (let key = enc_key (k_alg k) (k_kid k);
               F1 = upd_network (k_net k) (\<lambda>n. n\<lparr>nw_keys := key_add key 1 (nw_keys n)\<rparr>) F;
               F2 = (if k_priv k then F1 else upd_tg (k_tgt k) (\<lambda>t. t\<lparr>tg_keys := key_add key 1 (tg_keys t)\<rparr>) F1)
           in (upd_radio (k_src k) (\<lambda>r. r\<lparr>rd_keys := key_add key 1 (rd_keys r)\<rparr>) F2, k\<lparr>k_key_noted := True\<rparr>)))"

definition count_call :: "int \<Rightarrow> family \<times> call \<Rightarrow> family \<times> call" where
  "count_call now st =
     (case st of (F, k) \<Rightarrow>
        (let src = k_src k \<noteq> [];
             F1 = (if src then upd_radio (k_src k)
                       (\<lambda>r. r\<lparr>rd_last := now, rd_calls := rd_calls r + 1, rd_networks := add_net (k_net k) (rd_networks r)\<rparr>)
                       (ensure_radio (k_src k) now F)
                   else F);
             F2 = (if k_priv k then
                     (if src then
                        upd_radio (k_tgt k)
                          (\<lambda>p. p\<lparr>rd_last := now, rd_peers := bump (k_src k) 1 (rd_peers p),
                                 rd_networks := add_net (k_net k) (rd_networks p)\<rparr>)
                          (ensure_radio (k_tgt k) now
                             (upd_radio (k_src k) (\<lambda>r. r\<lparr>rd_peers := bump (k_tgt k) 1 (rd_peers r)\<rparr>) F1))
                      else F1)
                   else
                     upd_tg (k_tgt k)
                       (\<lambda>t. t\<lparr>tg_last := max (tg_last t) now, tg_calls := tg_calls t + 1,
                              tg_radios := (if src then bump (k_src k) 1 (tg_radios t) else tg_radios t),
                              tg_networks := add_net (k_net k) (tg_networks t)\<rparr>)
                       (ensure_tg (k_tgt k) now
                          (if src then upd_radio (k_src k) (\<lambda>r. r\<lparr>rd_tgs := bump (k_tgt k) 1 (rd_tgs r)\<rparr>) F1 else F1)));
             F3 = upd_network (k_net k) (\<lambda>n. n\<lparr>nw_calls := nw_calls n + 1\<rparr>) F2
         in note_enc_counts (F3, k\<lparr>k_counted := True\<rparr>)))"

definition hexid :: "string \<Rightarrow> string" where
  "hexid v = pad_left 2 (CHR ''0'') (skip_char (CHR ''0'') (upper v))"

definition note_encrypted :: "extra \<Rightarrow> family \<times> call \<Rightarrow> family \<times> call" where
  "note_encrypted x st =
     (case st of (F, k) \<Rightarrow>
        (let k1 = k\<lparr>k_enc := True\<rparr>;
             k2 = (if k_kid k1 \<noteq> [] then k1
                   else (case om_get x ''key_id'' of
                       Some ki \<Rightarrow>
                         if ki = [] then k1
                         else (let k2 = k1\<lparr>k_kid := hexid ki\<rparr>
                               in case om_get x ''alg_id'' of
                                    Some ai \<Rightarrow> if ai = [] then k2 else k2\<lparr>k_alg := hexid ai\<rparr>
                                  | None \<Rightarrow> k2)
                     | None \<Rightarrow> k1))
         in note_enc_counts (F, k2)))"

definition drop_tg_call :: "call \<Rightarrow> talkgroup \<Rightarrow> talkgroup" where
  "drop_tg_call k t =
     t\<lparr>tg_radios := bump (k_src k) (-1) (tg_radios t), tg_calls := tg_calls t - 1,
       tg_keys := (if k_key_noted k then bump (enc_key (k_alg k) (k_kid k)) (-1) (tg_keys t) else tg_keys t)\<rparr>"

definition set_private :: "int \<Rightarrow> family \<times> call \<Rightarrow> family \<times> call" where
  "set_private now st =
     (case st of (F, k) \<Rightarrow>
        if k_priv k then (F, k)
        else if \<not> k_counted k then (F, k\<lparr>k_priv := True\<rparr>)
        else
          (let F1 = upd_radio (k_src k) (\<lambda>r. r\<lparr>rd_tgs := bump (k_tgt k) (-1) (rd_tgs r)\<rparr>) F;
               F2 = (case om_get (fm_tgs F1) (k_tgt k) of
                       None \<Rightarrow> F1
                     | Some t \<Rightarrow>
                         (let t1 = drop_tg_call k t
                          in if tg_calls t1 = 0 \<and> tg_radios t1 = [] then F1\<lparr>fm_tgs := om_del (k_tgt k) (fm_tgs F1)\<rparr>
                             else upd_tg (k_tgt k) (\<lambda>_. t1) F1));
               F3 = upd_radio (k_src k) (\<lambda>r. r\<lparr>rd_peers := bump (k_tgt k) 1 (rd_peers r)\<rparr>) F2
           in (upd_radio (k_tgt k)
                 (\<lambda>p. p\<lparr>rd_last := now, rd_peers := bump (k_src k) 1 (rd_peers p),
                        rd_networks := add_net (k_net k) (rd_networks p)\<rparr>)
                 (ensure_radio (k_tgt k) now F3),
               k\<lparr>k_priv := True\<rparr>)))"

end
