(* ===== verification/Assoc_Calls.thy ===== *)
theory Assoc_Calls
  imports Assoc_State
begin

text \<open>
  Calls (\<open>src/assoc_model.hpp\<close>): looking one up, opening, closing and expiring it, and folding the copy
  another receiver heard into its twin, with what that does to the recordings, the voice analyzers and
  the recording of the model's inputs. A call that an operation changes is found by its id, as the
  code's \<open>find_call\<close> does; ids are never reused.
\<close>

section \<open>Access\<close>

definition fam_of :: "model \<Rightarrow> string \<Rightarrow> family" where
  "fam_of m fam = om_at family0 (m_fams m) fam"

definition set_fam :: "string \<Rightarrow> family \<Rightarrow> model \<Rightarrow> model" where
  "set_fam fam F m = m\<lparr>m_fams := om_put fam F (m_fams m)\<rparr>"

definition upd_fam :: "string \<Rightarrow> (family \<Rightarrow> family) \<Rightarrow> model \<Rightarrow> model" where
  "upd_fam fam f m = set_fam fam (f (fam_of m fam)) m"

definition ctx_of :: "model \<Rightarrow> nat \<Rightarrow> ctx" where
  "ctx_of m sid = om_at ctx0 (m_sess m) sid"

definition upd_ctx :: "nat \<Rightarrow> (ctx \<Rightarrow> ctx) \<Rightarrow> model \<Rightarrow> model" where
  "upd_ctx sid f m = m\<lparr>m_sess := om_modify sid f (m_sess m)\<rparr>"

definition record_line :: "string \<Rightarrow> int \<Rightarrow> model \<Rightarrow> model" where
  "record_line line now m = m\<lparr>m_rec := rec_write line now (m_rec m)\<rparr>"

definition find_call :: "family \<Rightarrow> nat \<Rightarrow> call option" where
  "find_call F i = find (\<lambda>k. k_id k = i) (rev (fm_calls F))"

definition put_call :: "nat \<Rightarrow> call \<Rightarrow> family \<Rightarrow> family" where
  "put_call i k' F = F\<lparr>fm_calls := map (\<lambda>k. if k_id k = i then k' else k) (fm_calls F)\<rparr>"

text \<open>An operation on the call with an id: on its family, or on the model.\<close>

definition on_call :: "nat \<Rightarrow> (family \<times> call \<Rightarrow> family \<times> call) \<Rightarrow> family \<Rightarrow> family" where
  "on_call i f F =
     (case find_call F i of
        None \<Rightarrow> F
      | Some k \<Rightarrow> (case f (F, k) of (F', k') \<Rightarrow> put_call i k' F'))"

definition with_call :: "string \<Rightarrow> nat \<Rightarrow> (model \<times> call \<Rightarrow> model \<times> call) \<Rightarrow> model \<Rightarrow> model" where
  "with_call fam i f m =
     (case find_call (fam_of m fam) i of
        None \<Rightarrow> m
      | Some k \<Rightarrow> (case f (m, k) of (m', k') \<Rightarrow> upd_fam fam (put_call i k') m'))"

definition is_fresh :: "int \<Rightarrow> call \<Rightarrow> bool" where
  "is_fresh now k \<longleftrightarrow> k_open k \<and> now - k_last k \<le> kContinueMs"

definition fresh_call :: "ctx \<Rightarrow> family \<Rightarrow> string \<Rightarrow> int \<Rightarrow> nat option" where
  "fresh_call c F slot now =
     (case om_get (cx_slot_call c) slot of
        None \<Rightarrow> None
      | Some i \<Rightarrow>
          (case find_call F i of
             None \<Rightarrow> None
           | Some k \<Rightarrow> if is_fresh now k then Some (k_id k) else None))"

section \<open>Recording flags and closing\<close>

definition set_keep :: "string \<Rightarrow> bool \<Rightarrow> int \<Rightarrow> model \<times> call \<Rightarrow> model \<times> call" where
  "set_keep fam on now st =
     (case st of (m, k) \<Rightarrow>
        if k_keep k = on then (m, k)
        else (record_line (jt ''{`op`:`keep`,`t`:'' @ int_dec now @ jt '',`f`:'' @ lq fam @ jt '',`c`:'' @ nat_dec (k_id k) @
                jt '',`on`:'' @ (if on then ''1'' else ''0'') @ ''}'') now m,
              k\<lparr>k_keep := on\<rparr>))"

definition close_quality :: "model \<times> call \<Rightarrow> model \<times> call" where
  "close_quality st =
     (case st of (m, k) \<Rightarrow>
        (case om_get (m_quality m) (k_id k) of
           None \<Rightarrow> (m, k)
         | Some q \<Rightarrow> (m\<lparr>m_quality := om_del (k_id k) (m_quality m)\<rparr>, k\<lparr>k_qual := vq_summary (m_max_err m) q\<rparr>)))"

definition keeps_audio :: "call \<Rightarrow> bool" where
  "keeps_audio k \<longleftrightarrow>
     \<not> ((k_enc k \<and> \<not> k_keyed_audio k) \<or> (k_data k \<and> \<not> k_voice k) \<or> k_audio_samples k < kMinAudioSamples)"

definition close_audio :: "string \<Rightarrow> model \<times> call \<Rightarrow> model \<times> call" where
  "close_audio fam st =
     (case st of (m, k) \<Rightarrow>
        if k_audio k = [] then (m, k)
        else if keeps_audio k then (m\<lparr>m_audio := as_finish (k_audio k) (m_audio m)\<rparr>, k)
        else set_keep fam False (k_last k)
               (m\<lparr>m_audio := as_discard (k_audio k) (m_audio m)\<rparr>, k\<lparr>k_audio := [], k_audio_samples := 0\<rparr>))"

definition close_counts :: "string \<Rightarrow> model \<times> call \<Rightarrow> model \<times> call" where
  "close_counts fam st =
     (case st of (m, k) \<Rightarrow>
        (case (if \<not> k_counted k \<and> k_src k = [] \<and> k_tgt k \<noteq> [] \<and> k_voice k \<and> \<not> k_data k
               then count_call (k_last k) (fam_of m fam, k) else (fam_of m fam, k)) of
           (F, k') \<Rightarrow>
             (if \<not> k_counted k' \<or> k_priv k' then set_fam fam F m
              else set_fam fam
                (upd_tg (k_tgt k')
                   (\<lambda>t. t\<lparr>tg_emerg := (if k_emerg k' then tg_emerg t + 1 else tg_emerg t),
                          tg_enc := (if k_enc k' then tg_enc t + 1 else tg_enc t)\<rparr>) F) m, k')))"

definition close_call :: "string \<Rightarrow> model \<times> call \<Rightarrow> model \<times> call" where
  "close_call fam st =
     (case st of (m, k) \<Rightarrow>
        if \<not> k_open k then (m, k)
        else close_counts fam (close_audio fam (close_quality (m, k\<lparr>k_open := False\<rparr>))))"

definition close_id :: "string \<Rightarrow> nat \<Rightarrow> model \<Rightarrow> model" where
  "close_id fam i m = with_call fam i (close_call fam) m"

definition close_ids :: "string \<Rightarrow> nat list \<Rightarrow> model \<Rightarrow> model" where
  "close_ids fam is m = foldl (\<lambda>m i. close_id fam i m) m is"

section \<open>Opening\<close>

fun drop_call :: "nat \<Rightarrow> call list \<Rightarrow> call list" where
  "drop_call i [] = []"
| "drop_call i (k # ks) = (if k_id k = i then ks else k # drop_call i ks)"

definition audioless :: "family \<Rightarrow> nat" where
  "audioless F = length (filter (\<lambda>k. \<not> k_keep k) (fm_calls F))"

text \<open>When the list of calls without audio is full, its oldest call is closed and goes.\<close>

definition make_room :: "string \<Rightarrow> model \<Rightarrow> model" where
  "make_room fam m =
     (if audioless (fam_of m fam) < m_max_calls m then m
      else (case find (\<lambda>k. \<not> k_keep k) (fm_calls (fam_of m fam)) of
          None \<Rightarrow> m
        | Some k \<Rightarrow> upd_fam fam (\<lambda>F. F\<lparr>fm_calls := drop_call (k_id k) (fm_calls F)\<rparr>) (close_id fam (k_id k) m)))"

definition open_call :: "nat \<Rightarrow> string \<Rightarrow> string \<Rightarrow> int \<Rightarrow> model \<Rightarrow> model \<times> nat" where
  "open_call sid fam slot now m =
     (let m1 = (if slot = [] then m
                else (case fresh_call (ctx_of m sid) (fam_of m fam) slot now of None \<Rightarrow> m | Some i \<Rightarrow> close_id fam i m));
          m2 = make_room fam m1; c = ctx_of m2 sid; i = m_next_call m2 + 1;
          k = call0\<lparr>k_id := i, k_session := sid, k_slot := slot, k_net := cx_net c, k_site := cx_site c,
                    k_freq := cx_freq c, k_start := now, k_last := now\<rparr>
      in (upd_ctx sid (\<lambda>c. c\<lparr>cx_slot_call := om_put slot i (cx_slot_call c)\<rparr>)
            (upd_fam fam (\<lambda>F. F\<lparr>fm_calls := fm_calls F @ [k]\<rparr>) (m2\<lparr>m_next_call := i\<rparr>)), i))"

section \<open>Expiry\<close>

definition expire_step :: "string \<Rightarrow> int \<Rightarrow> model \<times> (string, nat) omap \<Rightarrow> string \<times> nat \<Rightarrow> model \<times> (string, nat) omap" where
  "expire_step fam now st p =
     (case st of (m, kept) \<Rightarrow>
        (case find_call (fam_of m fam) (snd p) of
           None \<Rightarrow> (m, kept)
         | Some k \<Rightarrow> if is_fresh now k then (m, kept @ [p]) else (close_id fam (snd p) m, kept)))"

definition expire :: "nat \<Rightarrow> string \<Rightarrow> int \<Rightarrow> model \<Rightarrow> model" where
  "expire sid fam now m =
     (case foldl (expire_step fam now) (m, []) (cx_active (ctx_of m sid)) of
        (m', kept) \<Rightarrow> upd_ctx sid (\<lambda>c. c\<lparr>cx_active := kept\<rparr>) m')"

definition close_session_calls :: "nat \<Rightarrow> model \<Rightarrow> model" where
  "close_session_calls sid m =
     (case om_get (m_sess m) sid of
        None \<Rightarrow> m
      | Some c \<Rightarrow>
          (case om_get (m_fams m) (cx_family c) of
             None \<Rightarrow> m
           | Some F \<Rightarrow> close_ids (cx_family c) (map k_id (filter (\<lambda>k. k_session k = sid) (fm_calls F))) m))"

section \<open>One call heard by two receivers\<close>

definition is_live_twin :: "call \<Rightarrow> int \<Rightarrow> call \<Rightarrow> bool" where
  "is_live_twin k now o' \<longleftrightarrow>
     k_id o' \<noteq> k_id k \<and> k_session o' \<noteq> k_session k \<and> k_open o' \<and> now - k_last o' \<le> kContinueMs \<and>
     k_net o' = k_net k \<and> k_src o' = k_src k \<and> k_tgt o' = k_tgt k \<and> k_priv o' = k_priv k"

definition find_twin :: "family \<Rightarrow> call \<Rightarrow> int \<Rightarrow> call option" where
  "find_twin F k now = find (is_live_twin k now) (rev (fm_calls F))"

definition twin_joined :: "call \<Rightarrow> call \<Rightarrow> call" where
  "twin_joined tw dup =
     tw\<lparr>k_voice := k_voice tw \<or> k_voice dup, k_data := k_data tw \<or> k_data dup, k_emerg := k_emerg tw \<or> k_emerg dup,
        k_enc := k_enc tw \<or> k_enc dup,
        k_alg := (if k_kid tw = [] then k_alg dup else k_alg tw), k_kid := (if k_kid tw = [] then k_kid dup else k_kid tw),
        k_alias := (if k_alias tw = [] then k_alias dup else k_alias tw),
        k_text := (if k_text dup \<noteq> [] \<and> \<not> str_has (k_text tw) (k_text dup)
                   then (if k_text tw = [] then k_text dup else k_text tw @ '' | '' @ k_text dup) else k_text tw),
        k_slot := (if k_slot tw = [] then k_slot dup else k_slot tw),
        k_site := (if k_site tw = [] then k_site dup else k_site tw),
        k_svc := (if svc_rank (k_svc tw) < svc_rank (k_svc dup) then k_svc dup else k_svc tw),
        k_pos := (if k_pos tw = [] then k_pos dup else k_pos tw),
        k_start := min (k_start tw) (k_start dup), k_last := max (k_last tw) (k_last dup),
        k_streams := k_streams tw + 1,
        k_audio := (if k_audio dup \<noteq> [] \<and> k_audio tw = [] then k_audio dup else k_audio tw),
        k_audio_sid := (if k_audio dup \<noteq> [] \<and> k_audio tw = [] then k_audio_sid dup else k_audio_sid tw),
        k_audio_slot := (if k_audio dup \<noteq> [] \<and> k_audio tw = [] then k_audio_slot dup else k_audio_slot tw),
        k_audio_samples := (if k_audio dup \<noteq> [] \<and> k_audio tw = [] then k_audio_samples dup else k_audio_samples tw),
        k_keep := k_keep tw \<or> k_keep dup\<rparr>"

definition repoint :: "nat \<Rightarrow> nat \<Rightarrow> (string, nat) omap \<Rightarrow> (string, nat) omap" where
  "repoint old new = om_map (\<lambda>i. if i = old then new else i)"

definition adopt_twin :: "nat \<Rightarrow> string \<Rightarrow> call \<Rightarrow> call \<Rightarrow> string \<Rightarrow> model \<Rightarrow> model" where
  "adopt_twin sid fam dup tw slot m =
     (let m1 = (if k_audio dup \<noteq> [] \<and> k_audio tw \<noteq> [] then m\<lparr>m_audio := as_discard (k_audio dup) (m_audio m)\<rparr> else m);
          m2 = upd_fam fam (put_call (k_id tw) (twin_joined tw dup)) m1;
          m3 = upd_ctx sid (\<lambda>c. c\<lparr>cx_active := repoint (k_id dup) (k_id tw) (cx_active c),
                 cx_slot_call := om_put slot (k_id tw) (repoint (k_id dup) (k_id tw) (cx_slot_call c))\<rparr>) m2;
          m4 = upd_fam fam (\<lambda>F. F\<lparr>fm_calls := drop_call (k_id dup) (fm_calls F)\<rparr>) m3;
          m5 = m4\<lparr>m_quality := om_del (k_id dup) (m_quality m4)\<rparr>
      in upd_fam fam (on_call (k_id tw) note_enc_counts) m5)"

end
