(* ===== verification/Assoc_Ingest.thy ===== *)
theory Assoc_Ingest
  imports Assoc_Calls
begin

text \<open>
  Feeding one decoded event (\<open>ingest\<close> of \<open>src/assoc_model.hpp\<close>): the identity a stream absorbs from it
  (\<open>absorb_identity\<close>), the network that gives (\<open>resolve_network\<close>, \<open>merge_network_live\<close>), the call the event
  belongs to, and what it adds to that call.
\<close>

section \<open>Absorbing identity tokens\<close>

text \<open>
  A weak anchor is believed when seen twice in a row; the established value cancels a pending change.
  The state is the pending table and the tokens that are kept.
\<close>

definition weak_step :: "(string, string) omap \<Rightarrow> (string, string \<times> nat) omap \<times> (string, string) omap \<Rightarrow> string \<times> string
    \<Rightarrow> (string, string \<times> nat) omap \<times> (string, string) omap" where
  "weak_step ids st p =
     (case st of (pend, got) \<Rightarrow> (case p of (k, v) \<Rightarrow>
        if \<not> is_weak_anchor k then (pend, got @ [(k, v)])
        else if om_get ids k = Some v then (om_del k pend, got @ [(k, v)])
        else
          (let q = om_at ([], 0) pend k; n = (if fst q = v then snd q + 1 else 1)
           in if 2 \<le> n then (om_del k pend, got @ [(k, v)]) else (om_put k (v, n) pend, got))))"

definition believe :: "(string, string) omap \<Rightarrow> (string, string \<times> nat) omap \<Rightarrow> (string, string) omap
    \<Rightarrow> (string, string \<times> nat) omap \<times> (string, string) omap" where
  "believe ids pend got = foldl (weak_step ids) (pend, []) got"

definition conflicts :: "string \<Rightarrow> (string, string) omap \<Rightarrow> (string, string) omap \<Rightarrow> bool" where
  "conflicts fam ids got \<longleftrightarrow>
     list_ex (\<lambda>(k, v). (case om_get ids k of None \<Rightarrow> False | Some w \<Rightarrow> w \<noteq> v) \<and> is_anchor fam k) got"

definition start_over :: "ctx \<Rightarrow> ctx" where
  "start_over c = c\<lparr>cx_ids := [], cx_strong := False, cx_net := [], cx_site := []\<rparr>"

definition absorb :: "(string, string) omap \<Rightarrow> ctx \<Rightarrow> ctx \<times> bool" where
  "absorb got c =
     (let c1 = (if conflicts (cx_family c) (cx_ids c) got then start_over c else c);
          changed = list_ex (\<lambda>(k, v). om_get (cx_ids c1) k \<noteq> Some v) got;
          ids = foldl (\<lambda>m (k, v). om_put k v m) (cx_ids c1) got
      in (if changed then c1\<lparr>cx_ids := ids, cx_site := site_label (cx_family c) ids\<rparr> else c1, changed))"

definition neighbour_line :: "string \<Rightarrow> bool" where
  "neighbour_line up \<longleftrightarrow> str_has up ''ADJ'' \<or> str_has up ''NEIGHB''"

text \<open>The family is absent while the stream has decoded no traffic yet.\<close>

definition absorb_identity :: "dsd_event \<Rightarrow> extra \<Rightarrow> string \<Rightarrow> ctx \<times> family option \<Rightarrow> (ctx \<times> family option) \<times> bool" where
  "absorb_identity ev x up st =
     (case st of (c0, F) \<Rightarrow>
        (let c = (if ev_kind ev = ''sync'' \<or> str_has up ''BROADCAST'' then c0\<lparr>cx_adjacent := neighbour_line up\<rparr> else c0);
             got = line_tokens (cx_family c) ev x
         in if got = [] then ((c, F), False)
            else if cx_adjacent c \<or> neighbour_line up then
              (let s = site_label (cx_family c) got
               in ((c, if s \<noteq> [] \<and> cx_net c \<noteq> []
                       then map_option (upd_network (cx_net c) (\<lambda>n. n\<lparr>nw_sites := os_put s (nw_sites n)\<rparr>)) F else F), False))
            else (case believe (cx_ids c) (cx_pending c) got of
                (pend, kept) \<Rightarrow>
                  (let c1 = c\<lparr>cx_pending := pend\<rparr>
                   in if kept = [] then ((c1, F), False)
                      else (case absorb kept c1 of (c2, changed) \<Rightarrow> ((c2, F), changed))))))"

section \<open>The stream's network\<close>

definition relabel :: "string \<Rightarrow> string \<Rightarrow> string oset \<Rightarrow> string oset" where
  "relabel old new s = (if old \<in> set s then os_put new (os_del old s) else s)"

definition join_live_network :: "network \<Rightarrow> network \<Rightarrow> network" where
  "join_live_network z a =
     z\<lparr>nw_sites := os_union (nw_sites z) (nw_sites a),
       nw_freqs := foldl (\<lambda>s f. if length s < kMaxFreqs then os_put f s else s) (nw_freqs z) (nw_freqs a),
       nw_ids := foldl (\<lambda>m (k, v). om_emplace k v m) (nw_ids z) (nw_ids a),
       nw_sessions := os_union (nw_sessions z) (nw_sessions a),
       nw_calls := nw_calls z + nw_calls a,
       nw_keys := foldl (\<lambda>m (k, n). key_add k n m) (nw_keys z) (nw_keys a),
       nw_first := (if nw_first a \<noteq> 0 \<and> (nw_first z = 0 \<or> nw_first a < nw_first z) then nw_first a else nw_first z),
       nw_last := max (nw_last z) (nw_last a)\<rparr>"

definition merge_family_networks :: "string \<Rightarrow> string \<Rightarrow> family \<Rightarrow> family" where
  "merge_family_networks old new F =
     (case (om_get (fm_networks F) old, om_get (fm_networks F) new) of
        (Some a, Some z) \<Rightarrow>
          F\<lparr>fm_networks := om_del old (om_put new (join_live_network z a) (fm_networks F)),
            fm_tgs := om_map (\<lambda>t. t\<lparr>tg_networks := relabel old new (tg_networks t)\<rparr>) (fm_tgs F),
            fm_radios := om_map (\<lambda>r. r\<lparr>rd_networks := relabel old new (rd_networks r)\<rparr>) (fm_radios F),
            fm_calls := map (\<lambda>k. if k_net k = old then k\<lparr>k_net := new\<rparr> else k) (fm_calls F)\<rparr>
      | _ \<Rightarrow> F)"

definition merge_network_live :: "string \<Rightarrow> string \<Rightarrow> string \<Rightarrow> model \<Rightarrow> model" where
  "merge_network_live fam old new m =
     (if om_has (fm_networks (fam_of m fam)) old \<and> om_has (fm_networks (fam_of m fam)) new
      then (upd_fam fam (merge_family_networks old new) m)\<lparr>m_sess :=
              om_map (\<lambda>c. if cx_net c = old then c\<lparr>cx_net := new\<rparr> else c) (m_sess m)\<rparr>
      else m)"

definition weak_match :: "net_id \<Rightarrow> family \<Rightarrow> string list" where
  "weak_match i F =
     map fst (filter (\<lambda>(k, n). nw_conf n = ''strong'' \<and> om_get (nw_ids n) (ni_weak_key i) = Some (ni_weak_val i)) (fm_networks F))"

text \<open>The key, label and confidence of the network the stream is on.\<close>

definition stream_id :: "ctx \<Rightarrow> nat \<Rightarrow> family \<Rightarrow> net_id" where
  "stream_id c sid F =
     (let i = derive (cx_family c) (cx_ids c)
      in if ni_key i = [] \<and> cx_freq c \<noteq> 0 then
           i\<lparr>ni_key := ''ch@'' @ int_dec (cx_freq c), ni_label := ''Unidentified'' @ dot_sep @ freq_text (cx_freq c),
             ni_conf := ''channel''\<rparr>
         else if ni_key i = [] then
           i\<lparr>ni_key := ''unknown:s'' @ nat_dec sid, ni_label := ''Unidentified'' @ dot_sep @ ''stream '' @ nat_dec sid,
             ni_conf := ''none''\<rparr>
         else if ni_conf i = ''weak'' then
           (let ms = (if cx_family c = ''p25'' then weak_match i F else [])
            in if length ms = 1 then i\<lparr>ni_key := hd ms\<rparr>
               else if cx_freq c \<noteq> 0 then
                 i\<lparr>ni_key := ni_key i @ ''@'' @ int_dec (cx_freq c), ni_label := ni_label i @ dot_sep @ freq_text (cx_freq c),
                   ni_conf := ''channel''\<rparr>
               else
                 i\<lparr>ni_key := ni_key i @ ''@s'' @ nat_dec sid, ni_label := ni_label i @ dot_sep @ ''stream '' @ nat_dec sid\<rparr>)
         else i)"

definition refines :: "string \<Rightarrow> (string, string) omap \<Rightarrow> (string, string) omap \<Rightarrow> bool" where
  "refines fam ids old =
     (let anchors = filter (\<lambda>(k, v). is_anchor fam k) old
      in anchors \<noteq> [] \<and> list_all (\<lambda>(k, v). om_get ids k = Some v) anchors)"

definition resolve_network :: "nat \<Rightarrow> string \<Rightarrow> int \<Rightarrow> model \<Rightarrow> model" where
  "resolve_network sid fam now m =
     (let c = ctx_of m sid; i = stream_id c sid (fam_of m fam); prev = cx_net c;
          strong = (ni_conf (derive (cx_family c) (cx_ids c)) = ''strong'');
          m1 = upd_fam fam (\<lambda>F. upd_network (ni_key i)
                 (\<lambda>n. let n1 = (if nw_label n = [] \<or> (strong \<and> nw_conf n \<noteq> ''strong'')
                                then n\<lparr>nw_label := ni_label i, nw_conf := ni_conf i\<rparr> else n)
                      in n1\<lparr>nw_ids := foldl (\<lambda>a (k, v). om_put k v a) (nw_ids n1) (cx_ids c)\<rparr>)
                 (ensure_network (ni_key i) now F)) m;
          m2 = (if prev = [] \<or> prev = ni_key i then m1
                else (case om_get (fm_networks (fam_of m1 fam)) prev of
                    None \<Rightarrow> m1
                  | Some pn \<Rightarrow>
                      if nw_sessions pn = [] \<or> nw_sessions pn = [sid] \<or> refines (cx_family c) (cx_ids c) (nw_ids pn) \<or>
                         (cx_freq c \<noteq> 0 \<and> prev = ''ch@'' @ int_dec (cx_freq c))
                      then merge_network_live fam prev (ni_key i) m1 else m1))
      in upd_ctx sid (\<lambda>c. c\<lparr>cx_net := ni_key i, cx_strong := strong\<rparr>) m2)"

section \<open>The call an event belongs to\<close>

text \<open>What the event and its line say, computed once.\<close>

record facts =
  ft_src :: string
  ft_tgt :: string
  ft_slot :: string
  ft_up :: string
  ft_x :: extra
  ft_priv :: bool
  ft_data :: bool
  ft_enc :: bool
  ft_emerg :: bool

definition facts_of :: "dsd_event \<Rightarrow> facts" where
  "facts_of ev =
     (let up = upper (ev_raw ev); x = parse_extra (ev_extra ev)
      in \<lparr>ft_src = norm_id (ev_src ev), ft_tgt = norm_id (ev_tg ev), ft_slot = ev_slot ev, ft_up = up, ft_x = x,
          ft_priv = is_private up x, ft_data = (ev_kind ev = ''message'' \<or> is_data up), ft_enc = is_encrypted up x,
          ft_emerg = (ev_emerg ev = ''1'')\<rparr>)"

definition voice_line :: "dsd_event \<Rightarrow> facts \<Rightarrow> bool" where
  "voice_line ev f \<longleftrightarrow>
     ev_kind ev = ''voice'' \<or> (ev_kind ev = ''sync'' \<and> is_voice_sync (ft_up f)) \<or>
     (ev_kind ev = ''call'' \<and> str_has ('' '' @ ft_up f) '' AMBE '')"

definition callish :: "dsd_event \<Rightarrow> bool" where
  "callish ev \<longleftrightarrow> ev_kind ev \<in> {''call'', ''voice'', ''message'', ''burst''}"

definition bar_key :: "string \<Rightarrow> string \<Rightarrow> string" where
  "bar_key slot tgt = slot @ ''|'' @ tgt"

text \<open>An open call to the same target seen with and without a slot marker.\<close>

definition adoptable :: "facts \<Rightarrow> family \<Rightarrow> int \<Rightarrow> string \<times> nat \<Rightarrow> bool" where
  "adoptable f F now p =
     (case rfind_char (CHR ''|'') (fst p) of
        None \<Rightarrow> False
      | Some b \<Rightarrow>
          drop (Suc b) (fst p) = ft_tgt f \<and> \<not> (take b (fst p) \<noteq> [] \<and> ft_slot f \<noteq> []) \<and>
          (case find_call F (snd p) of
             None \<Rightarrow> False
           | Some k \<Rightarrow> is_fresh now k \<and> \<not> (ft_src f \<noteq> [] \<and> k_src k \<noteq> [] \<and> k_src k \<noteq> ft_src f)))"

definition adopt_slot :: "nat \<Rightarrow> string \<Rightarrow> facts \<Rightarrow> string \<times> nat \<Rightarrow> model \<Rightarrow> model" where
  "adopt_slot sid fam f p m =
     (case find_call (fam_of m fam) (snd p) of
        None \<Rightarrow> m
      | Some k \<Rightarrow>
          if k_slot k = [] \<and> ft_slot f \<noteq> [] then
            upd_ctx sid (\<lambda>c. c\<lparr>cx_active := om_put (bar_key (ft_slot f) (ft_tgt f)) (k_id k) (om_del (fst p) (cx_active c))\<rparr>)
              (upd_fam fam (put_call (k_id k) (k\<lparr>k_slot := ft_slot f\<rparr>)) m)
          else m)"

definition pick_call :: "nat \<Rightarrow> string \<Rightarrow> facts \<Rightarrow> int \<Rightarrow> model \<Rightarrow> model \<times> nat option" where
  "pick_call sid fam f now m =
     (let c = ctx_of m sid; F = fam_of m fam; latest = fresh_call c F (ft_slot f) now
      in if ft_tgt f = [] then (m, latest)
         else (case (case om_get (cx_active c) (bar_key (ft_slot f) (ft_tgt f)) of
                       None \<Rightarrow> None
                     | Some i \<Rightarrow> (case find_call F i of
                           None \<Rightarrow> None | Some k \<Rightarrow> if is_fresh now k then Some i else None)) of
             Some i \<Rightarrow> (m, Some i)
           | None \<Rightarrow>
               (case find (adoptable f F now) (cx_active c) of
                  Some p \<Rightarrow> (adopt_slot sid fam f p m, Some (snd p))
                | None \<Rightarrow>
                    (case latest of
                       None \<Rightarrow> (m, None)
                     | Some i \<Rightarrow>
                         (case find_call F i of
                            None \<Rightarrow> (m, None)
                          | Some k \<Rightarrow>
                              if k_tgt k = [] \<and> (ft_src f = [] \<or> k_src k = [] \<or> k_src k = ft_src f)
                              then (m, Some i) else (m, None))))))"

text \<open>
  A voice burst without ids leaves a data transaction alone; another talker to the same target ends
  the call; and an event that may not start a call gives none.
\<close>

definition settle_call :: "nat \<Rightarrow> string \<Rightarrow> dsd_event \<Rightarrow> facts \<Rightarrow> int \<Rightarrow> model \<times> nat option \<Rightarrow> model \<times> nat option" where
  "settle_call sid fam ev f now st =
     (case st of (m, cur) \<Rightarrow>
        (let F = fam_of m fam;
             k0 = (case cur of None \<Rightarrow> None | Some i \<Rightarrow> find_call F i);
             k1 = (case k0 of None \<Rightarrow> None
                   | Some k \<Rightarrow> if k_data k \<and> \<not> k_voice k \<and> ft_src f = [] \<and> ft_tgt f = [] \<and> voice_line ev f then None else Some k)
         in (case k1 of
               Some k \<Rightarrow>
                 if ft_src f \<noteq> [] \<and> k_src k \<noteq> [] \<and> ft_src f \<noteq> k_src k then (close_id fam (k_id k) m, None) else (m, Some (k_id k))
             | None \<Rightarrow> (m, None))))"

definition start_call :: "nat \<Rightarrow> string \<Rightarrow> dsd_event \<Rightarrow> facts \<Rightarrow> int \<Rightarrow> model \<times> nat option \<Rightarrow> model \<times> nat option" where
  "start_call sid fam ev f now st =
     (case st of (m, cur) \<Rightarrow>
        (case cur of
           Some i \<Rightarrow> (m, Some i)
         | None \<Rightarrow>
             if \<not> callish ev \<or> (ft_src f = [] \<and> ft_tgt f = [] \<and> ev_kind ev \<noteq> ''message'') then (m, None)
             else (case open_call sid fam (ft_slot f) now m of (m', i) \<Rightarrow> (m', Some i))))"

section \<open>Folding the event into its call\<close>

definition fold_parties :: "facts \<Rightarrow> call \<Rightarrow> call" where
  "fold_parties f k =
     k\<lparr>k_src := (if k_src k = [] then ft_src f else k_src k), k_tgt := (if k_tgt k = [] then ft_tgt f else k_tgt k)\<rparr>"

definition fold_voice :: "dsd_event \<Rightarrow> facts \<Rightarrow> call \<Rightarrow> call" where
  "fold_voice ev f k = (if voice_line ev f then k\<lparr>k_voice := True, k_tx_end := 0\<rparr> else k)"

definition fold_text :: "ctx \<Rightarrow> dsd_event \<Rightarrow> facts \<Rightarrow> call \<Rightarrow> call" where
  "fold_text c ev f k =
     k\<lparr>k_emerg := k_emerg k \<or> ft_emerg f,
       k_alias := (if ev_alias ev \<noteq> [] then ev_alias ev else k_alias k),
       k_text := (if ev_msg ev \<noteq> [] \<and> \<not> str_has (k_text k) (ev_msg ev)
                  then (if k_text k = [] then ev_msg ev else k_text k @ '' | '' @ ev_msg ev) else k_text k),
       k_net := (if k_counted k then k_net k else cx_net c),
       k_site := (if \<not> k_counted k \<and> cx_site c \<noteq> [] then cx_site c else k_site k)\<rparr>"

text \<open>The call after the event, and its family; \<open>c\<close> is the stream's context.\<close>

definition fold_event :: "ctx \<Rightarrow> dsd_event \<Rightarrow> facts \<Rightarrow> int \<Rightarrow> family \<times> call \<Rightarrow> family \<times> call" where
  "fold_event c ev f now st =
     (case st of (F, k) \<Rightarrow>
        (let k1 = fold_voice ev f (fold_parties f k);
             k2 = (if ft_data f then k1\<lparr>k_data := True\<rparr> else k1)
         in (case note_service (ft_x f) now (F, k2) of (F3, k3) \<Rightarrow>
              (case (if ft_enc f then note_encrypted (ft_x f) (F3, fold_text c ev f k3) else (F3, fold_text c ev f k3)) of
                 (F4, k4) \<Rightarrow>
                   (let k5 = k4\<lparr>k_last := now, k_frames := k_frames k4 + 1\<rparr>
                    in if ft_priv f then set_private now (F4, k5) else (F4, k5))))))"

definition feed_quality :: "string \<Rightarrow> dsd_event \<Rightarrow> nat \<Rightarrow> model \<Rightarrow> model" where
  "feed_quality fam ev i m =
     (if 0 \<le> ev_voice_err ev \<and> m_quality_on m \<and> quality_ambe2_family fam
      then m\<lparr>m_quality := om_put i (feed_frame (ev_voice_frame ev) (ev_voice_err ev) (om_at vq_reset (m_quality m) i)) (m_quality m)\<rparr>
      else m)"

text \<open>Once both ends are known the call is counted, or folded into the copy another stream heard.\<close>

definition settle_count :: "nat \<Rightarrow> string \<Rightarrow> facts \<Rightarrow> int \<Rightarrow> nat \<Rightarrow> model \<Rightarrow> model" where
  "settle_count sid fam f now i m =
     (case find_call (fam_of m fam) i of
        None \<Rightarrow> m
      | Some k \<Rightarrow>
          if k_counted k \<or> k_src k = [] \<or> k_tgt k = [] then m
          else (case find_twin (fam_of m fam) k now of
              None \<Rightarrow> upd_fam fam (on_call i (count_call now)) m
            | Some tw \<Rightarrow>
                (let m1 = adopt_twin sid fam k tw (ft_slot f) m
                 in upd_fam fam (on_call (k_id tw) (\<lambda>(F, t). if k_counted t then (F, t) else count_call now (F, t))) m1)))"

definition apply_event :: "nat \<Rightarrow> string \<Rightarrow> dsd_event \<Rightarrow> facts \<Rightarrow> int \<Rightarrow> nat \<Rightarrow> model \<Rightarrow> model" where
  "apply_event sid fam ev f now i m =
     (let c = ctx_of m sid;
          named = (case find_call (fam_of m fam) i of Some k \<Rightarrow> k_tgt k = [] \<and> ft_tgt f \<noteq> [] | None \<Rightarrow> False);
          m1 = (if named then upd_ctx sid (\<lambda>c. c\<lparr>cx_active := om_put (bar_key (ft_slot f) (ft_tgt f)) i (cx_active c)\<rparr>) m else m);
          m2 = feed_quality fam ev i m1;
          m3 = upd_fam fam (on_call i (fold_event c ev f now)) m2;
          m4 = upd_ctx sid (\<lambda>c. c\<lparr>cx_slot_call := om_put (ft_slot f) i (cx_slot_call c)\<rparr>) m3
      in settle_count sid fam f now i m4)"

section \<open>The whole handler\<close>

text \<open>An unknown line only refines the call in progress on its slot.\<close>

definition refine_call :: "nat \<Rightarrow> string \<Rightarrow> facts \<Rightarrow> int \<Rightarrow> model \<Rightarrow> model" where
  "refine_call sid fam f now m =
     (case fresh_call (ctx_of m sid) (fam_of m fam) (ft_slot f) now of
        None \<Rightarrow> m
      | Some i \<Rightarrow>
          upd_fam fam (on_call i (\<lambda>st.
            (case (if ft_priv f then set_private now st else st) of (F, k) \<Rightarrow>
              (let k1 = (if ft_emerg f then k\<lparr>k_emerg := True\<rparr> else k)
               in note_service (ft_x f) now (if ft_enc f then note_encrypted (ft_x f) (F, k1) else (F, k1)))))) m)"

definition end_talk :: "nat \<Rightarrow> string \<Rightarrow> facts \<Rightarrow> int \<Rightarrow> model \<Rightarrow> model" where
  "end_talk sid fam f now m =
     (case fresh_call (ctx_of m sid) (fam_of m fam) (ft_slot f) now of
        None \<Rightarrow> m
      | Some i \<Rightarrow> upd_fam fam (on_call i (\<lambda>(F, k). (F, if k_tx_end k = 0 then k\<lparr>k_tx_end := k_last k\<rparr> else k))) m)"

definition note_network :: "nat \<Rightarrow> string \<Rightarrow> int \<Rightarrow> model \<Rightarrow> model" where
  "note_network sid fam now m =
     (let c = ctx_of m sid
      in upd_fam fam (\<lambda>F. F\<lparr>fm_networks := om_put (cx_net c)
           (let n = om_at network0 (fm_networks F) (cx_net c)
            in n\<lparr>nw_last := now, nw_first := (if nw_first n = 0 then now else nw_first n),
                 nw_sessions := os_put sid (nw_sessions n),
                 nw_sites := (if cx_site c \<noteq> [] then os_put (cx_site c) (nw_sites n) else nw_sites n),
                 nw_freqs := (if cx_freq c \<noteq> 0 \<and> length (nw_freqs n) < kMaxFreqs then os_put (cx_freq c) (nw_freqs n)
                              else nw_freqs n)\<rparr>) (fm_networks F)\<rparr>) m)"

definition handle_call :: "nat \<Rightarrow> string \<Rightarrow> dsd_event \<Rightarrow> facts \<Rightarrow> int \<Rightarrow> model \<Rightarrow> model" where
  "handle_call sid fam ev f now m =
     (let m1 = (if ft_src f \<noteq> [] then upd_fam fam (touch_radio (ft_src f) (cx_net (ctx_of m sid)) (ev_alias ev) now) m else m)
      in if \<not> callish ev \<and> \<not> (ev_kind ev = ''sync'' \<and> is_traffic_sync (ft_up f)) then m1
         else (case start_call sid fam ev f now (settle_call sid fam ev f now (pick_call sid fam f now m1)) of
             (m2, None) \<Rightarrow> m2
           | (m2, Some i) \<Rightarrow> apply_event sid fam ev f now i m2))"

text \<open>A stream that has decoded traffic: its identity, its network, its quiet calls, then the event itself.\<close>

definition ingest_live :: "nat \<Rightarrow> dsd_event \<Rightarrow> int \<Rightarrow> model \<Rightarrow> model" where
  "ingest_live sid ev now m0 =
     (let fam = cx_family (ctx_of m0 sid); f = facts_of ev; m1 = m0\<lparr>m_version := m_version m0 + 1\<rparr>
      in (case absorb_identity ev (ft_x f) (ft_up f) (ctx_of m1 sid, Some (fam_of m1 fam)) of ((c, Fo), changed) \<Rightarrow>
           (let m2 = upd_ctx sid (\<lambda>_. c) (set_fam fam (case Fo of Some F \<Rightarrow> F | None \<Rightarrow> fam_of m1 fam) m1);
                m3 = (if changed \<or> cx_net c = [] \<or> \<not> om_has (fm_networks (fam_of m2 fam)) (cx_net c)
                      then resolve_network sid fam now m2 else m2);
                m4 = expire sid fam now (note_network sid fam now m3)
            in if is_roster (ft_up f) then m4
               else if ev_kind ev = ''sync'' \<and> str_has (ft_up f) ''| TLC'' then end_talk sid fam f now m4
               else if ev_kind ev = ''unknown'' then refine_call sid fam f now m4
               else handle_call sid fam ev f now m4)))"

definition ingest :: "nat \<Rightarrow> dsd_event \<Rightarrow> int \<Rightarrow> model \<Rightarrow> model" where
  "ingest sid ev now m =
     (let m0 = record_line (event_line now sid ev) now m
      in case om_get (m_sess m0) sid of
           None \<Rightarrow> m0
         | Some c0 \<Rightarrow>
             (let c1 = (if ev_kind ev \<noteq> ''unknown'' \<and> ev_crc ev \<noteq> ''1'' then c0\<lparr>cx_heard := now\<rparr> else c0);
                  m1 = upd_ctx sid (\<lambda>_. c1) m0
              in if cx_family c1 = [] then m1
                 else if cx_family c1 = ''auto'' \<and> (ev_kind ev = ''unknown'' \<or> infer_family (ev_raw ev) = []) then m1
                 else
                   (let c2 = (if cx_family c1 = ''auto'' then c1\<lparr>cx_family := infer_family (ev_raw ev)\<rparr> else c1);
                        m2 = upd_ctx sid (\<lambda>_. c2) m1; f = facts_of ev
                    in if ev_crc ev = ''1'' then m2
                       else if \<not> cx_live c2 \<and> ev_kind ev = ''unknown'' then
                         (case absorb_identity ev (ft_x f) (ft_up f) (c2, None) of ((c3, _), _) \<Rightarrow> upd_ctx sid (\<lambda>_. c3) m2)
                       else ingest_live sid ev now (upd_ctx sid (\<lambda>_. c2\<lparr>cx_live := True\<rparr>) m2))))"

end
