(* ===== verification/Assoc_View.thy ===== *)
theory Assoc_View
  imports Assoc_Calls Provenance Graphml
begin

text \<open>
  What the model shows (\<open>src/assoc_model.hpp\<close>): the live data in plain form (\<open>dataset_locked\<close>), merged
  with the imports (\<open>view_locked\<close>), and its texts: \<open>/net.json\<close>, the export, the graph and the
  recordings' snapshots. The environment's settings for the page are one record.
\<close>

section \<open>The live data in plain form\<close>

definition ds_of_network :: "network \<Rightarrow> ds_network" where
  "ds_of_network n =
     \<lparr>n_key = nw_key n, n_label = nw_label n, n_confidence = nw_conf n, n_ids = nw_ids n, n_sites = nw_sites n,
      n_freqs = nw_freqs n, n_sessions = length (nw_sessions n), n_calls = nw_calls n, n_first = nw_first n,
      n_last = nw_last n, n_keys = nw_keys n\<rparr>"

definition ds_of_tg :: "talkgroup \<Rightarrow> ds_talkgroup" where
  "ds_of_tg t =
     \<lparr>t_id = tg_id t, t_radios = tg_radios t, t_networks = tg_networks t, t_calls = tg_calls t, t_emerg = tg_emerg t,
      t_enc = tg_enc t, t_first = tg_first t, t_last = tg_last t, t_keys = tg_keys t\<rparr>"

definition ds_of_radio :: "radio \<Rightarrow> ds_radio" where
  "ds_of_radio r =
     \<lparr>r_id = rd_id r, r_aliases = rd_aliases r, r_tgs = rd_tgs r, r_peers = rd_peers r, r_networks = rd_networks r,
      r_keys = rd_keys r, r_calls = rd_calls r, r_first = rd_first r, r_last = rd_last r, r_pos = rd_pos r,
      r_pos_t = rd_pos_t r, r_track = rd_track r\<rparr>"

definition quality_of :: "string \<Rightarrow> model \<Rightarrow> call \<Rightarrow> vsummary" where
  "quality_of fam m k =
     (if k_open k then (case om_get (m_quality m) (k_id k) of Some q \<Rightarrow> vq_summary (m_max_err m) q | None \<Rightarrow> k_qual k)
      else k_qual k)"

definition show_quality :: "string \<Rightarrow> model \<Rightarrow> call \<Rightarrow> ds_call \<Rightarrow> ds_call" where
  "show_quality fam m k c =
     (if \<not> quality_ambe2_family fam then c
      else (let s = quality_of fam m k
            in if k_enc k \<and> vs_verdict s \<noteq> VGood then c
               else if vs_verdict s \<noteq> VUnknown then
                 c\<lparr>c_qual := verdict_str (vs_verdict s), c_qsil := vs_sil s, c_qrep := vs_rep s, c_qerr := vs_err s,
                   c_qframes := unat (vs_frames s)\<rparr>
               else if k_voice k \<and> vs_frames s = 0 \<and> quality_no_frames_is_unknown fam then c\<lparr>c_qual := ''unknown''\<rparr>
               else c))"

definition ds_of_call :: "string \<Rightarrow> model \<Rightarrow> int \<Rightarrow> bool \<Rightarrow> call \<Rightarrow> ds_call" where
  "ds_of_call fam m now with_audio k =
     (let a = (with_audio \<and> k_audio k \<noteq> [])
      in show_quality fam m k
           (ds_call0\<lparr>c_id := k_id k, c_session := k_session k, c_streams := k_streams k, c_freq := k_freq k,
              c_audio := (if a then k_audio k else []),
              c_audio_ms := (if a then k_audio_samples k * 1000 div kRate else 0),
              c_net := k_net k, c_site := k_site k, c_slot := k_slot k, c_src := k_src k, c_tgt := k_tgt k,
              c_alias := k_alias k, c_text := k_text k, c_svc := k_svc k, c_pos := k_pos k,
              c_priv := k_priv k, c_voice := k_voice k, c_data := k_data k, c_emerg := k_emerg k, c_enc := k_enc k,
              c_alg := k_alg k, c_kid := k_kid k, c_open := is_fresh now k, c_start := k_start k,
              c_last := (if k_tx_end k \<noteq> 0 then k_tx_end k else k_last k)\<rparr>))"

definition ds_of_family :: "model \<Rightarrow> int \<Rightarrow> bool \<Rightarrow> string \<Rightarrow> family \<Rightarrow> ds_family" where
  "ds_of_family m now with_audio fam F =
     \<lparr>f_networks = om_map ds_of_network (fm_networks F), f_tgs = om_map ds_of_tg (fm_tgs F),
      f_radios = om_map ds_of_radio (fm_radios F),
      f_calls = map (ds_of_call fam m now with_audio) (rev (fm_calls F))\<rparr>"

definition live_source :: "int \<Rightarrow> model \<Rightarrow> ds_source" where
  "live_source now m = \<lparr>s_instance = m_instance m, s_name = m_name m, s_since = m_since m, s_through = now\<rparr>"

definition dataset_locked :: "int \<Rightarrow> bool \<Rightarrow> model \<Rightarrow> dataset" where
  "dataset_locked now with_audio m =
     dataset0\<lparr>d_label := ''live'', d_exported := now, d_sources := [live_source now m],
       d_fams := map (\<lambda>(fam, F). (fam, ds_of_family m now with_audio fam F)) (m_fams m)\<rparr>"

definition view_merges :: "model \<Rightarrow> net_merges" where
  "view_merges m = foldl (\<lambda>mg x. merges_union mg (d_merges x)) (m_merges m) (m_imports m)"

definition view_locked :: "int \<Rightarrow> model \<Rightarrow> dataset" where
  "view_locked now m =
     (let d = (dataset_locked now True m)\<lparr>d_merges := m_merges m\<rparr>
      in if m_imports m = [] then d
         else finalize_merge False (m_max_calls m) (foldl merge_into d (m_imports m)))"

section \<open>Texts\<close>

definition base_name :: "string \<Rightarrow> string" where
  "base_name p = (case rfind_char (CHR ''/'') p of None \<Rightarrow> p | Some i \<Rightarrow> drop (Suc i) p)"

text \<open>\<open>fsize\<close> is the compressed size on disk of the current or last recording.\<close>

definition rec_json :: "nat \<Rightarrow> model \<Rightarrow> string" where
  "rec_json fsize m =
     (let r = m_rec m
      in jt ''{`on`:'' @ jb (rc_on r) @ jt '',`truncated`:'' @ jb (rc_truncated r) @
         jt '',`file`:'' @ jq (if rc_last_path r = [] then [] else base_name (rc_last_path r)) @
         jt '',`path`:'' @ jq (rc_last_path r) @ jt '',`bytes`:'' @ nat_dec (rc_bytes r) @
         jt '',`file_bytes`:'' @ nat_dec fsize @ ''}'')"

definition audio_json :: "model \<Rightarrow> string" where
  "audio_json m =
     (let a = as_status (m_audio m)
      in jt ''{`on`:'' @ jb (st_on a) @ jt '',`dir`:'' @ jq (st_dir a) @ jt '',`bytes`:'' @ nat_dec (st_bytes a) @
         jt '',`cap_bytes`:'' @ nat_dec (st_cap a) @ jt '',`files`:'' @ nat_dec (st_files a) @
         jt '',`recording`:'' @ nat_dec (st_open a) @ ''}'')"

definition stream_json :: "nat \<times> ctx \<Rightarrow> string" where
  "stream_json p =
     (case p of (sid, c) \<Rightarrow>
        jt ''{`s`:'' @ nat_dec sid @ jt '',`fam`:'' @ jq (cx_family c) @ jt '',`label`:'' @ jq (cx_label c) @
        jt '',`freq`:'' @ int_dec (cx_freq c) @ jt '',`since`:'' @ int_dec (cx_started c) @
        jt '',`heard`:'' @ int_dec (cx_heard c) @ jt '',`live`:'' @ jb (cx_live c) @ ''}'')"

definition streams_json :: "model \<Rightarrow> string" where
  "streams_json m = jlist stream_json (filter (\<lambda>(sid, c). cx_running c) (m_sess m))"

definition import_audio_json :: "model \<Rightarrow> nat \<Rightarrow> string" where
  "import_audio_json m i =
     (case om_get (m_import_audio m) i of
        None \<Rightarrow> []
      | Some ia \<Rightarrow> jt '',`audio_files`:'' @ nat_dec (length (ia_want ia)) @ jt '',`audio_have`:'' @ nat_dec (length (ia_files ia)))"

definition count_over :: "(ds_family \<Rightarrow> nat) \<Rightarrow> dataset \<Rightarrow> nat" where
  "count_over f d = sum_list (map (\<lambda>p. f (snd p)) (d_fams d))"

definition import_json :: "model \<Rightarrow> dataset \<Rightarrow> string" where
  "import_json m d =
     jt ''{`id`:'' @ nat_dec (d_id d) @ jt '',`label`:'' @ jq (d_label d) @ jt '',`exported`:'' @ int_dec (d_exported d) @
     jt '',`sources`:'' @ sources_json (d_sources d) @
     jt '',`networks`:'' @ nat_dec (count_over (\<lambda>F. length (f_networks F)) d) @
     jt '',`talkgroups`:'' @ nat_dec (count_over (\<lambda>F. length (f_tgs F)) d) @
     jt '',`radios`:'' @ nat_dec (count_over (\<lambda>F. length (f_radios F)) d) @
     jt '',`calls`:'' @ nat_dec (count_over (\<lambda>F. length (f_calls F)) d) @ import_audio_json m (d_id d) @ ''}''"

definition bp_json :: "(string, (string, int) omap) omap \<Rightarrow> string" where
  "bp_json bp = jmap (jmap int_dec) bp"

text \<open>Secret keys without a key id: with their values (the keys file), or the networks alone (the page).\<close>

definition net_secrets_json :: "net_secrets \<Rightarrow> string" where
  "net_secrets_json s = jmap (jmap jq) s"

definition net_secrets_nets_json :: "net_secrets \<Rightarrow> string" where
  "net_secrets_nets_json s = jmap (\<lambda>nets. ''['' @ jcommas (map (\<lambda>p. jq (fst p)) nets) @ '']'') s"

definition net_keys_json :: "bool \<Rightarrow> (string, net_secrets) omap \<Rightarrow> string" where
  "net_keys_json vals ks =
     concat (map (\<lambda>k. (let s = om_at [] ks (nk_id k)
                in jt '',`'' @ nk_id k @ jt ''`:'' @ (if vals then net_secrets_json s else net_secrets_nets_json s))) net_key_kinds)"

record page_env =
  pe_tiles :: "string option"
  pe_attrib :: "string option"
  pe_dev :: "string option"
  pe_viz :: "string option"
  pe_auto_merge :: "string option"
  pe_rec_size :: nat

definition json_head :: "page_env \<Rightarrow> int \<Rightarrow> model \<Rightarrow> string" where
  "json_head e now m =
     jt ''{`version`:'' @ nat_dec (m_version m) @ jt '',`now`:'' @ int_dec now @ jt '',`instance`:'' @ jq (m_instance m) @
     jt '',`name`:'' @ jq (m_name m) @ jt '',`since`:'' @ int_dec (m_since m) @ jt '',`rec`:'' @ rec_json (pe_rec_size e) m @
     jt '',`audio`:'' @ audio_json m @ jt '',`max_calls`:'' @ nat_dec (m_max_calls m) @
     jt '',`map`:'' @ map_json (pe_tiles e) (pe_attrib e) @ jt '',`dev`:'' @ jb (dev_tools (pe_dev e)) @
     jt '',`audioviz`:'' @ jb (on_unless_off (pe_viz e)) @ jt '',`automerge`:'' @ jb (on_unless_off (pe_auto_merge e)) @
     jt '',`streams`:'' @ streams_json m @ jt '',`imports`:'' @ jlist (import_json m) (m_imports m) @
     jt '',`merges`:'' @ merges_json (view_merges m) @ jt '',`keyed`:'' @ keyring_loaded_json (m_keys m) @
     jt '',`bp`:'' @ bp_json (m_bp m) @ net_keys_json False (m_net_keys m) @ jt '',`families`:''"

definition to_json :: "page_env \<Rightarrow> int \<Rightarrow> model \<Rightarrow> string" where
  "to_json e now m = json_head e now m @ families_json (view_locked now m) @ ''}''"

definition to_export_json :: "int \<Rightarrow> model \<Rightarrow> string" where
  "to_export_json now m = export_json (view_locked now m) now (m_instance m) (m_name m)"

definition to_graphml :: "int \<Rightarrow> model \<Rightarrow> string" where
  "to_graphml now m = graphml (view_locked now m) now"

definition snapshot_json :: "nat \<Rightarrow> int \<Rightarrow> model \<Rightarrow> string" where
  "snapshot_json fsize now m =
     jt ''{`version`:'' @ nat_dec (m_version m) @ jt '',`now`:'' @ int_dec now @ jt '',`rec`:'' @ rec_json fsize m @
     jt '',`families`:'' @ families_json (dataset_locked now False m) @ ''}''"

section \<open>No key reaches the page\<close>

text \<open>The model with every key value replaced: the keyring's and the per-network ones.\<close>

definition blank_keys :: "(string \<Rightarrow> string) \<Rightarrow> model \<Rightarrow> model" where
  "blank_keys f m =
     m\<lparr>m_keys := ring_map_values f (m_keys m),
       m_net_keys := om_map (om_map (om_map f)) (m_net_keys m)\<rparr>"

lemma blank_keys_rest:
  "m_fams (blank_keys f m) = m_fams m" "m_instance (blank_keys f m) = m_instance m" "m_name (blank_keys f m) = m_name m"
  "m_since (blank_keys f m) = m_since m" "m_imports (blank_keys f m) = m_imports m" "m_merges (blank_keys f m) = m_merges m"
  "m_max_calls (blank_keys f m) = m_max_calls m" "m_quality (blank_keys f m) = m_quality m"
  "m_max_err (blank_keys f m) = m_max_err m" "m_version (blank_keys f m) = m_version m" "m_rec (blank_keys f m) = m_rec m"
  "m_audio (blank_keys f m) = m_audio m" "m_sess (blank_keys f m) = m_sess m" "m_bp (blank_keys f m) = m_bp m"
  "m_import_audio (blank_keys f m) = m_import_audio m"
  by (simp_all add: blank_keys_def)

lemma keys_not_shown:
  "ds_of_call fam (blank_keys f m) now a = ds_of_call fam m now a"
  "dataset_locked now a (blank_keys f m) = dataset_locked now a m"
  "view_locked now (blank_keys f m) = view_locked now m"
  "import_json (blank_keys f m) = import_json m"
proof -
  show c: "ds_of_call fam (blank_keys f m) now a = ds_of_call fam m now a" for fam a
  proof (rule ext)
    fix k
    have q: "quality_of fam (blank_keys f m) k = quality_of fam m k" by (simp add: quality_of_def blank_keys_rest split: option.split)
    have "show_quality fam (blank_keys f m) k = show_quality fam m k" by (rule ext) (simp only: show_quality_def q)
    then show "ds_of_call fam (blank_keys f m) now a k = ds_of_call fam m now a k" by (simp only: ds_of_call_def)
  qed
  show d: "dataset_locked now a (blank_keys f m) = dataset_locked now a m" for a
    by (simp add: dataset_locked_def ds_of_family_def c live_source_def blank_keys_rest)
  show "view_locked now (blank_keys f m) = view_locked now m" by (simp only: view_locked_def d blank_keys_rest)
  show "import_json (blank_keys f m) = import_json m"
    by (rule ext) (simp only: import_json_def import_audio_json_def blank_keys_rest)
qed

lemma net_keys_hidden: "net_keys_json False (om_map (om_map (om_map f)) ks) = net_keys_json False ks"
proof -
  have "om_at [] (om_map (om_map (om_map f)) ks) k = om_map (om_map f) (om_at [] ks k)" for k
    by (simp add: om_at_def om_get_map split: option.split) (simp add: om_map_def)
  moreover have "net_secrets_nets_json (om_map (om_map f) s) = net_secrets_nets_json s" for s
    by (simp add: net_secrets_nets_json_def jmap_om_map) (simp add: om_map_def split_def comp_def)
  ultimately show ?thesis by (simp add: net_keys_json_def)
qed

lemma texts_hide_keys:
  "to_json e now (blank_keys f m) = to_json e now m \<and> to_export_json now (blank_keys f m) = to_export_json now m \<and>
   to_graphml now (blank_keys f m) = to_graphml now m \<and> snapshot_json n now (blank_keys f m) = snapshot_json n now m"
proof -
  have k: "keyring_loaded_json (m_keys (blank_keys f m)) = keyring_loaded_json (m_keys m)"
    "net_keys_json False (m_net_keys (blank_keys f m)) = net_keys_json False (m_net_keys m)"
    by (simp_all add: blank_keys_def net_keys_hidden keyring_loaded_hides_values)
  have "json_head e now (blank_keys f m) = json_head e now m"
    by (simp only: json_head_def k blank_keys_rest keys_not_shown rec_json_def audio_json_def streams_json_def view_merges_def)
  then show ?thesis
    by (simp only: to_json_def to_export_json_def to_graphml_def snapshot_json_def keys_not_shown blank_keys_rest rec_json_def)
qed

text \<open>
  No decryption key leaves the server in what anyone may see: the page's data, the export, the graph
  and the snapshots in recordings are the same whatever the values of the keys, the keyring's and the
  per-network ones alike.
\<close>

lemma page_hides_keys:
  "to_json e now (blank_keys f m) = to_json e now m \<and> to_export_json now (blank_keys f m) = to_export_json now m \<and>
   to_graphml now (blank_keys f m) = to_graphml now m \<and> snapshot_json n now (blank_keys f m) = snapshot_json n now m"
  by (rule texts_hide_keys)

end
