(* ===== verification/Assoc_Streams.thy ===== *)
theory Assoc_Streams
  imports Assoc_Ingest Assoc_View
begin

text \<open>
  Streams coming and going (\<open>begin_stream\<close>, \<open>retune_stream\<close>, \<open>end_stream\<close>, \<open>remove_session\<close>), what is
  dropped when one ends (\<open>prune_session_locked\<close>), \<open>clear\<close>, the recording of inputs, and the audio of
  calls (\<open>audio\<close>), all of \<open>src/assoc_model.hpp\<close>.
\<close>

section \<open>Dropping what a stream leaves behind\<close>

definition covered_network :: "family \<Rightarrow> string \<Rightarrow> string \<Rightarrow> network \<Rightarrow> bool" where
  "covered_network F fam key n =
     (let mine = filter (\<lambda>(k, v). is_anchor fam k) (nw_ids n)
      in mine \<noteq> [] \<and> (nw_conf n = ''strong'' \<or> fam = ''p25'') \<and>
         list_ex (\<lambda>(k, o'). k \<noteq> key \<and> nw_conf o' = ''strong'' \<and> list_all (\<lambda>(i, v). om_get (nw_ids o') i = Some v) mine)
           (fm_networks F))"

definition identified :: "network \<Rightarrow> bool" where
  "identified n \<longleftrightarrow> nw_conf n = ''strong'' \<or> (nw_conf n = ''channel'' \<and> nw_ids n \<noteq> [])"

definition in_use :: "model \<Rightarrow> nat \<Rightarrow> string \<Rightarrow> string \<Rightarrow> bool" where
  "in_use m sid fam key \<longleftrightarrow>
     list_ex (\<lambda>(s, c). s \<noteq> sid \<and> cx_running c \<and> cx_family c = fam \<and> cx_net c = key) (m_sess m)"

definition dead_network :: "model \<Rightarrow> nat \<Rightarrow> bool \<Rightarrow> string \<Rightarrow> family \<Rightarrow> string \<times> network \<Rightarrow> bool" where
  "dead_network m sid retune fam F p =
     (case p of (key, n) \<Rightarrow>
        nw_calls n = 0 \<and> sid \<in> set (nw_sessions n) \<and>
        (retune \<or> \<not> identified n \<or> covered_network F fam key n) \<and>
        \<not> in_use m sid fam key \<and> \<not> list_ex (\<lambda>k. k_net k = key) (fm_calls F))"

definition drop_network :: "string \<Rightarrow> family \<Rightarrow> family" where
  "drop_network key F =
     F\<lparr>fm_networks := om_del key (fm_networks F),
       fm_radios := filter (\<lambda>(i, r). \<not> (rd_networks r = [] \<and> rd_calls r = 0 \<and> rd_tgs r = [] \<and> rd_peers r = []))
         (om_map (\<lambda>r. r\<lparr>rd_networks := os_del key (rd_networks r)\<rparr>) (fm_radios F)),
       fm_tgs := filter (\<lambda>(i, t). \<not> (tg_networks t = [] \<and> tg_calls t = 0 \<and> tg_radios t = []))
         (om_map (\<lambda>t. t\<lparr>tg_networks := os_del key (tg_networks t)\<rparr>) (fm_tgs F))\<rparr>"

definition family_empty :: "family \<Rightarrow> bool" where
  "family_empty F \<longleftrightarrow> fm_networks F = [] \<and> fm_radios F = [] \<and> fm_tgs F = [] \<and> fm_calls F = []"

definition prune_session :: "nat \<Rightarrow> bool \<Rightarrow> model \<Rightarrow> model" where
  "prune_session sid retune m =
     (case om_get (m_sess m) sid of
        None \<Rightarrow> m
      | Some c \<Rightarrow>
          (let fam = cx_family c
           in case om_get (m_fams m) fam of
                None \<Rightarrow> m
              | Some F \<Rightarrow>
                  (let dead = map fst (filter (dead_network m sid retune fam F) (fm_networks F));
                       F' = foldl (\<lambda>F k. drop_network k F) F dead;
                       m1 = upd_ctx sid (\<lambda>c. if cx_net c \<in> set dead then c\<lparr>cx_net := []\<rparr> else c) m
                   in if dead = [] then m
                      else (if family_empty F' then m1\<lparr>m_fams := om_del fam (m_fams m1)\<rparr> else set_fam fam F' m1)
                             \<lparr>m_version := m_version m + 1\<rparr>)))"

section \<open>Streams\<close>

definition freq_field :: "int \<Rightarrow> string" where
  "freq_field f = (if f \<noteq> 0 then jt '',`freq`:'' @ int_dec f else [])"

definition op_line :: "string \<Rightarrow> int \<Rightarrow> nat \<Rightarrow> string" where
  "op_line what t sid = jt ''{`op`:`'' @ what @ jt ''`,`t`:'' @ int_dec t @ jt '',`s`:'' @ nat_dec sid"

definition bump_version :: "model \<Rightarrow> model" where
  "bump_version m = m\<lparr>m_version := m_version m + 1\<rparr>"

definition begin_stream :: "nat \<Rightarrow> string \<Rightarrow> int \<Rightarrow> string \<Rightarrow> int \<Rightarrow> model \<Rightarrow> model" where
  "begin_stream sid label now family freq m =
     (let m1 = record_line (op_line ''begin'' now sid @ jt '',`label`:'' @ lq label @ freq_field freq @ ''}'') now m;
          m2 = prune_session sid False (close_session_calls sid m1);
          c = ctx0\<lparr>cx_label := label, cx_family := (if family = [] then assoc_family label else family),
                   cx_freq := freq, cx_running := True, cx_started := now\<rparr>
      in bump_version (m2\<lparr>m_sess := om_put sid c (m_sess m2)\<rparr>))"

definition retune_stream :: "nat \<Rightarrow> int \<Rightarrow> int \<Rightarrow> model \<Rightarrow> model" where
  "retune_stream sid freq now m =
     (case om_get (m_sess m) sid of
        None \<Rightarrow> m
      | Some c0 \<Rightarrow>
          if cx_freq c0 = freq then m
          else
            (let m1 = record_line (op_line ''tune'' now sid @ jt '',`freq`:'' @ int_dec freq @ ''}'') now m;
                 m2 = prune_session sid True (close_session_calls sid m1)
             in bump_version (upd_ctx sid (\<lambda>c. ctx0\<lparr>cx_family := cx_family c, cx_label := cx_label c,
                    cx_running := cx_running c, cx_freq := freq\<rparr>) m2)))"

definition end_stream :: "nat \<Rightarrow> int \<Rightarrow> model \<Rightarrow> model" where
  "end_stream sid now m =
     (let m1 = close_session_calls sid (record_line (op_line ''end'' now sid @ ''}'') now m);
          m2 = upd_ctx sid (\<lambda>c. c\<lparr>cx_running := False, cx_active := []\<rparr>) m1
      in bump_version (prune_session sid False m2))"

definition remove_session :: "nat \<Rightarrow> int \<Rightarrow> model \<Rightarrow> model" where
  "remove_session sid now m =
     (let m1 = prune_session sid False (close_session_calls sid (record_line (op_line ''remove'' now sid @ ''}'') now m))
      in bump_version (m1\<lparr>m_sess := om_del sid (m_sess m1)\<rparr>))"

section \<open>Clearing\<close>

definition import_dir :: "model \<Rightarrow> nat \<Rightarrow> string" where
  "import_dir m i = m_import_root m @ ''/'' @ nat_dec i"

definition drop_import_audio :: "nat \<Rightarrow> model \<Rightarrow> model" where
  "drop_import_audio i m =
     (if \<not> om_has (m_import_audio m) i then m
      else (let m1 = m\<lparr>m_import_audio := om_del i (m_import_audio m)\<rparr>
            in if m_import_root m = [] then m1
               else m1\<lparr>m_files := filter (\<lambda>p. \<not> starts_with (fst p) (import_dir m i @ ''/'')) (m_files m1)\<rparr>))"

definition drop_all_import_audio :: "model \<Rightarrow> model" where
  "drop_all_import_audio m = foldl (\<lambda>m i. drop_import_audio i m) m (map fst (m_import_audio m))"

definition finish_all :: "model \<Rightarrow> astore" where
  "finish_all m =
     foldl (\<lambda>a k. if k_audio k \<noteq> [] then as_finish (k_audio k) a else a) (m_audio m)
       (concat (map (\<lambda>p. fm_calls (snd p)) (m_fams m)))"

definition fresh_ctx :: "ctx \<Rightarrow> ctx" where
  "fresh_ctx c = ctx0\<lparr>cx_family := cx_family c, cx_label := cx_label c, cx_running := cx_running c,
     cx_freq := cx_freq c, cx_started := cx_started c, cx_heard := cx_heard c\<rparr>"

definition clear_locked :: "int \<Rightarrow> model \<Rightarrow> model" where
  "clear_locked now m =
     (let m1 = drop_all_import_audio (m\<lparr>m_audio := finish_all m, m_fams := []\<rparr>)
      in m1\<lparr>m_imports := [], m_since := now, m_sess := om_map fresh_ctx (m_sess m1), m_next_call := 0,
            m_version := m_version m1 + 1\<rparr>)"

definition clear :: "int \<Rightarrow> model \<Rightarrow> model" where
  "clear now m = clear_locked now (record_line (jt ''{`op`:`clear`,`t`:'' @ int_dec now @ ''}'') now m)"

definition clear_with_audio :: "int \<Rightarrow> model \<Rightarrow> model \<times> nat \<times> nat" where
  "clear_with_audio now m =
     (let m1 = bump_version (clear now m)
      in case as_remove_all (m_audio m1) of (a, n, b) \<Rightarrow> (m1\<lparr>m_audio := a\<rparr>, n, b))"

section \<open>Recording the inputs\<close>

definition header_line :: "int \<Rightarrow> bool \<Rightarrow> model \<Rightarrow> string" where
  "header_line now fresh m =
     jt ''{`op`:`header`,`v`:1,`t`:'' @ int_dec now @ jt '',`fresh`:'' @ jb fresh @ jt '',`instance`:'' @ lq (m_instance m) @
     jt '',`name`:'' @ lq (m_name m) @ jt '',`since`:'' @ int_dec (m_since m) @
     jt '',`max_calls`:'' @ nat_dec (m_max_calls m) @ ''}''"

definition resumed_line :: "int \<Rightarrow> nat \<times> ctx \<Rightarrow> string" where
  "resumed_line now p =
     (case p of (sid, c) \<Rightarrow>
        op_line ''begin'' now sid @ jt '',`label`:'' @ lq (cx_label c) @ jt '',`family`:'' @ lq (cx_family c) @
        freq_field (cx_freq c) @ jt '',`resumed`:true}'')"

definition snapshot_line :: "nat \<Rightarrow> int \<Rightarrow> string \<Rightarrow> model \<Rightarrow> string" where
  "snapshot_line fsize now why m =
     jt ''{`op`:`snapshot`,`t`:'' @ int_dec now @ jt '',`why`:`'' @ why @ jt ''`,`model`:'' @ snapshot_json fsize now m @ ''}''"

text \<open>\<open>can\<close>, \<open>taken\<close> and \<open>fsize\<close> are the file system's: which file can be made, which names exist, and its size.\<close>

definition start_recording ::
  "(string \<Rightarrow> bool) \<Rightarrow> string list \<Rightarrow> nat \<Rightarrow> string \<Rightarrow> nat \<Rightarrow> bool \<Rightarrow> int \<Rightarrow> model \<Rightarrow> model \<times> bool" where
  "start_recording can taken fsize dir max_bytes clear_first now m =
     (if rc_on (m_rec m) then (m, True)
      else
        (let m1 = (if clear_first then clear_locked now m else m)
         in case rec_start can taken dir max_bytes now (m_rec m1) of
              (r, ok) \<Rightarrow>
                (let m2 = m1\<lparr>m_rec := r\<rparr>
                 in if \<not> ok then (m2, False)
                    else
                      (let m3 = record_line (header_line now (m_fams m2 = [] \<and> m_next_call m2 = 0) m2) now m2;
                           m4 = foldl (\<lambda>m p. if cx_running (snd p) then record_line (resumed_line now p) now m else m) m3 (m_sess m3)
                       in (bump_version (record_line (snapshot_line fsize now ''start'' m4) now m4), True)))))"

definition stop_recording :: "nat \<Rightarrow> int \<Rightarrow> model \<Rightarrow> model" where
  "stop_recording fsize now m =
     (if \<not> rc_on (m_rec m) then m
      else (let m1 = record_line (snapshot_line fsize now ''stop'' m) now m
            in bump_version (m1\<lparr>m_rec := rec_stop (m_rec m1)\<rparr>)))"

section \<open>Small setters\<close>

definition set_max_calls :: "nat \<Rightarrow> model \<Rightarrow> model" where
  "set_max_calls n m = m\<lparr>m_max_calls := (if n < 10 then 10 else n)\<rparr>"

definition mark_keep :: "string \<Rightarrow> nat \<Rightarrow> bool \<Rightarrow> model \<Rightarrow> model" where
  "mark_keep fam i on m =
     (case om_get (m_fams m) fam of
        None \<Rightarrow> m
      | Some F \<Rightarrow> set_fam fam (F\<lparr>fm_calls := map (\<lambda>k. if k_id k = i then k\<lparr>k_keep := on\<rparr> else k) (fm_calls F)\<rparr>) m)"

definition set_identity :: "string \<Rightarrow> string \<Rightarrow> model \<Rightarrow> model" where
  "set_identity inst name m = m\<lparr>m_instance := (if inst \<noteq> [] then inst else m_instance m), m_name := name\<rparr>"

definition set_since :: "int \<Rightarrow> model \<Rightarrow> model" where
  "set_since t m = m\<lparr>m_since := t\<rparr>"

definition set_channels_per_receiver :: "bool \<Rightarrow> model \<Rightarrow> model" where
  "set_channels_per_receiver on m = m\<lparr>m_per_receiver := on\<rparr>"

end
