(* ===== verification/Assoc_Audio.thy ===== *)
theory Assoc_Audio
  imports Assoc_Streams
begin

text \<open>
  Decoded voice (\<open>audio\<close> of \<open>src/assoc_model.hpp\<close>): the call a block of samples belongs to, what is held
  until its call is decoded, and what is never recorded; switching the store on and off; and dropping
  the audio of calls whose files the store deleted.
\<close>

section \<open>Files the store deleted\<close>

definition call_with_audio :: "model \<Rightarrow> string \<Rightarrow> (string \<times> call) option" where
  "call_with_audio m name =
     find (\<lambda>p. k_audio (snd p) = name) (concat (map (\<lambda>(fam, F). map (Pair fam) (fm_calls F)) (m_fams m)))"

definition forget_audio :: "string \<Rightarrow> int \<Rightarrow> model \<times> call \<Rightarrow> model \<times> call" where
  "forget_audio fam now st = (case set_keep fam False now st of (m, k) \<Rightarrow> (m, k\<lparr>k_audio := [], k_audio_samples := 0\<rparr>))"

definition reconcile_one :: "int \<Rightarrow> model \<times> bool \<Rightarrow> string \<Rightarrow> model \<times> bool" where
  "reconcile_one now st name =
     (case st of (m, changed) \<Rightarrow>
        (case call_with_audio m name of
           None \<Rightarrow> (m, changed)
         | Some (fam, k) \<Rightarrow> (with_call fam (k_id k) (forget_audio fam now) m, True)))"

definition reconcile_evicted :: "int \<Rightarrow> model \<Rightarrow> model" where
  "reconcile_evicted now m =
     (case as_take_evicted (m_audio m) of (a, gone) \<Rightarrow>
        (case foldl (reconcile_one now) (m\<lparr>m_audio := a\<rparr>, False) gone of (m', changed) \<Rightarrow>
           if changed then bump_version m' else m'))"

definition start_audio :: "(string \<times> string \<times> int) list option \<Rightarrow> string \<Rightarrow> nat \<Rightarrow> int \<Rightarrow> int \<Rightarrow> model \<Rightarrow> model \<times> bool" where
  "start_audio listing dir cap age now m =
     (if as_on (m_audio m) then (m, True)
      else (case as_enable listing dir cap age now (m_audio m) of
          (a, ok) \<Rightarrow>
            (let m1 = m\<lparr>m_audio := a, m_audio_on := ok\<rparr>
             in (bump_version (if ok then reconcile_evicted now m1 else m1), ok))))"

definition stop_audio :: "model \<Rightarrow> model" where
  "stop_audio m =
     bump_version (m\<lparr>m_audio_on := False, m_audio := as_disable (m_audio m),
       m_sess := om_map (\<lambda>c. c\<lparr>cx_preroll := []\<rparr>) (m_sess m)\<rparr>)"

section \<open>The call a block of samples belongs to\<close>

definition fresh_rec :: "ctx \<Rightarrow> family \<Rightarrow> int \<Rightarrow> string \<Rightarrow> call option" where
  "fresh_rec c F now slot = (case fresh_call c F slot now of None \<Rightarrow> None | Some i \<Rightarrow> find_call F i)"

text \<open>The later of two calls, the first when they are equally late.\<close>

definition later :: "call option \<Rightarrow> call option \<Rightarrow> call option" where
  "later a b =
     (case b of
        None \<Rightarrow> a
      | Some y \<Rightarrow> (case a of None \<Rightarrow> b | Some x \<Rightarrow> if k_last x < k_last y then b else a))"

definition slot_call :: "ctx \<Rightarrow> family \<Rightarrow> int \<Rightarrow> int \<Rightarrow> call option" where
  "slot_call c F now slot =
     (let fr = fresh_rec c F now
      in if slot = 1 \<or> slot = 2 then
           (case fr (int_dec slot) of Some k \<Rightarrow> Some k | None \<Rightarrow> if slot = 1 then fr [] else None)
         else later (later (fr []) (fr ''1'')) (fr ''2''))"

definition data_only :: "call \<Rightarrow> bool" where
  "data_only k \<longleftrightarrow> k_data k \<and> \<not> k_voice k"

definition peak :: "pcm \<Rightarrow> int" where
  "peak xs = foldl (\<lambda>p x. max p \<bar>sint x\<bar>) 0 xs"

text \<open>The voice call a block heard on a data-only call really belongs to, with its slot.\<close>

definition voice_elsewhere :: "ctx \<Rightarrow> family \<Rightarrow> int \<Rightarrow> call \<Rightarrow> (call \<times> int) option" where
  "voice_elsewhere c F now k =
     foldl (\<lambda>v (s, n).
         (case fresh_rec c F now s of
            None \<Rightarrow> v
          | Some x \<Rightarrow>
              if k_id x \<noteq> k_id k \<and> \<not> data_only x \<and> (case v of None \<Rightarrow> True | Some (y, _) \<Rightarrow> k_last y < k_last x)
              then Some (x, n) else v))
       None [(''1'', 1), (''2'', 2), ([], 0)]"

text \<open>The call and the slot, or \<open>None\<close> when the block is dropped.\<close>

definition audio_target :: "ctx \<Rightarrow> family \<Rightarrow> int \<Rightarrow> int \<Rightarrow> pcm \<Rightarrow> (call option \<times> int) option" where
  "audio_target c F now slot xs =
     (case slot_call c F now slot of
        None \<Rightarrow> Some (None, slot)
      | Some k \<Rightarrow>
          if \<not> data_only k then Some (Some k, slot)
          else if peak xs = 0 then None
          else (case voice_elsewhere c F now k of None \<Rightarrow> None | Some (v, s) \<Rightarrow> Some (Some v, s)))"

section \<open>Holding audio until its call is decoded\<close>

definition hold :: "int \<Rightarrow> int \<Rightarrow> pcm \<Rightarrow> ctx \<Rightarrow> ctx" where
  "hold slot now xs c =
     (let p0 = om_at preroll0 (cx_preroll c) slot;
          p = (if kPrerollMs < now - pr_last p0 then p0\<lparr>pr_pcm := [], pr_audible := False\<rparr> else p0);
          all = pr_pcm p @ xs
      in c\<lparr>cx_preroll := om_put slot
             \<lparr>pr_pcm = (if kPrerollSamples < length all then drop (length all - kPrerollSamples) all else all),
              pr_last = now, pr_audible = (pr_audible p \<or> kAudiblePeak \<le> peak xs)\<rparr> (cx_preroll c)\<rparr>)"

definition held :: "int \<Rightarrow> int \<Rightarrow> ctx \<Rightarrow> preroll list" where
  "held slot now c =
     sort_key pr_last
       (filter (\<lambda>p. pr_pcm p \<noteq> [] \<and> now - pr_last p \<le> kPrerollMs)
          (concat (map (\<lambda>s. case om_get (cx_preroll c) s of None \<Rightarrow> [] | Some p \<Rightarrow> [p])
             (if slot = 0 then [0] else [0, slot]))))"

definition emptied :: "int \<Rightarrow> ctx \<Rightarrow> ctx" where
  "emptied slot c =
     c\<lparr>cx_preroll := foldl (\<lambda>m s. om_put s ((om_at preroll0 m s)\<lparr>pr_pcm := [], pr_audible := False\<rparr>) m)
         (cx_preroll c) [0, slot]\<rparr>"

section \<open>Writing\<close>

definition add_samples :: "pcm \<Rightarrow> int \<Rightarrow> model \<times> call \<Rightarrow> model \<times> call" where
  "add_samples xs now st =
     (case st of (m, k) \<Rightarrow>
        (m\<lparr>m_audio := as_append (k_audio k) xs now (m_audio m)\<rparr>, k\<lparr>k_audio_samples := k_audio_samples k + length xs\<rparr>))"

definition refuse_audio :: "string \<Rightarrow> int \<Rightarrow> model \<times> call \<Rightarrow> model \<times> call" where
  "refuse_audio fam now st =
     (case st of (m, k) \<Rightarrow>
        set_keep fam False now
          (if k_audio k = [] then (m, k\<lparr>k_no_audio := True\<rparr>)
           else (bump_version (m\<lparr>m_audio := as_discard (k_audio k) (m_audio m)\<rparr>), k\<lparr>k_no_audio := True, k_audio := []\<rparr>)))"

text \<open>The first audible block creates the file and writes what was held; \<open>None\<close> when nothing is written.\<close>

definition open_audio :: "(string \<Rightarrow> bool) \<Rightarrow> string \<Rightarrow> nat \<Rightarrow> int \<Rightarrow> pcm \<Rightarrow> int \<Rightarrow> model \<times> call \<Rightarrow> (model \<times> call) option" where
  "open_audio can fam sid slot xs now st =
     (case st of (m, k) \<Rightarrow>
        (let hs = held slot now (ctx_of m sid); name = make_name (k_start k) (m_instance m) (k_id k)
         in if \<not> (kAudiblePeak \<le> peak xs \<or> list_ex pr_audible hs) then None
            else (case as_create can name now (m_audio m) of
                (a, ok) \<Rightarrow>
                  if \<not> ok then None
                  else
                    (let st1 = set_keep fam True now
                           (m\<lparr>m_audio := a\<rparr>, k\<lparr>k_audio := name, k_audio_sid := sid, k_audio_slot := slot\<rparr>);
                         st2 = foldl (\<lambda>st h. add_samples (pr_pcm h) now st) st1 hs
                     in Some (bump_version (upd_ctx sid (emptied slot) (fst st2)), snd st2)))))"

text \<open>The model and the call after the block, and whether it was written.\<close>

definition write_audio :: "(string \<Rightarrow> bool) \<Rightarrow> string \<Rightarrow> nat \<Rightarrow> int \<Rightarrow> pcm \<Rightarrow> bool \<Rightarrow> int \<Rightarrow> model \<times> call \<Rightarrow> (model \<times> call) \<times> bool" where
  "write_audio can fam sid slot xs keyed now st =
     (case st of (m, k0) \<Rightarrow>
        if k_no_audio k0 then ((m, k0), False)
        else if k_enc k0 \<and> \<not> keyed then (refuse_audio fam now (m, k0), False)
        else
          (let k = (if keyed then k0\<lparr>k_keyed_audio := True\<rparr> else k0)
           in if k_audio k = [] then
                (case open_audio can fam sid slot xs now (m, k) of
                   None \<Rightarrow> ((m, k), False)
                 | Some st' \<Rightarrow> (add_samples xs now st', True))
              else if k_audio_sid k \<noteq> sid \<or> (k_audio_slot k \<noteq> slot \<and> k_audio_slot k \<noteq> 0 \<and> slot \<noteq> 0) then ((m, k), False)
              else (add_samples xs now
                      (m, if k_audio_slot k = 0 \<and> slot \<noteq> 0 then k\<lparr>k_audio_slot := slot\<rparr> else k), True)))"

definition audio :: "(string \<Rightarrow> bool) \<Rightarrow> nat \<Rightarrow> int \<Rightarrow> pcm \<Rightarrow> bool \<Rightarrow> int \<Rightarrow> model \<Rightarrow> model" where
  "audio can sid slot xs keyed now m =
     (if \<not> m_audio_on m \<or> xs = [] \<or> \<not> as_on (m_audio m) then m
      else (case om_get (m_sess m) sid of
          None \<Rightarrow> m
        | Some c \<Rightarrow>
            (case om_get (m_fams m) (cx_family c) of
               None \<Rightarrow> m
             | Some F \<Rightarrow>
                 if \<not> cx_live c then m
                 else (case audio_target c F now slot xs of
                     None \<Rightarrow> m
                   | Some (None, s) \<Rightarrow> if peak xs = 0 then m else upd_ctx sid (hold s now xs) m
                   | Some (Some k, s) \<Rightarrow>
                       (case write_audio can (cx_family c) sid s xs keyed now (m, k) of
                          ((m', k'), wrote) \<Rightarrow>
                            (let m2 = upd_fam (cx_family c) (put_call (k_id k) k') m'
                             in if wrote then reconcile_evicted now m2 else m2))))))"

text \<open>A served file's path: an imported call's file, or one of the store's.\<close>

definition audio_path :: "string \<Rightarrow> int \<Rightarrow> model \<Rightarrow> model \<times> string" where
  "audio_path name now m =
     (case name of
        i # d # r \<Rightarrow>
          if r \<noteq> [] \<and> i = CHR ''i'' \<and> is_digit d then
            (let n = strtoul (tl name)
             in (m, case om_get (m_import_audio m) n of
                      None \<Rightarrow> []
                    | Some ia \<Rightarrow> if om_has (ia_files ia) name then import_dir m n @ ''/'' @ name else []))
          else (case as_path_for name now (m_audio m) of (a, p) \<Rightarrow> (m\<lparr>m_audio := a\<rparr>, p))
      | _ \<Rightarrow> (case as_path_for name now (m_audio m) of (a, p) \<Rightarrow> (m\<lparr>m_audio := a\<rparr>, p)))"

end
