(* ===== verification/Assoc_Admin.thy ===== *)
theory Assoc_Admin
  imports Assoc_Streams
begin

text \<open>
  What the explorer's users change (\<open>src/assoc_model.hpp\<close>): imports and their uploaded audio, network
  merges, and the decryption keys with their files. Files are written when \<open>m_disk_ok\<close> holds; a file
  that is loaded is given by its contents.
\<close>

section \<open>Imports\<close>

definition kImportIdStride :: nat where
  "kImportIdStride = 1000000000"

record import_result =
  ir_status :: string
  ir_message :: string
  ir_id :: nat

definition joined_labels :: "dataset list \<Rightarrow> nat list \<Rightarrow> string" where
  "joined_labels Ls is = foldr (\<lambda>i acc. d_label (Ls ! i) @ (if acc = [] then [] else '', '' @ acc)) is []"

definition replace_layers :: "nat list \<Rightarrow> model \<Rightarrow> model" where
  "replace_layers is m =
     foldr (\<lambda>i m. (drop_import_audio (d_id (m_imports m ! i)) m)\<lparr>m_imports := rm_nth i (m_imports m)\<rparr>) is m"

text \<open>A layer's calls: newest first, bounded, with ids of their own, and without audio until it is uploaded.\<close>

definition layer_calls :: "nat \<Rightarrow> nat \<Rightarrow> ds_call list \<Rightarrow> ds_call list" where
  "layer_calls cap i cs =
     (let C = cap_calls (sort_key (\<lambda>c. - c_start c) cs) cap
      in map (\<lambda>(j, c). c\<lparr>c_id := i * kImportIdStride + (length C - j)\<rparr>) (zip [0..<length C] C))"

definition want_call :: "string \<Rightarrow> (string, audio_want list) omap \<Rightarrow> ds_call \<Rightarrow> (string, audio_want list) omap" where
  "want_call fam w c =
     (let b = import_audio_base (c_audio c)
      in if b = [] then w
         else om_put b (om_at [] w b @ [\<lparr>wa_fam = fam, wa_call = c_id c, wa_ms = c_audio_ms c\<rparr>]) w)"

definition silent_call :: "ds_call \<Rightarrow> ds_call" where
  "silent_call c = c\<lparr>c_audio := [], c_audio_ms := 0\<rparr>"

definition numbered :: "nat \<Rightarrow> nat \<Rightarrow> dataset \<Rightarrow> dataset" where
  "numbered cap i x = x\<lparr>d_fams := om_map (\<lambda>F. F\<lparr>f_calls := layer_calls cap i (f_calls F)\<rparr>) (d_fams x)\<rparr>"

definition wants_of :: "dataset \<Rightarrow> (string, audio_want list) omap" where
  "wants_of x = foldl (\<lambda>w (fam, F). foldl (want_call fam) w (f_calls F)) [] (d_fams x)"

definition silenced :: "dataset \<Rightarrow> dataset" where
  "silenced x = x\<lparr>d_fams := om_map (\<lambda>F. F\<lparr>f_calls := map silent_call (f_calls F)\<rparr>) (d_fams x)\<rparr>"

definition add_layer :: "int \<Rightarrow> dataset \<Rightarrow> model \<Rightarrow> model" where
  "add_layer now x m =
     (let i = m_next_import m + 1;
          x1 = numbered (m_max_calls m) i (x\<lparr>d_id := i, d_exported := (if d_exported x \<noteq> 0 then d_exported x else now)\<rparr>);
          m1 = (if wants_of x1 = [] then m
                else m\<lparr>m_import_audio := om_put i (import_audio0\<lparr>ia_want := wants_of x1\<rparr>) (m_import_audio m)\<rparr>)
      in m1\<lparr>m_next_import := i, m_imports := m_imports m @ [silenced x1]\<rparr>)"

definition import_dataset :: "int \<Rightarrow> dataset \<Rightarrow> model \<Rightarrow> model \<times> import_result" where
  "import_dataset now x m =
     (case judge x (m_imports m) (Some [live_source now m]) of
        VSkip why \<Rightarrow> (m, \<lparr>ir_status = ''skipped'', ir_message = why, ir_id = 0\<rparr>)
      | VRefuse why \<Rightarrow> (m, \<lparr>ir_status = ''refused'', ir_message = why, ir_id = 0\<rparr>)
      | VAdd rs \<Rightarrow>
          (let replaced = joined_labels (m_imports m) rs; m1 = bump_version (add_layer now x (replace_layers rs m))
           in (m1, \<lparr>ir_status = (if replaced = [] then ''imported'' else ''replaced''),
                    ir_message = (if replaced = [] then ''imported''
                       else ''imported (replaces '' @ replaced @ '', an older export of the same run)''),
                    ir_id = m_next_import m1\<rparr>)))"

definition import_export :: "(string \<Rightarrow> string option) \<Rightarrow> string \<Rightarrow> string \<Rightarrow> int \<Rightarrow> model \<Rightarrow> model \<times> import_result" where
  "import_export inflate text label now m =
     (case dataset_from_export_text inflate \<lparr>cm_per_receiver = m_per_receiver m, cm_home = m_name m\<rparr> label text of
        Inl err \<Rightarrow> (m, \<lparr>ir_status = ''invalid'', ir_message = err, ir_id = 0\<rparr>)
      | Inr x \<Rightarrow> import_dataset now x m)"

definition remove_import :: "nat \<Rightarrow> model \<Rightarrow> model \<times> bool" where
  "remove_import i m =
     (if list_ex (\<lambda>d. d_id d = i) (m_imports m)
      then (let m1 = drop_import_audio i m
            in (bump_version (m1\<lparr>m_imports := takeWhile (\<lambda>d. d_id d \<noteq> i) (m_imports m) @ tl (dropWhile (\<lambda>d. d_id d \<noteq> i) (m_imports m))\<rparr>), True))
      else (m, False))"

definition clear_imports :: "model \<Rightarrow> model" where
  "clear_imports m =
     (let m1 = drop_all_import_audio m
      in if m_imports m1 \<noteq> [] then bump_version (m1\<lparr>m_imports := []\<rparr>) else m1)"

section \<open>Uploaded audio of imported calls\<close>

definition use_import_audio_dir :: "string \<Rightarrow> nat \<Rightarrow> model \<Rightarrow> model" where
  "use_import_audio_dir dir cap m =
     (let m1 = m\<lparr>m_import_root := dir, m_import_cap := cap\<rparr>
      in if dir = [] then m1 else m1\<lparr>m_files := filter (\<lambda>p. \<not> starts_with (fst p) (dir @ ''/'')) (m_files m1)\<rparr>)"

definition import_audio_bytes :: "model \<Rightarrow> nat" where
  "import_audio_bytes m = sum_list (map (\<lambda>p. sum_list (map snd (ia_files (snd p)))) (m_import_audio m))"

definition is_wav :: "string \<Rightarrow> bool" where
  "is_wav d \<longleftrightarrow> 44 \<le> length d \<and> take 4 d = ''RIFF'' \<and> take 4 (drop 8 d) = ''WAVE''"

definition plays :: "string \<Rightarrow> audio_want \<Rightarrow> dataset \<Rightarrow> dataset" where
  "plays served w d =
     d\<lparr>d_fams := om_modify (wa_fam w)
         (\<lambda>F. F\<lparr>f_calls := map (\<lambda>c. if c_id c = wa_call w then c\<lparr>c_audio := served, c_audio_ms := wa_ms w\<rparr> else c) (f_calls F)\<rparr>)
         (d_fams d)\<rparr>"

definition served_name :: "nat \<Rightarrow> string \<Rightarrow> string" where
  "served_name i base = ''i'' @ nat_dec i @ ''_'' @ base"

definition upload_check :: "nat \<Rightarrow> string \<Rightarrow> string \<Rightarrow> model \<Rightarrow> (string \<times> string) option" where
  "upload_check i base data m =
     (if m_import_root m = [] then Some (''failed'', ''no folder for imported audio'')
      else (case om_get (m_import_audio m) i of
          None \<Rightarrow> Some (''unknown'', ''no call in this import has that audio'')
        | Some ia \<Rightarrow>
            if base = [] \<or> \<not> om_has (ia_want ia) base then Some (''unknown'', ''no call in this import has that audio'')
            else if om_has (ia_files ia) (served_name i base) then Some (''have'', ''already uploaded'')
            else if \<not> is_wav data then Some (''invalid'', ''not a WAV file'')
            else if m_import_cap m < import_audio_bytes m + length data then Some (''full'', ''the imported-audio space is full'')
            else None))"

text \<open>
  The upload with nothing else happening between the checks and the attachment; \<open>calls_in\<close> counts the
  calls that now play the file.
\<close>

definition calls_in :: "dataset \<Rightarrow> audio_want list \<Rightarrow> nat" where
  "calls_in d ws =
     sum_list (map (\<lambda>w. case om_get (d_fams d) (wa_fam w) of
         None \<Rightarrow> 0 | Some F \<Rightarrow> length (filter (\<lambda>c. c_id c = wa_call w) (f_calls F))) ws)"

definition upload_audio :: "nat \<Rightarrow> string \<Rightarrow> string \<Rightarrow> model \<Rightarrow> model \<times> (string \<times> string) \<times> nat" where
  "upload_audio i name data m =
     (let base = import_audio_base name
      in case upload_check i base data m of
           Some e \<Rightarrow> (m, e, 0)
         | None \<Rightarrow>
             if \<not> m_disk_ok m then (m, (''failed'', ''could not write the file''), 0)
             else
               (let served = served_name i base; path = import_dir m i @ ''/'' @ served;
                    ia = om_at import_audio0 (m_import_audio m) i; ws = om_at [] (ia_want ia) base;
                    m1 = m\<lparr>m_files := om_put path data (m_files m)\<rparr>
                in if \<not> list_ex (\<lambda>d. d_id d = i) (m_imports m)
                   then (m, (''unknown'', ''the import was removed''), 0)
                   else (bump_version (m1\<lparr>m_import_audio := om_put i (ia\<lparr>ia_files := om_put served (length data) (ia_files ia)\<rparr>) (m_import_audio m),
                            m_imports := map (\<lambda>d. if d_id d = i then foldl (\<lambda>d w. plays served w d) d ws else d) (m_imports m)\<rparr>),
                         (''added'', ''added''),
                         sum_list (map (\<lambda>d. if d_id d = i then calls_in d ws else 0) (m_imports m)))))"

section \<open>Network merges\<close>

definition save_file :: "string \<Rightarrow> string \<Rightarrow> model \<Rightarrow> model" where
  "save_file path text m = (if path = [] \<or> \<not> m_disk_ok m then m else m\<lparr>m_files := om_put path text (m_files m)\<rparr>)"

definition merges_text :: "net_merges \<Rightarrow> string" where
  "merges_text mg = jt ''{`merges`:'' @ merges_json mg @ ''}'' @ nl"

definition save_merges :: "model \<Rightarrow> model" where
  "save_merges m = save_file (m_merges_file m) (merges_text (m_merges m)) m"

definition load_rule :: "string \<Rightarrow> net_merges \<Rightarrow> string \<times> jval \<Rightarrow> net_merges" where
  "load_rule fam mg kv = (case snd kv of JStr s \<Rightarrow> fst (merges_add mg fam (fst kv) s) | _ \<Rightarrow> mg)"

definition load_merges :: "(string \<times> jval) list \<Rightarrow> net_merges" where
  "load_merges ms = foldl (\<lambda>mg (fam, v). case v of JObj rs \<Rightarrow> foldl (load_rule fam) mg rs | _ \<Rightarrow> mg) [] ms"

text \<open>\<open>text\<close> is the file's contents, \<open>None\<close> when it cannot be read.\<close>

definition use_merges_file :: "string \<Rightarrow> string option \<Rightarrow> model \<Rightarrow> model \<times> bool" where
  "use_merges_file path contents m0 =
     (let m = m0\<lparr>m_merges_file := path\<rparr>
      in case contents of
           None \<Rightarrow> (m, False)
         | Some t \<Rightarrow>
             (case mj_parse t of
                Inr v \<Rightarrow>
                  (case v of
                     JObj _ \<Rightarrow>
                       (case v_get v ''merges'' of
                          Some (JObj ms) \<Rightarrow> (bump_version (m\<lparr>m_merges := load_merges ms\<rparr>), True)
                        | _ \<Rightarrow> (m, False))
                   | _ \<Rightarrow> (m, False))
              | Inl _ \<Rightarrow> (m, False)))"

definition forget_rule :: "string \<Rightarrow> string \<Rightarrow> dataset \<Rightarrow> dataset" where
  "forget_rule fam key x = x\<lparr>d_merges := om_modify fam (om_del key) (d_merges x)\<rparr>"

definition merge_networks :: "string \<Rightarrow> string \<Rightarrow> string \<Rightarrow> model \<Rightarrow> model \<times> bool" where
  "merge_networks fam src dst m =
     (case merges_add (m_merges m) fam src dst of
        (mg, ok) \<Rightarrow>
          if \<not> ok then (m, False)
          else (save_merges (bump_version (m\<lparr>m_merges := mg, m_imports := map (forget_rule fam src) (m_imports m)\<rparr>)), True))"

definition unmerge_network :: "string \<Rightarrow> string \<Rightarrow> model \<Rightarrow> model \<times> bool" where
  "unmerge_network fam key m =
     (case merges_remove (m_merges m) fam key of
        (mg, c) \<Rightarrow>
          (let rs = map (\<lambda>x. merges_remove (d_merges x) fam key) (m_imports m);
               imports = map (\<lambda>(x, r). x\<lparr>d_merges := fst r\<rparr>) (zip (m_imports m) rs)
           in if c \<or> list_ex snd rs
              then (save_merges (bump_version (m\<lparr>m_merges := mg, m_imports := imports\<rparr>)), True)
              else (m, False)))"

section \<open>Keys\<close>

definition keys_text :: "model \<Rightarrow> string" where
  "keys_text m =
     jt ''{`keys`:'' @ keyring_json (m_keys m) @ jt '',`bp`:'' @ bp_json (m_bp m) @ net_keys_json True (m_net_keys m) @ ''}'' @ nl"

definition save_keys :: "model \<Rightarrow> model" where
  "save_keys m = save_file (m_keys_file m) (keys_text m) m"

text \<open>The cast of a double to \<open>int\<close>; out of range it is undefined in C++ and here what x86-64 computes.\<close>

definition to_i32 :: "dbl \<Rightarrow> int" where
  "to_i32 d =
     (case d of
        DFin x \<Rightarrow> (let t = trunc_rat x in if - (2 ^ 31) \<le> t \<and> t < 2 ^ 31 then t else - (2 ^ 31))
      | _ \<Rightarrow> - (2 ^ 31))"

definition load_bp_entry :: "string \<Rightarrow> (string, (string, int) omap) omap \<Rightarrow> string \<times> jval \<Rightarrow> (string, (string, int) omap) omap" where
  "load_bp_entry fam bp p =
     (case snd p of
        JNum d \<Rightarrow>
          (let n = to_i32 d in if 1 \<le> n \<and> n \<le> 255 then om_put fam (om_put (fst p) n (om_at [] bp fam)) bp else bp)
      | _ \<Rightarrow> bp)"

definition load_bp :: "(string \<times> jval) list \<Rightarrow> (string, (string, int) omap) omap" where
  "load_bp ms = foldl (\<lambda>bp (fam, v). case v of JObj es \<Rightarrow> foldl (load_bp_entry fam) bp es | _ \<Rightarrow> bp) [] ms"

definition load_secret :: "string \<Rightarrow> string \<Rightarrow> net_secrets \<Rightarrow> string \<times> jval \<Rightarrow> net_secrets" where
  "load_secret kind fam s p =
     (case snd p of
        JStr v \<Rightarrow> (let k = net_key_norm kind v in if k = [] then s else om_put fam (om_put (fst p) k (om_at [] s fam)) s)
      | _ \<Rightarrow> s)"

definition net_secrets_parse :: "jval option \<Rightarrow> string \<Rightarrow> net_secrets" where
  "net_secrets_parse v kind =
     foldl (\<lambda>s (fam, e). case e of JObj es \<Rightarrow> foldl (load_secret kind fam) s es | _ \<Rightarrow> s) [] (j_obj v)"

definition load_net_keys :: "jval \<Rightarrow> (string, net_secrets) omap" where
  "load_net_keys v =
     foldl (\<lambda>acc k. let s = net_secrets_parse (v_get v (nk_id k)) (nk_id k) in if s = [] then acc else om_put (nk_id k) s acc)
       [] net_key_kinds"

definition use_keys_file :: "string \<Rightarrow> string option \<Rightarrow> model \<Rightarrow> model \<times> bool" where
  "use_keys_file path contents m0 =
     (let m = m0\<lparr>m_keys_file := path\<rparr>
      in case contents of
           None \<Rightarrow> (m, False)
         | Some t \<Rightarrow>
             (case mj_parse t of
                Inr (JObj ms) \<Rightarrow>
                  (m\<lparr>m_keys := keyring_parse (JObj ms), m_bp := load_bp (j_obj (v_get (JObj ms) ''bp'')),
                     m_net_keys := load_net_keys (JObj ms)\<rparr>, True)
              | _ \<Rightarrow> (m, False)))"

definition set_key :: "int \<Rightarrow> string \<Rightarrow> string \<Rightarrow> string \<Rightarrow> string \<Rightarrow> string \<Rightarrow> model \<Rightarrow> model \<times> bool" where
  "set_key now fam net kid alg val m =
     (case keyring_set fam net kid alg val now (m_keys m) of
        (r, ok) \<Rightarrow> if ok then (save_keys (bump_version (m\<lparr>m_keys := r\<rparr>)), True) else (m, False))"

definition remove_key :: "string \<Rightarrow> string \<Rightarrow> string \<Rightarrow> model \<Rightarrow> model \<times> bool" where
  "remove_key fam net kid m =
     (case keyring_remove fam net kid (m_keys m) of
        (r, ok) \<Rightarrow> if ok then (save_keys (bump_version (m\<lparr>m_keys := r\<rparr>)), True) else (m, False))"

definition set_bp :: "string \<Rightarrow> string \<Rightarrow> int \<Rightarrow> model \<Rightarrow> model \<times> bool" where
  "set_bp fam net n m =
     (if fam = [] \<or> net = [] \<or> n < 1 \<or> 255 < n then (m, False)
      else (save_keys (bump_version (m\<lparr>m_bp := om_put fam (om_put net n (om_at [] (m_bp m) fam)) (m_bp m)\<rparr>)), True))"

definition remove_bp :: "string \<Rightarrow> string \<Rightarrow> model \<Rightarrow> model \<times> bool" where
  "remove_bp fam net m =
     (case om_get (m_bp m) fam of
        None \<Rightarrow> (m, False)
      | Some nets \<Rightarrow>
          if \<not> om_has nets net then (m, False)
          else (let nets' = om_del net nets;
                    bp = (if nets' = [] then om_del fam (m_bp m) else om_put fam nets' (m_bp m))
                in (save_keys (bump_version (m\<lparr>m_bp := bp\<rparr>)), True)))"

definition first_on_freq :: "'v \<Rightarrow> int \<Rightarrow> (string, 'v) omap \<Rightarrow> 'v" where
  "first_on_freq d freq nets = (case find (\<lambda>p. net_on_freq (fst p) freq) nets of None \<Rightarrow> d | Some p \<Rightarrow> snd p)"

definition bp_for_freq :: "string \<Rightarrow> int \<Rightarrow> model \<Rightarrow> int" where
  "bp_for_freq fam freq m =
     (if freq \<le> 0 then 0 else (case om_get (m_bp m) fam of None \<Rightarrow> 0 | Some nets \<Rightarrow> first_on_freq 0 freq nets))"

definition erase_net_key :: "string \<Rightarrow> string \<Rightarrow> string \<Rightarrow> (string, net_secrets) omap \<Rightarrow> (string, net_secrets) omap \<times> bool" where
  "erase_net_key kind fam net ks =
     (case om_get ks kind of
        None \<Rightarrow> (ks, False)
      | Some s \<Rightarrow>
          (case om_get s fam of
             None \<Rightarrow> (ks, False)
           | Some nets \<Rightarrow>
               if \<not> om_has nets net then (ks, False)
               else (let nets' = om_del net nets; s' = (if nets' = [] then om_del fam s else om_put fam nets' s)
                     in (if s' = [] then om_del kind ks else om_put kind s' ks, True))))"

definition put_net_key :: "string \<Rightarrow> string \<Rightarrow> string \<Rightarrow> string \<Rightarrow> (string, net_secrets) omap \<Rightarrow> (string, net_secrets) omap" where
  "put_net_key kind fam net v ks =
     (let s = om_at [] ks kind in om_put kind (om_put fam (om_put net v (om_at [] s fam)) s) ks)"

definition drop_forced :: "string \<Rightarrow> string \<Rightarrow> string \<Rightarrow> (string, net_secrets) omap \<Rightarrow> (string, net_secrets) omap" where
  "drop_forced kind fam net ks =
     foldl (\<lambda>ks k. if nk_forced k \<and> nk_id k \<noteq> kind then fst (erase_net_key (nk_id k) fam net ks) else ks) ks net_key_kinds"

definition set_net_key :: "string \<Rightarrow> string \<Rightarrow> string \<Rightarrow> string \<Rightarrow> model \<Rightarrow> model \<times> bool" where
  "set_net_key kind fam net val m =
     (let v = net_key_norm kind val
      in case find_kind kind of
           None \<Rightarrow> (m, False)
         | Some k \<Rightarrow>
             if fam = [] \<or> net = [] \<or> v = [] then (m, False)
             else (let ks = (if nk_forced k then drop_forced kind fam net (m_net_keys m) else m_net_keys m)
                   in (save_keys (bump_version (m\<lparr>m_net_keys := put_net_key kind fam net v ks\<rparr>)), True)))"

definition remove_net_key :: "string \<Rightarrow> string \<Rightarrow> string \<Rightarrow> model \<Rightarrow> model \<times> bool" where
  "remove_net_key kind fam net m =
     (case erase_net_key kind fam net (m_net_keys m) of
        (ks, ok) \<Rightarrow> if ok then (save_keys (bump_version (m\<lparr>m_net_keys := ks\<rparr>)), True) else (m, False))"

definition net_key_for_freq :: "string \<Rightarrow> string \<Rightarrow> int \<Rightarrow> model \<Rightarrow> string" where
  "net_key_for_freq kind fam freq m =
     (if freq \<le> 0 then []
      else (case om_get (m_net_keys m) kind of
          None \<Rightarrow> []
        | Some s \<Rightarrow> (case om_get s fam of None \<Rightarrow> [] | Some nets \<Rightarrow> first_on_freq [] freq nets)))"

definition forced_net_key_for_freq :: "string \<Rightarrow> int \<Rightarrow> model \<Rightarrow> string \<times> string" where
  "forced_net_key_for_freq fam freq m =
     (case find (\<lambda>k. nk_forced k \<and> net_key_for_freq (nk_id k) fam freq m \<noteq> []) net_key_kinds of
        None \<Rightarrow> ([], [])
      | Some k \<Rightarrow> (nk_id k, net_key_for_freq (nk_id k) fam freq m))"

definition keys_csv_family :: "string \<Rightarrow> model \<Rightarrow> string" where
  "keys_csv_family fam m = keyring_csv_family (m_keys m) fam"

text \<open>One row per 8-bit key id for the EP key, before the keyring's own rows.\<close>

definition hex_upper :: "nat \<Rightarrow> char" where
  "hex_upper d = to_upper (hex_digit d)"

definition keys_csv_stream :: "string \<Rightarrow> string \<Rightarrow> model \<Rightarrow> string" where
  "keys_csv_stream fam ep m =
     (let csv = keys_csv_family fam m; hdr = ''KEY ID,KEY'' @ nl
      in if ep = [] then csv
         else hdr @ concat (map (\<lambda>k. [hex_upper (k div 16), hex_upper (k mod 16)] @ '','' @ ep @ nl) [0..<256]) @
              drop (if starts_with csv hdr then length hdr else 0) csv)"

definition keys_csv :: "string \<Rightarrow> string \<Rightarrow> model \<Rightarrow> string" where
  "keys_csv fam net m = keyring_csv (m_keys m) fam net"

definition net_key_values_json :: "string \<Rightarrow> string \<Rightarrow> model \<Rightarrow> string" where
  "net_key_values_json fam net m = jmap (\<lambda>e. jq (ke_value e)) (om_at [] (om_at [] (m_keys m) fam) net)"

definition keys_count_family :: "string \<Rightarrow> model \<Rightarrow> nat" where
  "keys_count_family fam m =
     sum_list (map (\<lambda>(f, nets). if fam \<noteq> [] \<and> f \<noteq> fam then 0 else sum_list (map (\<lambda>p. length (snd p)) nets)) (m_keys m))"

definition keys_count :: "model \<Rightarrow> nat" where
  "keys_count m = keys_count_family [] m"

end
