(* ===== verification/Assoc_Invariants.thy ===== *)
theory Assoc_Invariants
  imports Assoc_Audio Assoc_Admin
begin

text \<open>
  Invariants of the association model. What every operation of the model keeps of a family is stated
  once, as a contract the operations on one family must honour (\<open>family_contract\<close>); every operation of
  the model then keeps it, in whatever order they come. The contract is interpreted three times: the tables
  and histories of a family are bounded, every entity is filed under its own key, and no two calls of a family
  have the same number.
\<close>

section \<open>Access\<close>

text \<open>What holds of every family, given the number of the last call.\<close>

definition all_fams :: "(nat \<Rightarrow> family \<Rightarrow> bool) \<Rightarrow> model \<Rightarrow> bool" where
  "all_fams P m \<longleftrightarrow> om_wf (m_fams m) \<and> list_all (\<lambda>(_, F). P (m_next_call m) F) (m_fams m)"

lemma all_fams_cong: "m_fams m' = m_fams m \<Longrightarrow> m_next_call m' = m_next_call m \<Longrightarrow> all_fams P m' = all_fams P m"
  by (simp add: all_fams_def)

lemma all_fams_rest [simp]:
  "all_fams P (upd_ctx sid f m) = all_fams P m" "all_fams P (record_line l t m) = all_fams P m"
  "all_fams P (bump_version m) = all_fams P m" "all_fams P (feed_quality fam ev i m) = all_fams P m"
  "all_fams P (m\<lparr>m_audio := a\<rparr>) = all_fams P m" "all_fams P (m\<lparr>m_quality := q\<rparr>) = all_fams P m"
  "all_fams P (m\<lparr>m_sess := ss\<rparr>) = all_fams P m"
  "all_fams P (m\<lparr>m_version := n\<rparr>) = all_fams P m" "all_fams P (m\<lparr>m_rec := r\<rparr>) = all_fams P m"
  by (simp_all add: all_fams_def upd_ctx_def record_line_def bump_version_def feed_quality_def)

lemma next_call_rest [simp]:
  "m_next_call (upd_ctx sid f m) = m_next_call m" "m_next_call (record_line l t m) = m_next_call m"
  "m_next_call (set_fam fam F m) = m_next_call m" "m_next_call (upd_fam fam g m) = m_next_call m"
  "m_next_call (feed_quality fam ev i m) = m_next_call m"
  by (simp_all add: upd_ctx_def record_line_def set_fam_def upd_fam_def feed_quality_def)

lemma all_fams_get: "all_fams P m \<Longrightarrow> om_get (m_fams m) fam = Some F \<Longrightarrow> P (m_next_call m) F"
  by (auto simp: all_fams_def list_all_iff dest: map_of_SomeD)

lemma all_fams_of: "all_fams P m \<Longrightarrow> P (m_next_call m) family0 \<Longrightarrow> P (m_next_call m) (fam_of m fam)"
  by (auto simp: fam_of_def om_at_def dest: all_fams_get split: option.split)

lemma all_fams_set: "all_fams P m \<Longrightarrow> P (m_next_call m) F \<Longrightarrow> all_fams P (set_fam fam F m)"
  by (auto simp: all_fams_def set_fam_def intro!: om_put_all [of "\<lambda>_. P (m_next_call m)"])

lemma all_fams_upd: "all_fams P m \<Longrightarrow> P (m_next_call m) (g (fam_of m fam)) \<Longrightarrow> all_fams P (upd_fam fam g m)"
  by (simp add: upd_fam_def all_fams_set)

lemma fam_of_upd: "all_fams P m \<Longrightarrow> fam_of (upd_fam fam g m) fam = g (fam_of m fam)"
  by (simp add: fam_of_def upd_fam_def set_fam_def om_at_def om_get_put all_fams_def)

lemma fam_of_set: "all_fams P m \<Longrightarrow> fam_of (set_fam fam F m) fam = F"
  by (simp add: fam_of_def set_fam_def om_at_def om_get_put all_fams_def)

lemma fam_of_sess [simp]: "fam_of (m\<lparr>m_sess := ss\<rparr>) fam = fam_of m fam"
  by (simp add: fam_of_def)

lemma merge_family_keeps:
  "om_has (fm_networks F) new \<Longrightarrow> old \<noteq> new \<Longrightarrow> om_has (fm_networks (merge_family_networks old new F)) new"
  by (auto simp: merge_family_networks_def om_has_iff om_del_keys om_put_keys split: option.split)

lemma ctx_of_upd: "om_has (m_sess m) sid \<Longrightarrow> ctx_of (upd_ctx sid f m) sid = f (ctx_of m sid)"
  by (auto simp: ctx_of_def upd_ctx_def om_at_def om_get_modify om_has_def)

lemma m_sess_upd [simp]: "m_sess (upd_fam fam g m) = m_sess m" "m_sess (set_fam fam F m) = m_sess m"
  by (simp_all add: upd_fam_def set_fam_def)

lemma om_has_upd_ctx [simp]: "om_has (m_sess (upd_ctx sid f m)) s = om_has (m_sess m) s"
  by (simp add: upd_ctx_def om_has_def om_get_modify)

lemma fam_of_upd_ctx [simp]: "fam_of (upd_ctx sid f m) fam = fam_of m fam"
  by (simp add: fam_of_def upd_ctx_def)

section \<open>Operations that leave the calls alone\<close>

named_theorems calls_kept \<open>the calls of a family after an operation on its other entities\<close>

lemma calls_upd [calls_kept, simp]:
  "fm_calls (upd_radio a f F) = fm_calls F" "fm_calls (upd_tg a g F) = fm_calls F"
  "fm_calls (upd_network a h F) = fm_calls F" "fm_calls (ensure_radio a now F) = fm_calls F"
  "fm_calls (ensure_tg a now F) = fm_calls F" "fm_calls (ensure_network a now F) = fm_calls F"
  "fm_calls (touch_radio a net alias now F) = fm_calls F" "fm_calls (drop_network a F) = fm_calls F"
  by (simp_all add: upd_radio_def upd_tg_def upd_network_def ensure_radio_def ensure_tg_def ensure_network_def
      touch_radio_def drop_network_def)

lemma calls_enc_counts [calls_kept, simp]:
  "fm_calls (fst (note_enc_counts (F, k))) = fm_calls F" "k_id (snd (note_enc_counts (F, k))) = k_id k"
  "k_session (snd (note_enc_counts (F, k))) = k_session k" "k_open (snd (note_enc_counts (F, k))) = k_open k"
  by (simp_all add: note_enc_counts_def Let_def)

lemma calls_count [calls_kept, simp]:
  "fm_calls (fst (count_call now (F, k))) = fm_calls F" "k_id (snd (count_call now (F, k))) = k_id k"
  "k_session (snd (count_call now (F, k))) = k_session k" "k_open (snd (count_call now (F, k))) = k_open k"
  by (simp_all add: count_call_def Let_def del: One_nat_def)

lemma calls_private [calls_kept, simp]:
  "fm_calls (fst (set_private now (F, k))) = fm_calls F" "k_id (snd (set_private now (F, k))) = k_id k"
  by (simp_all add: set_private_def Let_def split: option.split)

lemma calls_service [calls_kept, simp]:
  "fm_calls (fst (note_service x now (F, k))) = fm_calls F" "k_id (snd (note_service x now (F, k))) = k_id k"
  by (simp_all add: note_service_def Let_def split: option.split)

lemma calls_encrypted [calls_kept, simp]:
  "fm_calls (fst (note_encrypted x (F, k))) = fm_calls F" "k_id (snd (note_encrypted x (F, k))) = k_id k"
  by (simp_all add: note_encrypted_def Let_def split: option.split)

lemma keep_kept [simp]:
  "m_fams (fst (set_keep fam on now (m, k))) = m_fams m" "k_id (snd (set_keep fam on now (m, k))) = k_id k"
  "k_session (snd (set_keep fam on now (m, k))) = k_session k" "k_open (snd (set_keep fam on now (m, k))) = k_open k"
  by (simp_all add: set_keep_def record_line_def)

lemma close_quality_kept [simp]:
  "m_fams (fst (close_quality (m, k))) = m_fams m" "k_id (snd (close_quality (m, k))) = k_id k"
  "k_session (snd (close_quality (m, k))) = k_session k" "k_open (snd (close_quality (m, k))) = k_open k"
  by (simp_all add: close_quality_def split: option.split)

lemma close_audio_kept [simp]:
  "m_fams (fst (close_audio fam (m, k))) = m_fams m" "k_id (snd (close_audio fam (m, k))) = k_id k"
  "k_session (snd (close_audio fam (m, k))) = k_session k" "k_open (snd (close_audio fam (m, k))) = k_open k"
  by (simp_all add: close_audio_def)

text \<open>An operation on a call leaves its id alone.\<close>

lemma call_ids [simp]:
  "k_id (snd (note_service x now st)) = k_id (snd st)" "k_id (snd (note_encrypted x st)) = k_id (snd st)"
  "k_id (snd (set_private now st)) = k_id (snd st)" "k_id (snd (count_call now st)) = k_id (snd st)"
  "k_id (snd (set_keep fam on now mst)) = k_id (snd mst)"
  by (cases st; simp)+ (cases mst; simp)

lemma close_counts_id: "k_id (snd (close_counts fam (m, k))) = k_id k"
  by (simp add: close_counts_def split_def)

lemma close_call_id: "k_id (snd (close_call fam (m, k))) = k_id k"
proof -
  obtain m1 k1 where 1: "close_quality (m, k\<lparr>k_open := False\<rparr>) = (m1, k1)" by fastforce
  obtain m2 k2 where 2: "close_audio fam (m1, k1) = (m2, k2)" by fastforce
  have "k_id k2 = k_id k"
    using close_quality_kept(2) [of m "k\<lparr>k_open := False\<rparr>"] close_audio_kept(2) [of fam m1 k1] by (simp add: 1 2)
  then show ?thesis by (simp add: close_call_def 1 2 close_counts_id)
qed

lemma fold_ids [simp]:
  "k_id (fold_voice ev f k) = k_id k" "k_id (fold_parties f k) = k_id k" "k_id (fold_text c ev f k) = k_id k"
  "k_id (twin_joined k dup) = k_id k"
  by (simp_all add: fold_voice_def fold_parties_def fold_text_def twin_joined_def)

lemma fold_event_id: "k_id (snd (fold_event c ev f now (F, k))) = k_id k"
  by (simp add: fold_event_def Let_def split_def)

lemma refine_id:
  "k_id (snd (case (if p then set_private now (F, k) else (F, k)) of (F, k) \<Rightarrow>
     (let k1 = (if e then k\<lparr>k_emerg := True\<rparr> else k)
      in note_service x now (if c then note_encrypted x (F, k1) else (F, k1))))) = k_id k"
  by (simp add: split_def Let_def)

lemma add_samples_id: "k_id (snd (add_samples xs now st)) = k_id (snd st)"
  by (simp add: add_samples_def split: prod.split)

lemma open_audio_id:
  assumes "open_audio can fam sid slot xs now (m, k) = Some st"
  shows "k_id (snd st) = k_id k"
proof -
  have adds: "k_id (snd (foldl (\<lambda>st h. add_samples (pr_pcm h) now st) st hs)) = k_id (snd st)" for st :: "model \<times> call" and hs
    by (rule foldl_inv [where I = "\<lambda>t. k_id (snd t) = k_id (snd st)"]) (simp_all add: add_samples_id)
  show ?thesis using assms by (simp add: open_audio_def Let_def split: if_splits prod.splits) (auto simp: adds)
qed

lemma write_audio_id: "k_id (snd (fst (write_audio can fam sid slot xs keyed now (m, k)))) = k_id k"
proof -
  have "k_id (snd (refuse_audio fam now (m, k))) = k_id k" by (simp add: refuse_audio_def)
  then show ?thesis using open_audio_id
    by (auto simp: write_audio_def Let_def add_samples_id split: option.split)
qed

lemma drop_call_subseq: "subseq (map k_id (drop_call i ks)) (map k_id ks)"
  by (induction ks) auto

lemma find_call_id: "find_call F i = Some k \<Longrightarrow> k_id k = i"
  by (auto simp: find_call_def find_Some_iff)

section \<open>The contract\<close>

definition note_ended :: "call \<Rightarrow> family \<Rightarrow> family" where
  "note_ended k F =
     upd_tg (k_tgt k)
       (\<lambda>t. t\<lparr>tg_emerg := (if k_emerg k then tg_emerg t + 1 else tg_emerg t),
              tg_enc := (if k_enc k then tg_enc t + 1 else tg_enc t)\<rparr>) F"

definition seen_network :: "string \<Rightarrow> (network \<Rightarrow> network) \<Rightarrow> family \<Rightarrow> family" where
  "seen_network k f F = F\<lparr>fm_networks := om_put k (f (om_at network0 (fm_networks F) k)) (fm_networks F)\<rparr>"

definition heard_network :: "nat \<Rightarrow> ctx \<Rightarrow> int \<Rightarrow> network \<Rightarrow> network" where
  "heard_network sid c now n =
     n\<lparr>nw_last := now, nw_first := (if nw_first n = 0 then now else nw_first n),
       nw_sessions := os_put sid (nw_sessions n),
       nw_sites := (if cx_site c \<noteq> [] then os_put (cx_site c) (nw_sites n) else nw_sites n),
       nw_freqs := (if cx_freq c \<noteq> 0 \<and> length (nw_freqs n) < kMaxFreqs then os_put (cx_freq c) (nw_freqs n)
                    else nw_freqs n)\<rparr>"

definition label_network :: "bool \<Rightarrow> net_id \<Rightarrow> (string, string) omap \<Rightarrow> network \<Rightarrow> network" where
  "label_network strong i ids n =
     (let n1 = (if nw_label n = [] \<or> (strong \<and> nw_conf n \<noteq> ''strong'')
                then n\<lparr>nw_label := ni_label i, nw_conf := ni_conf i\<rparr> else n)
      in n1\<lparr>nw_ids := foldl (\<lambda>a (k, v). om_put k v a) (nw_ids n1) ids\<rparr>)"

text \<open>\<open>P n F\<close> speaks of a family when the last call opened had the number \<open>n\<close>.\<close>

locale family_contract =
  fixes P :: "nat \<Rightarrow> family \<Rightarrow> bool"
  assumes empty: "P n family0"
    and calls: "P n F \<Longrightarrow> subseq (map k_id cs) (map k_id (fm_calls F)) \<Longrightarrow> P n (F\<lparr>fm_calls := cs\<rparr>)"
    and opened: "P n F \<Longrightarrow> k_id k = Suc n \<Longrightarrow> P (Suc n) (F\<lparr>fm_calls := fm_calls F @ [k]\<rparr>)"
    and more: "P n F \<Longrightarrow> P (Suc n) F"
    and touch: "P n F \<Longrightarrow> P n (touch_radio i net alias now F)"
    and service: "P n F \<Longrightarrow> P n (fst (note_service x now (F, k)))"
    and enc_counts: "P n F \<Longrightarrow> P n (fst (note_enc_counts (F, k)))"
    and counted: "P n F \<Longrightarrow> P n (fst (count_call now (F, k)))"
    and made_private: "P n F \<Longrightarrow> P n (fst (set_private now (F, k)))"
    and ended: "P n F \<Longrightarrow> P n (note_ended k F)"
    and site: "P n F \<Longrightarrow> P n (upd_network key (\<lambda>n. n\<lparr>nw_sites := newer n\<rparr>) F)"
    and labelled: "P n F \<Longrightarrow> P n (upd_network key (label_network strong given ids) (ensure_network key now F))"
    and heard: "P n F \<Longrightarrow> om_has (fm_networks F) key \<Longrightarrow> P n (seen_network key (heard_network sid c now) F)"
    and merged: "P n F \<Longrightarrow> P n (merge_family_networks old new F)"
    and dropped: "P n F \<Longrightarrow> P n (drop_network key F)"
begin

abbreviation ok :: "model \<Rightarrow> bool" where "ok \<equiv> all_fams P"

lemma of_ok: "ok m \<Longrightarrow> P (m_next_call m) (fam_of m fam)"
  using all_fams_of empty by blast

lemma same_calls: "P n F \<Longrightarrow> map k_id cs = map k_id (fm_calls F) \<Longrightarrow> P n (F\<lparr>fm_calls := cs\<rparr>)"
  by (rule calls) simp_all

lemma put_call_ok: "P n F \<Longrightarrow> k_id k = i \<Longrightarrow> P n (put_call i k F)"
  unfolding put_call_def by (rule same_calls) auto

lemma on_call_ok:
  "P n F \<Longrightarrow> (\<And>k. P n (fst (f (F, k)))) \<Longrightarrow> (\<And>k. k_id (snd (f (F, k))) = k_id k) \<Longrightarrow> P n (on_call i f F)"
  by (auto simp: on_call_def split_def find_call_id intro!: put_call_ok split: option.split)

lemma upd_on_call_ok:
  "ok m \<Longrightarrow> (\<And>n F k. P n F \<Longrightarrow> P n (fst (f (F, k)))) \<Longrightarrow> (\<And>F k. k_id (snd (f (F, k))) = k_id k) \<Longrightarrow>
   ok (upd_fam fam (on_call i f) m)"
  by (simp add: all_fams_upd on_call_ok of_ok)

lemma drop_call_ok: "ok m \<Longrightarrow> ok (upd_fam fam (\<lambda>F. F\<lparr>fm_calls := drop_call i (fm_calls F)\<rparr>) m)"
  by (intro all_fams_upd calls drop_call_subseq of_ok)

lemma upd_put_ok: "ok m \<Longrightarrow> k_id k = i \<Longrightarrow> ok (upd_fam fam (put_call i k) m)"
  by (intro all_fams_upd put_call_ok of_ok)

lemma with_call_ok:
  "ok m \<Longrightarrow> (\<And>k. ok (fst (f (m, k)))) \<Longrightarrow> (\<And>k. k_id (snd (f (m, k))) = k_id k) \<Longrightarrow> ok (with_call fam i f m)"
  by (auto simp: with_call_def split_def find_call_id intro!: all_fams_upd put_call_ok of_ok split: option.split)

lemma set_keep_ok: "ok (fst (set_keep fam on now (m, k))) = ok m"
  by (simp add: set_keep_def)

lemma close_quality_ok: "ok (fst (close_quality (m, k))) = ok m"
  by (simp add: close_quality_def split: option.split)

lemma close_audio_ok: "ok (fst (close_audio fam (m, k))) = ok m"
  by (simp add: close_audio_def set_keep_ok)

lemma close_counts_ok: "ok m \<Longrightarrow> ok (fst (close_counts fam (m, k)))"
proof -
  assume m: "ok m"
  define st where "st = (if \<not> k_counted k \<and> k_src k = [] \<and> k_tgt k \<noteq> [] \<and> k_voice k \<and> \<not> k_data k
               then count_call (k_last k) (fam_of m fam, k) else (fam_of m fam, k))"
  have "P (m_next_call m) (fst st)" using m by (simp add: st_def counted of_ok)
  then show ?thesis
    using m by (cases st) (simp add: close_counts_def flip: st_def note_ended_def, simp add: all_fams_set ended)
qed

lemma close_call_ok: "ok m \<Longrightarrow> ok (fst (close_call fam (m, k)))"
proof -
  assume m: "ok m"
  obtain m1 k1 where 1: "close_quality (m, k\<lparr>k_open := False\<rparr>) = (m1, k1)" by fastforce
  obtain m2 k2 where 2: "close_audio fam (m1, k1) = (m2, k2)" by fastforce
  have "ok m2" using m close_quality_ok [of m "k\<lparr>k_open := False\<rparr>"] close_audio_ok [of fam m1 k1] by (simp add: 1 2)
  with m show ?thesis by (simp add: close_call_def 1 2 close_counts_ok)
qed

lemma close_id_ok: "ok m \<Longrightarrow> ok (close_id fam i m)"
  by (simp add: close_id_def with_call_ok close_call_ok close_call_id)

lemma close_ids_ok: "ok m \<Longrightarrow> ok (close_ids fam is m)"
  unfolding close_ids_def by (rule foldl_inv) (auto intro: close_id_ok)

lemma make_room_ok: "ok m \<Longrightarrow> ok (make_room fam m)"
  by (auto simp: make_room_def drop_call_ok close_id_ok split: option.split)

lemma open_call_ok: "ok m \<Longrightarrow> ok (fst (open_call sid fam slot now m))"
proof -
  assume m: "ok m"
  define m1 where "m1 = (if slot = [] then m
                else (case fresh_call (ctx_of m sid) (fam_of m fam) slot now of None \<Rightarrow> m | Some i \<Rightarrow> close_id fam i m))"
  have "ok m1" using m by (auto simp: m1_def intro: close_id_ok split: option.split)
  then have room: "ok (make_room fam m1)" by (rule make_room_ok)
  let ?n = "m_next_call (make_room fam m1)"
  have numbered: "ok ((make_room fam m1)\<lparr>m_next_call := Suc ?n\<rparr>)"
    using room by (auto simp: all_fams_def list_all_iff intro: more)
  have fam: "fam_of ((make_room fam m1)\<lparr>m_next_call := Suc ?n\<rparr>) fam = fam_of (make_room fam m1) fam"
    by (simp add: fam_of_def)
  have "ok (upd_fam fam (\<lambda>F. F\<lparr>fm_calls := fm_calls F @ [k]\<rparr>) ((make_room fam m1)\<lparr>m_next_call := Suc ?n\<rparr>))"
    if "k_id k = Suc ?n" for k
    by (rule all_fams_upd [OF numbered]) (use opened [OF of_ok [OF room] that] in \<open>simp add: fam\<close>)
  then show ?thesis
    unfolding open_call_def Let_def m1_def [symmetric] fst_conv all_fams_rest by (simp add: Suc_eq_plus1 [symmetric])
qed

lemma expire_ok: "ok m \<Longrightarrow> ok (expire sid fam now m)"
proof -
  assume "ok m"
  then have "ok (fst (foldl (expire_step fam now) (m, []) ps))" for ps
    by (intro foldl_inv [where I = "\<lambda>st. ok (fst st)"])
       (auto simp: expire_step_def intro: close_id_ok split: prod.split option.split)
  then show ?thesis by (simp add: expire_def split_def)
qed

lemma close_session_ok: "ok m \<Longrightarrow> ok (close_session_calls sid m)"
  by (simp add: close_session_calls_def close_ids_ok split: option.split)

lemma adopt_twin_ok: "ok m \<Longrightarrow> ok (adopt_twin sid fam dup tw slot m)"
  unfolding adopt_twin_def Let_def
  by (rule upd_on_call_ok) (simp_all add: drop_call_ok upd_put_ok enc_counts)


lemma absorb_identity_ok:
  "P n F \<Longrightarrow> absorb_identity ev x up (c, Some F) = ((c', Some F'), changed) \<Longrightarrow> P n F'"
  using site [of n F "cx_net c" "\<lambda>n. os_put (site_label (cx_family c) (line_tokens (cx_family c) ev x)) (nw_sites n)"]
  by (auto simp: absorb_identity_def Let_def intro: site split: if_splits prod.splits)

lemma merge_live_ok: "ok m \<Longrightarrow> ok (merge_network_live fam old new m)"
  by (auto simp: merge_network_live_def intro!: all_fams_upd merged of_ok)

lemma resolve_ok: "ok m \<Longrightarrow> ok (resolve_network sid fam now m)"
proof -
  assume m: "ok m"
  let ?c = "ctx_of m sid"
  let ?i = "stream_id ?c sid (fam_of m fam)" and ?s = "ni_conf (derive (cx_family ?c) (cx_ids ?c)) = ''strong''"
  define m1 where "m1 = upd_fam fam (\<lambda>F. upd_network (ni_key ?i) (label_network ?s ?i (cx_ids ?c)) (ensure_network (ni_key ?i) now F)) m"
  have "ok m1" unfolding m1_def by (intro all_fams_upd m labelled of_ok)
  then show ?thesis
    unfolding resolve_network_def Let_def label_network_def [symmetric, unfolded Let_def] m1_def [symmetric]
    by (auto simp: merge_live_ok split: option.split)
qed

lemma note_network_ok:
  "ok m \<Longrightarrow> om_has (fm_networks (fam_of m fam)) (cx_net (ctx_of m sid)) \<Longrightarrow> ok (note_network sid fam now m)"
proof -
  assume m: "ok m" "om_has (fm_networks (fam_of m fam)) (cx_net (ctx_of m sid))"
  have "note_network sid fam now m =
      upd_fam fam (seen_network (cx_net (ctx_of m sid)) (heard_network sid (ctx_of m sid) now)) m"
    by (simp only: note_network_def Let_def seen_network_def [abs_def] heard_network_def)
  with m show ?thesis by (simp add: all_fams_upd heard of_ok)
qed


lemma keep_call_ok: "ok (fst st) \<Longrightarrow> ok (fst (settle_call sid fam ev f now st))"
  by (auto simp: settle_call_def Let_def split_def intro: close_id_ok split: option.split)

lemma pick_call_ok: "ok m \<Longrightarrow> ok (fst (pick_call sid fam f now m))"
  by (auto simp: pick_call_def Let_def adopt_slot_def intro!: all_fams_upd put_call_ok of_ok split: option.split)

lemma start_call_ok: "ok (fst st) \<Longrightarrow> ok (fst (start_call sid fam ev f now st))"
  using open_call_ok [of "fst st" sid fam "ft_slot f" now]
  by (auto simp: start_call_def split_def split: option.split)

lemma note_encrypted_ok: "P n F \<Longrightarrow> P n (fst (note_encrypted x (F, k)))"
  by (simp add: note_encrypted_def Let_def enc_counts)

lemma fold_event_ok: "P n F \<Longrightarrow> P n (fst (fold_event c ev f now (F, k)))"
proof -
  assume F: "P n F"
  define k2 where "k2 = (if ft_data f then (fold_voice ev f (fold_parties f k))\<lparr>k_data := True\<rparr> else fold_voice ev f (fold_parties f k))"
  obtain F3 k3 where 3: "note_service (ft_x f) now (F, k2) = (F3, k3)" by fastforce
  obtain F4 k4 where 4: "(if ft_enc f then note_encrypted (ft_x f) (F3, fold_text c ev f k3) else (F3, fold_text c ev f k3)) = (F4, k4)"
    by fastforce
  have "P n F3" using service [OF F, of "ft_x f" now k2] by (simp add: 3)
  then have "P n F4" using note_encrypted_ok [of n F3 "ft_x f" "fold_text c ev f k3"] 4 by (auto split: if_splits)
  then show ?thesis
    by (simp add: fold_event_def Let_def 3 4 made_private flip: k2_def)
qed

lemma settle_count_ok: "ok m \<Longrightarrow> ok (settle_count sid fam f now i m)"
  by (auto simp: settle_count_def Let_def intro!: upd_on_call_ok adopt_twin_ok counted split: option.split)

lemma apply_event_ok: "ok m \<Longrightarrow> ok (apply_event sid fam ev f now i m)"
  unfolding apply_event_def Let_def
  by (intro settle_count_ok) (auto intro!: upd_on_call_ok fold_event_ok simp: fold_event_id)

lemma refine_call_ok: "ok m \<Longrightarrow> ok (refine_call sid fam f now m)"
proof -
  have "P n (fst (note_service x now (if ft_enc f then note_encrypted x (F, k) else (F, k))))" if "P n F" for n x F k
    using that note_encrypted_ok [of n F x k] service by (cases "note_encrypted x (F, k)") auto
  moreover have "P n (fst (if ft_priv f then set_private now (F, k) else (F, k)))" if "P n F" for n F k
    using that made_private by simp
  ultimately have p: "P n (fst (case (if ft_priv f then set_private now (F, k) else (F, k)) of (F, k) \<Rightarrow>
      (let k1 = (if ft_emerg f then k\<lparr>k_emerg := True\<rparr> else k)
       in note_service (ft_x f) now (if ft_enc f then note_encrypted (ft_x f) (F, k1) else (F, k1)))))" if "P n F" for n F k
    using that by (auto simp: Let_def split_def)
  show "ok m \<Longrightarrow> ?thesis"
    by (auto simp: refine_call_def intro!: upd_on_call_ok p refine_id split: option.split)
qed

lemma end_talk_ok: "ok m \<Longrightarrow> ok (end_talk sid fam f now m)"
  by (auto simp: end_talk_def intro!: upd_on_call_ok split: option.split)

lemma handle_call_ok: "ok m \<Longrightarrow> ok (handle_call sid fam ev f now m)"
proof -
  assume m: "ok m"
  define m1 where "m1 = (if ft_src f \<noteq> [] then upd_fam fam (touch_radio (ft_src f) (cx_net (ctx_of m sid)) (ev_alias ev) now) m else m)"
  have "ok m1" using m by (auto simp: m1_def intro!: all_fams_upd touch of_ok)
  then have "ok (fst (start_call sid fam ev f now (settle_call sid fam ev f now (pick_call sid fam f now m1))))"
    by (intro start_call_ok keep_call_ok pick_call_ok)
  with \<open>ok m1\<close> show ?thesis
    by (auto simp: handle_call_def Let_def intro: apply_event_ok split: prod.split option.split simp flip: m1_def)
qed


text \<open>The stream's network is on file before the stream's line is noted on it.\<close>

lemma resolve_present:
  assumes m: "ok m" and s: "om_has (m_sess m) sid"
  shows "om_has (fm_networks (fam_of (resolve_network sid fam now m) fam)) (cx_net (ctx_of (resolve_network sid fam now m) sid))"
proof -
  let ?c = "ctx_of m sid"
  let ?i = "stream_id ?c sid (fam_of m fam)" and ?s = "ni_conf (derive (cx_family ?c) (cx_ids ?c)) = ''strong''"
  define m1 where "m1 = upd_fam fam (\<lambda>F. upd_network (ni_key ?i) (label_network ?s ?i (cx_ids ?c)) (ensure_network (ni_key ?i) now F)) m"
  define m2 where "m2 = (if cx_net ?c = [] \<or> cx_net ?c = ni_key ?i then m1
                else (case om_get (fm_networks (fam_of m1 fam)) (cx_net ?c) of
                    None \<Rightarrow> m1
                  | Some pn \<Rightarrow>
                      if nw_sessions pn = [] \<or> nw_sessions pn = [sid] \<or> refines (cx_family ?c) (cx_ids ?c) (nw_ids pn) \<or>
                         (cx_freq ?c \<noteq> 0 \<and> cx_net ?c = ''ch@'' @ int_dec (cx_freq ?c))
                      then merge_network_live fam (cx_net ?c) (ni_key ?i) m1 else m1))"
  have ok1: "ok m1" unfolding m1_def by (intro all_fams_upd m labelled of_ok)
  have h1: "om_has (fm_networks (fam_of m1 fam)) (ni_key ?i)"
    by (simp add: m1_def fam_of_upd [OF m] upd_network_def ensure_network_def ensure_def om_has_iff om_modify_keys om_put_keys)
  have h2: "om_has (fm_networks (fam_of (merge_network_live fam p (ni_key ?i) m1) fam)) (ni_key ?i)" if "p \<noteq> ni_key ?i" for p
    using h1 that by (simp add: merge_network_live_def fam_of_upd [OF ok1] merge_family_keeps)
  have "resolve_network sid fam now m = upd_ctx sid (\<lambda>c. c\<lparr>cx_net := ni_key ?i, cx_strong := ?s\<rparr>) m2"
    unfolding resolve_network_def Let_def label_network_def [symmetric, unfolded Let_def] m1_def [symmetric] m2_def by (rule refl)
  moreover have "om_has (fm_networks (fam_of m2 fam)) (ni_key ?i)"
    using h1 h2 by (auto simp: m2_def split: option.split)
  moreover have "om_has (m_sess m2) sid"
    using s by (auto simp: m2_def m1_def merge_network_live_def om_has_def om_get_map split: option.split)
  ultimately show ?thesis by (simp add: ctx_of_upd)
qed

lemma ingest_live_ok:
  assumes m: "ok m0" and s: "om_has (m_sess m0) sid"
  shows "ok (ingest_live sid ev now m0)"
proof -
  define fam f m1 where "fam = cx_family (ctx_of m0 sid)" and "f = facts_of ev" and "m1 = m0\<lparr>m_version := m_version m0 + 1\<rparr>"
  obtain c Fo changed where a: "absorb_identity ev (ft_x f) (ft_up f) (ctx_of m1 sid, Some (fam_of m1 fam)) = ((c, Fo), changed)"
    by (metis prod.collapse)
  define m2 where "m2 = upd_ctx sid (\<lambda>_. c) (set_fam fam (case Fo of Some F \<Rightarrow> F | None \<Rightarrow> fam_of m1 fam) m1)"
  define m3 where "m3 = (if changed \<or> cx_net c = [] \<or> \<not> om_has (fm_networks (fam_of m2 fam)) (cx_net c)
                      then resolve_network sid fam now m2 else m2)"
  have ok1: "ok m1" and s1: "om_has (m_sess m1) sid" using m s by (simp_all add: m1_def)
  then have ok2: "ok m2" and s2: "om_has (m_sess m2) sid" and c2: "ctx_of m2 sid = c"
    using absorb_identity_ok [OF of_ok [OF ok1]] a
    by (auto simp: m2_def ctx_of_upd intro!: all_fams_set of_ok split: option.split)
  then have "ok m3" "om_has (fm_networks (fam_of m3 fam)) (cx_net (ctx_of m3 sid))"
    by (auto simp: m3_def resolve_ok resolve_present)
  then have "ok (expire sid fam now (note_network sid fam now m3))"
    by (intro expire_ok note_network_ok)
  moreover have "ingest_live sid ev now m0 = (let m4 = expire sid fam now (note_network sid fam now m3)
      in if is_roster (ft_up f) then m4
         else if ev_kind ev = ''sync'' \<and> str_has (ft_up f) ''| TLC'' then end_talk sid fam f now m4
         else if ev_kind ev = ''unknown'' then refine_call sid fam f now m4
         else handle_call sid fam ev f now m4)"
    unfolding ingest_live_def Let_def fam_def [symmetric] f_def [symmetric] m1_def [symmetric] a prod.case
      m2_def [symmetric] m3_def [symmetric] by (rule refl)
  ultimately show ?thesis
    by (simp add: Let_def end_talk_ok refine_call_ok handle_call_ok)
qed

lemma ingest_ok: "ok m \<Longrightarrow> ok (ingest sid ev now m)"
proof -
  assume m: "ok m"
  show ?thesis
    unfolding ingest_def Let_def
    by (auto simp: m om_has_def upd_ctx_def om_get_modify all_fams_rest(8) intro!: ingest_live_ok [unfolded om_has_def]
        split: option.split prod.split)
qed


lemma prune_ok: "ok m \<Longrightarrow> ok (prune_session sid retune m)"
proof -
  assume m: "ok m"
  have d: "P n (foldl (\<lambda>F k. drop_network k F) F ks)" if "P n F" for n F ks
    using that by (rule foldl_inv [rotated]) (rule dropped)
  have del: "ok m' \<Longrightarrow> ok (m'\<lparr>m_fams := om_del fam (m_fams m')\<rparr>)" for m' fam
    by (auto simp: all_fams_def intro: om_del_all)
  show ?thesis
    using m by (auto simp: prune_session_def Let_def intro!: del all_fams_set d dest: all_fams_get split: option.split)
qed

lemma begin_ok: "ok m \<Longrightarrow> ok (begin_stream sid label now family freq m)"
  by (simp add: begin_stream_def Let_def prune_ok close_session_ok)

lemma retune_ok: "ok m \<Longrightarrow> ok (retune_stream sid freq now m)"
  by (simp add: retune_stream_def Let_def prune_ok close_session_ok split: option.split)

lemma end_ok: "ok m \<Longrightarrow> ok (end_stream sid now m)"
  by (simp add: end_stream_def Let_def prune_ok close_session_ok)

lemma remove_ok: "ok m \<Longrightarrow> ok (remove_session sid now m)"
  by (simp add: remove_session_def Let_def prune_ok close_session_ok)

lemma clear_locked_ok: "ok (clear_locked now m)"
proof -
  have "m_fams (foldl (\<lambda>m i. drop_import_audio i m) m0 ks) = m_fams m0" for m0 ks
    by (rule foldl_inv [where I = "\<lambda>m. m_fams m = m_fams m0"]) (simp_all add: drop_import_audio_def Let_def)
  then have "m_fams (clear_locked now m) = []"
    by (simp add: clear_locked_def drop_all_import_audio_def Let_def)
  then show ?thesis by (simp add: all_fams_def)
qed

lemma clear_ok: "ok (clear now m)"
  by (simp add: clear_def clear_locked_ok)

lemma mark_keep_ok: "ok m \<Longrightarrow> ok (mark_keep fam i on m)"
  by (auto simp: mark_keep_def intro!: all_fams_set same_calls dest: all_fams_get split: option.split)

lemma start_recording_ok: "ok m \<Longrightarrow> ok (fst (start_recording can taken fsize dir mx first now m))"
proof -
  assume m: "ok m"
  define m1 where "m1 = (if first then clear_locked now m else m)"
  have m1: "ok m1" using m by (simp add: m1_def clear_locked_ok)
  have f: "ok (foldl (\<lambda>m p. if cx_running (snd p) then record_line (resumed_line now p) now m else m) m' ps)" if "ok m'" for m' ps
    using that by (rule foldl_inv [rotated]) simp
  show ?thesis
    using m m1 by (auto simp: start_recording_def Let_def m1_def [symmetric] intro!: f split: prod.split)
qed

lemma stop_recording_ok: "ok m \<Longrightarrow> ok (stop_recording fsize now m)"
  by (simp add: stop_recording_def Let_def)

lemma reconcile_ok: "ok m \<Longrightarrow> ok (reconcile_evicted now m)"
proof -
  assume m: "ok m"
  have one: "ok m' \<Longrightarrow> ok (fst (reconcile_one now (m', ch) name))" for m' ch name
    by (auto simp: reconcile_one_def forget_audio_def set_keep_def split_def intro!: with_call_ok split: option.split)
  have "ok (fst (foldl (reconcile_one now) (m\<lparr>m_audio := a\<rparr>, False) gone))" for a gone
    using m one by (intro foldl_inv [where I = "\<lambda>st. ok (fst st)"]) (auto simp: split_paired_all)
  then show ?thesis by (simp add: reconcile_evicted_def split_def)
qed

lemma start_audio_ok: "ok m \<Longrightarrow> ok (fst (start_audio listing dir cap age now m))"
proof -
  assume "ok m"
  then have "ok (m\<lparr>m_audio := a, m_audio_on := on\<rparr>)" for a on by (simp add: all_fams_def)
  with \<open>ok m\<close> show ?thesis by (auto simp: start_audio_def Let_def intro!: reconcile_ok split: prod.split)
qed

lemma stop_audio_ok: "ok m \<Longrightarrow> ok (stop_audio m)"
  by (simp add: stop_audio_def bump_version_def all_fams_def)

lemma write_audio_ok: "ok m \<Longrightarrow> ok (fst (fst (write_audio can fam sid slot xs keyed now (m, k))))"
proof -
  assume m: "ok m"
  have add: "ok (fst st) \<Longrightarrow> ok (fst (add_samples xs now st))" for st :: "model \<times> call" and xs
    by (simp add: add_samples_def split_def)
  have adds: "ok (fst st) \<Longrightarrow> ok (fst (foldl (\<lambda>st h. add_samples (pr_pcm h) now st) st hs))" for st :: "model \<times> call" and hs
    by (rule foldl_inv [where I = "\<lambda>st. ok (fst st)"]) (simp_all add: add)
  have opened: "ok (fst st')" if "open_audio can fam sid slot xs now (m, k') = Some st'" for st' k'
  proof -
    have k: "ok (fst (set_keep fam True now (m\<lparr>m_audio := a\<rparr>, kk)))" for a kk using m by (simp add: set_keep_ok)
    from that show ?thesis
      by (auto simp: open_audio_def Let_def intro!: adds [OF k] split: if_splits prod.splits)
  qed
  define k1 where "k1 = (if keyed then k\<lparr>k_keyed_audio := True\<rparr> else k)"
  consider "k_no_audio k" | "\<not> k_no_audio k" "k_enc k \<and> \<not> keyed" | "\<not> k_no_audio k" "\<not> (k_enc k \<and> \<not> keyed)" by blast
  then show ?thesis
  proof cases
    case 3
    then show ?thesis
      using m opened [of k1] unfolding write_audio_def Let_def k1_def [symmetric] prod.case
      by (cases "open_audio can fam sid slot xs now (m, k1)") (auto intro: add)
  qed (use m in \<open>simp_all add: write_audio_def refuse_audio_def set_keep_ok\<close>)
qed

lemma audio_ok: "ok m \<Longrightarrow> ok (audio can sid slot xs keyed now m)"
proof -
  assume m: "ok m"
  have w: "ok (upd_fam fam (put_call (k_id k) k') m')" if "write_audio can fam sid s xs keyed now (m, k) = ((m', k'), b)" for fam s k m' k' b
    using write_audio_ok [OF m, of can fam sid s xs keyed now k] write_audio_id [of can fam sid s xs keyed now m k]
    by (simp add: that all_fams_upd put_call_ok of_ok)
  show ?thesis
    using m by (auto simp: audio_def Let_def dest!: w intro: reconcile_ok split: option.split prod.split)
qed

end

section \<open>Every operation of the model\<close>

text \<open>Imports, merges, keys and settings leave the live families alone.\<close>

lemma fams_drop_import_audio: "m_fams (drop_import_audio i m) = m_fams m"
  by (simp add: drop_import_audio_def Let_def)

lemma fams_drop_all_import_audio: "m_fams (drop_all_import_audio m) = m_fams m"
  unfolding drop_all_import_audio_def
  by (rule foldl_inv [where I = "\<lambda>m'. m_fams m' = m_fams m"]) (simp_all add: fams_drop_import_audio)

lemma fams_replace_layers: "m_fams (replace_layers is m) = m_fams m"
  by (induction "is") (simp_all add: replace_layers_def fams_drop_import_audio)

lemma fams_saved [simp]:
  "m_fams (bump_version m) = m_fams m" "m_fams (save_file p t m) = m_fams m" "m_fams (save_keys m) = m_fams m"
  "m_fams (save_merges m) = m_fams m" "m_fams (add_layer now x m) = m_fams m"
  by (simp_all add: bump_version_def save_file_def save_keys_def save_merges_def add_layer_def Let_def)

lemma fams_import [simp]: "m_fams (fst (import_export inflate text label now m)) = m_fams m"
  by (simp add: import_export_def import_dataset_def Let_def fams_replace_layers split: sum.split verdict.split)

lemma fams_admin [simp]:
  "m_fams (fst (remove_import i m)) = m_fams m" "m_fams (clear_imports m) = m_fams m"
  "m_fams (use_import_audio_dir dir cap m) = m_fams m" "m_fams (fst (upload_audio i name data m)) = m_fams m"
  "m_fams (fst (use_merges_file path contents m)) = m_fams m" "m_fams (fst (merge_networks fam src dst m)) = m_fams m"
  "m_fams (fst (unmerge_network fam key m)) = m_fams m" "m_fams (fst (use_keys_file path contents m)) = m_fams m"
  "m_fams (fst (audio_path name now m)) = m_fams m"
  by (simp_all add: remove_import_def clear_imports_def use_import_audio_dir_def upload_audio_def use_merges_file_def
      merge_networks_def unmerge_network_def use_keys_file_def audio_path_def fams_drop_import_audio
      fams_drop_all_import_audio Let_def split: option.split prod.split sum.split jval.split list.split)

lemma fams_keys [simp]:
  "m_fams (fst (set_key now fam net kid alg v m)) = m_fams m" "m_fams (fst (remove_key fam net kid m)) = m_fams m"
  "m_fams (fst (set_bp fam net n m)) = m_fams m" "m_fams (fst (remove_bp fam net m)) = m_fams m"
  "m_fams (fst (set_net_key kind fam net v m)) = m_fams m" "m_fams (fst (remove_net_key kind fam net m)) = m_fams m"
  by (simp_all add: set_key_def remove_key_def set_bp_def remove_bp_def set_net_key_def remove_net_key_def Let_def
      split: option.split prod.split)

lemma fams_set [simp]:
  "m_fams (set_max_calls n m) = m_fams m" "m_fams (set_identity inst name m) = m_fams m"
  "m_fams (set_since t m) = m_fams m" "m_fams (set_channels_per_receiver on m) = m_fams m"
  by (simp_all add: set_max_calls_def set_identity_def set_since_def set_channels_per_receiver_def)

text \<open>Nor do they number calls.\<close>

lemma next_drop_import_audio: "m_next_call (drop_import_audio i m) = m_next_call m"
  by (simp add: drop_import_audio_def Let_def)

lemma next_drop_all_import_audio: "m_next_call (drop_all_import_audio m) = m_next_call m"
  unfolding drop_all_import_audio_def
  by (rule foldl_inv [where I = "\<lambda>m'. m_next_call m' = m_next_call m"]) (simp_all add: next_drop_import_audio)

lemma next_replace_layers: "m_next_call (replace_layers is m) = m_next_call m"
  by (induction "is") (simp_all add: replace_layers_def next_drop_import_audio)

lemma next_saved [simp]:
  "m_next_call (bump_version m) = m_next_call m" "m_next_call (save_file p t m) = m_next_call m"
  "m_next_call (save_keys m) = m_next_call m" "m_next_call (save_merges m) = m_next_call m"
  "m_next_call (add_layer now x m) = m_next_call m"
  by (simp_all add: bump_version_def save_file_def save_keys_def save_merges_def add_layer_def Let_def)

lemma next_import [simp]: "m_next_call (fst (import_export inflate text label now m)) = m_next_call m"
  by (simp add: import_export_def import_dataset_def Let_def next_replace_layers split: sum.split verdict.split)

lemma next_admin [simp]:
  "m_next_call (fst (remove_import i m)) = m_next_call m" "m_next_call (clear_imports m) = m_next_call m"
  "m_next_call (use_import_audio_dir dir cap m) = m_next_call m" "m_next_call (fst (upload_audio i name data m)) = m_next_call m"
  "m_next_call (fst (use_merges_file path contents m)) = m_next_call m" "m_next_call (fst (merge_networks fam src dst m)) = m_next_call m"
  "m_next_call (fst (unmerge_network fam key m)) = m_next_call m" "m_next_call (fst (use_keys_file path contents m)) = m_next_call m"
  "m_next_call (fst (audio_path name now m)) = m_next_call m"
  by (simp_all add: remove_import_def clear_imports_def use_import_audio_dir_def upload_audio_def use_merges_file_def
      merge_networks_def unmerge_network_def use_keys_file_def audio_path_def next_drop_import_audio
      next_drop_all_import_audio Let_def split: option.split prod.split sum.split jval.split list.split)

lemma next_keys [simp]:
  "m_next_call (fst (set_key now fam net kid alg v m)) = m_next_call m" "m_next_call (fst (remove_key fam net kid m)) = m_next_call m"
  "m_next_call (fst (set_bp fam net n m)) = m_next_call m" "m_next_call (fst (remove_bp fam net m)) = m_next_call m"
  "m_next_call (fst (set_net_key kind fam net v m)) = m_next_call m" "m_next_call (fst (remove_net_key kind fam net m)) = m_next_call m"
  by (simp_all add: set_key_def remove_key_def set_bp_def remove_bp_def set_net_key_def remove_net_key_def Let_def
      split: option.split prod.split)

lemma next_set [simp]:
  "m_next_call (set_max_calls n m) = m_next_call m" "m_next_call (set_identity inst name m) = m_next_call m"
  "m_next_call (set_since t m) = m_next_call m" "m_next_call (set_channels_per_receiver on m) = m_next_call m"
  by (simp_all add: set_max_calls_def set_identity_def set_since_def set_channels_per_receiver_def)

lemma all_fams_same: "all_fams P m \<Longrightarrow> m_fams m' = m_fams m \<Longrightarrow> m_next_call m' = m_next_call m \<Longrightarrow> all_fams P m'"
  by (simp add: all_fams_def)

text \<open>What the server may ask of the model, one operation at a time, from an empty one.\<close>

inductive step :: "model \<Rightarrow> model \<Rightarrow> bool" where
  Begin: "step m (begin_stream sid label now family freq m)"
| Retune: "step m (retune_stream sid freq now m)"
| End: "step m (end_stream sid now m)"
| Remove: "step m (remove_session sid now m)"
| Event: "step m (ingest sid ev now m)"
| Audio: "step m (audio can sid slot xs keyed now m)"
| Clear: "step m (clear now m)"
| Clear_Audio: "step m (fst (clear_with_audio now m))"
| Keep: "step m (mark_keep fam i on m)"
| Record: "step m (fst (start_recording can taken fsize dir mx first now m))"
| Stop_Record: "step m (stop_recording fsize now m)"
| Store: "step m (fst (start_audio listing dir cap age now m))"
| Stop_Store: "step m (stop_audio m)"
| Serve: "step m (fst (audio_path name now m))"
| Import: "step m (fst (import_export inflate text label now m))"
| Remove_Import: "step m (fst (remove_import i m))"
| Clear_Imports: "step m (clear_imports m)"
| Import_Dir: "step m (use_import_audio_dir dir cap m)"
| Upload: "step m (fst (upload_audio i name data m))"
| Merges_File: "step m (fst (use_merges_file path contents m))"
| Merge: "step m (fst (merge_networks fam src dst m))"
| Unmerge: "step m (fst (unmerge_network fam key m))"
| Keys_File: "step m (fst (use_keys_file path contents m))"
| Set_Key: "step m (fst (set_key now fam net kid alg v m))"
| Remove_Key: "step m (fst (remove_key fam net kid m))"
| Set_Bp: "step m (fst (set_bp fam net n m))"
| Remove_Bp: "step m (fst (remove_bp fam net m))"
| Set_Net_Key: "step m (fst (set_net_key kind fam net v m))"
| Remove_Net_Key: "step m (fst (remove_net_key kind fam net m))"
| Calls_Cap: "step m (set_max_calls n m)"
| Identity: "step m (set_identity inst name m)"
| Since: "step m (set_since t m)"
| Per_Receiver: "step m (set_channels_per_receiver on m)"

inductive reach :: "model \<Rightarrow> bool" where
  New: "reach (model0 inst name since per_receiver cap quality err disk)"
| Step: "reach m \<Longrightarrow> step m m' \<Longrightarrow> reach m'"

context family_contract
begin

lemma step_ok: "step m m' \<Longrightarrow> ok m \<Longrightarrow> ok m'"
proof (induction rule: step.induct)
  case (Clear_Audio m now)
  show ?case by (simp add: clear_with_audio_def Let_def clear_ok split: prod.split)
qed (simp_all add: begin_ok retune_ok end_ok remove_ok ingest_ok audio_ok clear_ok mark_keep_ok start_recording_ok
    stop_recording_ok start_audio_ok stop_audio_ok, (erule all_fams_same; simp)+)

lemma reach_ok: "reach m \<Longrightarrow> ok m"
  by (induction rule: reach.induct) (simp add: model0_def all_fams_def, blast intro: step_ok)

end

end
