(* ===== verification/Assoc_Bounds.thy ===== *)
theory Assoc_Bounds
  imports Assoc_Invariants
begin

text \<open>
  The two interpretations of the contract of \<open>Assoc_Invariants\<close>: the memory a family takes is bounded,
  and every network, talkgroup and radio is filed under its own key.
\<close>

section \<open>Bounded tables\<close>

definition table_ok :: "nat \<Rightarrow> ('v \<Rightarrow> bool) \<Rightarrow> (string, 'v) omap \<Rightarrow> bool" where
  "table_ok cap ok m \<longleftrightarrow> om_wf m \<and> length m \<le> cap \<and> list_all (\<lambda>(_, v). ok v) m"

lemma table_ok_Nil [simp]: "table_ok cap ok []"
  by (simp add: table_ok_def)

lemma table_modify_all: "list_all (\<lambda>(_, v). Q v) m \<Longrightarrow> (\<And>v. Q v \<Longrightarrow> Q (f v)) \<Longrightarrow> list_all (\<lambda>(_, v). Q v) (om_modify k f m)"
  by (auto simp: om_modify_def list_all_iff)

lemma table_modify: "table_ok cap ok m \<Longrightarrow> (\<And>v. ok v \<Longrightarrow> ok (f v)) \<Longrightarrow> table_ok cap ok (om_modify k f m)"
  by (auto simp: table_ok_def intro: table_modify_all)

lemma table_map: "table_ok cap ok m \<Longrightarrow> (\<And>v. ok v \<Longrightarrow> ok (f v)) \<Longrightarrow> table_ok cap ok (om_map f m)"
  by (simp add: table_ok_def om_map_all [of "\<lambda>_. ok"]) (auto simp: list_all_iff)

lemma table_filter: "table_ok cap ok m \<Longrightarrow> table_ok cap ok (filter Q m)"
  by (auto simp: table_ok_def list_all_iff intro: order_trans [OF length_filter_le])

lemma table_del: "table_ok cap ok m \<Longrightarrow> table_ok cap ok (om_del k m)"
  by (simp add: om_del_def table_filter)

lemma table_put: "table_ok cap ok m \<Longrightarrow> om_has m k \<Longrightarrow> ok v \<Longrightarrow> table_ok cap ok (om_put k v m)"
  by (simp add: table_ok_def om_length_put om_put_all [of "\<lambda>_. ok"])

lemma oldest_in: "oldest tm b ps \<in> fst ` set (b # ps)"
proof (induction ps arbitrary: b)
  case (Cons p ps)
  show ?case using Cons.IH [of p] Cons.IH [of b] by (cases "tm (snd p) < tm (snd b)") auto
qed simp

lemma evict_length: "om_wf m \<Longrightarrow> m \<noteq> [] \<Longrightarrow> length (evict_oldest tm m) = length m - 1"
  using oldest_in [of tm "hd m" "tl m"]
  by (cases m) (simp_all add: evict_oldest_def om_length_del om_has_iff)

lemma table_ensure: "table_ok cap ok m \<Longrightarrow> 0 < cap \<Longrightarrow> ok new \<Longrightarrow> table_ok cap ok (ensure tm cap k new m)"
proof -
  assume t: "table_ok cap ok m" and c: "0 < cap" and n: "ok new"
  define e where "e = (if cap \<le> length m then evict_oldest tm m else m)"
  have "table_ok cap ok e" using t by (auto simp: e_def evict_oldest_def table_del split: list.split)
  moreover have "length e < cap" using t c evict_length [of m tm] by (cases m) (auto simp: e_def table_ok_def)
  ultimately show ?thesis
    using t n by (auto simp: ensure_def e_def [symmetric] table_ok_def om_length_put om_put_all [of "\<lambda>_. ok"])
qed

section \<open>The bounds of a family\<close>

definition keys_ok :: "counts \<Rightarrow> bool" where
  "keys_ok m \<longleftrightarrow> om_wf m \<and> length m \<le> kMaxKeys"

definition edges_ok :: "counts \<Rightarrow> bool" where
  "edges_ok m \<longleftrightarrow> om_wf m \<and> length m \<le> kMaxEdgesPerNode"

definition network_ok :: "network \<Rightarrow> bool" where
  "network_ok n \<longleftrightarrow> length (nw_freqs n) \<le> kMaxFreqs \<and> keys_ok (nw_keys n)"

definition tg_ok :: "talkgroup \<Rightarrow> bool" where
  "tg_ok t \<longleftrightarrow> edges_ok (tg_radios t) \<and> keys_ok (tg_keys t)"

definition radio_ok :: "radio \<Rightarrow> bool" where
  "radio_ok r \<longleftrightarrow> length (rd_aliases r) \<le> kMaxAliases \<and> edges_ok (rd_tgs r) \<and> edges_ok (rd_peers r) \<and>
     keys_ok (rd_keys r) \<and> length (rd_track r) \<le> kMaxTrack"

definition family_ok :: "family \<Rightarrow> bool" where
  "family_ok F \<longleftrightarrow> table_ok kMaxNetworks network_ok (fm_networks F) \<and> table_ok kMaxTalkgroups tg_ok (fm_tgs F) \<and>
     table_ok kMaxRadios radio_ok (fm_radios F)"

lemma keys_ok_add: "keys_ok m \<Longrightarrow> keys_ok (key_add k n m)"
  by (simp add: keys_ok_def key_add_bound)

lemma edges_ok_bump: "edges_ok m \<Longrightarrow> edges_ok (bump k d m)"
  by (auto simp: edges_ok_def bump_def om_length_put om_has_def intro: order_trans [OF om_length_del_le] split: option.split)

lemma keys_ok_bump: "keys_ok m \<Longrightarrow> d \<le> 0 \<Longrightarrow> keys_ok (bump k d m)"
  by (auto simp: keys_ok_def bump_def om_length_put om_has_def intro: order_trans [OF om_length_del_le] split: option.split)

lemma new_ok:
  "network_ok (network0\<lparr>nw_key := a, nw_first := t, nw_last := u\<rparr>)"
  "tg_ok (talkgroup0\<lparr>tg_id := a, tg_first := t, tg_last := u\<rparr>)"
  "radio_ok (radio0\<lparr>rd_id := a, rd_first := t, rd_last := u\<rparr>)"
  by (simp_all add: network_ok_def tg_ok_def radio_ok_def keys_ok_def edges_ok_def network0_def talkgroup0_def radio0_def)

lemma caps_pos: "0 < kMaxNetworks" "0 < kMaxTalkgroups" "0 < kMaxRadios"
  by (simp_all add: kMaxNetworks_def kMaxTalkgroups_def kMaxRadios_def)

lemma ensure_ok:
  "family_ok F \<Longrightarrow> family_ok (ensure_network k t F)"
  "family_ok F \<Longrightarrow> family_ok (ensure_tg k t F)"
  "family_ok F \<Longrightarrow> family_ok (ensure_radio k t F)"
  by (simp_all add: family_ok_def ensure_network_def ensure_tg_def ensure_radio_def table_ensure caps_pos new_ok)

lemma upd_ok:
  "family_ok F \<Longrightarrow> (\<And>n. network_ok n \<Longrightarrow> network_ok (f n)) \<Longrightarrow> family_ok (upd_network k f F)"
  "family_ok F \<Longrightarrow> (\<And>t. tg_ok t \<Longrightarrow> tg_ok (g t)) \<Longrightarrow> family_ok (upd_tg k g F)"
  "family_ok F \<Longrightarrow> (\<And>r. radio_ok r \<Longrightarrow> radio_ok (h r)) \<Longrightarrow> family_ok (upd_radio k h F)"
  by (simp_all add: family_ok_def upd_network_def upd_tg_def upd_radio_def table_modify)

lemma note_enc_counts_bounded: "family_ok F \<Longrightarrow> family_ok (fst (note_enc_counts (F, k)))"
  by (auto simp: note_enc_counts_def Let_def network_ok_def tg_ok_def radio_ok_def keys_ok_add intro!: upd_ok)

lemma count_call_bounded: "family_ok F \<Longrightarrow> family_ok (fst (count_call now (F, k)))"
  unfolding count_call_def Let_def prod.case
  by (intro note_enc_counts_bounded upd_ok)
     (auto simp: network_ok_def tg_ok_def radio_ok_def edges_ok_bump intro!: upd_ok ensure_ok)

lemma family_ok_tgs: "family_ok F \<Longrightarrow> table_ok kMaxTalkgroups tg_ok t \<Longrightarrow> family_ok (F\<lparr>fm_tgs := t\<rparr>)"
  by (simp add: family_ok_def)

lemma drop_tg_call_ok: "tg_ok t \<Longrightarrow> tg_ok (drop_tg_call k t)"
  by (simp add: tg_ok_def drop_tg_call_def edges_ok_bump keys_ok_bump)

lemma table_get: "table_ok cap ok m \<Longrightarrow> om_get m k = Some v \<Longrightarrow> ok v"
  by (auto simp: table_ok_def list_all_iff dest: map_of_SomeD)

lemma set_private_bounded: "family_ok F \<Longrightarrow> family_ok (fst (set_private now (F, k)))"
proof -
  assume F: "family_ok F"
  define F1 where "F1 = upd_radio (k_src k) (\<lambda>r. r\<lparr>rd_tgs := bump (k_tgt k) (-1) (rd_tgs r)\<rparr>) F"
  have F1: "family_ok F1" using F by (auto simp: F1_def radio_ok_def edges_ok_bump intro!: upd_ok)
  define F2 where "F2 = (case om_get (fm_tgs F1) (k_tgt k) of
                       None \<Rightarrow> F1
                     | Some t \<Rightarrow>
                         (let t1 = drop_tg_call k t
                          in if tg_calls t1 = 0 \<and> tg_radios t1 = [] then F1\<lparr>fm_tgs := om_del (k_tgt k) (fm_tgs F1)\<rparr>
                             else upd_tg (k_tgt k) (\<lambda>_. t1) F1))"
  have "tg_ok t" if "om_get (fm_tgs F1) (k_tgt k) = Some t" for t
    using F1 that by (auto simp: family_ok_def dest: table_get)
  moreover have "table_ok kMaxTalkgroups tg_ok (fm_tgs F1)" using F1 by (simp add: family_ok_def)
  ultimately have "family_ok F2"
    using F1 by (cases "om_get (fm_tgs F1) (k_tgt k)")
      (simp_all add: F2_def Let_def drop_tg_call_ok family_ok_tgs table_del upd_ok(2))
  moreover have "fst (set_private now (F, k)) =
     (if k_priv k \<or> \<not> k_counted k then F
      else upd_radio (k_tgt k) (\<lambda>p. p\<lparr>rd_last := now, rd_peers := bump (k_src k) 1 (rd_peers p),
             rd_networks := add_net (k_net k) (rd_networks p)\<rparr>)
           (ensure_radio (k_tgt k) now (upd_radio (k_src k) (\<lambda>r. r\<lparr>rd_peers := bump (k_tgt k) 1 (rd_peers r)\<rparr>) F2)))"
    by (simp only: set_private_def Let_def prod.case F1_def F2_def if_distrib [of fst] fst_conv) simp
  moreover have peers: "radio_ok r \<Longrightarrow> radio_ok (r\<lparr>rd_peers := bump x d (rd_peers r)\<rparr>)"
    "radio_ok r \<Longrightarrow> radio_ok (r\<lparr>rd_last := now, rd_peers := bump x d (rd_peers r), rd_networks := s r\<rparr>)" for r x d s
    by (simp_all add: radio_ok_def edges_ok_bump)
  have "family_ok (upd_radio (k_tgt k) (\<lambda>p. p\<lparr>rd_last := now, rd_peers := bump (k_src k) 1 (rd_peers p),
             rd_networks := add_net (k_net k) (rd_networks p)\<rparr>)
           (ensure_radio (k_tgt k) now (upd_radio (k_src k) (\<lambda>r. r\<lparr>rd_peers := bump (k_tgt k) 1 (rd_peers r)\<rparr>) F2)))"
    using \<open>family_ok F2\<close> by (intro upd_ok(3) ensure_ok(3) peers)
  ultimately show ?thesis using F by simp
qed

lemma join_keys_ok: "keys_ok m \<Longrightarrow> keys_ok (foldl (\<lambda>m (k, n). key_add k n m) m xs)"
  by (rule foldl_inv) (auto simp: keys_ok_add)

lemma os_put_length_le: "length (os_put f s) \<le> Suc (length s)"
  by (induction f s rule: os_put.induct) auto

lemma put_freq_ok: "length s \<le> kMaxFreqs \<Longrightarrow> length (if length s < kMaxFreqs then os_put f s else s) \<le> kMaxFreqs"
  using os_put_length_le [of f s] by simp

lemma join_freqs_ok:
  "length s \<le> kMaxFreqs \<Longrightarrow> length (foldl (\<lambda>s f. if length s < kMaxFreqs then os_put f s else s) s fs) \<le> kMaxFreqs"
  by (induction fs arbitrary: s) (simp_all only: foldl.simps put_freq_ok)

lemma merge_bounded: "family_ok F \<Longrightarrow> family_ok (merge_family_networks old new F)"
proof -
  assume F: "family_ok F"
  show ?thesis
  proof (cases "om_get (fm_networks F) old")
    case old: (Some a)
    show ?thesis
    proof (cases "om_get (fm_networks F) new")
      case new: (Some z)
      have "network_ok a" "network_ok z" using F table_get [OF _ old, of _ network_ok] table_get [OF _ new, of _ network_ok] by (auto simp: family_ok_def)
      then have z: "network_ok (join_live_network z a)"
        by (simp add: network_ok_def join_live_network_def join_keys_ok join_freqs_ok)
      have T: "table_ok kMaxNetworks network_ok (om_del old (om_put new (join_live_network z a) (fm_networks F)))"
        using F new z by (intro table_del table_put) (simp_all add: family_ok_def om_has_def)
      have G: "table_ok kMaxTalkgroups tg_ok (om_map (\<lambda>t. t\<lparr>tg_networks := relabel old new (tg_networks t)\<rparr>) (fm_tgs F))"
        using F by (intro table_map) (simp_all add: family_ok_def tg_ok_def)
      have R: "table_ok kMaxRadios radio_ok (om_map (\<lambda>r. r\<lparr>rd_networks := relabel old new (rd_networks r)\<rparr>) (fm_radios F))"
        using F by (intro table_map) (simp_all add: family_ok_def radio_ok_def)
      show ?thesis by (simp add: merge_family_networks_def old new family_ok_def T G R)
    qed (simp add: merge_family_networks_def F old)
  qed (simp add: merge_family_networks_def F)
qed

lemma label_network_ok: "network_ok n \<Longrightarrow> network_ok (label_network strong i ids n)"
  by (simp add: label_network_def network_ok_def)

lemma heard_network_ok: "network_ok n \<Longrightarrow> network_ok (heard_network sid c now n)"
  using put_freq_ok [of "nw_freqs n" "cx_freq c"] by (auto simp: heard_network_def network_ok_def split: if_splits)

lemma om_at_has: "om_has m k \<Longrightarrow> om_get m k = Some (om_at d m k)"
  by (auto simp: om_has_def om_at_def)

interpretation family_bounds: family_contract "\<lambda>_. family_ok"
proof (unfold_locales, goal_cases)
  case 1 show ?case by (simp add: family_ok_def family0_def)
next
  case 2 then show ?case by (simp add: family_ok_def)
next
  case 3 then show ?case by (simp add: family_ok_def)
next
  case 4 then show ?case .
next
  case 5 then show ?case by (auto simp: touch_radio_def radio_ok_def intro!: upd_ok ensure_ok)
next
  case 6 then show ?case
    by (auto simp: note_service_def Let_def radio_ok_def track_add_bound intro!: upd_ok split: option.split)
next
  case 7 then show ?case by (rule note_enc_counts_bounded)
next
  case 8 then show ?case by (rule count_call_bounded)
next
  case 9 then show ?case by (rule set_private_bounded)
next
  case 10 then show ?case by (auto simp: note_ended_def tg_ok_def intro!: upd_ok)
next
  case 11 then show ?case by (auto simp: network_ok_def intro!: upd_ok)
next
  case 12 then show ?case by (auto simp: label_network_ok intro!: upd_ok ensure_ok)
next
  case (13 n F key sid c now)
  then have "network_ok (om_at network0 (fm_networks F) key)"
    using om_at_has [of "fm_networks F" key network0] by (auto simp: family_ok_def dest: table_get)
  with 13 show ?case by (simp add: family_ok_def seen_network_def table_put heard_network_ok)
next
  case 14 then show ?case by (rule merge_bounded)
next
  case 15 then show ?case
    by (auto simp: drop_network_def family_ok_def tg_ok_def radio_ok_def intro!: table_del table_filter table_map)
qed

text \<open>
  C2. However many streams the server decodes and whatever the decoders print, the explorer's tables stay
  bounded: after any sequence of operations a family has at most 200 networks, 1500 talkgroups and 3000
  radios, and each of them bounded frequencies, edges, aliases, keys and track points.
\<close>

lemma reachable_bounded:
  assumes "reach m"
  shows "list_all (\<lambda>(fam, F).
     length (fm_networks F) \<le> 200 \<and> length (fm_tgs F) \<le> 1500 \<and> length (fm_radios F) \<le> 3000 \<and>
     list_all (\<lambda>(_, n). length (nw_freqs n) \<le> 64 \<and> length (nw_keys n) \<le> 32) (fm_networks F) \<and>
     list_all (\<lambda>(_, t). length (tg_radios t) \<le> 300 \<and> length (tg_keys t) \<le> 32) (fm_tgs F) \<and>
     list_all (\<lambda>(_, r). length (rd_aliases r) \<le> 5 \<and> length (rd_tgs r) \<le> 300 \<and> length (rd_peers r) \<le> 300 \<and>
       length (rd_keys r) \<le> 32 \<and> length (rd_track r) \<le> 100) (fm_radios F)) (m_fams m)"
proof -
  have "list_all (\<lambda>(_, F). family_ok F) (m_fams m)"
    using family_bounds.reach_ok [OF assms] by (simp add: all_fams_def)
  then show ?thesis
    by (auto simp: family_ok_def table_ok_def list_all_iff network_ok_def tg_ok_def radio_ok_def keys_ok_def edges_ok_def
        kMaxNetworks_def kMaxTalkgroups_def kMaxRadios_def kMaxFreqs_def kMaxKeys_def kMaxEdgesPerNode_def
        kMaxAliases_def kMaxTrack_def)
qed

text \<open>A server that has decoded one call.\<close>

definition one_call :: model where
  "one_call =
     ingest 1 (dsd_event0\<lparr>ev_kind := ''call'', ev_src := ''123'', ev_tg := ''9''\<rparr>) 2000
       (begin_stream 1 ''dmr'' 1000 [] 0 (model0 ''x'' ''y'' 0 False 400 True (DFin 2) True))"

lemma one_call_reach: "reach one_call"
  unfolding one_call_def by (rule reach.Step [OF reach.Step [OF reach.New step.Begin] step.Event])

lemma reachable_bounded_witness:
  "list_all (\<lambda>(fam, F). length (fm_networks F) \<le> 200 \<and> length (fm_radios F) \<le> 3000) (m_fams one_call)"
  by (rule list.pred_mono_strong [OF reachable_bounded [OF one_call_reach]]) auto

section \<open>Every entity under its own key\<close>

definition filed :: "family \<Rightarrow> bool" where
  "filed F \<longleftrightarrow> list_all (\<lambda>(k, n). nw_key n = k) (fm_networks F) \<and> list_all (\<lambda>(k, t). tg_id t = k) (fm_tgs F) \<and>
     list_all (\<lambda>(k, r). rd_id r = k) (fm_radios F)"

lemma om_modify_key: "list_all (\<lambda>(k, v). g v = k) m \<Longrightarrow> (\<And>v. g (f v) = g v) \<Longrightarrow> list_all (\<lambda>(k, v). g v = k) (om_modify j f m)"
  by (auto simp: om_modify_def list_all_iff)

lemma om_map_key: "list_all (\<lambda>(k, v). g v = k) m \<Longrightarrow> (\<And>v. g (f v) = g v) \<Longrightarrow> list_all (\<lambda>(k, v). g v = k) (om_map f m)"
  by (auto simp: om_map_def list_all_iff)

lemma filter_key: "list_all P m \<Longrightarrow> list_all P (filter Q m)"
  by (auto simp: list_all_iff)

lemma ensure_key: "list_all (\<lambda>(k, v). g v = k) m \<Longrightarrow> g new = j \<Longrightarrow> list_all (\<lambda>(k, v). g v = k) (ensure tm cap j new m)"
  by (auto simp: ensure_def evict_oldest_def om_del_def filter_key intro!: om_put_all [of "\<lambda>k v. g v = k"] split: list.split)

lemma filed_ensure:
  "filed F \<Longrightarrow> filed (ensure_network k t F)" "filed F \<Longrightarrow> filed (ensure_tg k t F)" "filed F \<Longrightarrow> filed (ensure_radio k t F)"
  by (simp_all add: filed_def ensure_network_def ensure_tg_def ensure_radio_def ensure_key)

lemma filed_upd:
  "filed F \<Longrightarrow> (\<And>n. nw_key (f n) = nw_key n) \<Longrightarrow> filed (upd_network k f F)"
  "filed F \<Longrightarrow> (\<And>t. tg_id (g t) = tg_id t) \<Longrightarrow> filed (upd_tg k g F)"
  "filed F \<Longrightarrow> (\<And>r. rd_id (h r) = rd_id r) \<Longrightarrow> filed (upd_radio k h F)"
  by (simp_all add: filed_def upd_network_def upd_tg_def upd_radio_def om_modify_key)

lemma filed_enc_counts: "filed F \<Longrightarrow> filed (fst (note_enc_counts (F, k)))"
  by (simp add: note_enc_counts_def Let_def filed_upd)

lemma filed_count: "filed F \<Longrightarrow> filed (fst (count_call now (F, k)))"
  unfolding count_call_def Let_def prod.case
  by (intro filed_enc_counts) (simp add: filed_upd filed_ensure)

lemma filed_get: "list_all (\<lambda>(k, v). g v = k) m \<Longrightarrow> om_get m k = Some v \<Longrightarrow> g v = k"
  by (auto simp: list_all_iff dest: map_of_SomeD)

lemma filed_private: "filed F \<Longrightarrow> filed (fst (set_private now (F, k)))"
proof -
  assume F: "filed F"
  define F1 where "F1 = upd_radio (k_src k) (\<lambda>r. r\<lparr>rd_tgs := bump (k_tgt k) (-1) (rd_tgs r)\<rparr>) F"
  have F1: "filed F1" using F by (simp add: F1_def filed_upd)
  define F2 where "F2 = (case om_get (fm_tgs F1) (k_tgt k) of
                       None \<Rightarrow> F1
                     | Some t \<Rightarrow>
                         (let t1 = drop_tg_call k t
                          in if tg_calls t1 = 0 \<and> tg_radios t1 = [] then F1\<lparr>fm_tgs := om_del (k_tgt k) (fm_tgs F1)\<rparr>
                             else upd_tg (k_tgt k) (\<lambda>_. t1) F1))"
  have "list_all (\<lambda>(k, t). tg_id t = k) (om_modify j (\<lambda>_. t1) m)"
    if "list_all (\<lambda>(k, t). tg_id t = k) m" "tg_id t1 = j" for j t1 m
    using that by (auto simp: om_modify_def list_all_iff)
  moreover have "tg_id (drop_tg_call k t) = k_tgt k" if "om_get (fm_tgs F1) (k_tgt k) = Some t" for t
    using F1 filed_get [OF _ that, of tg_id] by (simp add: filed_def drop_tg_call_def)
  ultimately have "filed F2"
    using F1 by (cases "om_get (fm_tgs F1) (k_tgt k)") (auto simp: F2_def Let_def filed_def upd_tg_def om_del_def filter_key)
  then show ?thesis
    using F unfolding set_private_def Let_def prod.case F1_def [symmetric] F2_def [symmetric, unfolded Let_def]
    by (simp add: filed_upd filed_ensure)
qed

lemma filed_merge: "filed F \<Longrightarrow> filed (merge_family_networks old new F)"
proof -
  assume F: "filed F"
  show ?thesis
  proof (cases "om_get (fm_networks F) old")
    case old: (Some a)
    show ?thesis
    proof (cases "om_get (fm_networks F) new")
      case new: (Some z)
      have "nw_key z = new" using F filed_get [OF _ new, of nw_key] by (simp add: filed_def)
      then have "nw_key (join_live_network z a) = new" by (simp add: join_live_network_def)
      then have "list_all (\<lambda>(k, n). nw_key n = k) (om_put new (join_live_network z a) (fm_networks F))"
        using F by (intro om_put_all [of "\<lambda>k n. nw_key n = k"]) (simp_all add: filed_def)
      with F show ?thesis
        by (simp add: merge_family_networks_def old new filed_def om_del_def filter_key om_map_key)
    qed (simp add: merge_family_networks_def F old)
  qed (simp add: merge_family_networks_def F)
qed

interpretation families_filed: family_contract "\<lambda>_. filed"
proof (unfold_locales, goal_cases)
  case 1 show ?case by (simp add: filed_def family0_def)
next
  case 2 then show ?case by (simp add: filed_def)
next
  case 3 then show ?case by (simp add: filed_def)
next
  case 4 then show ?case .
next
  case 5 then show ?case by (simp add: touch_radio_def filed_upd filed_ensure)
next
  case 6 then show ?case by (simp add: note_service_def Let_def filed_upd split: option.split)
next
  case 7 then show ?case by (rule filed_enc_counts)
next
  case 8 then show ?case by (rule filed_count)
next
  case 9 then show ?case by (rule filed_private)
next
  case 10 then show ?case by (simp add: note_ended_def filed_upd)
next
  case 11 then show ?case by (simp add: filed_upd)
next
  case 12 then show ?case by (simp add: label_network_def Let_def filed_upd filed_ensure)
next
  case (13 n F key sid c now)
  then have "nw_key (om_at network0 (fm_networks F) key) = key"
    using filed_get [of nw_key "fm_networks F", OF _ om_at_has] by (simp add: filed_def)
  with 13 show ?case
    by (auto simp: filed_def seen_network_def heard_network_def intro!: om_put_all [of "\<lambda>k n. nw_key n = k"])
next
  case 14 then show ?case by (rule filed_merge)
next
  case 15 then show ?case
    by (simp add: drop_network_def filed_def om_del_def filter_key om_map_key)
qed

section \<open>Every call under its own number\<close>

definition numbered :: "nat \<Rightarrow> family \<Rightarrow> bool" where
  "numbered n F \<longleftrightarrow> distinct (map k_id (fm_calls F)) \<and> list_all (\<lambda>k. 1 \<le> k_id k \<and> k_id k \<le> n) (fm_calls F)"

lemma numbered_same: "numbered n F \<Longrightarrow> map k_id (fm_calls G) = map k_id (fm_calls F) \<Longrightarrow> numbered n G"
proof -
  have e: "list_all (\<lambda>k. 1 \<le> k_id k \<and> k_id k \<le> n) ks = list_all (\<lambda>i. 1 \<le> i \<and> i \<le> n) (map k_id ks)" for ks
    by (simp add: list_all_iff)
  show "numbered n F \<Longrightarrow> map k_id (fm_calls G) = map k_id (fm_calls F) \<Longrightarrow> numbered n G"
    unfolding numbered_def e by simp
qed

lemma find_call_own:
  assumes "distinct (map k_id (fm_calls F))" "k \<in> set (fm_calls F)"
  shows "find_call F (k_id k) = Some k"
proof (cases "find_call F (k_id k)")
  case None
  then show ?thesis using assms(2) by (auto simp: find_call_def find_None_iff)
next
  case (Some k')
  then have "k' \<in> set (fm_calls F)" "k_id k' = k_id k" by (auto simp: find_call_def find_Some_iff) (metis nth_mem length_rev set_rev)
  then show ?thesis using assms Some by (auto simp: distinct_map dest: inj_onD)
qed

lemma subseq_keeps: "subseq xs ys \<Longrightarrow> set xs \<subseteq> set ys \<and> (distinct ys \<longrightarrow> distinct xs)"
  by (induction rule: list_emb.induct) auto

interpretation families_numbered: family_contract numbered
proof (unfold_locales, goal_cases)
  case 1 show ?case by (simp add: numbered_def family0_def)
next
  case (2 n F cs)
  then have "distinct (map k_id cs)" "set (map k_id cs) \<subseteq> set (map k_id (fm_calls F))"
    using subseq_keeps [OF 2(2)] by (simp_all add: numbered_def)
  then show ?case using 2(1) by (force simp: numbered_def list_all_iff)
next
  case 3 then show ?case by (auto simp: numbered_def list_all_iff)
next
  case 4 then show ?case by (auto simp: numbered_def list_all_iff)
next
  case 9 then show ?case by (rule numbered_same) simp
next
  case 14 then show ?case by (rule numbered_same) (auto simp: merge_family_networks_def split: option.split)
qed (erule numbered_same; simp add: note_ended_def seen_network_def)+

text \<open>
  C32. In every state the explorer can reach, its tables are the maps the code takes them for: each network,
  talkgroup and radio of a family stands once, under its own key; and each call has its own number, none above the
  last one given, so a lookup by number finds the one call meant and the next call to open gets a new number.
\<close>

lemma reachable_filed:
  assumes "reach m"
  shows "om_wf (m_fams m) \<and>
    list_all (\<lambda>(fam, F). om_wf (fm_networks F) \<and> om_wf (fm_tgs F) \<and> om_wf (fm_radios F) \<and>
      list_all (\<lambda>(k, n). nw_key n = k) (fm_networks F) \<and> list_all (\<lambda>(k, t). tg_id t = k) (fm_tgs F) \<and>
      list_all (\<lambda>(k, r). rd_id r = k) (fm_radios F) \<and>
      distinct (map k_id (fm_calls F)) \<and> list_all (\<lambda>k. 1 \<le> k_id k \<and> k_id k \<le> m_next_call m) (fm_calls F) \<and>
      list_all (\<lambda>k. find_call F (k_id k) = Some k) (fm_calls F)) (m_fams m)"
proof -
  have "list_all (\<lambda>(_, F). filed F) (m_fams m)" "list_all (\<lambda>(_, F). family_ok F) (m_fams m)" "om_wf (m_fams m)"
    "list_all (\<lambda>(_, F). numbered (m_next_call m) F) (m_fams m)"
    using families_filed.reach_ok [OF assms] family_bounds.reach_ok [OF assms] families_numbered.reach_ok [OF assms]
    by (simp_all add: all_fams_def)
  moreover from this have "list_all (\<lambda>(_, F). list_all (\<lambda>k. find_call F (k_id k) = Some k) (fm_calls F)) (m_fams m)"
    by (auto simp: numbered_def list_all_iff intro!: find_call_own)
  ultimately show ?thesis
    by (simp add: filed_def family_ok_def table_ok_def numbered_def list_all_iff split_def)
qed

lemma reachable_filed_witness:
  "list_all (\<lambda>(_, F). list_all (\<lambda>(k, n). nw_key n = k) (fm_networks F) \<and> list_all (\<lambda>(k, r). rd_id r = k) (fm_radios F)
     \<and> distinct (map k_id (fm_calls F)) \<and> list_all (\<lambda>k. k_id k \<le> m_next_call one_call) (fm_calls F)) (m_fams one_call)"
  by (rule list.pred_mono_strong [OF reachable_filed [OF one_call_reach, THEN conjunct2]]) (auto simp: list_all_iff)

end
