(* ===== verification/Assoc_Lifetime.thy ===== *)
theory Assoc_Lifetime
  imports Assoc_Bounds
begin

text \<open>
  The life of a call: what leaves the list of calls alone, that the end of a stream closes every call it
  carried, that ids are never given twice, and what a \<open>clear\<close> leaves behind.
\<close>

section \<open>Closing\<close>

lemma close_counts_kept:
  assumes "om_wf (m_fams m)"
  shows "fm_calls (fam_of (fst (close_counts fam (m, k))) fam) = fm_calls (fam_of m fam)"
    "k_id (snd (close_counts fam (m, k))) = k_id k" "k_session (snd (close_counts fam (m, k))) = k_session k"
    "k_open (snd (close_counts fam (m, k))) = k_open k"
proof -
  define st where "st = (if \<not> k_counted k \<and> k_src k = [] \<and> k_tgt k \<noteq> [] \<and> k_voice k \<and> \<not> k_data k
               then count_call (k_last k) (fam_of m fam, k) else (fam_of m fam, k))"
  have "fm_calls (fst st) = fm_calls (fam_of m fam)" "k_id (snd st) = k_id k" "k_session (snd st) = k_session k"
    "k_open (snd st) = k_open k"
    by (simp_all add: st_def)
  moreover obtain F k' where st: "st = (F, k')" by (cases st)
  ultimately have k': "fm_calls F = fm_calls (fam_of m fam)" "k_id k' = k_id k" "k_session k' = k_session k" "k_open k' = k_open k"
    by simp_all
  have set: "fam_of (set_fam fam G m) fam = G" for G
    using fam_of_set [of "\<lambda>_ _. True" m] assms by (auto simp: all_fams_def list_all_iff split_def)
  show "fm_calls (fam_of (fst (close_counts fam (m, k))) fam) = fm_calls (fam_of m fam)"
    "k_id (snd (close_counts fam (m, k))) = k_id k" "k_session (snd (close_counts fam (m, k))) = k_session k"
    "k_open (snd (close_counts fam (m, k))) = k_open k"
    by (simp_all add: close_counts_def st k' set flip: st_def)
qed

lemma close_call_kept:
  assumes "om_wf (m_fams m)"
  shows "fm_calls (fam_of (fst (close_call fam (m, k))) fam) = fm_calls (fam_of m fam)"
    "k_id (snd (close_call fam (m, k))) = k_id k" "k_session (snd (close_call fam (m, k))) = k_session k"
    "\<not> k_open (snd (close_call fam (m, k)))"
proof -
  obtain m1 k1 where 1: "close_quality (m, k\<lparr>k_open := False\<rparr>) = (m1, k1)" by fastforce
  obtain m2 k2 where 2: "close_audio fam (m1, k1) = (m2, k2)" by fastforce
  have m: "m_fams m2 = m_fams m" "k_id k2 = k_id k" "k_session k2 = k_session k" "\<not> k_open k2"
    using close_quality_kept [of m "k\<lparr>k_open := False\<rparr>"] close_audio_kept [of fam m1 k1] by (simp_all add: 1 2)
  then have "fam_of m2 fam = fam_of m fam" by (simp add: fam_of_def)
  then show "fm_calls (fam_of (fst (close_call fam (m, k))) fam) = fm_calls (fam_of m fam)"
    "k_id (snd (close_call fam (m, k))) = k_id k" "k_session (snd (close_call fam (m, k))) = k_session k"
    "\<not> k_open (snd (close_call fam (m, k)))"
    using m assms close_counts_kept [of m2 fam k2] by (simp_all add: close_call_def 1 2)
qed

lemma fam_of_upd_wf: "om_wf (m_fams m) \<Longrightarrow> fam_of (upd_fam fam g m) fam = g (fam_of m fam)"
  using fam_of_upd [of "\<lambda>_ _. True" m] by (auto simp: all_fams_def list_all_iff split_def)

lemma wf_upd_fam [simp]: "om_wf (m_fams m) \<Longrightarrow> om_wf (m_fams (upd_fam fam g m))"
  by (simp add: upd_fam_def set_fam_def)

lemma wf_close_call: "om_wf (m_fams m) \<Longrightarrow> om_wf (m_fams (fst (close_call fam (m, k))))"
proof -
  assume "om_wf (m_fams m)"
  then have "om_wf (m_fams (fst (close_counts fam (m', k'))))" if "m_fams m' = m_fams m" for m' k'
    using that by (simp add: close_counts_def set_fam_def split: prod.split)
  moreover obtain m1 k1 where 1: "close_quality (m, k\<lparr>k_open := False\<rparr>) = (m1, k1)" by fastforce
  moreover obtain m2 k2 where 2: "close_audio fam (m1, k1) = (m2, k2)" by fastforce
  ultimately show ?thesis
    using \<open>om_wf (m_fams m)\<close> close_quality_kept [of m "k\<lparr>k_open := False\<rparr>"] close_audio_kept [of fam m1 k1]
    by (simp add: close_call_def)
qed

text \<open>A closing changes one call: it stays the call it was, closed.\<close>

lemma close_id_calls:
  assumes "om_wf (m_fams m)"
  shows "om_wf (m_fams (close_id fam i m))"
    and "k \<in> set (fm_calls (fam_of (close_id fam i m) fam)) \<Longrightarrow>
      (k \<in> set (fm_calls (fam_of m fam)) \<and> k_id k \<noteq> i) \<or>
      (k_id k = i \<and> \<not> k_open k \<and> (\<exists>k0 \<in> set (fm_calls (fam_of m fam)). k_id k0 = i \<and> k_session k0 = k_session k))"
    and "map k_id (fm_calls (fam_of (close_id fam i m) fam)) = map k_id (fm_calls (fam_of m fam))"
proof -
  have none: "k_id k \<noteq> i" if "find_call (fam_of m fam) i = None" "k \<in> set (fm_calls (fam_of m fam))" for k
    using that by (auto simp: find_call_def find_None_iff)
  show "om_wf (m_fams (close_id fam i m))"
    using assms wf_close_call [of m fam]
    by (auto simp: close_id_def with_call_def split_def split: option.split)
  show "(k \<in> set (fm_calls (fam_of m fam)) \<and> k_id k \<noteq> i) \<or>
      (k_id k = i \<and> \<not> k_open k \<and> (\<exists>k0 \<in> set (fm_calls (fam_of m fam)). k_id k0 = i \<and> k_session k0 = k_session k))"
    if "k \<in> set (fm_calls (fam_of (close_id fam i m) fam))"
  proof (cases "find_call (fam_of m fam) i")
    case None
    with that none show ?thesis by (simp add: close_id_def with_call_def)
  next
    case (Some k0)
    then have k0: "k_id k0 = i" "k0 \<in> set (fm_calls (fam_of m fam))"
      by (auto simp: find_call_def find_Some_iff) (metis length_rev nth_mem set_rev)
    from that Some k0 show ?thesis
      by (auto simp: close_id_def with_call_def split_def fam_of_upd_wf wf_close_call [OF assms] put_call_def
          close_call_kept [OF assms])
  qed
  show "map k_id (fm_calls (fam_of (close_id fam i m) fam)) = map k_id (fm_calls (fam_of m fam))"
  proof (cases "find_call (fam_of m fam) i")
    case (Some k0)
    then have k0: "k_id k0 = i" by (auto simp: find_call_def find_Some_iff)
    with Some show ?thesis
      by (simp add: close_id_def with_call_def split_def fam_of_upd_wf wf_close_call [OF assms] put_call_def
          close_call_kept [OF assms])
  qed (simp add: close_id_def with_call_def)
qed

lemma close_ids_calls:
  assumes "om_wf (m_fams m)"
  shows "om_wf (m_fams (close_ids fam is m)) \<and>
    (\<forall>k \<in> set (fm_calls (fam_of (close_ids fam is m) fam)).
       (k_id k \<in> set is \<longrightarrow> \<not> k_open k) \<and>
       (\<exists>k0 \<in> set (fm_calls (fam_of m fam)). k_id k0 = k_id k \<and> k_session k0 = k_session k))"
proof (induction "is" rule: rev_induct)
  case Nil
  show ?case using assms by (auto simp: close_ids_def)
next
  case (snoc i js)
  let ?m = "close_ids fam js m"
  have c: "close_ids fam (js @ [i]) m = close_id fam i ?m" by (simp add: close_ids_def)
  from snoc have wf: "om_wf (m_fams ?m)" by blast
  show ?case
  proof (intro conjI ballI)
    show "om_wf (m_fams (close_ids fam (js @ [i]) m))" unfolding c by (rule close_id_calls [OF wf])
    fix k assume k: "k \<in> set (fm_calls (fam_of (close_ids fam (js @ [i]) m) fam))"
    from close_id_calls(2) [OF wf k [unfolded c]] snoc
    show "k_id k \<in> set (js @ [i]) \<longrightarrow> \<not> k_open k"
      "\<exists>k0 \<in> set (fm_calls (fam_of m fam)). k_id k0 = k_id k \<and> k_session k0 = k_session k"
      by auto metis
  qed
qed

lemma close_session_closed:
  assumes wf: "om_wf (m_fams m)" and c: "om_get (m_sess m) sid = Some c"
    and k: "k \<in> set (fm_calls (fam_of (close_session_calls sid m) (cx_family c)))" "k_session k = sid"
  shows "\<not> k_open k"
proof (cases "om_get (m_fams m) (cx_family c)")
  case None
  with c k show ?thesis by (simp add: close_session_calls_def fam_of_def om_at_def family0_def)
next
  case (Some F)
  let ?is = "map k_id (filter (\<lambda>k. k_session k = sid) (fm_calls F))"
  have F: "fam_of m (cx_family c) = F" using Some by (simp add: fam_of_def om_at_def)
  have "close_session_calls sid m = close_ids (cx_family c) ?is m"
    by (simp add: close_session_calls_def c Some)
  then obtain k0 where "k_id k \<in> set ?is \<longrightarrow> \<not> k_open k" "k0 \<in> set (fm_calls F)" "k_id k0 = k_id k" "k_session k0 = k_session k"
    using close_ids_calls [OF wf, of "cx_family c" ?is] k(1) F by auto
  moreover from this k(2) have "k_id k \<in> set ?is" by (auto intro!: image_eqI [of _ _ k0])
  ultimately show ?thesis by blast
qed

lemma close_session_wf: "om_wf (m_fams m) \<Longrightarrow> om_wf (m_fams (close_session_calls sid m))"
  using close_ids_calls [of m] by (auto simp: close_session_calls_def split: option.split)

lemma calls_drop_networks: "fm_calls (foldl (\<lambda>F k. drop_network k F) F ks) = fm_calls F"
  by (induction ks arbitrary: F) simp_all

lemma prune_calls:
  assumes "om_wf (m_fams m)"
  shows "set (fm_calls (fam_of (prune_session sid retune m) fam)) \<subseteq> set (fm_calls (fam_of m fam))"
proof (cases "om_get (m_sess m) sid")
  case None
  then show ?thesis by (simp add: prune_session_def)
next
  case c: (Some c)
  show ?thesis
  proof (cases "om_get (m_fams m) (cx_family c)")
    case None
    with c show ?thesis by (simp add: prune_session_def)
  next
    case F: (Some F)
    have g: "fam_of m (cx_family c) = F" using F by (simp add: fam_of_def om_at_def)
    show ?thesis
      using assms c F g calls_drop_networks
      by (auto simp: prune_session_def Let_def fam_of_def om_at_def om_get_del set_fam_def om_get_put upd_ctx_def
          family0_def split: option.splits if_splits)
  qed
qed

text \<open>
  C20. When a stream ends, is removed, starts again (on whatever frequency, its own included) or is retuned to
  another frequency, no call it carried stays open: whatever it was in the middle of, the explorer never shows a
  call of a dead stream as still running.
\<close>

lemma stream_end_closes:
  assumes "om_wf (m_fams m)" "om_get (m_sess m) sid = Some c"
    "m' \<in> {end_stream sid now m, remove_session sid now m, begin_stream sid label now fam freq m}
       \<or> (freq \<noteq> cx_freq c \<and> m' = retune_stream sid freq now m)"
  shows "list_all (\<lambda>k. k_session k = sid \<longrightarrow> \<not> k_open k) (fm_calls (fam_of m' (cx_family c)))"
proof -
  have closed: "\<not> k_open k" if "k \<in> set (fm_calls (fam_of (close_session_calls sid (record_line l now m)) (cx_family c)))"
    "k_session k = sid" for l k
    by (rule close_session_closed [of "record_line l now m" sid]) (use that assms(1,2) in \<open>simp_all add: record_line_def\<close>)
  have cs: "om_wf (m_fams (close_session_calls sid (record_line l now m)))" for l
    by (rule close_session_wf) (simp add: assms(1) record_line_def)
  have pr: "list_all (\<lambda>k. k_session k = sid \<longrightarrow> \<not> k_open k) (fm_calls (fam_of m' (cx_family c)))"
    if "m_fams m' = m_fams (prune_session sid b mc)" "m_fams mc = m_fams (close_session_calls sid (record_line l now m))"
    for m' b mc l
    using prune_calls [of mc sid b "cx_family c"] cs [of l] closed [of _ l] that
    by (fastforce simp: fam_of_def list_all_iff)
  from assms(3) consider "m' = end_stream sid now m" | "m' = remove_session sid now m" |
    "m' = begin_stream sid label now fam freq m" | "m' = retune_stream sid freq now m" "freq \<noteq> cx_freq c" by blast
  then show ?thesis
  proof cases
    case 1
    show ?thesis
      by (rule pr [where b = False and l = "op_line ''end'' now sid @ ''}''" and
            mc = "upd_ctx sid (\<lambda>c. c\<lparr>cx_running := False, cx_active := []\<rparr>)
              (close_session_calls sid (record_line (op_line ''end'' now sid @ ''}'') now m))"])
         (simp_all add: 1 end_stream_def Let_def bump_version_def, simp add: upd_ctx_def)
  next
    case 2
    show ?thesis
      by (rule pr [where b = False and l = "op_line ''remove'' now sid @ ''}''" and
            mc = "close_session_calls sid (record_line (op_line ''remove'' now sid @ ''}'') now m)"])
         (simp_all add: 2 remove_session_def Let_def bump_version_def)
  next
    case 3
    show ?thesis
      by (rule pr [where b = False and l = "op_line ''begin'' now sid @ jt '',`label`:'' @ lq label @ freq_field freq @ ''}''" and
            mc = "close_session_calls sid (record_line (op_line ''begin'' now sid @ jt '',`label`:'' @ lq label @ freq_field freq @ ''}'') now m)"])
         (simp_all add: 3 begin_stream_def Let_def bump_version_def)
  next
    case 4
    show ?thesis
      by (rule pr [where b = True and l = "op_line ''tune'' now sid @ jt '',`freq`:'' @ int_dec freq @ ''}''" and
            mc = "close_session_calls sid (record_line (op_line ''tune'' now sid @ jt '',`freq`:'' @ int_dec freq @ ''}'') now m)"])
         (use assms(2) 4(2) not_sym[OF 4(2)] in \<open>simp_all add: 4(1) retune_stream_def Let_def bump_version_def upd_ctx_def\<close>)
  qed
qed

definition in_call :: model where
  "in_call =
     (model0 ''x'' ''y'' 0 False 400 True (DFin 2) True)
       \<lparr>m_sess := [(1, ctx0\<lparr>cx_family := ''dmr'', cx_running := True, cx_live := True\<rparr>)], m_next_call := 1,
        m_fams := [(''dmr'', family0\<lparr>fm_calls := [call0\<lparr>k_id := 1, k_session := 1, k_tgt := ''9''\<rparr>]\<rparr>)]\<rparr>"

lemma stream_end_closes_witness:
  "list_all (\<lambda>k. k_session k = 1 \<longrightarrow> \<not> k_open k) (fm_calls (fam_of (begin_stream 1 ''dmr'' 3000 ''dmr'' 0 in_call) ''dmr''))
   \<and> cx_freq (ctx_of in_call 1) = 0 \<and> list_ex (\<lambda>k. k_session k = 1 \<and> k_open k) (fm_calls (fam_of in_call ''dmr''))"
proof -
  let ?c = "ctx0\<lparr>cx_family := ''dmr'', cx_running := True, cx_live := True\<rparr>"
  have "list_all (\<lambda>k. k_session k = 1 \<longrightarrow> \<not> k_open k) (fm_calls (fam_of (begin_stream 1 ''dmr'' 3000 ''dmr'' 0 in_call) (cx_family ?c)))"
    by (rule stream_end_closes [of in_call 1 ?c _ 3000 "''dmr''" "''dmr''" 0]) (simp_all add: in_call_def)
  then show ?thesis by (simp add: in_call_def ctx_of_def om_at_def fam_of_def call0_def ctx0_def)
qed

section \<open>Clearing\<close>

lemma cleared_parts:
  "m_fams (clear now m) = []" "m_imports (clear now m) = []" "m_next_call (clear now m) = 0"
  "m_quality (clear now m) = m_quality m" "m_max_calls (clear now m) = m_max_calls m" "m_max_err (clear now m) = m_max_err m"
  "m_since (clear now m) = now" "m_sess (clear now m) = om_map fresh_ctx (m_sess m)"
proof -
  have drop: "m_fams (drop_all_import_audio x) = m_fams x \<and> m_imports (drop_all_import_audio x) = m_imports x \<and>
      m_quality (drop_all_import_audio x) = m_quality x \<and> m_max_calls (drop_all_import_audio x) = m_max_calls x \<and>
      m_max_err (drop_all_import_audio x) = m_max_err x \<and> m_sess (drop_all_import_audio x) = m_sess x" for x
    unfolding drop_all_import_audio_def
    by (rule foldl_inv [where I = "\<lambda>y. m_fams y = m_fams x \<and> m_imports y = m_imports x \<and> m_quality y = m_quality x \<and>
          m_max_calls y = m_max_calls x \<and> m_max_err y = m_max_err x \<and> m_sess y = m_sess x"])
       (simp_all add: drop_import_audio_def Let_def)
  show "m_fams (clear now m) = []" "m_imports (clear now m) = []" "m_next_call (clear now m) = 0"
    "m_quality (clear now m) = m_quality m" "m_max_calls (clear now m) = m_max_calls m" "m_max_err (clear now m) = m_max_err m"
    "m_since (clear now m) = now" "m_sess (clear now m) = om_map fresh_ctx (m_sess m)"
    by (simp_all add: clear_def clear_locked_def Let_def drop, simp_all add: record_line_def)
qed

lemma fresh_ctx_slots: "cx_slot_call (ctx_of (clear now m) sid) = []"
  by (auto simp: ctx_of_def om_at_def cleared_parts om_get_map fresh_ctx_def ctx0_def split: option.split)

text \<open>
  C39. A clear forgets every family and every import, and of every stream all but its protocol, its frequency, when
  it started and was last heard, and whether it runs: the identity it had decoded, its network and its site are gone.
  It restarts the call ids, but keeps the voice analyzers, which are filed under call ids: the first call opened afterwards takes
  over the frames of the call that had its id before, and is shown with that call's voice quality.
\<close>

lemma clear_keeps_analyzers:
  assumes "om_get (m_quality m) 1 = Some q" "0 < m_max_calls m"
  shows "m_fams (clear now m) = [] \<and> m_imports (clear now m) = [] \<and> m_since (clear now m) = now \<and>
    om_get (m_sess (clear now m)) other = map_option (\<lambda>c.
      \<lparr>cx_family = cx_family c, cx_label = cx_label c, cx_ids = [], cx_net = [], cx_site = [], cx_strong = False,
       cx_adjacent = False, cx_live = False, cx_running = cx_running c, cx_freq = cx_freq c, cx_started = cx_started c,
       cx_heard = cx_heard c, cx_active = [], cx_slot_call = [], cx_pending = [], cx_preroll = []\<rparr>) (om_get (m_sess m) other) \<and>
    (case open_call sid fam slot t (clear now m) of (m', i) \<Rightarrow>
       i = 1 \<and> list_all (\<lambda>k. k_id k = 1 \<and> k_start k = t \<and> quality_of fam m' k = vq_summary (m_max_err m) q) (fm_calls (fam_of m' fam)) \<and>
       length (fm_calls (fam_of m' fam)) = 1)"
proof -
  have "fresh_call (ctx_of (clear now m) sid) F s t = None" for F s
    by (simp add: fresh_call_def fresh_ctx_slots)
  moreover have F: "fam_of (clear now m) fam = family0" by (simp add: fam_of_def om_at_def cleared_parts)
  moreover have "make_room fam (clear now m) = clear now m"
    by (simp add: make_room_def F audioless_def family0_def cleared_parts assms(2))
  ultimately have "open_call sid fam slot t (clear now m) =
     (upd_ctx sid (\<lambda>c. c\<lparr>cx_slot_call := om_put slot 1 (cx_slot_call c)\<rparr>)
        (upd_fam fam (\<lambda>F. F\<lparr>fm_calls := fm_calls F @ [call0\<lparr>k_id := 1, k_session := sid, k_slot := slot,
            k_net := cx_net (ctx_of (clear now m) sid), k_site := cx_site (ctx_of (clear now m) sid),
            k_freq := cx_freq (ctx_of (clear now m) sid), k_start := t, k_last := t\<rparr>]\<rparr>) ((clear now m)\<lparr>m_next_call := 1\<rparr>)), 1)"
    by (simp add: open_call_def Let_def cleared_parts)
  moreover have "fam_of ((clear now m)\<lparr>m_next_call := 1\<rparr>) fam = family0" using F by (simp add: fam_of_def)
  moreover have "fresh_ctx = (\<lambda>c.
      \<lparr>cx_family = cx_family c, cx_label = cx_label c, cx_ids = [], cx_net = [], cx_site = [], cx_strong = False,
       cx_adjacent = False, cx_live = False, cx_running = cx_running c, cx_freq = cx_freq c, cx_started = cx_started c,
       cx_heard = cx_heard c, cx_active = [], cx_slot_call = [], cx_pending = [], cx_preroll = []\<rparr>)"
    by (simp add: fun_eq_iff fresh_ctx_def ctx0_def)
  ultimately show ?thesis
    using assms
    by (simp add: om_get_map cleared_parts fam_of_upd_wf quality_of_def family0_def call0_def, simp add: upd_ctx_def upd_fam_def set_fam_def cleared_parts)
qed

lemma clear_keeps_analyzers_witness:
  "let m = in_call\<lparr>m_quality := [(1, feed_frame kSilenceFrame 0 vq_reset)]\<rparr>
   in case open_call 2 ''dmr'' ''1'' 5000 (clear 4000 m) of (m', i) \<Rightarrow>
        list_all (\<lambda>k. vs_frames (quality_of ''dmr'' m' k) = 1) (fm_calls (fam_of m' ''dmr''))"
proof -
  let ?m = "in_call\<lparr>m_quality := [(1, feed_frame kSilenceFrame 0 vq_reset)]\<rparr>"
  have "vs_frames (vq_summary (m_max_err ?m) (feed_frame kSilenceFrame 0 vq_reset)) = 1"
    by (simp add: vq_summary_def feed_frame_def vq_reset_def Let_def)
  moreover have "om_get (m_quality ?m) 1 = Some (feed_frame kSilenceFrame 0 vq_reset)" "0 < m_max_calls ?m"
    by (simp_all add: in_call_def model0_def)
  note clear_keeps_analyzers [OF this, where now = 4000 and sid = 2 and fam = "''dmr''" and slot = "''1''" and t = 5000]
  ultimately show ?thesis by (auto simp: Let_def list_all_iff split: prod.splits)
qed

end
