(* ===== verification/Assoc_Safety.thy ===== *)
theory Assoc_Safety
  imports Assoc_Lifetime
begin

text \<open>
  What the model must not do: learn from lines that failed their checksum or that no decoded traffic
  came with, record voice it has no key for, keep two forced keys for one network, or lose calls when it
  finds that two networks are one.
\<close>

section \<open>Lines that prove nothing\<close>

lemma record_line_parts:
  "m_fams (record_line l now m) = m_fams m" "m_sess (record_line l now m) = m_sess m"
  "m_next_call (record_line l now m) = m_next_call m" "m_quality (record_line l now m) = m_quality m"
  "m_version (record_line l now m) = m_version m" "m_audio (record_line l now m) = m_audio m"
  by (simp_all add: record_line_def)

lemma upd_ctx_parts:
  "m_fams (upd_ctx sid f m) = m_fams m" "m_next_call (upd_ctx sid f m) = m_next_call m"
  "m_quality (upd_ctx sid f m) = m_quality m" "m_version (upd_ctx sid f m) = m_version m" "m_audio (upd_ctx sid f m) = m_audio m"
  by (simp_all add: upd_ctx_def)

text \<open>
  C21. A line that failed its checksum, and a line of no known kind on a stream that has decoded nothing
  yet, create no network, talkgroup, radio or call and change none: noise cannot populate the explorer.
\<close>

lemma noise_learns_nothing:
  assumes "ev_crc ev = ''1'' \<or> (ev_kind ev = ''unknown'' \<and> \<not> cx_live (ctx_of m sid))"
  shows "m_fams (ingest sid ev now m) = m_fams m \<and> m_next_call (ingest sid ev now m) = m_next_call m \<and>
    m_quality (ingest sid ev now m) = m_quality m \<and> m_audio (ingest sid ev now m) = m_audio m \<and>
    m_version (ingest sid ev now m) = m_version m"
proof (cases "om_get (m_sess m) sid")
  case None
  then show ?thesis by (simp add: ingest_def Let_def record_line_parts)
next
  case (Some c)
  then have "ctx_of m sid = c" by (simp add: ctx_of_def om_at_def)
  with Some assms show ?thesis
    unfolding ingest_def Let_def
    by (elim disjE) (auto simp: record_line_parts upd_ctx_parts split: prod.split)
qed

lemma noise_learns_nothing_witness:
  "m_fams (ingest 1 (dsd_event0\<lparr>ev_kind := ''call'', ev_src := ''77'', ev_crc := ''1''\<rparr>) 2000 in_call) = m_fams in_call"
  using noise_learns_nothing [of "dsd_event0\<lparr>ev_kind := ''call'', ev_src := ''77'', ev_crc := ''1''\<rparr>" in_call 1 2000]
  by simp

section \<open>Voice without a key\<close>

lemma om_del_modify: "om_del k (om_modify k f m) = om_del k m"
  by (induction m) (auto simp: om_del_def om_modify_def)

lemma disk_discard:
  assumes "store_wf s" "om_has (as_disk s) n \<Longrightarrow> n \<in> ae_name ` set (as_index s)"
  shows "as_disk (as_discard n s) = om_del n (as_disk s)"
proof (cases "find_entry n (as_index s)")
  case None
  then have n: "n \<notin> ae_name ` set (as_index s)" by (simp add: find_entry_None)
  then have "om_get (as_open s) n = None" using store_wf_open [OF assms(1)] by (cases "om_get (as_open s) n") auto
  moreover have "om_del n (as_disk s) = as_disk s" by (rule om_del_absent) (use n assms(2) in blast)
  ultimately show ?thesis using None by (simp add: as_discard_def as_finish_def as_remove_entry_def)
next
  case (Some e)
  then show ?thesis
    by (simp add: as_discard_def as_finish_def as_patch_def as_remove_entry_def om_del_modify split: option.split)
qed

text \<open>
  C22. A block of voice of a call known to be encrypted, decoded without a key, writes nothing to disk: the folder is
  as it was, but for the file that had been recorded of this call before, which is deleted. The call is marked as
  not to be recorded and names no file any more.
\<close>

lemma unkeyed_voice_refused:
  assumes "om_get (m_sess m) sid = Some c" "om_get (m_fams m) (cx_family c) = Some F" "om_wf (m_fams m)"
    "m_audio_on m" "as_on (m_audio m)" "cx_live c" "xs \<noteq> []"
    "audio_target c F now slot xs = Some (Some k, s)" "k_enc k" "\<not> k_no_audio k"
    "m_audio m = store_reach can0 ops" "k_audio k = [] \<or> valid_name (k_audio k)"
  shows "(let m' = audio can sid slot xs False now m
    in as_disk (m_audio m') = (if k_audio k = [] then as_disk (m_audio m) else om_del (k_audio k) (as_disk (m_audio m))) \<and>
       list_all (\<lambda>k'. k_id k' = k_id k \<longrightarrow> k_no_audio k' \<and> k_audio k' = []) (fm_calls (fam_of m' (cx_family c))))"
proof -
  obtain m1 k1 where w: "refuse_audio (cx_family c) now (m, k) = (m1, k1)" by fastforce
  have "write_audio can (cx_family c) sid s xs False now (m, k) = ((m1, k1), False)"
    using assms(9,10) by (simp add: write_audio_def w)
  then have a: "audio can sid slot xs False now m = upd_fam (cx_family c) (put_call (k_id k) k1) m1"
    using assms by (simp add: audio_def)
  have st: "store_wf (m_audio m)" "disk_indexed (m_audio m)"
    using store_reach_wf store_reach_indexed by (simp_all add: assms(11))
  have dd: "as_disk (as_discard (k_audio k) (m_audio m)) = om_del (k_audio k) (as_disk (m_audio m))" if "k_audio k \<noteq> []"
    by (rule disk_discard [OF st(1)]) (use st(2) assms(12) that in \<open>auto simp: disk_indexed_def om_has_iff\<close>)
  have k1: "k_no_audio k1" "k_audio k1 = []" "k_id k1 = k_id k" and m1: "m_fams m1 = m_fams m"
    and d: "as_disk (m_audio m1) = (if k_audio k = [] then as_disk (m_audio m) else om_del (k_audio k) (as_disk (m_audio m)))"
    using w dd by (auto simp: refuse_audio_def set_keep_def bump_version_def record_line_parts split: if_splits)
  have "om_wf (m_fams m1)" using m1 assms(3) by simp
  with a d k1 show ?thesis
    by (auto simp: Let_def fam_of_upd_wf put_call_def list_all_iff, auto simp: upd_fam_def set_fam_def)
qed

text \<open>A call whose first block was in the clear, and whose next one is not.\<close>

definition recorded_ops :: "store_op list" where
  "recorded_ops = [OpEnable (Some []) ''d'' 1000000 0 0, OpCreate ''call_1_x_1.wav'' 800, OpAppend ''call_1_x_1.wav'' [500] 850]"

definition half_recorded :: model where
  "half_recorded = in_call\<lparr>m_audio_on := True, m_audio := store_reach (\<lambda>_. True) recorded_ops,
     m_sess := [(1, ctx0\<lparr>cx_family := ''dmr'', cx_live := True, cx_slot_call := [(''1'', 1)]\<rparr>)],
     m_fams := [(''dmr'', family0\<lparr>fm_calls := [call0\<lparr>k_id := 1, k_session := 1, k_slot := ''1'', k_enc := True,
       k_last := 900, k_audio := ''call_1_x_1.wav''\<rparr>]\<rparr>)]\<rparr>"

lemma unkeyed_voice_refused_witness:
  "map fst (as_disk (m_audio half_recorded)) = [''call_1_x_1.wav'']
   \<and> as_disk (m_audio (audio (\<lambda>_. True) 1 1 [500] False 1000 half_recorded)) = []"
proof -
  let ?k = "call0\<lparr>k_id := 1, k_session := 1, k_slot := ''1'', k_enc := True, k_last := 900, k_audio := ''call_1_x_1.wav''\<rparr>"
  let ?F = "family0\<lparr>fm_calls := [?k]\<rparr>"
  let ?c = "ctx0\<lparr>cx_family := ''dmr'', cx_live := True, cx_slot_call := [(''1'', 1)]\<rparr>"
  have t: "audio_target ?c ?F 1000 1 [500] = Some (Some ?k, 1)" by code_simp
  have v: "valid_name ''call_1_x_1.wav''" by code_simp
  have d: "map fst (as_disk (store_reach (\<lambda>_. True) recorded_ops)) = [''call_1_x_1.wav'']"
    "as_on (store_reach (\<lambda>_. True) recorded_ops)"
    by (simp_all add: store_reach_def run_ops_def recorded_ops_def as_enable_def as_enforce_def as_create_def v astore0_def om_has_def
        as_append_def Let_def)
  have "let m' = audio (\<lambda>_. True) 1 1 [500] False 1000 half_recorded
    in as_disk (m_audio m') = (if k_audio ?k = [] then as_disk (m_audio half_recorded)
         else om_del (k_audio ?k) (as_disk (m_audio half_recorded))) \<and>
       list_all (\<lambda>k'. k_id k' = k_id ?k \<longrightarrow> k_no_audio k' \<and> k_audio k' = []) (fm_calls (fam_of m' (cx_family ?c)))"
    by (rule unkeyed_voice_refused [OF _ _ _ _ _ _ _ t]) (simp_all add: half_recorded_def call0_def d v)
  moreover have "om_del ''call_1_x_1.wav'' dd = []" if "map fst dd = [''call_1_x_1.wav'']" for dd :: "(string, string) omap"
    using that by (auto simp: om_del_def)
  ultimately show ?thesis using d(1) by (simp add: Let_def half_recorded_def call0_def)
qed

section \<open>Two networks found to be one\<close>

lemma relabel_moves: "old \<noteq> new \<Longrightarrow> set (relabel old new s) = (\<lambda>n. if n = old then new else n) ` set s"
  by (force simp: relabel_def os_put_set os_del_set)

text \<open>
  C26. When a stream's identity shows that the network it was shown on is another one, everything moves: every
  call, talkgroup, radio and stream that referred to the old network now refers to the new one in its place, and all
  their other references stay; no call is lost, the calls counted on the two are counted on the one, and no other
  network changes.
\<close>

lemma merged_network_moves:
  assumes "om_wf (m_fams m)" "om_wf (fm_networks (fam_of m fam))" "old \<noteq> new"
    "om_get (fm_networks (fam_of m fam)) old = Some a" "om_get (fm_networks (fam_of m fam)) new = Some z"
  shows "(let F = fam_of m fam; m' = merge_network_live fam old new m; F' = fam_of m' fam;
              moved = (\<lambda>n. if n = old then new else n)
    in om_get (fm_networks F') old = None \<and>
       map_option nw_calls (om_get (fm_networks F') new) = Some (nw_calls a + nw_calls z) \<and>
       (\<forall>k. k \<noteq> old \<longrightarrow> k \<noteq> new \<longrightarrow> om_get (fm_networks F') k = om_get (fm_networks F) k) \<and>
       map k_id (fm_calls F') = map k_id (fm_calls F) \<and>
       map k_net (fm_calls F') = map (\<lambda>k. moved (k_net k)) (fm_calls F) \<and>
       (\<forall>g. map_option (\<lambda>t. set (tg_networks t)) (om_get (fm_tgs F') g) =
            map_option (\<lambda>t. moved ` set (tg_networks t)) (om_get (fm_tgs F) g)) \<and>
       (\<forall>r. map_option (\<lambda>t. set (rd_networks t)) (om_get (fm_radios F') r) =
            map_option (\<lambda>t. moved ` set (rd_networks t)) (om_get (fm_radios F) r)) \<and>
       (\<forall>sid. map_option cx_net (om_get (m_sess m') sid) = map_option (\<lambda>c. moved (cx_net c)) (om_get (m_sess m) sid)))"
proof -
  let ?F = "fam_of m fam"
  have h: "om_has (fm_networks ?F) old" "om_has (fm_networks ?F) new" using assms(4,5) by (simp_all add: om_has_def)
  have m': "merge_network_live fam old new m = (upd_fam fam (merge_family_networks old new) m)\<lparr>m_sess :=
              om_map (\<lambda>c. if cx_net c = old then c\<lparr>cx_net := new\<rparr> else c) (m_sess m)\<rparr>"
    by (simp add: merge_network_live_def h)
  have F': "fam_of (merge_network_live fam old new m) fam = merge_family_networks old new ?F"
    by (simp add: m' fam_of_upd_wf [OF assms(1)])
  have z: "nw_calls (join_live_network z a) = nw_calls z + nw_calls a" by (simp add: join_live_network_def)
  have e: "merge_family_networks old new ?F = ?F\<lparr>fm_networks := om_del old (om_put new (join_live_network z a) (fm_networks ?F)),
            fm_tgs := om_map (\<lambda>t. t\<lparr>tg_networks := relabel old new (tg_networks t)\<rparr>) (fm_tgs ?F),
            fm_radios := om_map (\<lambda>r. r\<lparr>rd_networks := relabel old new (rd_networks r)\<rparr>) (fm_radios ?F),
            fm_calls := map (\<lambda>k. if k_net k = old then k\<lparr>k_net := new\<rparr> else k) (fm_calls ?F)\<rparr>"
    by (simp add: merge_family_networks_def assms(4,5))
  have c: "map k_id (map (\<lambda>k. if k_net k = old then k\<lparr>k_net := new\<rparr> else k) cs) = map k_id cs"
    "map k_net (map (\<lambda>k. if k_net k = old then k\<lparr>k_net := new\<rparr> else k) cs) = map (\<lambda>k. if k_net k = old then new else k_net k) cs" for cs
    by simp_all
  show ?thesis
    unfolding Let_def F' e family.simps c
    using assms(2,3) relabel_moves [OF assms(3)]
    by (simp add: om_get_del om_get_put z m' om_get_map option.map_comp comp_def if_distrib [of cx_net] cong: if_cong)
qed

definition two_networks :: model where
  "two_networks =
     in_call\<lparr>m_sess := [(1, ctx0\<lparr>cx_family := ''dmr'', cx_net := ''ch@1''\<rparr>)],
       m_fams := [(''dmr'', family0\<lparr>fm_networks := [(''ch@1'', network0\<lparr>nw_calls := 2\<rparr>), (''tier3'', network0\<lparr>nw_calls := 3\<rparr>)]\<rparr>)]\<rparr>"

lemma merged_network_moves_witness:
  "map_option nw_calls (om_get (fm_networks (fam_of (merge_network_live ''dmr'' ''ch@1'' ''tier3'' two_networks) ''dmr'')) ''tier3'') = Some 5"
proof -
  have F: "fam_of two_networks ''dmr'' =
      family0\<lparr>fm_networks := [(''ch@1'', network0\<lparr>nw_calls := 2\<rparr>), (''tier3'', network0\<lparr>nw_calls := 3\<rparr>)]\<rparr>"
    by (simp add: two_networks_def fam_of_def om_at_def)
  have "om_wf (m_fams two_networks)" "om_wf (fm_networks (fam_of two_networks ''dmr''))" "''ch@1'' \<noteq> ''tier3''"
    "om_get (fm_networks (fam_of two_networks ''dmr'')) ''ch@1'' = Some (network0\<lparr>nw_calls := 2\<rparr>)"
    "om_get (fm_networks (fam_of two_networks ''dmr'')) ''tier3'' = Some (network0\<lparr>nw_calls := 3\<rparr>)"
    by (simp_all add: F, simp_all add: two_networks_def om_wf_def family0_def)
  from merged_network_moves [OF this, unfolded Let_def, THEN conjunct2, THEN conjunct1]
  show ?thesis by simp
qed

end
