(* ===== verification/Assoc_Secrets.thy ===== *)
theory Assoc_Secrets
  imports Assoc_Safety
begin

text \<open>
  The per-network keys of \<open>src/assoc_model.hpp\<close> (\<open>set_net_key\<close>, \<open>erase_net_key_locked\<close>): a three-level
  table by kind, protocol and network, what setting a key changes in it, and that a network never has
  two forced keys.
\<close>

section \<open>The table\<close>

definition secret :: "(string, net_secrets) omap \<Rightarrow> string \<Rightarrow> string \<Rightarrow> string \<Rightarrow> string option" where
  "secret ks kind fam net = om_get (om_at [] (om_at [] ks kind) fam) net"

definition secrets_wf :: "(string, net_secrets) omap \<Rightarrow> bool" where
  "secrets_wf ks \<longleftrightarrow> om_wf ks \<and> list_all (\<lambda>(_, s). om_wf s \<and> list_all (\<lambda>(_, n). om_wf n) s) ks"

lemma om_at_Some: "om_get m k = Some v \<Longrightarrow> om_at d m k = v"
  by (simp add: om_at_def)

lemma secrets_wf_kind:
  assumes "secrets_wf ks"
  shows "om_wf (om_at [] ks kind)" "om_wf (om_at [] (om_at [] ks kind) fam)"
    "list_all (\<lambda>(_, n). om_wf n) (om_at [] ks kind)"
proof -
  have at: "list_all (\<lambda>(_, v). Q v) m \<Longrightarrow> Q d \<Longrightarrow> Q (om_at d m k)" for Q d m and k :: string
    using om_at_all [of Q m d k] by auto
  have "om_wf (om_at [] ks kind) \<and> list_all (\<lambda>(_, n). om_wf n) (om_at [] ks kind)"
    using assms by (intro at [of "\<lambda>s. om_wf s \<and> list_all (\<lambda>(_, n). om_wf n) s"]) (simp_all add: secrets_wf_def)
  then show "om_wf (om_at [] ks kind)" "list_all (\<lambda>(_, n). om_wf n) (om_at [] ks kind)" by auto
  then show "om_wf (om_at [] (om_at [] ks kind) fam)"
    using om_at_all [of om_wf "om_at [] ks kind" "[]" fam] by auto
qed

lemma secret_put:
  assumes "secrets_wf ks"
  shows "secret (put_net_key kind fam net v ks) k f n = (if k = kind \<and> f = fam \<and> n = net then Some v else secret ks k f n)"
    "secrets_wf (put_net_key kind fam net v ks)"
  using secrets_wf_kind [OF assms] assms
  by (simp_all add: secret_def put_net_key_def Let_def om_at_put om_get_put secrets_wf_def om_put_all [of "\<lambda>_. om_wf"]
      om_put_all [of "\<lambda>_ s. om_wf s \<and> list_all (\<lambda>(_, n). om_wf n) s"])

lemma secret_erase:
  assumes "secrets_wf ks"
  shows "secret (fst (erase_net_key kind fam net ks)) k f n = (if k = kind \<and> f = fam \<and> n = net then None else secret ks k f n) \<and>
    secrets_wf (fst (erase_net_key kind fam net ks))"
proof (cases "om_get ks kind")
  case None
  with assms show ?thesis by (simp add: erase_net_key_def secret_def om_at_def)
next
  case s: (Some s)
  show ?thesis
  proof (cases "om_get s fam")
    case None
    with s assms show ?thesis by (simp add: erase_net_key_def secret_def om_at_def)
  next
    case nets: (Some nets)
    show ?thesis
    proof (cases "om_has nets net")
      case False
      with s nets assms show ?thesis by (auto simp: erase_net_key_def secret_def om_at_def om_has_def)
    next
      case True
      have at: "om_at [] ks kind = s" "om_at [] s fam = nets" using s nets by (simp_all add: om_at_Some)
      note wf = secrets_wf_kind [OF assms, of kind, unfolded at] secrets_wf_kind(2) [OF assms, of kind fam, unfolded at]
      define s' where "s' = (if om_del net nets = [] then om_del fam s else om_put fam (om_del net nets) s)"
      have s': "om_at [] s' f = (if f = fam then om_del net nets else om_at [] s f)" "om_wf s'" "list_all (\<lambda>(_, n). om_wf n) s'" for f
        using wf by (auto simp: s'_def om_at_del om_at_put om_del_all intro!: om_put_all [of "\<lambda>_. om_wf"])
      have e: "fst (erase_net_key kind fam net ks) = (if s' = [] then om_del kind ks else om_put kind s' ks)"
        by (simp add: erase_net_key_def s nets True Let_def s'_def)
      have "om_at [] (fst (erase_net_key kind fam net ks)) k = (if k = kind then s' else om_at [] ks k)" for k
        using assms by (auto simp: e om_at_del om_at_put secrets_wf_def)
      then have "secret (fst (erase_net_key kind fam net ks)) k f n = (if k = kind \<and> f = fam \<and> n = net then None else secret ks k f n)"
        using at by (auto simp: secret_def s' om_get_del)
      moreover have "secrets_wf (fst (erase_net_key kind fam net ks))"
        using assms s' by (auto simp: e secrets_wf_def om_del_all intro!: om_put_all [of "\<lambda>_ s. om_wf s \<and> list_all (\<lambda>(_, n). om_wf n) s"])
      ultimately show ?thesis by blast
    qed
  qed
qed

lemma secret_drop_forced:
  assumes "secrets_wf ks"
  shows "secret (drop_forced kind fam net ks) k f n =
      (if f = fam \<and> n = net \<and> k \<noteq> kind \<and> list_ex (\<lambda>o'. nk_forced o' \<and> nk_id o' = k) net_key_kinds then None else secret ks k f n) \<and>
    secrets_wf (drop_forced kind fam net ks)"
proof -
  have "secret (foldl (\<lambda>ks k. if nk_forced k \<and> nk_id k \<noteq> kind then fst (erase_net_key (nk_id k) fam net ks) else ks) ks os) k f n =
      (if f = fam \<and> n = net \<and> k \<noteq> kind \<and> list_ex (\<lambda>o'. nk_forced o' \<and> nk_id o' = k) os then None else secret ks k f n) \<and>
    secrets_wf (foldl (\<lambda>ks k. if nk_forced k \<and> nk_id k \<noteq> kind then fst (erase_net_key (nk_id k) fam net ks) else ks) ks os)"
    for os :: "net_key_kind list"
    using assms
  proof (induction os arbitrary: ks)
    case (Cons x os)
    let ?ks = "if nk_forced x \<and> nk_id x \<noteq> kind then fst (erase_net_key (nk_id x) fam net ks) else ks"
    have "secrets_wf ?ks" "secret ?ks k f n = (if nk_forced x \<and> nk_id x \<noteq> kind \<and> k = nk_id x \<and> f = fam \<and> n = net then None else secret ks k f n)"
      using secret_erase [OF Cons.prems] Cons.prems by auto
    with Cons.IH [of ?ks] show ?case by auto
  qed simp
  then show ?thesis by (simp add: drop_forced_def)
qed

text \<open>
  C40. Setting a network's key stores its normal form, and if the kind is a forced one every other forced
  key of that network is gone; no key of another network and no unforced key of another kind changes.
\<close>

lemma set_net_key_one_forced:
  assumes "secrets_wf (m_net_keys m)" "set_net_key kind fam net v m = (m', True)"
  shows "(\<exists>K. find_kind kind = Some K \<and>
     secret (m_net_keys m') kind fam net = Some (net_key_norm kind v) \<and>
     (\<forall>k f n. (k, f, n) \<noteq> (kind, fam, net) \<longrightarrow> secret (m_net_keys m') k f n =
        (if f = fam \<and> n = net \<and> nk_forced K \<and> list_ex (\<lambda>o'. nk_forced o' \<and> nk_id o' = k) net_key_kinds then None
         else secret (m_net_keys m) k f n)))"
proof -
  obtain K where K: "find_kind kind = Some K" using assms(2) by (auto simp: set_net_key_def Let_def split: option.splits)
  define ks where "ks = (if nk_forced K then drop_forced kind fam net (m_net_keys m) else m_net_keys m)"
  have wf: "secrets_wf ks" using secret_drop_forced [OF assms(1)] assms(1) by (simp add: ks_def)
  have m': "m_net_keys m' = put_net_key kind fam net (net_key_norm kind v) ks"
    using assms(2) by (auto simp: set_net_key_def K ks_def Let_def save_keys_def save_file_def bump_version_def split: if_splits)
  have "secret ks k f n =
        (if f = fam \<and> n = net \<and> k \<noteq> kind \<and> nk_forced K \<and> list_ex (\<lambda>o'. nk_forced o' \<and> nk_id o' = k) net_key_kinds then None
         else secret (m_net_keys m) k f n)" for k f n
    using secret_drop_forced [OF assms(1), of kind fam net k f n] by (cases "nk_forced K") (auto simp: ks_def)
  with K show ?thesis by (auto simp: m' secret_put [OF wf])
qed

lemma set_net_key_one_forced_witness:
  "let m = in_call\<lparr>m_net_keys := [(''tytbp'', [(''dmr'', [(''n'', ''0001'')])])]\<rparr>
   in secret (m_net_keys (fst (set_net_key ''anybp'' ''dmr'' ''n'' ''00ff'' m))) ''tytbp'' ''dmr'' ''n'' = None"
proof -
  let ?m = "in_call\<lparr>m_net_keys := [(''tytbp'', [(''dmr'', [(''n'', ''0001'')])])]\<rparr>"
  have v: "net_key_norm ''anybp'' ''00ff'' \<noteq> []" and K: "find_kind ''anybp'' = Some \<lparr>nk_id = ''anybp'', nk_digits = 4, nk_forced = True, nk_allow256 = False\<rparr>"
    and o': "list_ex (\<lambda>o'. nk_forced o' \<and> nk_id o' = ''tytbp'') net_key_kinds" by code_simp+
  have s: "set_net_key ''anybp'' ''dmr'' ''n'' ''00ff'' ?m = (fst (set_net_key ''anybp'' ''dmr'' ''n'' ''00ff'' ?m), True)"
    using v by (simp add: set_net_key_def K)
  have wf: "secrets_wf (m_net_keys ?m)" by (simp add: secrets_wf_def)
  from set_net_key_one_forced [OF wf s] K o' show ?thesis by (auto simp: Let_def)
qed

end
