(* ===== verification/Assoc_Replay.thy ===== *)
theory Assoc_Replay
  imports Assoc_Streams
begin

text \<open>
  Replaying a recording into a model (\<open>src/assoc_replay.hpp\<close>): one line at a time, with the time limit,
  the counters and the exceptions a malformed number raises. What rewrites an event before it is
  ingested is a parameter with a state of its own.
\<close>

section \<open>Numbers\<close>

definition sto_num :: "string \<Rightarrow> (bool \<times> nat) option" where
  "sto_num s =
     (let t = skip_ws s; neg = (t \<noteq> [] \<and> hd t = CHR ''-'');
          u = (if t \<noteq> [] \<and> (hd t = CHR ''-'' \<or> hd t = CHR ''+'') then tl t else t); ds = takeWhile is_digit u
      in if ds = [] then None else Some (neg, dec_val ds))"

text \<open>\<open>std::stoll\<close> and \<open>std::stoull\<close>; \<open>None\<close> is the exception.\<close>

definition stoll :: "string \<Rightarrow> int option" where
  "stoll s =
     (case sto_num s of
        None \<Rightarrow> None
      | Some (neg, n) \<Rightarrow>
          (let i = (if neg then - int n else int n) in if - (2 ^ 63) \<le> i \<and> i < 2 ^ 63 then Some i else None))"

definition stoull :: "string \<Rightarrow> nat option" where
  "stoull s =
     (case sto_num s of
        None \<Rightarrow> None
      | Some (neg, n) \<Rightarrow> if 2 ^ 64 \<le> n then None else Some (if neg \<and> n \<noteq> 0 then 2 ^ 64 - n else n))"

section \<open>The result\<close>

record replay_result =
  rr_lines :: nat
  rr_events :: nat
  rr_begins :: nat
  rr_ends :: nat
  rr_removes :: nat
  rr_clears :: nat
  rr_bad :: nat
  rr_t_first :: int
  rr_t_last :: int
  rr_header :: bool
  rr_fresh :: bool
  rr_truncated :: bool
  rr_start_model :: string
  rr_stop_model :: string
  rr_start_t :: int
  rr_stop_t :: int

definition replay_result0 :: replay_result where
  "replay_result0 = \<lparr>rr_lines = 0, rr_events = 0, rr_begins = 0, rr_ends = 0, rr_removes = 0, rr_clears = 0, rr_bad = 0,
     rr_t_first = 0, rr_t_last = 0, rr_header = False, rr_fresh = False, rr_truncated = False, rr_start_model = [],
     rr_stop_model = [], rr_start_t = 0, rr_stop_t = 0\<rparr>"

text \<open>The model text and time of a snapshot line; the outer \<open>None\<close> is an exception.\<close>

definition replay_snapshot :: "string \<Rightarrow> string \<times> int \<Rightarrow> (string \<times> int) option" where
  "replay_snapshot line mt =
     (let t = (case str_find (jt ''`t`:'') line of None \<Rightarrow> Some (snd mt) | Some i \<Rightarrow> stoll (drop (i + 4) line));
          mdl = (case str_find (jt ''`model`:'') line of
                   None \<Rightarrow> fst mt
                 | Some i \<Rightarrow> if i + 9 < length line then take (length line - (i + 8) - 1) (drop (i + 8) line) else fst mt)
      in map_option (Pair mdl) t)"

definition families_of :: "string \<Rightarrow> string" where
  "families_of mdl = (case str_find (jt ''`families`:'') mdl of None \<Rightarrow> [] | Some i \<Rightarrow> drop i mdl)"

text \<open>The first line of the file, up to what the 512-byte buffer takes.\<close>

definition recording_start_time :: "string option \<Rightarrow> int option" where
  "recording_start_time contents =
     (case contents of
        None \<Rightarrow> Some 0
      | Some s \<Rightarrow>
          if s = [] then Some 0
          else (case parse_line (takeWhile (\<lambda>c. c \<noteq> CHR 0x00) (take 511 (takeWhile (\<lambda>c. c \<noteq> CHR 0x0A) s))) of
              LThrow \<Rightarrow> None
            | LBad \<Rightarrow> Some 0
            | LOk k \<Rightarrow>
                if om_at [] k ''op'' = ''header'' \<and> om_has k ''t'' then stoll (om_at [] k ''t'') else Some 0))"

section \<open>One line\<close>

record 's replay =
  rp_model :: model
  rp_result :: replay_result
  rp_labels :: "(nat, string) omap"
  rp_stop :: bool
  rp_state :: 's

type_synonym 's rewrite = "'s \<Rightarrow> dsd_event \<Rightarrow> string \<Rightarrow> nat \<Rightarrow> 's \<times> bool \<times> dsd_event \<times> dsd_event list"

definition on_result :: "(replay_result \<Rightarrow> replay_result) \<Rightarrow> 's replay \<Rightarrow> 's replay" where
  "on_result f s = s\<lparr>rp_result := f (rp_result s)\<rparr>"

definition on_model :: "(model \<Rightarrow> model) \<Rightarrow> 's replay \<Rightarrow> 's replay" where
  "on_model f s = s\<lparr>rp_model := f (rp_model s)\<rparr>"

definition bad_line :: "'s replay \<Rightarrow> 's replay" where
  "bad_line s = on_result (\<lambda>r. r\<lparr>rr_bad := rr_bad r + 1\<rparr>) s"

definition replay_header :: "(string, string) omap \<Rightarrow> int \<Rightarrow> 's replay \<Rightarrow> 's replay" where
  "replay_header k t s =
     (let s1 = on_result (\<lambda>r. r\<lparr>rr_header := True, rr_fresh := (om_at [] k ''fresh'' = ''true'')\<rparr>) s;
          s2 = (if om_has k ''instance'' then on_model (set_identity (om_at [] k ''instance'') (om_at [] k ''name'')) s1 else s1)
      in case (if om_has k ''since'' then stoll (om_at [] k ''since'') else Some t) of
           None \<Rightarrow> bad_line s2
         | Some since \<Rightarrow>
             (let s3 = on_model (set_since since) s2
              in case (if om_has k ''max_calls'' then stoull (om_at [] k ''max_calls'') else Some 400) of
                   None \<Rightarrow> bad_line s3
                 | Some n \<Rightarrow> on_model (set_max_calls n) s3))"

definition replay_event :: "'s rewrite \<Rightarrow> (string, string) omap \<Rightarrow> nat \<Rightarrow> int \<Rightarrow> 's replay \<Rightarrow> 's replay" where
  "replay_event rw k sid t s =
     (case rw (rp_state s) (line_event k) (om_at [] (rp_labels s) sid) sid of
        (st, keep, e, before) \<Rightarrow>
          on_result (\<lambda>r. r\<lparr>rr_events := rr_events r + 1\<rparr>)
            (on_model (\<lambda>m. (if keep then ingest sid e t else id) (foldl (\<lambda>m x. ingest sid x t m) m before)) (s\<lparr>rp_state := st\<rparr>)))"

definition replay_op :: "'s rewrite \<Rightarrow> (string, string) omap \<Rightarrow> string \<Rightarrow> nat \<Rightarrow> int \<Rightarrow> 's replay \<Rightarrow> 's replay" where
  "replay_op rw k op sid t s =
     (if op = ''ev'' then replay_event rw k sid t s
      else if op = ''begin'' then
        (let s1 = s\<lparr>rp_labels := om_put sid (om_at [] k ''label'') (rp_labels s)\<rparr>
         in case (if om_has k ''freq'' then stoll (om_at [] k ''freq'') else Some 0) of
              None \<Rightarrow> bad_line s1
            | Some f \<Rightarrow> on_result (\<lambda>r. r\<lparr>rr_begins := rr_begins r + 1\<rparr>)
                (on_model (begin_stream sid (om_at [] k ''label'') t (om_at [] k ''family'') f) s1))
      else if op = ''tune'' then
        (case stoll (om_at [] k ''freq'') of None \<Rightarrow> bad_line s | Some f \<Rightarrow> on_model (retune_stream sid f t) s)
      else if op = ''keep'' then
        (case stoull (om_at [] k ''c'') of
           None \<Rightarrow> bad_line s | Some c \<Rightarrow> on_model (mark_keep (om_at [] k ''f'') c (om_at [] k ''on'' = ''1'')) s)
      else if op = ''end'' then on_result (\<lambda>r. r\<lparr>rr_ends := rr_ends r + 1\<rparr>) (on_model (end_stream sid t) s)
      else if op = ''remove'' then on_result (\<lambda>r. r\<lparr>rr_removes := rr_removes r + 1\<rparr>) (on_model (remove_session sid t) s)
      else if op = ''clear'' then on_result (\<lambda>r. r\<lparr>rr_clears := rr_clears r + 1\<rparr>) (on_model (clear t) s)
      else bad_line s)"

definition replay_fields :: "'s rewrite \<Rightarrow> int \<Rightarrow> (string, string) omap \<Rightarrow> 's replay \<Rightarrow> 's replay" where
  "replay_fields rw until k s =
     (let op = om_at [] k ''op''
      in if op = ''truncated'' then on_result (\<lambda>r. r\<lparr>rr_truncated := True\<rparr>) s
         else (case (if om_has k ''t'' then stoll (om_at [] k ''t'') else Some 0) of
             None \<Rightarrow> bad_line s
           | Some t \<Rightarrow>
               if op = ''header'' then replay_header k t s
               else if until < t then s\<lparr>rp_stop := True\<rparr>
               else
                 (let s1 = on_result (\<lambda>r. r\<lparr>rr_t_first := (if rr_t_first r = 0 then t else rr_t_first r), rr_t_last := t\<rparr>) s
                  in case (if om_has k ''s'' then stoull (om_at [] k ''s'') else Some 0) of
                       None \<Rightarrow> bad_line s1
                     | Some sid \<Rightarrow> replay_op rw k op sid t s1)))"

text \<open>A whole line; \<open>None\<close> when an exception leaves the replay (a malformed time in a snapshot line).\<close>

definition replay_line :: "'s rewrite \<Rightarrow> int \<Rightarrow> string \<Rightarrow> 's replay \<Rightarrow> 's replay option" where
  "replay_line rw until l s0 =
     (if l = [] then Some s0
      else
        (let s = on_result (\<lambda>r. r\<lparr>rr_lines := rr_lines r + 1\<rparr>) s0; r = rp_result s
         in if take 17 l = jt ''{`op`:`snapshot`,'' then
              (if str_has l (jt ''`why`:`stop`'')
               then map_option (\<lambda>(mdl, t). on_result (\<lambda>r. r\<lparr>rr_stop_model := mdl, rr_stop_t := t\<rparr>) s)
                      (replay_snapshot l (rr_stop_model r, rr_stop_t r))
               else map_option (\<lambda>(mdl, t). on_result (\<lambda>r. r\<lparr>rr_start_model := mdl, rr_start_t := t\<rparr>) s)
                      (replay_snapshot l (rr_start_model r, rr_start_t r)))
            else (case parse_line l of
                LOk k \<Rightarrow> Some (replay_fields rw until k s)
              | _ \<Rightarrow> Some (bad_line s))))"

fun replay_lines :: "'s rewrite \<Rightarrow> int \<Rightarrow> string list \<Rightarrow> 's replay \<Rightarrow> 's replay option" where
  "replay_lines rw until [] s = Some s"
| "replay_lines rw until (l # ls) s =
     (if rp_stop s then Some s
      else (case replay_line rw until l s of None \<Rightarrow> None | Some s' \<Rightarrow> replay_lines rw until ls s'))"

text \<open>\<open>contents\<close> is the uncompressed file; a last line without a newline counts.\<close>

definition replay_log :: "'s rewrite \<Rightarrow> 's \<Rightarrow> int \<Rightarrow> string option \<Rightarrow> model \<Rightarrow> (replay_result \<times> model) option \<times> bool" where
  "replay_log rw st until contents m =
     (case contents of
        None \<Rightarrow> (Some (replay_result0, m), False)
      | Some s \<Rightarrow>
          (map_option (\<lambda>p. (rp_result p, rp_model p))
             (replay_lines rw until (tokens (CHR 0x0A) s)
                \<lparr>rp_model = m, rp_result = replay_result0, rp_labels = [], rp_stop = False, rp_state = st\<rparr>), True))"

definition no_rewrite :: "unit rewrite" where
  "no_rewrite s e label sid = ((), True, e, [])"

end
