(* ===== verification/Replay_Faithful.thy ===== *)
theory Replay_Faithful
  imports Assoc_Replay
begin

text \<open>
  Recording the model's inputs and replaying them (\<open>src/assoc_log.hpp\<close>, \<open>src/assoc_replay.hpp\<close>): every input
  as the line the model writes for it, and that replaying a file of such lines feeds the same inputs to
  the model again.
\<close>

section \<open>Inputs and their lines\<close>

datatype model_input =
    InBegin nat string int int
  | InTune nat int int
  | InEvent nat dsd_event int
  | InKeep string nat bool int
  | InEnd nat int
  | InRemove nat int
  | InClear int

fun input_time :: "model_input \<Rightarrow> int" where
  "input_time (InBegin sid label t f) = t"
| "input_time (InTune sid f t) = t"
| "input_time (InEvent sid e t) = t"
| "input_time (InKeep fam c on t) = t"
| "input_time (InEnd sid t) = t"
| "input_time (InRemove sid t) = t"
| "input_time (InClear t) = t"

fun run_input :: "model_input \<Rightarrow> model \<Rightarrow> model" where
  "run_input (InBegin sid label t f) m = begin_stream sid label t [] f m"
| "run_input (InTune sid f t) m = retune_stream sid f t m"
| "run_input (InEvent sid e t) m = ingest sid e t m"
| "run_input (InKeep fam c on t) m = mark_keep fam c on m"
| "run_input (InEnd sid t) m = end_stream sid t m"
| "run_input (InRemove sid t) m = remove_session sid t m"
| "run_input (InClear t) m = clear t m"

text \<open>What is recorded of an input; the AMBE frame of an event is not.\<close>

fun recorded :: "model_input \<Rightarrow> model_input" where
  "recorded (InEvent sid e t) = InEvent sid (e\<lparr>ev_voice_frame := 0, ev_voice_err := -1\<rparr>) t"
| "recorded i = i"

fun input_line :: "model_input \<Rightarrow> string" where
  "input_line (InBegin sid label t f) = op_line ''begin'' t sid @ jt '',`label`:'' @ lq label @ freq_field f @ ''}''"
| "input_line (InTune sid f t) = op_line ''tune'' t sid @ jt '',`freq`:'' @ int_dec f @ ''}''"
| "input_line (InEvent sid e t) = event_line t sid e"
| "input_line (InKeep fam c on t) =
     jt ''{`op`:`keep`,`t`:'' @ int_dec t @ jt '',`f`:'' @ lq fam @ jt '',`c`:'' @ nat_dec c @
     jt '',`on`:'' @ (if on then ''1'' else ''0'') @ ''}''"
| "input_line (InEnd sid t) = op_line ''end'' t sid @ ''}''"
| "input_line (InRemove sid t) = op_line ''remove'' t sid @ ''}''"
| "input_line (InClear t) = jt ''{`op`:`clear`,`t`:'' @ int_dec t @ ''}''"

text \<open>Times and frequencies are 64-bit signed integers, stream and call ids 64-bit unsigned ones.\<close>

definition i64 :: "int \<Rightarrow> bool" where
  "i64 i \<longleftrightarrow> - (2 ^ 63) \<le> i \<and> i < 2 ^ 63"

definition u64 :: "nat \<Rightarrow> bool" where
  "u64 n \<longleftrightarrow> n < 2 ^ 64"

fun input_ok :: "model_input \<Rightarrow> bool" where
  "input_ok (InBegin sid label t f) \<longleftrightarrow> u64 sid \<and> i64 t \<and> i64 f"
| "input_ok (InTune sid f t) \<longleftrightarrow> u64 sid \<and> i64 t \<and> i64 f"
| "input_ok (InEvent sid e t) \<longleftrightarrow> u64 sid \<and> i64 t"
| "input_ok (InKeep fam c on t) \<longleftrightarrow> u64 c \<and> i64 t"
| "input_ok (InEnd sid t) \<longleftrightarrow> u64 sid \<and> i64 t"
| "input_ok (InRemove sid t) \<longleftrightarrow> u64 sid \<and> i64 t"
| "input_ok (InClear t) \<longleftrightarrow> i64 t"

section \<open>Reading a line back\<close>

lemma nat_dec_starts: "skip_ws (nat_dec n) = nat_dec n" "hd (nat_dec n) \<noteq> CHR ''-''" "hd (nat_dec n) \<noteq> CHR ''+''"
proof -
  have d: "is_digit (hd (nat_dec n))" by (rule nat_dec_digits [of _ n]) simp
  have "\<not> is_digit (CHR ''-'')" "\<not> is_digit (CHR ''+'')" by code_simp+
  with d show "hd (nat_dec n) \<noteq> CHR ''-''" "hd (nat_dec n) \<noteq> CHR ''+''" by auto
  have "\<not> is_space c" if "is_digit c" for c using that by (auto simp: is_digit_def is_space_def)
  with d show "skip_ws (nat_dec n) = nat_dec n" by (cases "nat_dec n") (auto simp: skip_ws_def)
qed

lemma nat_dec_all_digits: "takeWhile is_digit (nat_dec n) = nat_dec n"
  using nat_dec_digits by (simp add: takeWhile_eq_all_conv)

lemma sto_num_nat: "sto_num (nat_dec n) = Some (False, n)"
  by (simp add: sto_num_def Let_def nat_dec_starts nat_dec_all_digits)

lemma sto_num_neg: "sto_num (CHR ''-'' # nat_dec n) = Some (True, n)"
proof -
  have "\<not> is_space (CHR ''-'')" by code_simp
  then show ?thesis by (simp add: sto_num_def Let_def skip_ws_def nat_dec_all_digits)
qed

lemma stoull_nat_dec [simp]: "u64 n \<Longrightarrow> stoull (nat_dec n) = Some n"
  by (simp add: stoull_def sto_num_nat u64_def)

lemma stoll_int_dec [simp]: "i64 i \<Longrightarrow> stoll (int_dec i) = Some i"
  by (auto simp: stoll_def int_dec_def sto_num_nat sto_num_neg i64_def)

definition members_of :: "model_input \<Rightarrow> (bool \<times> string \<times> string) list" where
  "members_of i =
     (case i of
        InBegin sid label t f \<Rightarrow> [(True, ''op'', ''begin''), (False, ''t'', int_dec t), (False, ''s'', nat_dec sid),
          (True, ''label'', label)] @ (if f \<noteq> 0 then [(False, ''freq'', int_dec f)] else [])
      | InTune sid f t \<Rightarrow> [(True, ''op'', ''tune''), (False, ''t'', int_dec t), (False, ''s'', nat_dec sid), (False, ''freq'', int_dec f)]
      | InEvent sid e t \<Rightarrow> ev_members t sid e
      | InKeep fam c on t \<Rightarrow> [(True, ''op'', ''keep''), (False, ''t'', int_dec t), (True, ''f'', fam), (False, ''c'', nat_dec c),
          (False, ''on'', if on then ''1'' else ''0'')]
      | InEnd sid t \<Rightarrow> [(True, ''op'', ''end''), (False, ''t'', int_dec t), (False, ''s'', nat_dec sid)]
      | InRemove sid t \<Rightarrow> [(True, ''op'', ''remove''), (False, ''t'', int_dec t), (False, ''s'', nat_dec sid)]
      | InClear t \<Rightarrow> [(True, ''op'', ''clear''), (False, ''t'', int_dec t)])"

lemma key_plain:
  "lq ''op'' = jt ''`op`''" "lq ''t'' = jt ''`t`''" "lq ''s'' = jt ''`s`''" "lq ''label'' = jt ''`label`''" "lq ''freq'' = jt ''`freq`''"
  "lq ''f'' = jt ''`f`''" "lq ''c'' = jt ''`c`''" "lq ''on'' = jt ''`on`''" "lq ''begin'' = jt ''`begin`''" "lq ''tune'' = jt ''`tune`''"
  "lq ''keep'' = jt ''`keep`''" "lq ''end'' = jt ''`end`''" "lq ''remove'' = jt ''`remove`''" "lq ''clear'' = jt ''`clear`''"
  by code_simp+

lemma input_line_text:
  "input_line i = CHR ''{'' # member_text (hd (members_of i)) @
     concat (map (\<lambda>f. CHR '','' # member_text f) (tl (members_of i))) @ ''}''"
  by (cases i) (simp_all add: members_of_def member_text_def op_line_def freq_field_def key_plain event_line_text)

lemma input_parses:
  "parse_line (input_line i) = LOk (foldl (\<lambda>acc (b, k, v). om_put k v acc) [] (members_of i))"
proof -
  have "lit_ok ''1''" "lit_ok ''0''" by code_simp+
  then have ok: "\<forall>f \<in> set (members_of i). member_ok f"
    by (cases i) (auto simp: members_of_def member_ok_def lit_ok_dec ev_members_def ev_member_def)
  have c: "members_of i = hd (members_of i) # tl (members_of i)"
    by (cases i) (simp_all add: members_of_def ev_members_def)
  show ?thesis unfolding input_line_text using parse_line_text [of "hd (members_of i)" "tl (members_of i)"] ok by (simp only: c [symmetric])
qed

section \<open>Replaying one line\<close>

lemma not_snapshot: "take 17 (input_line i) \<noteq> jt ''{`op`:`snapshot`,''"
proof -
  have o1: "take 8 (input_line i) = jt ''{`op`:`'' @ take 1 (drop 7 (input_line i))" for i
    by (cases i) (simp_all add: op_line_def event_line_def)
  have "drop 7 (input_line i) \<noteq> [] \<and> take 2 (drop 7 (input_line i)) \<noteq> ''sn''"
    by (cases i) (simp_all add: op_line_def event_line_def)
  moreover have "take 2 (drop 7 (take 17 (input_line i))) = take 2 (drop 7 (input_line i))" by (simp add: drop_take)
  moreover have "take 2 (drop 7 (jt ''{`op`:`snapshot`,'')) = ''sn''" by code_simp
  ultimately show ?thesis by metis
qed

lemma at_some: "om_get k x = Some v \<Longrightarrow> om_at d k x = v" "om_get k x = Some v \<Longrightarrow> om_has k x"
  by (simp_all add: om_at_def om_has_def)

text \<open>What a recorded input does to a replay that has not passed its time limit.\<close>

definition replayed :: "model_input \<Rightarrow> unit replay \<Rightarrow> unit replay \<Rightarrow> bool" where
  "replayed i s s' \<longleftrightarrow> rp_model s' = run_input (recorded i) (rp_model s) \<and> \<not> rp_stop s' \<and>
     rr_bad (rp_result s') = rr_bad (rp_result s)"

lemma replay_input:
  assumes "input_ok i" "input_time i \<le> until" "\<not> rp_stop s"
  shows "\<exists>s'. replay_line no_rewrite until (input_line i) s = Some s' \<and> replayed i s s'"
proof -
  define k where "k = foldl (\<lambda>acc (b, k, v). om_put k v acc) [] (members_of i)"
  have ne: "input_line i \<noteq> []" by (simp add: input_line_text)
  have get: "om_get k j = map_of (rev (map snd (members_of i))) j" for j
    by (simp add: k_def get_puts split: option.split)
  have parses: "parse_line (input_line i) = LOk k" by (simp only: input_parses k_def)
  have line: "replay_line no_rewrite until (input_line i) s =
      Some (replay_fields no_rewrite until k (on_result (\<lambda>r. r\<lparr>rr_lines := rr_lines r + 1\<rparr>) s))"
    by (simp only: replay_line_def ne not_snapshot parses Let_def if_False log_res.case)
  note defs = replay_fields_def replay_op_def on_result_def on_model_def replayed_def
  show ?thesis
  proof (cases i)
    case (InEvent sid e t)
    obtain m where "parse_line (input_line i) = LOk m" and m: "om_get m ''op'' = Some ''ev''" "om_get m ''t'' = Some (int_dec t)"
      "om_get m ''s'' = Some (nat_dec sid)" "line_event m = e\<lparr>ev_voice_frame := 0, ev_voice_err := -1\<rparr>"
      using event_line_parses [of t sid e] by (auto simp: InEvent)
    then have k: "k = m" using parses by simp
    show ?thesis
      using assms unfolding line k
      by (simp add: InEvent replay_fields_def at_some [OF m(1)] at_some [OF m(2)] at_some [OF m(3)] m(4) replay_op_def
          replay_event_def no_rewrite_def on_result_def on_model_def replayed_def)
  next
    case (InBegin sid label t f)
    have g: "om_get k ''op'' = Some ''begin''" "om_get k ''t'' = Some (int_dec t)" "om_get k ''s'' = Some (nat_dec sid)"
      "om_get k ''label'' = Some label" and f: "om_get k ''family'' = None" "om_get k ''freq'' = (if f = 0 then None else Some (int_dec f))"
      by (simp_all add: get InBegin members_of_def)
    have "om_at [] k ''family'' = []" "om_has k ''freq'' \<longleftrightarrow> f \<noteq> 0" "f \<noteq> 0 \<longrightarrow> om_at [] k ''freq'' = int_dec f"
      by (simp_all add: om_at_def om_has_def f)
    then show ?thesis
      using assms unfolding line by (simp add: InBegin defs at_some [OF g(1)] at_some [OF g(2)] at_some [OF g(3)] at_some [OF g(4)])
  next
    case (InTune sid f t)
    have g: "om_get k ''op'' = Some ''tune''" "om_get k ''t'' = Some (int_dec t)" "om_get k ''s'' = Some (nat_dec sid)" "om_get k ''freq'' = Some (int_dec f)"
      by (simp_all add: get InTune members_of_def)
    show ?thesis using assms unfolding line by (simp add: InTune defs at_some [OF g(1)] at_some [OF g(2)] at_some [OF g(3)] at_some [OF g(4)])
  next
    case (InKeep fam c on t)
    have g: "om_get k ''op'' = Some ''keep''" "om_get k ''t'' = Some (int_dec t)" "om_get k ''f'' = Some fam"
      "om_get k ''c'' = Some (nat_dec c)" "om_get k ''on'' = Some (if on then ''1'' else ''0'')" and n: "om_get k ''s'' = None"
      by (simp_all add: get InKeep members_of_def)
    have "\<not> om_has k ''s''" by (simp add: om_has_def n)
    then show ?thesis
      using assms unfolding line
      by (simp add: InKeep defs at_some [OF g(1)] at_some [OF g(2)] at_some [OF g(3)] at_some [OF g(4)] at_some [OF g(5)])
  next
    case (InEnd sid t)
    have g: "om_get k ''op'' = Some ''end''" "om_get k ''t'' = Some (int_dec t)" "om_get k ''s'' = Some (nat_dec sid)"
      by (simp_all add: get InEnd members_of_def)
    show ?thesis using assms unfolding line by (simp add: InEnd defs at_some [OF g(1)] at_some [OF g(2)] at_some [OF g(3)])
  next
    case (InRemove sid t)
    have g: "om_get k ''op'' = Some ''remove''" "om_get k ''t'' = Some (int_dec t)" "om_get k ''s'' = Some (nat_dec sid)"
      by (simp_all add: get InRemove members_of_def)
    show ?thesis using assms unfolding line by (simp add: InRemove defs at_some [OF g(1)] at_some [OF g(2)] at_some [OF g(3)])
  next
    case (InClear t)
    have g: "om_get k ''op'' = Some ''clear''" "om_get k ''t'' = Some (int_dec t)" and n: "om_get k ''s'' = None"
      by (simp_all add: get InClear members_of_def)
    have "\<not> om_has k ''s''" by (simp add: om_has_def n)
    then show ?thesis using assms unfolding line by (simp add: InClear defs at_some [OF g(1)] at_some [OF g(2)])
  qed
qed

section \<open>A whole recording\<close>

lemma replay_inputs:
  "\<forall>i \<in> set is. input_ok i \<and> input_time i \<le> until \<Longrightarrow> \<not> rp_stop s \<Longrightarrow>
    \<exists>s'. replay_lines no_rewrite until (map input_line is) s = Some s' \<and>
      rp_model s' = foldl (\<lambda>m i. run_input (recorded i) m) (rp_model s) is \<and> rr_bad (rp_result s') = rr_bad (rp_result s)"
proof (induction "is" arbitrary: s)
  case (Cons i "is")
  obtain s1 where 1: "replay_line no_rewrite until (input_line i) s = Some s1" and r: "replayed i s s1"
    using replay_input [of i until s] Cons.prems by auto
  obtain s' where "replay_lines no_rewrite until (map input_line is) s1 = Some s'"
    "rp_model s' = foldl (\<lambda>m i. run_input (recorded i) m) (rp_model s1) is" "rr_bad (rp_result s') = rr_bad (rp_result s1)"
    using Cons.IH [of s1] Cons.prems r by (auto simp: replayed_def)
  then show ?case using Cons.prems(2) r by (simp add: 1 replayed_def)
qed simp

definition one_line :: "string \<Rightarrow> bool" where
  "one_line s \<longleftrightarrow> CHR 0x0A \<notin> set s"

lemma lq_one_line: "one_line (lq s)"
proof -
  have h: "list_all (\<lambda>d. hex_digit d \<noteq> CHR 0x0A) [0..<16]" by code_simp
  have "CHR 0x0A \<notin> set (lesc_char c)" for c
  proof (cases "c = CHR 0x0A")
    case True
    show ?thesis unfolding True by code_simp
  next
    case False
    have "hex_digit d \<noteq> CHR 0x0A" if "d < 16" for d using h that by (simp add: list_all_iff)
    moreover have "byte c div 16 < 16" using byte_less [of c] by (simp add: less_mult_imp_div_less)
    ultimately
    have "hex_digit (byte c div 16) \<noteq> CHR 0x0A" "hex_digit (byte c mod 16) \<noteq> CHR 0x0A" by simp_all
    with False show ?thesis by (auto simp: lesc_char_def u_escape_def)
  qed
  then show ?thesis by (auto simp: one_line_def lq_def)
qed

lemma dec_one_line: "one_line (nat_dec n)" "one_line (int_dec i)"
proof -
  have "\<not> is_digit (CHR 0x0A)" by code_simp
  then show "one_line (nat_dec n)" "one_line (int_dec i)"
    by (auto simp: one_line_def int_dec_def dest: nat_dec_digits)
qed

lemma input_one_line: "one_line (input_line i)"
proof -
  have "one_line (member_text (b, k, v))" if "b \<or> one_line v" for b k v
    using that lq_one_line by (auto simp: member_text_def one_line_def)
  moreover have "\<forall>(b, k, v) \<in> set (members_of i). b \<or> one_line v"
    using dec_one_line by (cases i) (auto simp: members_of_def ev_members_def ev_member_def one_line_def)
  ultimately have "one_line (member_text f)" if "f \<in> set (members_of i)" for f using that by (cases f) fastforce
  moreover have "members_of i \<noteq> []" by (cases i) (simp_all add: members_of_def ev_members_def)
  ultimately have "one_line (member_text (hd (members_of i)))" "\<forall>f \<in> set (tl (members_of i)). one_line (member_text f)"
    by (simp_all add: list.set_sel(2))
  then show ?thesis unfolding input_line_text by (auto simp: one_line_def)
qed

lemma tokens_lines: "\<forall>l \<in> set ls. one_line l \<Longrightarrow> tokens (CHR 0x0A) (concat (map (\<lambda>l. l @ [CHR 0x0A]) ls)) = ls"
proof (induction ls)
  case (Cons l ls)
  have "takeWhile (\<lambda>d. d \<noteq> CHR 0x0A) (l @ CHR 0x0A # r) = l" for r
    using Cons.prems by (subst takeWhile_append2) (auto simp: one_line_def)
  with Cons show ?case by (subst tokens.simps) (simp add: Let_def)
qed (subst tokens.simps, simp)

text \<open>
  C3. Replaying a recording feeds the model exactly the recorded inputs, in order and with their times:
  a file of the lines written for any inputs replays without a bad line, and leaves the model as those
  inputs leave it, except that events come back without their AMBE frames.
\<close>

lemma replay_applies:
  assumes "\<forall>i \<in> set is. input_ok i \<and> input_time i \<le> until"
  shows "\<exists>r. replay_log no_rewrite () until (Some (concat (map (\<lambda>i. input_line i @ [CHR 0x0A]) is))) m =
      (Some (r, foldl (\<lambda>m i. run_input (recorded i) m) m is), True) \<and> rr_bad r = 0"
proof -
  have t: "tokens (CHR 0x0A) (concat (map (\<lambda>i. input_line i @ [CHR 0x0A]) is)) = map input_line is"
    using tokens_lines [of "map input_line is"] input_one_line by (simp add: comp_def)
  let ?s = "\<lparr>rp_model = m, rp_result = replay_result0, rp_labels = [], rp_stop = False, rp_state = ()\<rparr>"
  obtain s' where "replay_lines no_rewrite until (map input_line is) ?s = Some s'"
    "rp_model s' = foldl (\<lambda>m i. run_input (recorded i) m) m is" "rr_bad (rp_result s') = 0"
    using replay_inputs [of "is" until ?s] assms by (auto simp: replay_result0_def)
  then show ?thesis by (simp add: replay_log_def t)
qed

lemma replay_applies_witness:
  "fst (replay_log no_rewrite () 2000
     (Some (concat (map (\<lambda>i. input_line i @ [CHR 0x0A])
        [InBegin 1 ''dmr'' 1000 0, InEvent 1 (dsd_event0\<lparr>ev_kind := ''call'', ev_src := ''7'', ev_tg := ''9''\<rparr>) 1500, InEnd 1 1800])))
     (model0 ''x'' ''y'' 0 False 400 True (DFin 2) True)) \<noteq> None"
proof -
  let ?is = "[InBegin 1 ''dmr'' 1000 0, InEvent 1 (dsd_event0\<lparr>ev_kind := ''call'', ev_src := ''7'', ev_tg := ''9''\<rparr>) 1500, InEnd 1 1800]"
  have "\<forall>i \<in> set ?is. input_ok i \<and> input_time i \<le> 2000" by (simp add: u64_def i64_def)
  from replay_applies [OF this, of "model0 ''x'' ''y'' 0 False 400 True (DFin 2) True"] show ?thesis by auto
qed

end
