(* ===== verification/Regex_Search.thy ===== *)
theory Regex_Search
  imports Bytes
begin

text \<open>
  What the code uses of \<open>std::regex\<close> (ECMAScript syntax): patterns, their text form, and
  \<open>std::regex_search\<close> as a backtracking matcher that gives all matches at a position in order of
  priority; and that a search finds the leftmost position at which the pattern matches at all, by a
  declarative meaning of patterns. None of these definitions models a function of the repository.
\<close>

section \<open>Patterns\<close>

datatype re =
    Eps
  | Chr "char \<Rightarrow> bool"
  | Cat re re
  | Alt re re
  | Rep bool nat "nat option" re
  | Grp nat re
  | Not_Ahead re
  | Eol
  | Word_B

text \<open>The character before the position, the text from it on, and the groups captured so far.\<close>

type_synonym rx_state = "char option \<times> string \<times> (nat \<times> string) list"

definition is_word :: "char \<Rightarrow> bool" where
  "is_word c \<longleftrightarrow> is_alnum c \<or> c = CHR ''_''"

definition word_boundary :: "char option \<Rightarrow> string \<Rightarrow> bool" where
  "word_boundary p s \<longleftrightarrow>
     (case p of None \<Rightarrow> False | Some c \<Rightarrow> is_word c) \<noteq> (case s of [] \<Rightarrow> False | c # _ \<Rightarrow> is_word c)"

section \<open>Matching\<close>

text \<open>At most \<open>n\<close> further iterations, none of them empty; the greedy form tries them before stopping.\<close>

fun rx_star :: "bool \<Rightarrow> (rx_state \<Rightarrow> rx_state list) \<Rightarrow> nat \<Rightarrow> rx_state \<Rightarrow> rx_state list" where
  "rx_star g f 0 s = [s]"
| "rx_star g f (Suc n) s =
     (let again = concat (map (rx_star g f n) (filter (\<lambda>t. length (fst (snd t)) < length (fst (snd s))) (f s)))
      in if g then again @ [s] else s # again)"

fun rx_times :: "(rx_state \<Rightarrow> rx_state list) \<Rightarrow> nat \<Rightarrow> rx_state \<Rightarrow> rx_state list" where
  "rx_times f 0 s = [s]"
| "rx_times f (Suc n) s = concat (map (rx_times f n) (f s))"

definition rx_capture :: "nat \<Rightarrow> string \<Rightarrow> rx_state \<Rightarrow> rx_state" where
  "rx_capture i s t =
     (case t of (p, r, k) \<Rightarrow> (p, r, (i, take (length s - length r) s) # k))"

primrec rx_match :: "re \<Rightarrow> rx_state \<Rightarrow> rx_state list" where
  "rx_match Eps s = [s]"
| "rx_match (Chr P) s =
     (case s of (p, r, k) \<Rightarrow> (case r of [] \<Rightarrow> [] | c # r' \<Rightarrow> if P c then [(Some c, r', k)] else []))"
| "rx_match (Cat a b) s = concat (map (rx_match b) (rx_match a s))"
| "rx_match (Alt a b) s = rx_match a s @ rx_match b s"
| "rx_match (Rep g lo hi a) s =
     concat (map (\<lambda>t. rx_star g (rx_match a) (case hi of None \<Rightarrow> length (fst (snd t)) | Some h \<Rightarrow> h - lo) t)
       (rx_times (rx_match a) lo s))"
| "rx_match (Grp i a) s = map (rx_capture i (fst (snd s))) (rx_match a s)"
| "rx_match (Not_Ahead a) s = (if rx_match a s = [] then [s] else [])"
| "rx_match Eol s = (if fst (snd s) = [] then [s] else [])"
| "rx_match Word_B s = (if word_boundary (fst s) (fst (snd s)) then [s] else [])"

text \<open>\<open>std::regex_search\<close>: how much text comes before the match, what follows it, and its groups.\<close>

fun rx_find :: "re \<Rightarrow> char option \<Rightarrow> string \<Rightarrow> (nat \<times> string \<times> (nat \<times> string) list) option" where
  "rx_find a p s =
     (case rx_match a (p, s, []) of
        t # _ \<Rightarrow> Some (0, snd t)
      | [] \<Rightarrow> (case s of [] \<Rightarrow> None | c # s' \<Rightarrow> map_option (\<lambda>(n, t). (Suc n, t)) (rx_find a (Some c) s')))"

declare rx_find.simps [simp del]

type_synonym rx_groups = "(nat \<times> string) list"

definition rx_search :: "re \<Rightarrow> string \<Rightarrow> rx_groups option" where
  "rx_search a s = map_option (\<lambda>(n, r, k). k) (rx_find a None s)"

definition rx_has :: "re \<Rightarrow> string \<Rightarrow> bool" where
  "rx_has a s \<longleftrightarrow> rx_search a s \<noteq> None"

text \<open>A group that took part, and its text (empty when it did not).\<close>

definition matched :: "rx_groups \<Rightarrow> nat \<Rightarrow> bool" where
  "matched k i \<longleftrightarrow> map_of k i \<noteq> None"

definition group :: "rx_groups \<Rightarrow> nat \<Rightarrow> string" where
  "group k i = (case map_of k i of None \<Rightarrow> [] | Some s \<Rightarrow> s)"

section \<open>The text form of patterns\<close>

text \<open>Patterns are written as in the code, with a tilde in place of each backslash.\<close>

definition rx_esc :: "char \<Rightarrow> char \<Rightarrow> bool" where
  "rx_esc e c =
     (if e = CHR ''d'' then is_digit c else if e = CHR ''D'' then \<not> is_digit c
      else if e = CHR ''s'' then is_space c else if e = CHR ''S'' then \<not> is_space c
      else if e = CHR ''w'' then is_word c else c = e)"

definition rx_icase :: "bool \<Rightarrow> (char \<Rightarrow> bool) \<Rightarrow> char \<Rightarrow> bool" where
  "rx_icase i P = (if i then (\<lambda>c. P (to_lower c) \<or> P (to_upper c)) else P)"

fun rx_class :: "string \<Rightarrow> (char \<Rightarrow> bool) \<times> string" where
  "rx_class [] = (\<lambda>_. False, [])"
| "rx_class (c # r) =
     (if c = CHR '']'' then (\<lambda>_. False, r)
      else if c = CHR 0x7E \<and> r \<noteq> [] then (case rx_class (tl r) of (P, q) \<Rightarrow> (\<lambda>d. rx_esc (hd r) d \<or> P d, q))
      else if 2 \<le> length r \<and> hd r = CHR ''-'' \<and> r ! 1 \<noteq> CHR '']'' then
        (case rx_class (drop 2 r) of (P, q) \<Rightarrow> (\<lambda>d. (byte c \<le> byte d \<and> byte d \<le> byte (r ! 1)) \<or> P d, q))
      else (case rx_class r of (P, q) \<Rightarrow> (\<lambda>d. d = c \<or> P d, q)))"

definition rx_lazy :: "string \<Rightarrow> bool \<times> string" where
  "rx_lazy s = (if s \<noteq> [] \<and> hd s = CHR ''?'' then (False, tl s) else (True, s))"

definition rx_quant :: "re \<Rightarrow> string \<Rightarrow> re \<times> string" where
  "rx_quant a s =
     (case s of
        [] \<Rightarrow> (a, [])
      | c # r \<Rightarrow>
          if c = CHR ''*'' then (case rx_lazy r of (g, q) \<Rightarrow> (Rep g 0 None a, q))
          else if c = CHR ''+'' then (case rx_lazy r of (g, q) \<Rightarrow> (Rep g 1 None a, q))
          else if c = CHR ''?'' then (case rx_lazy r of (g, q) \<Rightarrow> (Rep g 0 (Some 1) a, q))
          else if c = CHR ''{'' then
            (let lo = takeWhile is_digit r; r1 = dropWhile is_digit r
             in if r1 \<noteq> [] \<and> hd r1 = CHR '','' then
                  (case rx_lazy (drop 1 (dropWhile is_digit (tl r1))) of
                     (g, q) \<Rightarrow> (Rep g (dec_val lo) (Some (dec_val (takeWhile is_digit (tl r1)))) a, q))
                else (case rx_lazy (drop 1 r1) of (g, q) \<Rightarrow> (Rep g (dec_val lo) (Some (dec_val lo)) a, q)))
          else (a, s))"

text \<open>
  The parser: the first argument bounds the nesting, the second says whether letter case is ignored, the
  third is the number of the next group.
\<close>

fun rx_alt :: "nat \<Rightarrow> bool \<Rightarrow> nat \<Rightarrow> string \<Rightarrow> re \<times> nat \<times> string"
  and rx_seq :: "nat \<Rightarrow> bool \<Rightarrow> nat \<Rightarrow> string \<Rightarrow> re \<times> nat \<times> string"
  and rx_atom :: "nat \<Rightarrow> bool \<Rightarrow> nat \<Rightarrow> string \<Rightarrow> re \<times> nat \<times> string" where
  "rx_alt 0 i g s = (Eps, g, s)"
| "rx_alt (Suc n) i g s =
     (case rx_seq n i g s of (a, g1, r) \<Rightarrow>
        (if r \<noteq> [] \<and> hd r = CHR ''|'' then (case rx_alt n i g1 (tl r) of (b, g2, q) \<Rightarrow> (Alt a b, g2, q)) else (a, g1, r)))"
| "rx_seq 0 i g s = (Eps, g, s)"
| "rx_seq (Suc n) i g s =
     (if s = [] \<or> hd s = CHR ''|'' \<or> hd s = CHR '')'' then (Eps, g, s)
      else (case rx_atom n i g s of (a, g1, r) \<Rightarrow>
             (case rx_quant a r of (a', r') \<Rightarrow> (case rx_seq n i g1 r' of (b, g2, q) \<Rightarrow> (Cat a' b, g2, q)))))"
| "rx_atom 0 i g s = (Eps, g, s)"
| "rx_atom (Suc n) i g s =
     (case s of
        [] \<Rightarrow> (Eps, g, [])
      | c # r \<Rightarrow>
          if c = CHR ''('' then
            (if take 2 r = ''?:'' then (case rx_alt n i g (drop 2 r) of (a, g1, q) \<Rightarrow> (a, g1, drop 1 q))
             else if take 2 r = ''?!'' then (case rx_alt n i g (drop 2 r) of (a, g1, q) \<Rightarrow> (Not_Ahead a, g1, drop 1 q))
             else (case rx_alt n i (Suc g) r of (a, g1, q) \<Rightarrow> (Grp g a, g1, drop 1 q)))
          else if c = CHR ''['' then
            (if r \<noteq> [] \<and> hd r = CHR 0x5E then (case rx_class (tl r) of (P, q) \<Rightarrow> (Chr (\<lambda>d. \<not> rx_icase i P d), g, q))
             else (case rx_class r of (P, q) \<Rightarrow> (Chr (rx_icase i P), g, q)))
          else if c = CHR ''.'' then (Chr (\<lambda>d. d \<noteq> CHR 0x0A \<and> d \<noteq> CHR 0x0D), g, r)
          else if c = CHR ''$'' then (Eol, g, r)
          else if c = CHR 0x7E \<and> r \<noteq> [] then
            (if hd r = CHR ''b'' then (Word_B, g, tl r) else (Chr (rx_icase i (rx_esc (hd r))), g, tl r))
          else (Chr (rx_icase i (\<lambda>d. d = c)), g, r))"

definition rx :: "string \<Rightarrow> re" where
  "rx s = fst (rx_alt (3 * length s + 3) True 1 s)"

definition rx_case :: "string \<Rightarrow> re" where
  "rx_case s = fst (rx_alt (3 * length s + 3) False 1 s)"


section \<open>What patterns mean\<close>

text \<open>
  Matching without priorities or groups: the relation between the positions (the character before, the
  text from there on) at which a match can start and end.
\<close>

type_synonym rx_pos = "char option \<times> string"

abbreviation rx_pos :: "rx_state \<Rightarrow> rx_pos" where
  "rx_pos s \<equiv> (fst s, fst (snd s))"

primrec rx_rel :: "re \<Rightarrow> (rx_pos \<times> rx_pos) set" where
  "rx_rel Eps = Id"
| "rx_rel (Chr P) = {((p, c # r), (Some c, r)) | p c r. P c}"
| "rx_rel (Cat a b) = rx_rel a O rx_rel b"
| "rx_rel (Alt a b) = rx_rel a \<union> rx_rel b"
| "rx_rel (Rep g lo hi a) =
     (\<Union>k \<in> {k. lo \<le> k \<and> (case hi of None \<Rightarrow> True | Some h \<Rightarrow> k \<le> max lo h)}. rx_rel a ^^ k)"
| "rx_rel (Grp i a) = rx_rel a"
| "rx_rel (Not_Ahead a) = {(x, x) | x. x \<notin> Domain (rx_rel a)}"
| "rx_rel Eol = {((p, []), (p, [])) | p. True}"
| "rx_rel Word_B = {((p, r), (p, r)) | p r. word_boundary p r}"

definition rx_progress :: "(rx_pos \<times> rx_pos) set" where
  "rx_progress = {(x, y). length (snd y) < length (snd x)}"

text \<open>A match consumes a piece of the text, and one that consumes nothing stays at its position.\<close>

definition rx_eats :: "rx_pos \<Rightarrow> rx_pos \<Rightarrow> bool" where
  "rx_eats x y \<longleftrightarrow> (\<exists>u. snd x = u @ snd y \<and> fst y = (if u = [] then fst x else Some (last u)))"

lemma rx_eats_refl [simp]: "rx_eats x x"
  by (auto simp: rx_eats_def)

lemma rx_eats_trans: "rx_eats x y \<Longrightarrow> rx_eats y z \<Longrightarrow> rx_eats x z"
  unfolding rx_eats_def
proof (elim exE conjE)
  fix u v
  assume "snd x = u @ snd y" "fst y = (if u = [] then fst x else Some (last u))"
    "snd y = v @ snd z" "fst z = (if v = [] then fst y else Some (last v))"
  then have "snd x = (u @ v) @ snd z \<and> fst z = (if u @ v = [] then fst x else Some (last (u @ v)))" by simp
  then show "\<exists>w. snd x = w @ snd z \<and> fst z = (if w = [] then fst x else Some (last w))" by blast
qed

lemma rx_eats_pow: "(\<And>x y. (x, y) \<in> R \<Longrightarrow> rx_eats x y) \<Longrightarrow> (x, y) \<in> R ^^ k \<Longrightarrow> rx_eats x y"
proof (induction k arbitrary: y)
  case (Suc k)
  then obtain z where "(x, z) \<in> R ^^ k" "(z, y) \<in> R" by (auto elim: relpow_Suc_E)
  then show ?case using Suc by (blast intro: rx_eats_trans)
qed simp

lemma rx_rel_eats: "(x, y) \<in> rx_rel a \<Longrightarrow> rx_eats x y"
proof (induction a arbitrary: x y)
  case (Rep g lo hi a)
  then obtain k where "(x, y) \<in> rx_rel a ^^ k" by auto
  then show ?case using Rep.IH by (rule rx_eats_pow[rotated])
next
  case (Cat a b)
  then obtain z where "(x, z) \<in> rx_rel a" "(z, y) \<in> rx_rel b" by auto
  then show ?case using Cat.IH by (blast intro: rx_eats_trans)
next
  case (Chr P)
  then obtain p c r where "x = (p, c # r)" "y = (Some c, r)" by auto
  then show ?case unfolding rx_eats_def by (intro exI[of _ "[c]"]) simp
next
  case (Alt a b)
  then show ?case by (cases "(x, y) \<in> rx_rel a") auto
next
  case (Grp i a)
  then show ?case by simp
qed auto

lemma rx_eats_stay: "rx_eats x y \<Longrightarrow> (x, y) \<notin> rx_progress \<Longrightarrow> y = x"
  by (cases x; cases y) (auto simp: rx_eats_def rx_progress_def)

lemma rx_pow_progress:
  assumes "\<And>x y. (x, y) \<in> R \<Longrightarrow> rx_eats x y"
  shows "(x, y) \<in> R ^^ k \<Longrightarrow> \<exists>j \<le> k. (x, y) \<in> (R \<inter> rx_progress) ^^ j"
proof (induction k arbitrary: y)
  case (Suc k)
  obtain z where zk: "(x, z) \<in> R ^^ k" "(z, y) \<in> R" using Suc.prems by (auto elim: relpow_Suc_E)
  obtain j where z: "j \<le> k" "(x, z) \<in> (R \<inter> rx_progress) ^^ j" using Suc.IH[OF zk(1)] by blast
  show ?case
  proof (cases "(z, y) \<in> rx_progress")
    case True
    then have "(x, y) \<in> (R \<inter> rx_progress) ^^ Suc j" using z zk by (intro relpow_Suc_I) auto
    then show ?thesis using z(1) by (metis Suc_le_mono)
  next
    case False
    then have "y = z" using assms[OF zk(2)] rx_eats_stay by simp
    then show ?thesis using z le_SucI by blast
  qed
qed auto

lemma rx_progress_bound: "(x, y) \<in> (R \<inter> rx_progress) ^^ j \<Longrightarrow> j + length (snd y) \<le> length (snd x)"
  by (induction j arbitrary: y) (fastforce simp: rx_progress_def)+

lemma rx_pow_mono:
  fixes R S :: "('a \<times> 'a) set"
  shows "(x, y) \<in> (R \<inter> S) ^^ j \<Longrightarrow> (x, y) \<in> R ^^ j"
proof (induction j arbitrary: y)
  case (Suc j)
  then obtain z where "(x, z) \<in> (R \<inter> S) ^^ j" "(z, y) \<in> R" by (auto elim: relpow_Suc_E)
  then show ?case using Suc.IH by (intro relpow_Suc_I)
qed simp

lemma rx_times_rel:
  assumes "\<And>s. rx_pos ` set (f s) = R `` {rx_pos s}"
  shows "rx_pos ` set (rx_times f n s) = (R ^^ n) `` {rx_pos s}"
proof (induction n arbitrary: s)
  case (Suc n)
  have "rx_pos ` set (rx_times f (Suc n) s) = (\<Union>t \<in> set (f s). (R ^^ n) `` {rx_pos t})"
    using Suc by (simp add: image_UN)
  also have "\<dots> = (R ^^ n) `` (rx_pos ` set (f s))" by auto
  also have "\<dots> = (R O R ^^ n) `` {rx_pos s}" by (simp add: assms relcomp_Image)
  finally show ?case by (simp add: relpow_commute)
qed simp

lemma rx_star_rel:
  assumes "\<And>s. rx_pos ` set (f s) = R `` {rx_pos s}"
  shows "rx_pos ` set (rx_star g f n s) = {y. \<exists>k \<le> n. (rx_pos s, y) \<in> (R \<inter> rx_progress) ^^ k}"
proof (induction n arbitrary: s)
  case (Suc n)
  let ?on = "filter (\<lambda>t. length (fst (snd t)) < length (fst (snd s))) (f s)"
  have on: "rx_pos ` set ?on = (R \<inter> rx_progress) `` {rx_pos s}"
    using assms[of s] by (fastforce simp: rx_progress_def image_iff set_eq_iff)
  have "rx_pos ` set (rx_star g f (Suc n) s) = insert (rx_pos s) (\<Union>t \<in> set ?on. rx_pos ` set (rx_star g f n t))"
    by (auto simp: Let_def image_UN)
  also have "(\<Union>t \<in> set ?on. rx_pos ` set (rx_star g f n t))
      = (\<Union>x \<in> rx_pos ` set ?on. {y. \<exists>k \<le> n. (x, y) \<in> (R \<inter> rx_progress) ^^ k})"
    unfolding Suc by simp
  also have "\<dots> = {y. \<exists>k \<le> n. (rx_pos s, y) \<in> (R \<inter> rx_progress) ^^ Suc k}"
    unfolding on relpow.simps(2) relpow_commute[symmetric] by blast
  also have "insert (rx_pos s) \<dots> = {y. \<exists>k \<le> Suc n. (rx_pos s, y) \<in> (R \<inter> rx_progress) ^^ k}" (is "?l = ?r")
  proof
    show "?l \<subseteq> ?r" by (auto simp del: relpow.simps(2) intro: exI[of _ 0])
    show "?r \<subseteq> ?l"
    proof
      fix y assume "y \<in> ?r"
      then obtain k where k: "k \<le> Suc n" "(rx_pos s, y) \<in> (R \<inter> rx_progress) ^^ k" by auto
      then show "y \<in> ?l" by (cases k) auto
    qed
  qed
  finally show ?case .
qed simp

lemma rx_rep_rel:
  assumes m: "\<And>s. rx_pos ` set (rx_match a s) = rx_rel a `` {rx_pos s}"
  shows "rx_pos ` set (rx_match (Rep g lo hi a) s) = rx_rel (Rep g lo hi a) `` {rx_pos s}" (is "?l = ?r")
proof -
  let ?R = "rx_rel a" and ?n = "\<lambda>t. case hi of None \<Rightarrow> length (fst (snd t)) | Some h \<Rightarrow> h - lo"
  let ?more = "\<lambda>x. {y. \<exists>k. (case hi of None \<Rightarrow> True | Some h \<Rightarrow> k \<le> h - lo) \<and> (x, y) \<in> ?R ^^ k}"
  have R: "rx_eats x y" if "(x, y) \<in> ?R" for x y using that by (rule rx_rel_eats)
  have star: "rx_pos ` set (rx_star g (rx_match a) (?n t) t) = ?more (rx_pos t)" for t
    unfolding rx_star_rel[OF m]
  proof (intro Collect_cong iffI)
    fix y assume "\<exists>k \<le> ?n t. (rx_pos t, y) \<in> (?R \<inter> rx_progress) ^^ k"
    then obtain k where k: "k \<le> ?n t" "(rx_pos t, y) \<in> (?R \<inter> rx_progress) ^^ k" by auto
    have "(rx_pos t, y) \<in> ?R ^^ k" using k(2) by (rule rx_pow_mono)
    then show "\<exists>k. (case hi of None \<Rightarrow> True | Some h \<Rightarrow> k \<le> h - lo) \<and> (rx_pos t, y) \<in> ?R ^^ k"
      using k(1) by (cases hi) auto
  next
    fix y assume "\<exists>k. (case hi of None \<Rightarrow> True | Some h \<Rightarrow> k \<le> h - lo) \<and> (rx_pos t, y) \<in> ?R ^^ k"
    then obtain k where k: "case hi of None \<Rightarrow> True | Some h \<Rightarrow> k \<le> h - lo" "(rx_pos t, y) \<in> ?R ^^ k" by auto
    obtain j where j: "j \<le> k" "(rx_pos t, y) \<in> (?R \<inter> rx_progress) ^^ j" using rx_pow_progress[OF R k(2)] by auto
    moreover have "j \<le> length (fst (snd t))" using rx_progress_bound[OF j(2)] by simp
    ultimately show "\<exists>k \<le> ?n t. (rx_pos t, y) \<in> (?R \<inter> rx_progress) ^^ k"
      using k(1) by (intro exI[of _ j]) (auto split: option.splits)
  qed
  have "?l = (\<Union>t \<in> set (rx_times (rx_match a) lo s). ?more (rx_pos t))" by (simp add: image_UN star)
  also have "\<dots> = (\<Union>x \<in> rx_pos ` set (rx_times (rx_match a) lo s). ?more x)" by blast
  also have "\<dots> = (\<Union>x \<in> (?R ^^ lo) `` {rx_pos s}. ?more x)" unfolding rx_times_rel[OF m] by simp
  also have "\<dots> = ?r"
  proof (intro set_eqI iffI)
    fix y assume "y \<in> (\<Union>x \<in> (?R ^^ lo) `` {rx_pos s}. ?more x)"
    then obtain x k where xk: "(rx_pos s, x) \<in> ?R ^^ lo" "(x, y) \<in> ?R ^^ k"
      "case hi of None \<Rightarrow> True | Some h \<Rightarrow> k \<le> h - lo" by auto
    then have "(rx_pos s, y) \<in> ?R ^^ (lo + k)" by (auto simp: relpow_add)
    then show "y \<in> ?r" using xk(3) by (cases hi) (auto intro!: exI[of _ "lo + k"])
  next
    fix y assume "y \<in> ?r"
    then obtain k where k: "lo \<le> k" "case hi of None \<Rightarrow> True | Some h \<Rightarrow> k \<le> max lo h" "(rx_pos s, y) \<in> ?R ^^ k" by auto
    then have "(rx_pos s, y) \<in> ?R ^^ lo O ?R ^^ (k - lo)" by (metis le_add_diff_inverse relpow_add)
    then obtain x where "(rx_pos s, x) \<in> ?R ^^ lo" "(x, y) \<in> ?R ^^ (k - lo)" by auto
    then show "y \<in> (\<Union>x \<in> (?R ^^ lo) `` {rx_pos s}. ?more x)"
      using k(2) by (auto split: option.splits intro!: bexI[of _ x] exI[of _ "k - lo"])
  qed
  finally show ?thesis .
qed

lemma rx_match_empty:
  assumes "rx_pos ` set (rx_match a s) = rx_rel a `` {rx_pos s}"
  shows "rx_match a s = [] \<longleftrightarrow> rx_pos s \<notin> Domain (rx_rel a)"
proof -
  have "rx_match a s = [] \<longleftrightarrow> rx_pos ` set (rx_match a s) = {}" by simp
  then show ?thesis unfolding assms by blast
qed

text \<open>The matcher finds exactly the matches of the meaning.\<close>

lemma rx_match_rel: "rx_pos ` set (rx_match a s) = rx_rel a `` {rx_pos s}"
proof (induction a arbitrary: s)
  case (Cat a b)
  have "rx_pos ` set (rx_match (Cat a b) s) = (\<Union>t \<in> set (rx_match a s). rx_rel b `` {rx_pos t})"
    by (simp add: image_UN Cat.IH)
  also have "\<dots> = rx_rel b `` (rx_pos ` set (rx_match a s))" by auto
  finally show ?case by (simp add: Cat.IH relcomp_Image)
next
  case (Rep g lo hi a)
  then show ?case by (rule rx_rep_rel)
next
  case (Grp i a)
  have "rx_pos (rx_capture i x t) = rx_pos t" for x t by (simp add: rx_capture_def split: prod.splits)
  then show ?case using Grp[of s] by (simp add: image_image)
next
  case (Not_Ahead a)
  show ?case using rx_match_empty[OF Not_Ahead[of s]] by auto
next
  case (Chr P)
  then show ?case by (cases s) (auto split: list.splits)
next
  case Word_B
  then show ?case by (cases s) auto
next
  case Eol
  then show ?case by (cases s) auto
qed (auto simp: image_Un)

lemma rx_match_Nil: "rx_match a s = [] \<longleftrightarrow> rx_pos s \<notin> Domain (rx_rel a)"
  by (rule rx_match_empty[OF rx_match_rel])

text \<open>The position after \<open>n\<close> characters of a text.\<close>

definition rx_at :: "char option \<Rightarrow> string \<Rightarrow> nat \<Rightarrow> rx_pos" where
  "rx_at p s n = ((if n = 0 then p else Some (s ! (n - 1))), drop n s)"

lemma rx_at_0 [simp]: "rx_at p s 0 = (p, s)"
  by (simp add: rx_at_def)

lemma rx_at_Suc [simp]: "rx_at p (c # s) (Suc n) = rx_at (Some c) s n"
  by (auto simp: rx_at_def)

text \<open>A search gives the leftmost position at which the pattern matches, and finds one whenever there is one.\<close>

lemma rx_find_None: "rx_find a p s = None \<longleftrightarrow> (\<forall>i \<le> length s. rx_at p s i \<notin> Domain (rx_rel a))"
proof (induction s arbitrary: p)
  case Nil
  then show ?case using rx_match_Nil[of a "(p, [], [])"]
    by (subst rx_find.simps) (auto split: list.splits)
next
  case (Cons c s)
  have here: "rx_match a (p, c # s, []) = [] \<longleftrightarrow> (p, c # s) \<notin> Domain (rx_rel a)"
    using rx_match_Nil[of a "(p, c # s, [])"] by simp
  have all: "(\<forall>i \<le> length (c # s). Q i) \<longleftrightarrow> Q 0 \<and> (\<forall>i \<le> length s. Q (Suc i))" for Q
    by (metis (no_types, lifting) Suc_le_mono length_Cons not0_implies_Suc zero_le)
  show ?case unfolding all using Cons[of "Some c"] here
    by (subst rx_find.simps) (auto split: list.splits)
qed

lemma rx_find_Some:
  "rx_find a p s = Some (n, t) \<Longrightarrow>
     n \<le> length s \<and> (\<exists>q. (rx_at p s n, (q, fst t)) \<in> rx_rel a) \<and> (\<forall>i < n. rx_at p s i \<notin> Domain (rx_rel a))"
proof (induction s arbitrary: p n)
  case Nil
  then have "n = 0 \<and> (\<exists>q. (q, t) \<in> set (rx_match a (p, [], [])))"
    by (subst (asm) rx_find.simps) (auto split: list.splits)
  then show ?case using rx_match_rel[of a "(p, [], [])"] by force
next
  case (Cons c s)
  show ?case
  proof (cases "rx_match a (p, c # s, [])")
    case Nil
    then obtain m where m: "n = Suc m" "rx_find a (Some c) s = Some (m, t)"
      using Cons.prems by (subst (asm) rx_find.simps) auto
    have "(p, c # s) \<notin> Domain (rx_rel a)" using Nil rx_match_Nil[of a "(p, c # s, [])"] by simp
    then show ?thesis using Cons.IH[OF m(2)] m(1) by (fastforce simp: less_Suc_eq_0_disj)
  next
    case (Cons u us)
    then have "n = 0" "t = snd u" using Cons.prems by (subst (asm) rx_find.simps, simp)+
    then show ?thesis using rx_match_rel[of a "(p, c # s, [])"] Cons by (cases u) force
  qed
qed

lemma rx_has_iff: "rx_has a s \<longleftrightarrow> (\<exists>i \<le> length s. rx_at None s i \<in> Domain (rx_rel a))"
  using rx_find_None[of a None s] by (auto simp: rx_has_def rx_search_def)

section \<open>Patterns that only consume\<close>

text \<open>A pattern without anchors and look-ahead is a set of texts, found wherever one of them occurs.\<close>

primrec plain :: "re \<Rightarrow> bool" where
  "plain Eps = True"
| "plain (Chr P) = True"
| "plain (Cat a b) = (plain a \<and> plain b)"
| "plain (Alt a b) = (plain a \<and> plain b)"
| "plain (Rep g lo hi a) = plain a"
| "plain (Grp i a) = plain a"
| "plain (Not_Ahead a) = False"
| "plain Eol = False"
| "plain Word_B = False"

fun rx_words :: "string set \<Rightarrow> nat \<Rightarrow> string set" where
  "rx_words L 0 = {[]}"
| "rx_words L (Suc k) = {u @ v | u v. u \<in> rx_words L k \<and> v \<in> L}"

primrec rx_lang :: "re \<Rightarrow> string set" where
  "rx_lang Eps = {[]}"
| "rx_lang (Chr P) = {[c] | c. P c}"
| "rx_lang (Cat a b) = {u @ v | u v. u \<in> rx_lang a \<and> v \<in> rx_lang b}"
| "rx_lang (Alt a b) = rx_lang a \<union> rx_lang b"
| "rx_lang (Rep g lo hi a) =
     (\<Union>k \<in> {k. lo \<le> k \<and> (case hi of None \<Rightarrow> True | Some h \<Rightarrow> k \<le> max lo h)}. rx_words (rx_lang a) k)"
| "rx_lang (Grp i a) = rx_lang a"
| "rx_lang (Not_Ahead a) = {}"
| "rx_lang Eol = {}"
| "rx_lang Word_B = {}"

definition eaten :: "char option \<Rightarrow> string \<Rightarrow> char option" where
  "eaten p u = (if u = [] then p else Some (last u))"

definition consumes :: "string set \<Rightarrow> (rx_pos \<times> rx_pos) set" where
  "consumes L = {((p, u @ r), (eaten p u, r)) | p u r. u \<in> L}"

lemma consumes_Nil: "consumes {[]} = Id"
  by (auto simp: consumes_def eaten_def)

lemma consumes_append: "consumes {u @ v | u v. u \<in> L \<and> v \<in> M} = consumes L O consumes M"
proof (intro set_eqI iffI)
  fix z assume "z \<in> consumes {u @ v | u v. u \<in> L \<and> v \<in> M}"
  then obtain p u v r where z: "z = ((p, u @ v @ r), (eaten p (u @ v), r))" "u \<in> L" "v \<in> M"
    by (auto simp: consumes_def)
  have "((p, u @ v @ r), (eaten p u, v @ r)) \<in> consumes L" using z(2) by (auto simp: consumes_def)
  moreover have "((eaten p u, v @ r), (eaten p (u @ v), r)) \<in> consumes M"
    using z(3) by (auto simp: consumes_def eaten_def)
  ultimately show "z \<in> consumes L O consumes M" unfolding z(1) by blast
next
  fix z assume "z \<in> consumes L O consumes M"
  then obtain p u v r where z: "z = ((p, u @ v @ r), (eaten (eaten p u) v, r))" "u \<in> L" "v \<in> M"
    by (auto simp: consumes_def)
  have "eaten (eaten p u) v = eaten p (u @ v)" by (simp add: eaten_def)
  then show "z \<in> consumes {u @ v | u v. u \<in> L \<and> v \<in> M}"
    unfolding consumes_def z(1) using z(2,3) by (auto intro: exI[of _ "u @ v"])
qed

lemma consumes_words: "consumes (rx_words L k) = consumes L ^^ k"
  by (induction k) (simp_all add: consumes_Nil consumes_append)

lemma consumes_Un: "consumes (\<Union>k \<in> K. F k) = (\<Union>k \<in> K. consumes (F k))"
  by (fastforce simp: consumes_def)

lemma rx_rel_plain: "plain a \<Longrightarrow> rx_rel a = consumes (rx_lang a)"
proof (induction a)
  case (Alt a b)
  then show ?case by (auto simp: consumes_def)
next
  case (Chr P)
  show ?case
  proof (intro set_eqI iffI)
    fix z assume "z \<in> rx_rel (Chr P)"
    then obtain p c r where "z = ((p, [c] @ r), (eaten p [c], r))" "P c" by (auto simp: eaten_def)
    then show "z \<in> consumes (rx_lang (Chr P))" unfolding consumes_def rx_lang.simps by blast
  qed (auto simp: consumes_def eaten_def)
qed (simp_all add: consumes_Nil consumes_append consumes_words consumes_Un)

lemma rx_has_plain: "plain a \<Longrightarrow> rx_has a s \<longleftrightarrow> (\<exists>u \<in> rx_lang a. sublist u s)"
proof -
  assume a: "plain a"
  have "rx_at None s i \<in> Domain (rx_rel a) \<longleftrightarrow> (\<exists>u \<in> rx_lang a. prefix u (drop i s))" for i
    unfolding rx_rel_plain[OF a] by (auto simp: rx_at_def consumes_def prefix_def)
  then have "rx_has a s \<longleftrightarrow> (\<exists>i \<le> length s. \<exists>u \<in> rx_lang a. prefix u (drop i s))"
    unfolding rx_has_iff by simp
  also have "\<dots> \<longleftrightarrow> (\<exists>u \<in> rx_lang a. sublist u s)"
  proof
    assume "\<exists>i \<le> length s. \<exists>u \<in> rx_lang a. prefix u (drop i s)"
    then show "\<exists>u \<in> rx_lang a. sublist u s" by (meson prefix_imp_sublist sublist_drop sublist_order.order.trans)
  next
    assume "\<exists>u \<in> rx_lang a. sublist u s"
    then obtain u b c where u: "u \<in> rx_lang a" "s = b @ u @ c" by (auto simp: sublist_def)
    then have "length b \<le> length s" "prefix u (drop (length b) s)" by auto
    then show "\<exists>i \<le> length s. \<exists>u \<in> rx_lang a. prefix u (drop i s)" using u(1) by blast
  qed
  finally show ?thesis .
qed

text \<open>Repeated characters, and a character in either case.\<close>

lemma rx_words_chars: "rx_words {[c] | c. P c} k = {u. length u = k \<and> list_all P u}"
proof (induction k)
  case (Suc k)
  show ?case unfolding rx_words.simps Suc
  proof (intro set_eqI iffI)
    fix u assume "u \<in> {u. length u = Suc k \<and> list_all P u}"
    then obtain v c where "u = v @ [c]" "length v = k" "list_all P v" "P c" by (auto simp: length_Suc_conv_rev)
    then show "u \<in> {u @ v | u v. u \<in> {u. length u = k \<and> list_all P u} \<and> v \<in> {[c] | c. P c}}" by blast
  qed auto
qed auto

lemma rx_lang_chars: "rx_lang (Rep g 0 None (Chr P)) = {u. list_all P u}"
  by (auto simp: rx_words_chars)

lemma not_upper_to_lower: "\<not> is_upper (to_lower c)"
proof (cases "is_upper c")
  case True
  then have "byte c + 32 < 256" by (simp add: is_upper_def)
  then have "byte (to_lower c) = byte c + 32" using True by (simp add: to_lower_def byte_chr)
  then show ?thesis using True by (simp add: is_upper_def)
qed (simp add: to_lower_def)

lemma icase_upper: "is_upper d \<Longrightarrow> rx_icase True (\<lambda>c. c = d) = (\<lambda>c. to_upper c = d)"
  using not_upper_to_lower by (auto simp: rx_icase_def fun_eq_iff)

lemma is_space_to_lower: "is_space (to_lower c) \<longleftrightarrow> is_space c"
proof (cases "is_upper c")
  case True
  then have "byte c + 32 < 256" by (simp add: is_upper_def)
  then have "byte (to_lower c) = byte c + 32" using True by (simp add: to_lower_def byte_chr)
  then show ?thesis using True by (simp add: is_upper_def is_space_def)
qed (simp add: to_lower_def)

lemma icase_space: "rx_icase True (rx_esc (CHR ''s'')) = is_space"
  by (simp add: rx_icase_def rx_esc_def fun_eq_iff is_space_to_lower str_simps)

text \<open>A word in either case, then the rest of a pattern.\<close>

fun rx_word :: "string \<Rightarrow> re \<Rightarrow> re" where
  "rx_word [] a = a"
| "rx_word (d # w) a = Cat (Chr (\<lambda>c. to_upper c = d)) (rx_word w a)"

lemma plain_word [simp]: "plain (rx_word w a) = plain a"
  by (induction w) auto

lemma rx_lang_char: "u \<in> rx_lang (Cat (Chr P) a) \<longleftrightarrow> (\<exists>c v. u = c # v \<and> P c \<and> v \<in> rx_lang a)"
  by (simp, metis append_Cons append_Nil)

lemma map_split: "map f xs = ys @ zs \<Longrightarrow> \<exists>us vs. xs = us @ vs \<and> map f us = ys \<and> map f vs = zs"
  by (auto simp: map_eq_append_conv)

lemma rx_lang_word: "u \<in> rx_lang (rx_word w a) \<longleftrightarrow> (\<exists>x v. u = x @ v \<and> map to_upper x = w \<and> v \<in> rx_lang a)"
proof (induction w arbitrary: u)
  case (Cons d w)
  show ?case unfolding rx_word.simps rx_lang_char Cons
  proof
    assume "\<exists>c v. u = c # v \<and> to_upper c = d \<and> (\<exists>x z. v = x @ z \<and> map to_upper x = w \<and> z \<in> rx_lang a)"
    then obtain c v x z where "u = c # v" "to_upper c = d" "v = x @ z" "map to_upper x = w" "z \<in> rx_lang a" by blast
    then show "\<exists>y z. u = y @ z \<and> map to_upper y = d # w \<and> z \<in> rx_lang a"
      by (intro exI[of _ "c # x"] exI[of _ z]) simp
  next
    assume "\<exists>y z. u = y @ z \<and> map to_upper y = d # w \<and> z \<in> rx_lang a"
    then obtain y z where y: "u = y @ z" "map to_upper y = d # w" "z \<in> rx_lang a" by (elim exE conjE)
    then show "\<exists>c v. u = c # v \<and> to_upper c = d \<and> (\<exists>x z. v = x @ z \<and> map to_upper x = w \<and> z \<in> rx_lang a)"
    proof (cases y)
      case (Cons c x)
      then show ?thesis using y by (intro exI[of _ c] exI[of _ "x @ z"] conjI exI[of _ x] exI[of _ z]) simp_all
    qed (use y in simp)
  qed
qed simp

lemma upper_spaces: "list_all is_space w \<Longrightarrow> map to_upper w = w"
  by (induction w) (auto simp: to_upper_def is_space_def is_lower_def)

lemma list_all_space_upper: "list_all is_space (map to_upper w) \<longleftrightarrow> list_all is_space w"
  by (simp add: list_all_iff is_space_to_upper)

lemma rx_tags_lang:
  "rx_lang (Cat (Grp i (Alt (rx_word a Eps) (Alt (rx_word b Eps) (rx_word c Eps)))) (Cat (Rep g 0 None (Chr P)) (rx_word e Eps)))
     = {x @ w @ y | x w y. map to_upper x \<in> {a, b, c} \<and> list_all P w \<and> map to_upper y = e}"
proof -
  have w: "rx_lang (rx_word v Eps) = {x. map to_upper x = v}" for v by (auto simp: rx_lang_word)
  show ?thesis unfolding rx_lang.simps(3,4,6) w rx_lang_chars by blast
qed

lemma sublist_upper:
  "(\<exists>u \<in> {x @ w @ y | x w y. map to_upper x \<in> T \<and> list_all is_space w \<and> map to_upper y = e}. sublist u s)
     \<longleftrightarrow> (\<exists>tag \<in> T. \<exists>w. list_all is_space w \<and> sublist (tag @ w @ e) (map to_upper s))" (is "?l \<longleftrightarrow> ?r")
proof
  assume ?l
  then obtain x w y where u: "sublist (x @ w @ y) s" "map to_upper x \<in> T" "list_all is_space w" "map to_upper y = e" by blast
  have "sublist (map to_upper (x @ w @ y)) (map to_upper s)" using u(1) by (rule map_mono_sublist)
  then have "sublist (map to_upper x @ w @ e) (map to_upper s)" using u(3,4) by (simp add: upper_spaces)
  then show ?r using u(2,3) by blast
next
  assume ?r
  then obtain tag w b d where u: "tag \<in> T" "list_all is_space w" "map to_upper s = b @ (tag @ w @ e) @ d"
    unfolding sublist_def by blast
  from map_split[OF u(3)] obtain b' r where r: "s = b' @ r" "map to_upper r = tag @ w @ e @ d" by auto
  from map_split[OF r(2)] obtain x q where q: "r = x @ q" "map to_upper x = tag" "map to_upper q = w @ e @ d" by blast
  from map_split[OF q(3)] obtain w' p where p: "q = w' @ p" "map to_upper w' = w" "map to_upper p = e @ d" by blast
  from map_split[OF p(3)] obtain y d' where "p = y @ d'" "map to_upper y = e" by blast
  then have s: "s = b' @ (x @ w' @ y) @ d'" "map to_upper x = tag" "map to_upper w' = w" "map to_upper y = e"
    using r q p by simp_all
  have "sublist (x @ w' @ y) s" unfolding s(1) by (rule sublist_appendI)
  then show ?l using u s list_all_space_upper[of w'] by blast
qed

end
