(* ===== verification/Decoder_Patterns.thy ===== *)
theory Decoder_Patterns
  imports Regex_Search
begin

text \<open>
  The patterns of \<open>classify_dsd_fme_line\<close> (\<open>src/dsd_process.cpp\<close>), in the order and under the names
  of the code, each as its text with a tilde for every backslash. \<open>rx\<close> ignores letter case
  (\<open>std::regex::icase\<close>), \<open>rx_case\<close> does not.
\<close>

definition tg_re :: re where
  "tg_re = rx ''TGT?[:=]?~s*(~d+)''"

definition src_re :: re where
  "src_re = rx ''(?:SRC|RID|Source)[:=]?~s*(~d+)''"

definition slot_bracket_re :: re where
  "slot_bracket_re = rx ''~[slot~s*(~d)~]''"

definition slot_re :: re where
  "slot_re = rx ''~b(?:TS|Slot)[:=]?~s*(~d)''"

definition cc_re :: re where
  "cc_re = rx ''(?:Colou?r|Channel)~s*Code[:=]?~s*(~d+)''"

definition err_re :: re where
  "err_re = rx ''(CRC|FEC|EMB)~s*ERR''"

definition sync_re :: re where
  "sync_re = rx ''sync|no sync|nosync''"

definition voice_re :: re where
  "voice_re = rx ''voice|ambe''"

definition ran_re :: re where
  "ran_re = rx ''~bRAN~s+(~d+)''"

definition site_re :: re where
  "site_re = rx ''Site~s*Code:?~s*(~d+)''"

definition sys_re :: re where
  "sys_re = rx ''Sys(?:tem)?~s*Code:?~s*(~d+)''"

definition loc_re :: re where
  "loc_re = rx ''Location~s*ID~s*~[?~s*([0-9A-Fa-f]+)~s*~]?''"

definition cat_re :: re where
  "cat_re = rx ''~bCat(?:egory)?~s*:~s*([A-Za-z]+)''"

definition netid_re :: re where
  "netid_re = rx ''Net~s*ID:~s*(~d+)''"

definition siteid_re :: re where
  "siteid_re = rx ''~bSite(?:~s*ID)?~s*(?::~s*|~[~s*)(~d+(?:~.~d+)?)''"

definition rest_re :: re where
  "rest_re = rx ''Rest~s*LSN:~s*(~d+)''"

definition lcn_re :: re where
  "lcn_re = rx ''~bLP?CN:~s*(~d+)''"

definition emerg_re :: re where
  "emerg_re = rx ''~bEmergency~b(?!~s*[:=])''"

definition emerg_val_re :: re where
  "emerg_val_re = rx ''~bEmergency~s*=~s*1~b''"

definition alias_re :: re where
  "alias_re = rx ''~bAlias:~s*(~S.*?)~s*$''"

definition sms_re :: re where
  "sms_re = rx ''~b(?:UTF-?8|UTF-?16|ISO~s?7|ISO~s?8)~s*Text:~s*(.*~S)?~s*$''"

definition nac_re :: re where
  "nac_re = rx ''~bNAC(?:/CC)?:~s*([0-9A-Fa-f]+)''"

definition algid_re :: re where
  "algid_re = rx ''~bALG(?:~s*ID)?:~s*(?:0x)?([0-9A-Fa-f]{1,2})~b''"

definition keyid_re :: re where
  "keyid_re = rx ''~b(?:KEY~s*ID|KID):~s*(?:0x)?([0-9A-Fa-f]{1,4})~b''"

definition nxdn_cipher_re :: re where
  "nxdn_cipher_re = rx_case ''~b(Scrambler|DES|AES)~s*-~s*Key ID (~d{1,3})~b''"

definition rfss_re :: re where
  "rfss_re = rx ''~bRFSS~s*(?::~s*|~[~s*)([0-9A-Fa-f]+)''"

definition sysid_re :: re where
  "sysid_re = rx ''~bSYS~s*(?:ID~s*)?(?::~s*|~[~s*)([0-9A-Fa-f]+)''"

definition wacn_re :: re where
  "wacn_re = rx ''~bWACN~s*(?::~s*|~[~s*)([0-9A-Fa-f]+)''"

definition dstar_ctx_re :: re where
  "dstar_ctx_re = rx ''DSTAR''"

definition dstar_hdr_re :: re where
  "dstar_hdr_re = rx ''~bRPT~s*2:.*~bRPT~s*1:.*~bDST:''"

definition ysf_ctx_re :: re where
  "ysf_ctx_re = rx ''~bYSF~b''"

definition cs_src_re :: re where
  "cs_src_re = rx ''~bSRC:~s*(.*?)~s*(?:DST:|U/?L:|D/?L:|RM~d|DATA~b|REPEATER~b|INTERRUPTED~b|CONTROL~b|URGENT~b|$)''"

definition cs_dst_re :: re where
  "cs_dst_re = rx ''~bDST:~s*(.*?)~s*(?:SRC:|U/?L:|D/?L:|RPT|DATA~b|REPEATER~b|$)''"

definition cs_rpt2_re :: re where
  "cs_rpt2_re = rx ''RPT~s*2:~s*(.*?)~s*(?:RPT~s*1:|DST:|SRC:|$)''"

definition cs_rpt1_re :: re where
  "cs_rpt1_re = rx ''RPT~s*1:~s*(.*?)~s*(?:DST:|SRC:|$)''"

definition dstar_text_re :: re where
  "dstar_text_re = rx ''~bTEXT:~s*(~S.*?)~s*$''"

definition ysf_ul_re :: re where
  "ysf_ul_re = rx ''~bU/?L:~s*(.*?)~s*(?:D/?L:|RM~d|$)''"

definition ysf_dl_re :: re where
  "ysf_dl_re = rx ''~bD/?L:~s*(.*?)~s*(?:RM~d|$)''"

definition ysf_dstrid_re :: re where
  "ysf_dstrid_re = rx ''~bDST~s*RID:~s*(~S+)''"

definition ysf_srcrid_re :: re where
  "ysf_srcrid_re = rx ''~bSRC~s*RID:~s*(~S+)''"

definition target_re :: re where
  "target_re = rx ''~bTarget:?~s*(~d+)''"

definition lcw_group_re :: re where
  "lcw_group_re = rx ''Voice Channel User~b.*?~bGroup~s+(~d+)''"

definition other_ts_re :: re where
  "other_ts_re = rx ''Capacity Plus Channel Status|~bLCN~b''"

definition trailing_status_re :: re where
  "trailing_status_re = rx ''~s*~(?~s*(?:CRC|FEC|EMB)~s*ERR~s*~)?~s*$''"

definition mnis_re :: re where
  "mnis_re = rx_case ''~bMNIS~s+([A-Za-z]{2,8})~s*;''"

definition mnis_type_re :: re where
  "mnis_type_re = rx ''MNIS~s+Type:~s*([0-9A-Fa-f]+)''"

definition pair_re :: re where
  "pair_re = rx_case ''~(~s*(-?~d{1,2}~.~d+)~s*,~s*(-?~d{1,3}~.~d+)~s*~)''"

definition latlon_re :: re where
  "latlon_re = rx_case ''Lat~w*~s*:?~s*(-?~d{1,2}~.~d+)[^NSns~d-]{0,4}([NSns])?.*?Lon~w*~s*:?~s*(-?~d{1,3}~.~d+)[^EWew~d-]{0,4}([EWew])?''"

definition ed_ctx_re :: re where
  "ed_ctx_re = rx ''~bLCN~s*[~[:]|~bAFS~b|~bCall(?:er|ee)~b|(?:Digital|Analog|Data)~s+(?:Group|System|I-|Individual)''"

definition ed_src_re :: re where
  "ed_src_re = rx ''~b(?:Source|Caller)~D{0,4}(~d+)''"

definition ed_grp_re :: re where
  "ed_grp_re = rx ''~b(?:Group|Target|Callee)~D{0,4}(~d+)''"

definition ed_lcn_re :: re where
  "ed_lcn_re = rx ''~bLCN~D{0,4}(~d+)''"

definition ed_afs_re :: re where
  "ed_afs_re = rx ''~bAFS~D{0,4}(~d+)''"

definition ed_lid_re :: re where
  "ed_lid_re = rx ''~bLID~D{0,4}(~d+)''"

definition ed_sys_re :: re where
  "ed_sys_re = rx ''~bSystem~s*ID~s*~[?~s*([0-9A-Fa-f]+)''"

definition ambe_re :: re where
  "ambe_re = rx ''~bAMBE~s+([0-9A-Fa-f]+)~s+err~s*=~s*~[(~d+)~]~s*~[(~d+)~]''"

end
