(* ===== verification/Decoder_Line.thy ===== *)
theory Decoder_Line
  imports Decoder_Patterns Assoc_Log Voice_Quality
begin

text \<open>
  What one line of the decoder's log says (\<open>src/dsd_process.cpp\<close>): the clean-up of the line, the tidy-up
  of its fields, and \<open>classify_dsd_fme_line\<close>, part by part in the order of the code. A \<open>std::stod\<close> that
  throws out of the classifier is the left side of its result.
\<close>

section \<open>Text helpers\<close>

text \<open>\<open>strip_ansi\<close>: escape sequences, each up to and including its letter, and carriage returns.\<close>

function strip_ansi :: "string \<Rightarrow> string" where
  "strip_ansi s =
     (case s of
        [] \<Rightarrow> []
      | c # r \<Rightarrow>
          if c = CHR 0x1B \<and> r \<noteq> [] \<and> hd r = CHR ''['' then
            strip_ansi (drop 1 (dropWhile (\<lambda>d. \<not> is_alpha d) (tl r)))
          else if c = CHR 0x0D then strip_ansi r
          else c # strip_ansi r)"
  by auto
termination
proof (relation "measure length", goal_cases)
  case (2 s c r)
  have "length (dropWhile (\<lambda>d. \<not> is_alpha d) (tl r)) \<le> length (tl r)" by (rule length_dropWhile_le)
  then show ?case using 2 by simp
qed auto

declare strip_ansi.simps [simp del]

definition strip_leading_zeros :: "string \<Rightarrow> string" where
  "strip_leading_zeros s = (if skip_char (CHR ''0'') s = [] then ''0'' else skip_char (CHR ''0'') s)"

definition lower :: "string \<Rightarrow> string" where
  "lower s = map to_lower s"

definition upper_hex :: "string \<Rightarrow> string" where
  "upper_hex s = map to_upper s"

text \<open>The state of \<open>tidy_callsign\<close>'s loop: the text so far, a pending space, and whether all are stars.\<close>

definition tidy_step :: "char \<Rightarrow> string \<times> bool \<times> bool \<Rightarrow> string \<times> bool \<times> bool" where
  "tidy_step c0 st =
     (case st of (out, pending, stars) \<Rightarrow>
        let c = (if byte c0 < 0x20 \<or> 0x7E < byte c0 then CHR '' '' else c0)
        in if c = CHR '' '' then (out, pending \<or> out \<noteq> [], stars)
           else ((if pending then out @ '' '' else out) @ [c], False, stars \<and> c = CHR ''*''))"

definition tidy_callsign :: "string \<Rightarrow> string" where
  "tidy_callsign s =
     (case fold tidy_step s ([], False, True) of (out, _, stars) \<Rightarrow> if out = [] \<or> stars then [] else out)"

text \<open>The text of a pattern's first group, when the pattern is found.\<close>

definition grab :: "re \<Rightarrow> string \<Rightarrow> string option" where
  "grab a s = map_option (\<lambda>k. group k 1) (rx_search a s)"

text \<open>\<open>std::atoi\<close> on digits: \<open>strtol\<close> saturates, the cast keeps the low 32 bits.\<close>

definition atoi :: "string \<Rightarrow> int" where
  "atoi s = sint (word_of_nat (min (dec_val s) (2 ^ 63 - 1)) :: 32 word)"

section \<open>Identifiers\<close>

definition line_talkgroup :: "string \<Rightarrow> string" where
  "line_talkgroup s =
     (case grab tg_re s of Some g \<Rightarrow> strip_leading_zeros g
      | None \<Rightarrow> (case grab target_re s of Some g \<Rightarrow> strip_leading_zeros g
      | None \<Rightarrow> (case grab lcw_group_re s of Some g \<Rightarrow> strip_leading_zeros g
      | None \<Rightarrow> [])))"

definition line_slot :: "string \<Rightarrow> string" where
  "line_slot s =
     (case grab slot_bracket_re s of Some g \<Rightarrow> g
      | None \<Rightarrow> (case grab slot_re s of Some g \<Rightarrow> if rx_has other_ts_re s then [] else g
      | None \<Rightarrow> []))"

definition stripped :: "string option \<Rightarrow> string" where
  "stripped g = (case g of None \<Rightarrow> [] | Some t \<Rightarrow> strip_leading_zeros t)"

definition line_ids :: "string \<Rightarrow> dsd_event \<Rightarrow> dsd_event" where
  "line_ids s ev = ev\<lparr>
     ev_tg := line_talkgroup s,
     ev_src := stripped (grab src_re s),
     ev_slot := line_slot s,
     ev_cc := stripped (grab cc_re s),
     ev_ran := stripped (grab ran_re s),
     ev_nac := (case grab nac_re s of None \<Rightarrow> [] | Some g \<Rightarrow> map to_upper g),
     ev_emerg := (if rx_has emerg_re s then ''1'' else if rx_has emerg_val_re s then ''1'' else []),
     ev_alias := (case grab alias_re s of None \<Rightarrow> [] | Some g \<Rightarrow> g),
     ev_crc := (if rx_has err_re s then ''1'' else [])\<rparr>"

section \<open>Short-data text\<close>

text \<open>\<open>regex_replace\<close> by nothing, for a pattern that matches only up to the end of the text.\<close>

definition rx_cut :: "re \<Rightarrow> string \<Rightarrow> string" where
  "rx_cut a s = (case rx_find a None s of None \<Rightarrow> s | Some (n, _) \<Rightarrow> take n s)"

definition body_lead :: "char \<Rightarrow> bool" where
  "body_lead c \<longleftrightarrow> c = CHR '' '' \<or> c = CHR 0x09"

definition body_pad :: "char \<Rightarrow> bool" where
  "body_pad c \<longleftrightarrow> body_lead c \<or> c = CHR ''_'' \<or> c = CHR ''-''"

definition trim_body :: "string \<Rightarrow> string" where
  "trim_body s =
     (let b = length (takeWhile body_lead s); e = length (rev (dropWhile body_pad (rev s)))
      in if b < length s \<and> 0 < e \<and> b < e then drop b (take e s) else [])"

definition line_message :: "string \<Rightarrow> dsd_event \<Rightarrow> dsd_event" where
  "line_message s ev =
     (if ev_crc ev = ''1'' then ev
      else (case rx_search sms_re s of
              None \<Rightarrow> ev
            | Some k \<Rightarrow> if matched k 1 then ev\<lparr>ev_msg := trim_body (rx_cut trailing_status_re (group k 1))\<rparr> else ev))"

section \<open>Trunking detail\<close>

definition tagged :: "string \<Rightarrow> (string \<Rightarrow> string) \<Rightarrow> string option \<Rightarrow> string list" where
  "tagged key f g = (case g of None \<Rightarrow> [] | Some t \<Rightarrow> [key @ f t])"

definition hex2_upper :: "nat \<Rightarrow> string" where
  "hex2_upper n = [to_upper (hex_digit (n div 16 mod 16)), to_upper (hex_digit (n mod 16))]"

definition site_tokens :: "string \<Rightarrow> string list" where
  "site_tokens s =
     tagged ''site_code='' id (grab site_re s)
   @ tagged ''system_code='' id (grab sys_re s)
   @ tagged ''location_id='' id (grab loc_re s)
   @ tagged ''category='' id (grab cat_re s)
   @ (if str_has s ''Connect Plus'' then [''network_type=con+'']
      else if str_has s ''Capacity Plus'' then [''network_type=cap+''] else [])
   @ tagged ''network_id='' id (grab netid_re s)
   @ tagged ''site_id='' strip_leading_zeros (grab siteid_re s)
   @ tagged ''rest_channel='' id (grab rest_re s)
   @ tagged ''lcn='' id (grab lcn_re s)
   @ tagged ''rfss='' strip_leading_zeros (grab rfss_re s)
   @ tagged ''system_id='' upper_hex (grab sysid_re s)
   @ tagged ''wacn='' upper_hex (grab wacn_re s)"

definition cipher_tokens :: "string \<Rightarrow> string list" where
  "cipher_tokens s =
     (if str_has s ''SG:'' then []
      else tagged ''alg_id='' id (grab algid_re s) @ tagged ''key_id='' id (grab keyid_re s))
   @ (case rx_search nxdn_cipher_re s of
        None \<Rightarrow> []
      | Some k \<Rightarrow>
          [''alg_id='' @ (if group k 1 = ''Scrambler'' then ''1'' else if group k 1 = ''DES'' then ''2'' else ''3''),
           ''key_id='' @ hex2_upper (dec_val (group k 2) mod 256)])"

definition service_tokens :: "string \<Rightarrow> string list" where
  "service_tokens s =
     (let hdr = str_has s ''Data Header''
      in if str_has s ''Preamble CSBK'' \<and> str_has s ''Data'' then [''svc=preamble'']
         else if hdr \<and> str_has s ''Response Packet'' then [''svc=ack'']
         else if hdr \<and> str_has s ''Delivery'' then [''svc=data'']
         else (case grab mnis_type_re s of
                 Some g \<Rightarrow> [''svc=mnis:'' @ upper_hex g]
               | None \<Rightarrow>
                   (case grab mnis_re s of
                      Some g \<Rightarrow> if g \<noteq> ''Type'' then [''svc='' @ lower g]
                                else if str_has s ''LRRP'' then [''svc=lrrp''] else []
                    | None \<Rightarrow> if str_has s ''LRRP'' then [''svc=lrrp''] else [])))"

section \<open>Positions\<close>

text \<open>
  A double read from a numeral: its sign bit, kept for a zero, and its value. \<open>%.5f\<close> prints the exact
  value rounded to even.
\<close>

type_synonym coord = "bool \<times> rat"

definition read_coord :: "string \<Rightarrow> string + coord" where
  "read_coord s =
     (case stod s of
        Inl e \<Rightarrow> Inl e
      | Inr d \<Rightarrow> Inr (hd s = CHR ''-'', case d of DFin x \<Rightarrow> x | _ \<Rightarrow> 0))"

definition coord_neg :: "coord \<Rightarrow> coord" where
  "coord_neg c = (\<not> fst c, - snd c)"

definition fixed5 :: "coord \<Rightarrow> string" where
  "fixed5 c =
     (let n = nat (round_half_even (\<bar>snd c\<bar> * 100000))
      in (if fst c then ''-'' else []) @ nat_dec (n div 100000) @ ''.''
         @ pad_left 5 (CHR ''0'') (nat_dec (n mod 100000)))"

definition gps_token :: "coord \<Rightarrow> coord \<Rightarrow> string list" where
  "gps_token lat lon =
     (if - 90 \<le> snd lat \<and> snd lat \<le> 90 \<and> - 180 \<le> snd lon \<and> snd lon \<le> 180 \<and> (snd lat \<noteq> 0 \<or> snd lon \<noteq> 0)
      then [''gps='' @ fixed5 lat @ '','' @ fixed5 lon] else [])"

definition read_pair :: "string \<Rightarrow> string \<Rightarrow> string + coord \<times> coord" where
  "read_pair a b =
     (case read_coord a of
        Inl e \<Rightarrow> Inl e
      | Inr lat \<Rightarrow> (case read_coord b of Inl e \<Rightarrow> Inl e | Inr lon \<Rightarrow> Inr (lat, lon)))"

definition gps_tokens :: "string \<Rightarrow> string + string list" where
  "gps_tokens s =
     (if str_has s ''Lat'' \<and> str_has s ''Lon'' then
        (case rx_search pair_re s of
           Some k \<Rightarrow>
             (case read_pair (group k 1) (group k 2) of
                Inl e \<Rightarrow> Inl e
              | Inr (lat, lon) \<Rightarrow> Inr (gps_token lat lon))
         | None \<Rightarrow>
             (case rx_search latlon_re s of
                None \<Rightarrow> Inr []
              | Some k \<Rightarrow>
                  (case read_pair (group k 1) (group k 3) of
                     Inl e \<Rightarrow> Inl e
                   | Inr (lat, lon) \<Rightarrow>
                       Inr (gps_token
                         (if matched k 2 \<and> group k 2 \<in> {''S'', ''s''} \<and> 0 < snd lat then coord_neg lat else lat)
                         (if matched k 4 \<and> group k 4 \<in> {''W'', ''w''} \<and> 0 < snd lon then coord_neg lon else lon)))))
      else Inr [])"

section \<open>Joining the detail\<close>

definition join_tokens :: "string list \<Rightarrow> string" where
  "join_tokens ts = concat (case ts of [] \<Rightarrow> [] | t # r \<Rightarrow> t # map (\<lambda>u. ''; '' @ u) r)"

definition add_token :: "string \<Rightarrow> string \<Rightarrow> string" where
  "add_token t ex = (if ex = [] then [] else ex @ ''; '') @ t"

definition add_tokens :: "string list \<Rightarrow> string \<Rightarrow> string" where
  "add_tokens ts ex = fold add_token ts ex"

section \<open>Callsign protocols\<close>

record callsign_fields =
  cs_src :: string
  cs_dst :: string
  cs_rpt1 :: string
  cs_rpt2 :: string
  cs_ul :: string
  cs_dl :: string
  cs_text :: string
  cs_srcrid :: string
  cs_dstrid :: string

definition tidy_grab :: "bool \<Rightarrow> re \<Rightarrow> string \<Rightarrow> string" where
  "tidy_grab on a s = (if on then (case grab a s of None \<Rightarrow> [] | Some g \<Rightarrow> tidy_callsign g) else [])"

definition line_is_dstar :: "string \<Rightarrow> bool" where
  "line_is_dstar s \<longleftrightarrow> rx_has dstar_ctx_re s \<or> rx_has dstar_hdr_re s"

definition line_is_ysf :: "string \<Rightarrow> bool" where
  "line_is_ysf s \<longleftrightarrow> rx_has ysf_ctx_re s"

definition callsign_fields_of :: "string \<Rightarrow> callsign_fields" where
  "callsign_fields_of s =
     (let d = line_is_dstar s; y = line_is_ysf s
      in \<lparr>cs_src = tidy_grab True cs_src_re s, cs_dst = tidy_grab True cs_dst_re s,
          cs_rpt1 = tidy_grab d cs_rpt1_re s, cs_rpt2 = tidy_grab d cs_rpt2_re s,
          cs_ul = tidy_grab y ysf_ul_re s, cs_dl = tidy_grab y ysf_dl_re s,
          cs_text = tidy_grab d dstar_text_re s,
          cs_srcrid = tidy_grab y ysf_srcrid_re s, cs_dstrid = tidy_grab y ysf_dstrid_re s\<rparr>)"

definition ysf_modes :: "string \<Rightarrow> string list" where
  "ysf_modes s =
     (if str_has s ''Group/CQ'' then [''call_mode=group_cq'']
      else if str_has s ''RID Mode'' then [''call_mode=radio_id'']
      else if str_has s ''Private'' then [''call_mode=individual''] else [])
   @ (if str_has s ''V/D1'' then [''data_type=vd1'']
      else if str_has s ''V/D2'' then [''data_type=vd2'']
      else if str_has s ''VWFR'' then [''data_type=voice_full''] else [])"

definition unless_empty :: "string \<Rightarrow> string \<Rightarrow> string list" where
  "unless_empty key v = (if v = [] then [] else [key @ v])"

definition callsign_tokens :: "string \<Rightarrow> callsign_fields \<Rightarrow> string list" where
  "callsign_tokens s f =
     (if line_is_ysf s then ysf_modes s else [])
   @ unless_empty ''rpt1='' (cs_rpt1 f) @ unless_empty ''rpt2='' (cs_rpt2 f)
   @ unless_empty ''radio_text='' (cs_text f)
   @ unless_empty ''uplink='' (cs_ul f) @ unless_empty ''downlink='' (cs_dl f)
   @ unless_empty ''src_rid='' (cs_srcrid f) @ unless_empty ''dst_rid='' (cs_dstrid f)"

definition callsign_call :: "callsign_fields \<Rightarrow> bool" where
  "callsign_call f \<longleftrightarrow>
     cs_src f \<noteq> [] \<or> cs_dst f \<noteq> [] \<or> cs_rpt1 f \<noteq> [] \<or> cs_rpt2 f \<noteq> [] \<or> cs_ul f \<noteq> [] \<or> cs_dl f \<noteq> []
     \<or> cs_text f \<noteq> [] \<or> cs_srcrid f \<noteq> [] \<or> cs_dstrid f \<noteq> []"

text \<open>The event, and whether the line is a callsign call.\<close>

definition line_callsigns :: "string \<Rightarrow> dsd_event \<Rightarrow> dsd_event \<times> bool" where
  "line_callsigns s ev =
     (let f = callsign_fields_of s
      in if (line_is_dstar s \<or> line_is_ysf s) \<and> callsign_call f then
           (ev\<lparr>ev_src := cs_src f, ev_tg := cs_dst f, ev_extra := add_tokens (callsign_tokens s f) (ev_extra ev)\<rparr>, True)
         else (ev, False))"

section \<open>EDACS and ProVoice\<close>

definition edacs_tokens :: "string \<Rightarrow> string list" where
  "edacs_tokens s =
     tagged ''lcn='' strip_leading_zeros (grab ed_lcn_re s)
   @ tagged ''afs='' strip_leading_zeros (grab ed_afs_re s)
   @ tagged ''lid='' strip_leading_zeros (grab ed_lid_re s)
   @ tagged ''system_id='' upper_hex (grab ed_sys_re s)"

definition line_edacs :: "string \<Rightarrow> dsd_event \<Rightarrow> dsd_event \<times> bool" where
  "line_edacs s ev =
     (if rx_has ed_ctx_re s then
        (let ev' = ev\<lparr>
               ev_src := (case grab ed_src_re s of None \<Rightarrow> ev_src ev | Some g \<Rightarrow> strip_leading_zeros g),
               ev_tg := (case grab ed_grp_re s of None \<Rightarrow> ev_tg ev | Some g \<Rightarrow> strip_leading_zeros g),
               ev_extra := add_tokens (edacs_tokens s) (ev_extra ev)\<rparr>
         in (ev', ev_src ev' \<noteq> [] \<or> ev_tg ev' \<noteq> [] \<or> str_has s ''Call''))
      else (ev, False))"

section \<open>The line's kind\<close>

definition line_kind :: "string \<Rightarrow> bool \<Rightarrow> bool \<Rightarrow> dsd_event \<Rightarrow> string" where
  "line_kind s cs_call edacs_call ev =
     (if cs_call then ''call''
      else if rx_has voice_re s then ''voice''
      else if rx_has sync_re s then ''sync''
      else if edacs_call then ''call''
      else if ev_msg ev \<noteq> [] then ''message''
      else if ev_tg ev \<noteq> [] \<or> ev_src ev \<noteq> [] then ''call''
      else ev_kind ev)"

definition line_ambe :: "string \<Rightarrow> dsd_event \<Rightarrow> dsd_event" where
  "line_ambe s ev =
     (case rx_search ambe_re s of
        None \<Rightarrow> ev
      | Some k \<Rightarrow> ev\<lparr>ev_voice_frame := frame_of (group k 1),
           ev_voice_err := sint (word_of_int (atoi (group k 2) + atoi (group k 3)) :: 32 word)\<rparr>)"

text \<open>
  The whole classifier. A sum of error counts past the range of \<open>int\<close> wraps here; the code leaves it
  undefined.
\<close>

definition classify_dsd_fme_line :: "string \<Rightarrow> string + dsd_event" where
  "classify_dsd_fme_line s =
     (let ev = line_message s (line_ids s (dsd_event0\<lparr>ev_raw := s, ev_kind := ''unknown''\<rparr>))
      in case gps_tokens s of
           Inl e \<Rightarrow> Inl e
         | Inr gps \<Rightarrow>
             (let ev = ev\<lparr>ev_extra := join_tokens (site_tokens s @ cipher_tokens s @ service_tokens s @ gps)\<rparr>
              in case line_callsigns s ev of (ev, cs_call) \<Rightarrow>
                 (case line_edacs s ev of (ev, edacs_call) \<Rightarrow>
                    Inr (line_ambe s (ev\<lparr>ev_kind := line_kind s cs_call edacs_call ev\<rparr>)))))"

section \<open>The mark of a failed check\<close>

definition marks_failure :: "string \<Rightarrow> bool" where
  "marks_failure s \<longleftrightarrow>
     (\<exists>tag \<in> {''CRC'', ''FEC'', ''EMB''}. \<exists>w. list_all is_space w \<and> sublist (tag @ w @ ''ERR'') (map to_upper s))"

lemma err_re_eq:
  "err_re = Cat (Grp 1 (Alt (rx_word ''CRC'' Eps) (Alt (rx_word ''FEC'' Eps) (rx_word ''EMB'' Eps))))
      (Cat (Rep True 0 None (Chr is_space)) (rx_word ''ERR'' Eps))"
  by (simp add: err_re_def rx_def)
     (simp add: numeral_eq_Suc rx_quant_def rx_lazy_def icase_space icase_upper is_upper_def)

lemma err_re_marks: "rx_has err_re s \<longleftrightarrow> marks_failure s"
proof -
  have "rx_has err_re s \<longleftrightarrow> (\<exists>u \<in> rx_lang err_re. sublist u s)"
    by (rule rx_has_plain) (simp only: err_re_eq plain.simps plain_word)
  then show ?thesis unfolding err_re_eq rx_tags_lang sublist_upper marks_failure_def .
qed

end
