(* ===== verification/Short_Data.thy ===== *)
theory Short_Data
  imports Assoc_Log "HOL-Library.Sublist"
begin

text \<open>
  The data units of a DMR call (\<open>src/dsd_process.cpp\<close> and \<open>src/dsd_process.hpp\<close>): the text of a
  reassembled unit, the Motorola registration service, and \<open>DmrPduTextCarry\<close>, which collects the
  decoder's hex rows. An index past the end and a failed \<open>std::stoi\<close> are faults, so that their absence
  is a theorem.
\<close>

datatype fault = Bad_Number | Out_Of_Bounds | Stod_Throws

section \<open>The text of a unit\<close>

text \<open>The bytes of a hex string; \<open>None\<close> at a character that is no hex digit.\<close>

fun hex_bytes :: "string \<Rightarrow> nat list option" where
  "hex_bytes (a # b # r) =
     (case (hex_val a, hex_val b) of
        (Some hi, Some lo) \<Rightarrow> map_option (\<lambda>bs. (16 * hi + lo) # bs) (hex_bytes r)
      | _ \<Rightarrow> None)"
| "hex_bytes _ = Some []"

definition printable :: "nat \<Rightarrow> bool" where
  "printable b \<longleftrightarrow> 0x20 \<le> b \<and> b \<le> 0x7E"

definition longer :: "string \<Rightarrow> string \<Rightarrow> string" where
  "longer cur best = (if length best < length cur then cur else best)"

text \<open>The shape of both scans: the best run so far, and the run that is being read.\<close>

fun text_runs :: "('a \<Rightarrow> char option) \<Rightarrow> 'a list \<Rightarrow> string \<Rightarrow> string \<Rightarrow> string" where
  "text_runs f [] best cur = longer cur best"
| "text_runs f (x # xs) best cur =
     (case f x of
        Some c \<Rightarrow> text_runs f xs best (cur @ [c])
      | None \<Rightarrow> text_runs f xs (longer cur best) [])"

definition unit8 :: "nat \<Rightarrow> char option" where
  "unit8 b = (if printable b then Some (chr b) else None)"

definition unit16 :: "nat \<times> nat \<Rightarrow> char option" where
  "unit16 p = (if printable (fst p) \<and> snd p = 0 then Some (chr (fst p)) else None)"

fun pairs :: "'a list \<Rightarrow> ('a \<times> 'a) list" where
  "pairs (a # b # r) = (a, b) # pairs r"
| "pairs _ = []"

definition decode_dmr_pdu_text :: "string \<Rightarrow> string" where
  "decode_dmr_pdu_text h =
     (if length h < 2 then []
      else (case hex_bytes h of
              None \<Rightarrow> []
            | Some b \<Rightarrow>
                (let best16 = text_runs unit16 (pairs b) [] []; best8 = text_runs unit8 b [] [];
                     ok16 = 2 \<le> length best16; ok8 = 4 \<le> length best8
                 in if ok16 \<and> length best8 \<le> length best16 then best16
                    else if ok8 then best8
                    else if ok16 then best16
                    else [])))"

section \<open>Registration messages\<close>

text \<open>\<open>std::stoi(s, nullptr, 16)\<close> of two characters, kept as an unsigned byte.\<close>

definition stoi_pair :: "char \<Rightarrow> char \<Rightarrow> nat option" where
  "stoi_pair a b =
     (case (hex_val a, hex_val b) of
        (Some hi, Some lo) \<Rightarrow> Some (16 * hi + lo)
      | (Some hi, None) \<Rightarrow> Some hi
      | (None, Some lo) \<Rightarrow>
          if is_space a \<or> a = CHR ''+'' then Some lo
          else if a = CHR ''-'' then Some ((256 - lo) mod 256) else None
      | (None, None) \<Rightarrow> None)"

fun ars_bytes :: "string \<Rightarrow> fault + nat list" where
  "ars_bytes (a # b # r) =
     (case stoi_pair a b of
        None \<Rightarrow> Inl Bad_Number
      | Some v \<Rightarrow> (case ars_bytes r of Inl e \<Rightarrow> Inl e | Inr bs \<Rightarrow> Inr (v # bs)))"
| "ars_bytes _ = Inr []"

definition fetch :: "nat list \<Rightarrow> nat \<Rightarrow> fault + nat" where
  "fetch b i = (if i < length b then Inr (b ! i) else Inl Out_Of_Bounds)"

text \<open>The characters of a string field; \<open>None\<close> at one that is not printable.\<close>

fun ars_chars :: "nat list \<Rightarrow> nat \<Rightarrow> nat \<Rightarrow> fault + string option" where
  "ars_chars b i 0 = Inr (Some [])"
| "ars_chars b i (Suc n) =
     (case fetch b i of
        Inl e \<Rightarrow> Inl e
      | Inr c \<Rightarrow>
          if printable c then
            (case ars_chars b (Suc i) n of
               Inl e \<Rightarrow> Inl e
             | Inr t \<Rightarrow> Inr (map_option (\<lambda>s. chr c # s) t))
          else Inr None)"

text \<open>A string after its length byte, and the index after it.\<close>

definition ars_str :: "nat list \<Rightarrow> nat \<Rightarrow> nat \<Rightarrow> fault + (string \<times> nat) option" where
  "ars_str b stop i =
     (if stop \<le> i then Inr None
      else (case fetch b i of
              Inl e \<Rightarrow> Inl e
            | Inr n \<Rightarrow>
                if stop < i + 1 + n then Inr None
                else (case ars_chars b (i + 1) n of
                        Inl e \<Rightarrow> Inl e
                      | Inr t \<Rightarrow> Inr (map_option (\<lambda>s. (s, i + 1 + n)) t))))"

definition ars_dot :: string where
  "ars_dot = [CHR 0xC2, CHR 0xB7]"

definition ars_registration :: "nat list \<Rightarrow> nat \<Rightarrow> nat \<Rightarrow> fault + string" where
  "ars_registration b stop i =
     (case ars_str b stop i of
        Inl e \<Rightarrow> Inl e
      | Inr None \<Rightarrow> Inr []
      | Inr (Some (dev, j)) \<Rightarrow>
          if dev = [] then Inr []
          else (let out = ''ARS registration '' @ ars_dot @ '' radio '' @ dev
                in case ars_str b stop j of
                     Inl e \<Rightarrow> Inl e
                   | Inr None \<Rightarrow> Inr out
                   | Inr (Some (user, _)) \<Rightarrow>
                       Inr (if user = [] then out else out @ '' '' @ ars_dot @ '' user '' @ user)))"

text \<open>
  The header, read in the order of the code: the bytes 0 and 4 name the protocol, 7 and 8 are the length of the
  message, 9 is its first byte. Every \<open>b[i]\<close> is a read that faults outside the bytes.
\<close>

definition ars_message :: "nat list \<Rightarrow> fault + string" where
  "ars_message b =
     (case fetch b 7 of
        Inl e \<Rightarrow> Inl e
      | Inr hi \<Rightarrow>
          (case fetch b 8 of
             Inl e \<Rightarrow> Inl e
           | Inr lo \<Rightarrow>
               (let len = 256 * hi + lo
                in if len < 1 \<or> length b < 9 + len then Inr []
                   else (case fetch b 9 of
                           Inl e \<Rightarrow> Inl e
                         | Inr hdr \<Rightarrow>
                             (let type = hdr mod 16; i = 10 + (if 128 \<le> hdr then 1 else 0); stop = 9 + len
                              in if type = 0 then ars_registration b stop i
                                 else Inr (if type = 15 then ''ARS registration ACK''
                                           else if type = 1 then ''ARS de-registration''
                                           else if type = 4 then ''ARS query''
                                           else ''ARS (type '' @ nat_dec type @ '')''))))))"

definition decode_moto_ars :: "string \<Rightarrow> fault + string" where
  "decode_moto_ars h =
     (case ars_bytes h of
        Inl e \<Rightarrow> Inl e
      | Inr b \<Rightarrow>
          if length b < 10 then Inr []
          else (case fetch b 0 of
                  Inl e \<Rightarrow> Inl e
                | Inr b0 \<Rightarrow>
                    if b0 \<noteq> 0x1F then Inr []
                    else (case fetch b 4 of
                            Inl e \<Rightarrow> Inl e
                          | Inr b4 \<Rightarrow> if b4 \<noteq> 0x33 then Inr [] else ars_message b)))"

section \<open>Collecting the rows\<close>

record pdu_carry =
  pc_capturing :: bool
  pc_slot :: nat
  pc_hex :: string
  pc_mnis :: bool

definition pdu_carry0 :: pdu_carry where
  "pdu_carry0 = \<lparr>pc_capturing = False, pc_slot = 0, pc_hex = [], pc_mnis = False\<rparr>"

definition binary_text :: "string \<Rightarrow> pdu_carry \<Rightarrow> bool" where
  "binary_text line c \<longleftrightarrow> pc_mnis c \<and> \<not> pc_capturing c \<and> str_has line ''Text:''"

definition pdu_is_header :: "string \<Rightarrow> nat option" where
  "pdu_is_header l =
     (case str_find ''Slot '' l of
        None \<Rightarrow> None
      | Some p \<Rightarrow>
          (let i = p + 5
           in if length l \<le> i \<or> \<not> is_digit (l ! i) then None
              else if \<not> str_has (drop i l) ''Multi Block'' then None
              else if \<not> str_has (drop i l) ''Message'' then None
              else Some (byte (l ! i) - 48)))"

definition extract_hex :: "string \<Rightarrow> string option" where
  "extract_hex l =
     (let h = filter (\<lambda>c. \<not> is_space c) l
      in if list_all is_xdigit h \<and> h \<noteq> [] \<and> even (length h) then Some (map to_upper h) else None)"

definition pdu_event :: "nat \<Rightarrow> string \<Rightarrow> dsd_event" where
  "pdu_event slot t = dsd_event0\<lparr>ev_kind := ''message'',
     ev_slot := (if slot = 1 then ''1'' else if slot = 2 then ''2'' else []),
     ev_msg := t, ev_crc := [], ev_raw := ''DMR short-data PDU (dsd-fme -Z): '' @ t\<rparr>"

definition pdu_finish :: "pdu_carry \<Rightarrow> fault + (dsd_event option \<times> pdu_carry)" where
  "pdu_finish c =
     (if \<not> pc_capturing c then Inr (None, c)
      else (let c' = c\<lparr>pc_capturing := False, pc_hex := [], pc_mnis := False\<rparr>; h = pc_hex c
            in if h = [] then Inr (None, c')
               else (case (if pc_mnis c \<and> starts_with h ''1F10'' then decode_moto_ars h
                           else Inr (decode_dmr_pdu_text h)) of
                       Inl e \<Rightarrow> Inl e
                     | Inr t \<Rightarrow> Inr (if t = [] then None else Some (pdu_event (pc_slot c) t), c'))))"

definition pdu_feed :: "string \<Rightarrow> pdu_carry \<Rightarrow> fault + (dsd_event option \<times> pdu_carry)" where
  "pdu_feed line c0 =
     (let c = (if str_has line ''(MNIS)'' \<or> str_has line ''MNIS ARS'' then c0\<lparr>pc_mnis := True\<rparr> else c0)
      in case pdu_is_header line of
           Some slot \<Rightarrow>
             (case pdu_finish c of
                Inl e \<Rightarrow> Inl e
              | Inr (ev, c') \<Rightarrow> Inr (ev, c'\<lparr>pc_capturing := True, pc_slot := slot, pc_hex := []\<rparr>))
         | None \<Rightarrow>
             if pc_capturing c then
               (case extract_hex line of
                  Some h \<Rightarrow> Inr (None, c\<lparr>pc_hex := pc_hex c @ h\<rparr>)
                | None \<Rightarrow> pdu_finish c)
             else Inr (None, c))"

definition pdu_flush :: "pdu_carry \<Rightarrow> fault + (dsd_event option \<times> pdu_carry)" where
  "pdu_flush c = pdu_finish c"


section \<open>The text found is a longest one\<close>

text \<open>A text that some consecutive items spell, and the texts a unit carries in one of the two encodings.\<close>

definition spelled :: "('a \<Rightarrow> char option) \<Rightarrow> string \<Rightarrow> 'a list \<Rightarrow> bool" where
  "spelled f u xs \<longleftrightarrow> (\<exists>ys. sublist ys xs \<and> map f ys = map Some u)"

definition spelled_first :: "('a \<Rightarrow> char option) \<Rightarrow> string \<Rightarrow> 'a list \<Rightarrow> bool" where
  "spelled_first f u xs \<longleftrightarrow> (\<exists>ys. prefix ys xs \<and> map f ys = map Some u)"

definition carries :: "nat list \<Rightarrow> string \<Rightarrow> bool" where
  "carries b u \<longleftrightarrow> 2 \<le> length u \<and> spelled unit16 u (pairs b) \<or> 4 \<le> length u \<and> spelled unit8 u b"

lemma spelled_Nil: "spelled f u [] \<longleftrightarrow> u = []"
  by (auto simp: spelled_def)

lemma spelled_first_Nil [simp]: "spelled_first f u [] \<longleftrightarrow> u = []"
  by (auto simp: spelled_first_def)

lemma spelled_first_Cons:
  "spelled_first f u (x # xs) \<longleftrightarrow> u = [] \<or> (\<exists>c v. u = c # v \<and> f x = Some c \<and> spelled_first f v xs)"
  unfolding spelled_first_def
  by (auto simp: prefix_Cons map_eq_Cons_conv Cons_eq_map_conv)

lemma spelled_Cons: "spelled f u (x # xs) \<longleftrightarrow> spelled_first f u (x # xs) \<or> spelled f u xs"
  unfolding spelled_def spelled_first_def by (auto simp: sublist_Cons_right)

lemma spelled_first_spelled: "spelled_first f u xs \<Longrightarrow> spelled f u xs"
  unfolding spelled_first_def spelled_def by (meson prefix_imp_sublist)

lemma text_runs_found:
  "text_runs f xs best cur = best \<or> (\<exists>u. spelled_first f u xs \<and> text_runs f xs best cur = cur @ u)
     \<or> spelled f (text_runs f xs best cur) xs"
proof (induction f xs best cur rule: text_runs.induct)
  case (2 f x xs best cur)
  show ?case
  proof (cases "f x")
    case None
    then show ?thesis using 2(1)[OF None]
      by (auto simp: longer_def spelled_first_Cons spelled_Cons dest: spelled_first_spelled split: if_splits)
  next
    case (Some c)
    then show ?thesis using 2(2)[OF Some] Some by (fastforce simp: spelled_first_Cons spelled_Cons)
  qed
qed (auto simp: longer_def)

lemma text_runs_longest:
  "length best \<le> length (text_runs f xs best cur)
   \<and> (spelled_first f u xs \<longrightarrow> length (cur @ u) \<le> length (text_runs f xs best cur))
   \<and> (spelled f u xs \<longrightarrow> length u \<le> length (text_runs f xs best cur))"
proof (induction f xs best cur arbitrary: u rule: text_runs.induct)
  case (1 f best cur)
  then show ?case by (auto simp: longer_def spelled_Nil)
next
  case (2 f x xs best cur)
  show ?case
  proof (cases "f x")
    case None
    have l: "length best \<le> length (longer cur best)" "length cur \<le> length (longer cur best)" by (auto simp: longer_def)
    show ?thesis using 2(1)[OF None, of u] None l by (auto simp: spelled_first_Cons spelled_Cons intro: order_trans)
  next
    case (Some c)
    have "length (cur @ [c]) \<le> length (text_runs f xs best (cur @ [c]))"
      using 2(2)[OF Some, of "[]"] by (auto simp: spelled_first_def)
    then show ?thesis using 2(2)[OF Some] Some by (fastforce simp: spelled_first_Cons spelled_Cons)
  qed
qed

lemma text_runs_spelled: "spelled f (text_runs f xs [] []) xs"
  using text_runs_found[of f xs "[]" "[]"] spelled_first_spelled[of f _ xs]
  by (auto simp: spelled_def)

lemma text_runs_max: "spelled f u xs \<Longrightarrow> length u \<le> length (text_runs f xs [] [])"
  using text_runs_longest[of "[]" f xs "[]" u] by simp

lemma pdu_text_found:
  assumes "hex_bytes h = Some b"
  shows "decode_dmr_pdu_text h = [] \<or> carries b (decode_dmr_pdu_text h)"
    and "carries b u \<Longrightarrow> length u \<le> length (decode_dmr_pdu_text h)"
proof -
  let ?t = "text_runs unit16 (pairs b) [] []" and ?e = "text_runs unit8 b [] []"
  have s: "spelled unit16 ?t (pairs b)" "spelled unit8 ?e b" by (rule text_runs_spelled)+
  have m: "length u \<le> length ?t" if "spelled unit16 u (pairs b)" for u using that by (rule text_runs_max)
  have n: "length u \<le> length ?e" if "spelled unit8 u b" for u using that by (rule text_runs_max)
  have b: "b = []" if "length h < 2" using assms that by (cases h rule: hex_bytes.cases) auto
  show "decode_dmr_pdu_text h = [] \<or> carries b (decode_dmr_pdu_text h)"
    using s by (simp add: decode_dmr_pdu_text_def assms Let_def carries_def)
  show "length u \<le> length (decode_dmr_pdu_text h)" if "carries b u"
    using that m[of u] n[of u] b
    by (auto simp: decode_dmr_pdu_text_def assms Let_def carries_def spelled_Nil)
qed

lemma spelled_all:
  assumes "spelled f u xs" and P: "\<And>x c. f x = Some c \<Longrightarrow> P c"
  shows "list_all P u"
proof -
  obtain ys where ys: "map f ys = map Some u" using assms(1) by (auto simp: spelled_def)
  have "P c" if "c \<in> set u" for c
  proof -
    have "Some c \<in> set (map f ys)" unfolding ys using that by simp
    then show ?thesis using P by auto
  qed
  then show ?thesis by (simp add: list_all_iff)
qed

lemma printable_chr: "printable b \<Longrightarrow> printable (byte (chr b))"
  unfolding printable_def by (simp add: byte_chr del: of_char_of)

lemma unit8_printable: "unit8 x = Some c \<Longrightarrow> printable (byte c)"
  unfolding unit8_def using printable_chr by (auto split: if_splits simp del: of_char_of)

lemma unit16_printable: "unit16 x = Some c \<Longrightarrow> printable (byte c)"
  unfolding unit16_def using printable_chr by (auto split: if_splits simp del: of_char_of)

lemma carries_printable: "carries b u \<Longrightarrow> list_all (\<lambda>c. printable (byte c)) u"
  unfolding carries_def using unit8_printable unit16_printable
  by (auto elim!: spelled_all[where P = "\<lambda>c. printable (byte c)"] simp del: of_char_of)

text \<open>
  C27. The text taken from a data unit is one that the unit carries -- at least two characters in UTF-16 or
  four in ASCII, all printable -- and the unit carries no longer one; a unit that carries none, or is no
  hex, gives no text.
\<close>

lemma pdu_text_longest:
  "case hex_bytes h of
     None \<Rightarrow> decode_dmr_pdu_text h = []
   | Some b \<Rightarrow>
       (decode_dmr_pdu_text h = [] \<or> carries b (decode_dmr_pdu_text h))
       \<and> \<not> (\<exists>u. carries b u \<and> length (decode_dmr_pdu_text h) < length u)
       \<and> list_all (\<lambda>c. printable (byte c)) (decode_dmr_pdu_text h)"
proof (cases "hex_bytes h")
  case None
  then show ?thesis by (simp add: decode_dmr_pdu_text_def)
next
  case (Some b)
  note l = pdu_text_found[OF Some]
  have "list_all (\<lambda>c. printable (byte c)) (decode_dmr_pdu_text h)" using l(1) carries_printable by fastforce
  then show ?thesis using l Some by (auto simp: not_less)
qed

section \<open>Registration messages stay within the bytes\<close>

lemma fetch_ok: "i < length b \<Longrightarrow> fetch b i = Inr (b ! i)"
  by (simp add: fetch_def)

lemma ars_chars_ok: "i + n \<le> length b \<Longrightarrow> \<exists>t. ars_chars b i n = Inr t"
proof (induction b i n rule: ars_chars.induct)
  case (2 b i n)
  then show ?case by (auto simp: fetch_ok split: sum.splits)
qed simp

lemma ars_str_ok: "stop \<le> length b \<Longrightarrow> \<exists>t. ars_str b stop i = Inr t"
  using ars_chars_ok[of "i + 1" "b ! i" b]
  by (cases "stop < i + 1 + b ! i") (auto simp: ars_str_def fetch_ok)

lemma ars_registration_ok: "stop \<le> length b \<Longrightarrow> \<exists>t. ars_registration b stop i = Inr t"
  using ars_str_ok[of stop b]
  by (auto simp: ars_registration_def Let_def split: sum.splits option.splits) (metis Inl_Inr_False)+

lemma hex_val_of_xdigit: "is_xdigit c \<Longrightarrow> \<exists>d. hex_val c = Some d"
  by (auto simp: is_xdigit_def hex_val_def is_digit_def)

lemma ars_bytes_ok: "list_all is_xdigit h \<Longrightarrow> \<exists>b. ars_bytes h = Inr b"
proof (induction h rule: ars_bytes.induct)
  case (1 a b r)
  then show ?case using hex_val_of_xdigit[of a] hex_val_of_xdigit[of b] by (auto simp: stoi_pair_def)
qed auto

lemma ars_message_ok: "10 \<le> length b \<Longrightarrow> \<exists>t. ars_message b = Inr t"
  using ars_registration_ok by (auto simp: ars_message_def fetch_ok Let_def)

lemma ars_never_faults: "list_all is_xdigit h \<Longrightarrow> \<exists>t. decode_moto_ars h = Inr t"
proof -
  assume h: "list_all is_xdigit h"
  obtain b where b: "ars_bytes h = Inr b" using ars_bytes_ok[OF h] by blast
  have "fetch b 0 = Inr (b ! 0)" "fetch b 4 = Inr (b ! 4)" "\<exists>t. ars_message b = Inr t" if "10 \<le> length b"
    using that ars_message_ok[of b] by (auto simp: fetch_def)
  then show ?thesis by (cases "length b < 10") (auto simp: decode_moto_ars_def b)
qed

section \<open>The carry holds whole bytes in hex, and never faults\<close>

definition pdu_ok :: "pdu_carry \<Rightarrow> bool" where
  "pdu_ok c \<longleftrightarrow> list_all is_xdigit (pc_hex c) \<and> list_all (\<lambda>d. \<not> is_lower d) (pc_hex c) \<and> even (length (pc_hex c))"

lemma pdu_ok_0 [simp]: "pdu_ok pdu_carry0"
  by (simp add: pdu_ok_def pdu_carry0_def)

lemma extract_hex_ok:
  "extract_hex l = Some h \<Longrightarrow> list_all is_xdigit h \<and> list_all (\<lambda>d. \<not> is_lower d) h \<and> even (length h)"
  by (auto simp: extract_hex_def Let_def list_all_iff str_simps split: if_splits)

lemma pdu_finish_ok:
  assumes "pdu_ok c"
  shows "\<exists>ev c'. pdu_finish c = Inr (ev, c') \<and> pdu_ok c'"
proof -
  have "\<exists>t. decode_moto_ars (pc_hex c) = Inr t" using assms by (intro ars_never_faults) (simp add: pdu_ok_def)
  then show ?thesis using assms by (auto simp: pdu_finish_def Let_def pdu_ok_def split: sum.splits)
qed

lemma pdu_feed_ok:
  assumes "pdu_ok c"
  shows "\<exists>ev c'. pdu_feed l c = Inr (ev, c') \<and> pdu_ok c'"
proof -
  define d where "d = (if str_has l ''(MNIS)'' \<or> str_has l ''MNIS ARS'' then c\<lparr>pc_mnis := True\<rparr> else c)"
  have d: "pdu_ok d" using assms by (simp add: d_def pdu_ok_def)
  obtain ev c' where f: "pdu_finish d = Inr (ev, c')" "pdu_ok c'" using pdu_finish_ok[OF d] by auto
  show ?thesis using d f extract_hex_ok[of l]
    by (auto simp: pdu_feed_def d_def[symmetric] pdu_ok_def split: option.splits)
qed

text \<open>A message the carry reports: its kind, and that it is not marked as failing a check.\<close>

lemma pdu_finish_event:
  "pdu_finish c = Inr (Some ev, c') \<Longrightarrow> \<exists>slot t. ev = pdu_event slot t \<and> t \<noteq> []"
  by (auto simp: pdu_finish_def Let_def split: if_splits sum.splits)

lemma pdu_feed_event:
  "pdu_feed l c = Inr (Some ev, c') \<Longrightarrow> \<exists>slot t. ev = pdu_event slot t \<and> t \<noteq> []"
  by (auto simp: pdu_feed_def Let_def split: if_splits sum.splits option.splits prod.splits dest: pdu_finish_event)

end
