(* ===== verification/Decoder_Reader.thy ===== *)
theory Decoder_Reader
  imports Decoder_Line Short_Data
begin

text \<open>
  The reader of the decoder's log (\<open>stdout_reader_loop\<close> in \<open>src/dsd_process.cpp\<close>): the settings of a
  decoder process and its command line, the slot carried from line to line, the cutting of what is read
  into lines, and what each line hands out. What \<open>read\<close> returns is given.
\<close>

section \<open>Settings\<close>

text \<open>The callbacks appear as whether they are set.\<close>

record dsd_config =
  dc_path :: string
  dc_mode :: string
  dc_extra :: "string list"
  dc_udp_port :: "16 word"
  dc_mono :: bool
  dc_unknown :: bool
  dc_short_data :: bool
  dc_on_suppressed :: bool
  dc_on_slot_audio :: bool
  dc_on_event :: bool
  dc_on_audio :: bool

definition dsd_config0 :: dsd_config where
  "dsd_config0 = \<lparr>dc_path = ''dsd-fme'', dc_mode = ''s'', dc_extra = [], dc_udp_port = 0, dc_mono = True,
     dc_unknown = False, dc_short_data = True, dc_on_suppressed = False, dc_on_slot_audio = False,
     dc_on_event = False, dc_on_audio = False\<rparr>"

definition stereo_audio :: "dsd_config \<Rightarrow> bool" where
  "stereo_audio cfg \<longleftrightarrow>
     dc_mode cfg = ''s'' \<or> dc_mode cfg = ''a'' \<or> dc_mode cfg = ''x'' \<or> dc_mode cfg = ''t'' \<or> dc_mode cfg = ''2''"

definition build_argv :: "dsd_config \<Rightarrow> string list" where
  "build_argv cfg =
     [dc_path cfg, ''-i'', ''-'', ''-f'', dc_mode cfg, ''-o'']
   @ [if dc_udp_port cfg \<noteq> 0 then ''udp:127.0.0.1:'' @ nat_dec (unat (dc_udp_port cfg)) else ''null'']
   @ (if dc_short_data cfg then [''-Z''] else [])
   @ dc_extra cfg"

definition dsd_fme_forward_event :: "dsd_event \<Rightarrow> bool \<Rightarrow> bool" where
  "dsd_fme_forward_event ev forward_unknown \<longleftrightarrow> forward_unknown \<or> ev_kind ev \<noteq> ''unknown''"

section \<open>Slots\<close>

definition slot_marked :: "dsd_event \<Rightarrow> bool" where
  "slot_marked ev \<longleftrightarrow> ev_slot ev = ''1'' \<or> ev_slot ev = ''2''"

text \<open>\<open>DmrSlotCarry::apply\<close>: the event, and the slot carried on.\<close>

definition slot_apply :: "dsd_event \<Rightarrow> string \<Rightarrow> dsd_event \<times> string" where
  "slot_apply ev current =
     (if slot_marked ev then (ev, ev_slot ev)
      else if current = [] then (ev, current)
      else if ev_kind ev = ''voice'' \<or> ev_kind ev = ''call'' \<or> ev_kind ev = ''message'' \<or> ev_kind ev = ''burst''
              \<or> str_has (ev_extra ev) ''svc='' \<or> str_has (ev_extra ev) ''gps=''
      then (ev\<lparr>ev_slot := current\<rparr>, current)
      else (ev, current))"

definition voice_slot_of :: "dsd_event \<Rightarrow> nat" where
  "voice_slot_of ev =
     (if \<not> slot_marked ev then 0
      else (let up = map to_upper (ev_raw ev);
                voice = ev_kind ev = ''voice''
                  \<or> ev_kind ev = ''sync'' \<and> list_ex (str_has up) [''| VC'', ''| VLC'', ''VOICE'', ''LDU'', ''HDU'', ''4V'', ''2V'']
            in if voice then byte (hd (ev_slot ev)) - 48 else 0))"

definition publish_active_slot :: "dsd_config \<Rightarrow> dsd_event \<Rightarrow> nat \<Rightarrow> nat" where
  "publish_active_slot cfg ev active =
     (if \<not> dc_mono cfg \<and> \<not> dc_on_slot_audio cfg then active
      else if voice_slot_of ev \<noteq> 0 then voice_slot_of ev
      else active)"

section \<open>One line\<close>

record reader =
  rd_pdu :: pdu_carry
  rd_slot :: string
  rd_active :: nat

definition reader0 :: reader where
  "reader0 = \<lparr>rd_pdu = pdu_carry0, rd_slot = [], rd_active = 0\<rparr>"

text \<open>What the callbacks are given: an event, or a suppressed one.\<close>

datatype handed = Handed dsd_event | Suppressed dsd_event

fun handed_event :: "handed \<Rightarrow> dsd_event" where
  "handed_event (Handed ev) = ev"
| "handed_event (Suppressed ev) = ev"

text \<open>A message the carry has completed, with the slot stamped on it.\<close>

definition deliver_pdu :: "dsd_event option \<times> pdu_carry \<Rightarrow> reader \<Rightarrow> handed list \<times> reader" where
  "deliver_pdu r s =
     (case r of
        (None, c) \<Rightarrow> ([], s\<lparr>rd_pdu := c\<rparr>)
      | (Some mev, c) \<Rightarrow> (case slot_apply mev (rd_slot s) of
          (mev, current) \<Rightarrow> ([Handed mev], s\<lparr>rd_pdu := c, rd_slot := current\<rparr>)))"

definition hand_out :: "dsd_config \<Rightarrow> dsd_event \<Rightarrow> reader \<Rightarrow> handed list \<times> reader" where
  "hand_out cfg ev s =
     (case slot_apply ev (rd_slot s) of
        (ev, current) \<Rightarrow>
          ((if dsd_fme_forward_event ev (dc_unknown cfg) then [Handed ev]
            else if dc_on_suppressed cfg then [Suppressed ev] else []),
           s\<lparr>rd_slot := current, rd_active := publish_active_slot cfg ev (rd_active s)\<rparr>))"

text \<open>
  The body of the loop for a line that is not empty; \<open>tail\<close> says whether it is the unfinished last one,
  for which the code leaves out the check on binary text.
\<close>

definition read_line :: "dsd_config \<Rightarrow> bool \<Rightarrow> string \<Rightarrow> reader \<Rightarrow> handed list \<times> (fault + reader)" where
  "read_line cfg tail line s0 =
     (case (if dc_short_data cfg then pdu_feed line (rd_pdu s0) else Inr (None, rd_pdu s0)) of
        Inl f \<Rightarrow> ([], Inl f)
      | Inr r \<Rightarrow>
          (case deliver_pdu r s0 of
             (out, s) \<Rightarrow>
               (case classify_dsd_fme_line line of
                  Inl _ \<Rightarrow> (out, Inl Stod_Throws)
                | Inr ev0 \<Rightarrow>
                    (let ev = (if \<not> tail \<and> dc_short_data cfg \<and> ev_kind ev0 = ''message'' \<and> binary_text line (rd_pdu s)
                               then ev0\<lparr>ev_kind := ''unknown'', ev_msg := []\<rparr> else ev0)
                     in case hand_out cfg ev s of (out', s') \<Rightarrow> (out @ out', Inr s')))))"

text \<open>A line as it stands in the buffer: cleaned, and skipped when nothing is left or nobody listens.\<close>

definition take_line :: "dsd_config \<Rightarrow> bool \<Rightarrow> string \<Rightarrow> reader \<Rightarrow> handed list \<times> (fault + reader)" where
  "take_line cfg tail raw s =
     (if strip_ansi raw \<noteq> [] \<and> dc_on_event cfg then read_line cfg tail (strip_ansi raw) s else ([], Inr s))"

section \<open>The loop\<close>

text \<open>The complete lines of the buffer, in order; what is left of it, or the fault that ended the thread.\<close>

function drain :: "('s \<Rightarrow> string \<Rightarrow> 'o list \<times> ('f + 's)) \<Rightarrow> string \<Rightarrow> 's \<Rightarrow> 'o list \<times> ('f + string \<times> 's)" where
  "drain f buf s =
     (case find_char (CHR 0x0A) buf of
        None \<Rightarrow> ([], Inr (buf, s))
      | Some pos \<Rightarrow>
          (case f s (take pos buf) of
             (out, Inl e) \<Rightarrow> (out, Inl e)
           | (out, Inr s') \<Rightarrow> (case drain f (drop (pos + 1) buf) s' of (out', r) \<Rightarrow> (out @ out', r))))"
  by auto
termination
  by (relation "measure (\<lambda>(f, buf, s). length buf)") (auto dest: find_char_Some)

declare drain.simps [simp del]

text \<open>What \<open>read\<close> returns: bytes (none at the end of the stream), an interruption, or another error.\<close>

datatype read_result = Got string | Interrupted | Ended

fun read_loop :: "('s \<Rightarrow> string \<Rightarrow> 'o list \<times> ('f + 's)) \<Rightarrow> read_result list \<Rightarrow> string \<Rightarrow> 's \<Rightarrow>
    'o list \<times> ('f + string \<times> 's)" where
  "read_loop f [] buf s = ([], Inr (buf, s))"
| "read_loop f (Ended # rs) buf s = ([], Inr (buf, s))"
| "read_loop f (Interrupted # rs) buf s = read_loop f rs buf s"
| "read_loop f (Got bytes # rs) buf s =
     (if bytes = [] then ([], Inr (buf, s))
      else (case drain f (buf @ bytes) s of
              (out, Inl e) \<Rightarrow> (out, Inl e)
            | (out, Inr (buf', s')) \<Rightarrow> (case read_loop f rs buf' s' of (out', r) \<Rightarrow> (out @ out', r))))"

definition stdout_reader_loop :: "dsd_config \<Rightarrow> read_result list \<Rightarrow> reader \<Rightarrow> handed list \<times> (fault + reader)" where
  "stdout_reader_loop cfg rs s0 =
     (case read_loop (\<lambda>s l. take_line cfg False l s) rs [] s0 of
        (out, Inl e) \<Rightarrow> (out, Inl e)
      | (out, Inr (buf, s)) \<Rightarrow>
          (case take_line cfg True buf s of
             (out1, Inl e) \<Rightarrow> (out @ out1, Inl e)
           | (out1, Inr s1) \<Rightarrow>
               if dc_short_data cfg \<and> dc_on_event cfg then
                 (case pdu_flush (rd_pdu s1) of
                    Inl e \<Rightarrow> (out @ out1, Inl e)
                  | Inr r \<Rightarrow> (case deliver_pdu r s1 of (out2, s2) \<Rightarrow> (out @ out1 @ out2, Inr s2)))
               else (out @ out1, Inr s1)))"


section \<open>The loop works line by line\<close>

text \<open>The lines of a text that a newline ends, and what follows the last of them.\<close>

fun cut_lines :: "string \<Rightarrow> string list \<times> string" where
  "cut_lines [] = ([], [])"
| "cut_lines (c # r) =
     (case cut_lines r of (ls, t) \<Rightarrow>
        if c = CHR 0x0A then ([] # ls, t)
        else (case ls of [] \<Rightarrow> ([], c # t) | l # ls' \<Rightarrow> ((c # l) # ls', t)))"

fun run_lines :: "('s \<Rightarrow> string \<Rightarrow> 'o list \<times> ('f + 's)) \<Rightarrow> string list \<Rightarrow> 's \<Rightarrow> 'o list \<times> ('f + 's)" where
  "run_lines f [] s = ([], Inr s)"
| "run_lines f (l # ls) s =
     (case f s l of
        (out, Inl e) \<Rightarrow> (out, Inl e)
      | (out, Inr s') \<Rightarrow> (case run_lines f ls s' of (out', r) \<Rightarrow> (out @ out', r)))"

text \<open>What was read before the end.\<close>

fun received :: "read_result list \<Rightarrow> string" where
  "received (Got bytes # rs) = (if bytes = [] then [] else bytes @ received rs)"
| "received (Interrupted # rs) = received rs"
| "received _ = []"

text \<open>Lines that are run, with the rest of the text beside the state.\<close>

definition with_rest :: "string \<Rightarrow> 'o list \<times> ('f + 's) \<Rightarrow> 'o list \<times> ('f + string \<times> 's)" where
  "with_rest t r = (fst r, map_sum id (Pair t) (snd r))"

lemma cut_lines_none: "CHR 0x0A \<notin> set s \<Longrightarrow> cut_lines s = ([], s)"
  by (induction s) auto

lemma cut_lines_line: "CHR 0x0A \<notin> set s \<Longrightarrow> cut_lines (s @ CHR 0x0A # r) = (s # fst (cut_lines r), snd (cut_lines r))"
  by (induction s) (auto split: prod.splits)

lemma cut_lines_rest: "CHR 0x0A \<notin> set (snd (cut_lines s))"
  by (induction s) (auto split: prod.splits list.splits)

lemma cut_lines_append:
  "cut_lines (a @ b) = (fst (cut_lines a) @ fst (cut_lines (snd (cut_lines a) @ b)), snd (cut_lines (snd (cut_lines a) @ b)))"
proof (induction a)
  case (Cons c a)
  obtain ls t where a: "cut_lines a = (ls, t)" by fastforce
  show ?case using Cons a by (cases ls) (auto split: prod.splits list.splits)
qed simp

lemma drain_lines: "drain f buf s = with_rest (snd (cut_lines buf)) (run_lines f (fst (cut_lines buf)) s)"
proof (induction f buf s rule: drain.induct)
  case (1 f buf s)
  show ?case
  proof (cases "find_char (CHR 0x0A) buf")
    case None
    then have "cut_lines buf = ([], buf)" by (simp add: find_char_None_iff cut_lines_none)
    then show ?thesis using None by (simp add: drain.simps[of f buf s] with_rest_def)
  next
    case (Some pos)
    have p: "pos < length buf" "buf ! pos = CHR 0x0A" "CHR 0x0A \<notin> set (take pos buf)"
      using find_char_Some[OF Some] by auto
    have "buf = take pos buf @ CHR 0x0A # drop (pos + 1) buf"
      using id_take_nth_drop[OF p(1)] p(2) by simp
    then have c: "cut_lines buf = (take pos buf # fst (cut_lines (drop (pos + 1) buf)), snd (cut_lines (drop (pos + 1) buf)))"
      using cut_lines_line[OF p(3)] by metis
    show ?thesis
    proof (cases "f s (take pos buf)")
      case (Pair out r)
      show ?thesis
      proof (cases r)
        case (Inl e)
        then show ?thesis using Some Pair c by (simp add: drain.simps[of f buf s] with_rest_def)
      next
        case (Inr s')
        note IH = 1[OF Some Pair[symmetric] Inr]
        show ?thesis using Some Pair c Inr IH
          by (simp add: drain.simps[of f buf s] with_rest_def split: prod.splits)
      qed
    qed
  qed
qed

lemma run_lines_append:
  "run_lines f (ls @ ms) s =
     (case run_lines f ls s of
        (out, Inl e) \<Rightarrow> (out, Inl e)
      | (out, Inr s') \<Rightarrow> (case run_lines f ms s' of (out', r) \<Rightarrow> (out @ out', r)))"
  by (induction ls arbitrary: s) (auto split: prod.splits sum.splits)

lemma read_loop_lines:
  "CHR 0x0A \<notin> set buf \<Longrightarrow>
     (case read_loop f rs buf s of
        (out, Inl e) \<Rightarrow> run_lines f (fst (cut_lines (buf @ received rs))) s = (out, Inl e)
      | (out, Inr (t, s')) \<Rightarrow>
          run_lines f (fst (cut_lines (buf @ received rs))) s = (out, Inr s') \<and> t = snd (cut_lines (buf @ received rs)))"
proof (induction f rs buf s rule: read_loop.induct)
  case (4 f bytes rs buf s)
  show ?case
  proof (cases "bytes = []")
    case True
    then show ?thesis using 4(2) by (simp add: cut_lines_none)
  next
    case False
    let ?ls = "fst (cut_lines (buf @ bytes))" and ?t = "snd (cut_lines (buf @ bytes))"
    have c: "cut_lines (buf @ received (Got bytes # rs))
        = (?ls @ fst (cut_lines (?t @ received rs)), snd (cut_lines (?t @ received rs)))"
      using cut_lines_append[of "buf @ bytes" "received rs"] False by simp
    obtain out r where r: "run_lines f ?ls s = (out, r)" by fastforce
    show ?thesis
    proof (cases r)
      case (Inl e)
      then show ?thesis using False r c by (simp add: drain_lines with_rest_def run_lines_append)
    next
      case (Inr s')
      have d: "drain f (buf @ bytes) s = (out, Inr (?t, s'))" using r Inr by (simp add: drain_lines with_rest_def)
      show ?thesis using 4(1)[OF False d[symmetric] refl refl cut_lines_rest] False d r Inr c
        by (auto simp: run_lines_append split: prod.splits sum.splits)
    qed
  qed
qed (auto simp: cut_lines_none)

text \<open>The reader as it is meant: a run over the lines of everything read, then the unfinished line and the carry.\<close>

definition reader_spec :: "dsd_config \<Rightarrow> string \<Rightarrow> reader \<Rightarrow> handed list \<times> (fault + reader)" where
  "reader_spec cfg text s0 =
     (case run_lines (\<lambda>s l. take_line cfg False l s) (fst (cut_lines text)) s0 of
        (out, Inl e) \<Rightarrow> (out, Inl e)
      | (out, Inr s) \<Rightarrow>
          (case take_line cfg True (snd (cut_lines text)) s of
             (out1, Inl e) \<Rightarrow> (out @ out1, Inl e)
           | (out1, Inr s1) \<Rightarrow>
               if dc_short_data cfg \<and> dc_on_event cfg then
                 (case pdu_flush (rd_pdu s1) of
                    Inl e \<Rightarrow> (out @ out1, Inl e)
                  | Inr r \<Rightarrow> (case deliver_pdu r s1 of (out2, s2) \<Rightarrow> (out @ out1 @ out2, Inr s2)))
               else (out @ out1, Inr s1)))"

lemma reader_loop_spec: "stdout_reader_loop cfg rs s0 = reader_spec cfg (received rs) s0"
  using read_loop_lines[of "[]" "\<lambda>s l. take_line cfg False l s" rs s0]
  unfolding stdout_reader_loop_def reader_spec_def
  by (cases "read_loop (\<lambda>s l. take_line cfg False l s) rs [] s0"; cases "snd (read_loop (\<lambda>s l. take_line cfg False l s) rs [] s0)")
     (auto split: prod.splits)

text \<open>
  C5. What the reader hands out, and the state it ends in, depend only on the bytes the decoder wrote, not on
  how they were split over the reads or interrupted: it is the run over the lines of all of them.
\<close>

lemma reader_by_lines: "stdout_reader_loop cfg rs s0 = reader_spec cfg (received rs) s0"
  by (rule reader_loop_spec)

end
