(* ===== verification/Reader_Safety.thy ===== *)
theory Reader_Safety
  imports Decoder_Reader
begin

text \<open>
  What a client of the decoder's reader may rely on, whatever the decoder prints and however it arrives:
  the output is checked by a monitor that runs beside the reader (a simulation), the contract of one line
  is a locale, and its conclusion for the loop is proved once.
\<close>

section \<open>Monitored handlers of lines\<close>

fun watch :: "('a \<Rightarrow> 'o \<Rightarrow> 'a option) \<Rightarrow> 'a \<Rightarrow> 'o list \<Rightarrow> 'a option" where
  "watch m a [] = Some a"
| "watch m a (x # xs) = (case m a x of None \<Rightarrow> None | Some b \<Rightarrow> watch m b xs)"

lemma watch_append: "watch m a (xs @ ys) = (case watch m a xs of None \<Rightarrow> None | Some b \<Rightarrow> watch m b ys)"
  by (induction xs arbitrary: a) (auto split: option.splits)

definition accepted :: "('a \<Rightarrow> 'o \<Rightarrow> 'a option) \<Rightarrow> ('s \<Rightarrow> 'a \<Rightarrow> bool) \<Rightarrow> ('f \<Rightarrow> bool) \<Rightarrow> 'a \<Rightarrow> 'o list \<times> ('f + 's) \<Rightarrow> bool" where
  "accepted m sim may a r \<longleftrightarrow>
     (case watch m a (fst r) of
        None \<Rightarrow> False
      | Some b \<Rightarrow> (case snd r of Inl e \<Rightarrow> may e | Inr s \<Rightarrow> sim s b))"

lemma acceptedI: "watch m a (fst r) = Some b \<Longrightarrow> (case snd r of Inl e \<Rightarrow> may e | Inr s \<Rightarrow> sim s b) \<Longrightarrow> accepted m sim may a r"
  by (simp add: accepted_def)

text \<open>Output after which the reader goes on, followed by what it does then.\<close>

lemma accepted_seq:
  assumes "accepted m sim may a (out, Inr s)" and "\<And>b. sim s b \<Longrightarrow> accepted m sim may b (out', r)"
  shows "accepted m sim may a (out @ out', r)"
proof -
  obtain b where b: "watch m a out = Some b" "sim s b"
    using assms(1) by (auto simp: accepted_def split: option.splits)
  show ?thesis using assms(2)[OF b(2)] b(1) by (simp add: accepted_def watch_append split: option.splits)
qed

lemma accepted_stop: "accepted m sim may a (out, Inr s) \<Longrightarrow> may e \<Longrightarrow> accepted m sim may a (out, Inl e)"
  by (auto simp: accepted_def split: option.splits)

locale monitored_lines =
  fixes f :: "'s \<Rightarrow> string \<Rightarrow> 'o list \<times> ('f + 's)"
    and m :: "'a \<Rightarrow> 'o \<Rightarrow> 'a option"
    and sim :: "'s \<Rightarrow> 'a \<Rightarrow> bool"
    and may :: "'f \<Rightarrow> bool"
  assumes line: "sim s a \<Longrightarrow> accepted m sim may a (f s l)"
begin

lemma run: "sim s a \<Longrightarrow> accepted m sim may a (run_lines f ls s)"
proof (induction ls arbitrary: s a)
  case Nil
  then show ?case by (simp add: accepted_def)
next
  case (Cons l ls)
  note l = line[OF Cons.prems, of l]
  show ?case
  proof (cases "f s l")
    case (Pair out r)
    show ?thesis
    proof (cases r)
      case (Inl e)
      then show ?thesis using l Pair by simp
    next
      case (Inr s')
      have "accepted m sim may a (out @ fst (run_lines f ls s'), snd (run_lines f ls s'))"
        using l Cons.IH unfolding Pair Inr by (intro accepted_seq[where s = s']) auto
      then show ?thesis using Pair Inr by (simp add: case_prod_beta)
    qed
  qed
qed

end

section \<open>The monitor of decoder events\<close>

text \<open>
  An event is clean unless it is a message of a line that failed its check. Its argument says whether a slot
  marker has been handed out: from then on, an event that belongs to a slot must carry one.
\<close>

definition clean_event :: "dsd_event \<Rightarrow> bool" where
  "clean_event ev \<longleftrightarrow> \<not> (ev_kind ev = ''message'' \<and> ev_crc ev = ''1'')"

definition slotted :: "dsd_event \<Rightarrow> bool" where
  "slotted ev \<longleftrightarrow> ev_kind ev = ''voice'' \<or> ev_kind ev = ''call'' \<or> ev_kind ev = ''message'' \<or> ev_kind ev = ''burst''"

definition event_monitor :: "bool \<Rightarrow> handed \<Rightarrow> bool option" where
  "event_monitor seen h =
     (let ev = handed_event h
      in if clean_event ev \<and> (\<not> seen \<or> \<not> slotted ev \<or> slot_marked ev) then Some (seen \<or> slot_marked ev) else None)"

definition reader_sim :: "reader \<Rightarrow> bool \<Rightarrow> bool" where
  "reader_sim s seen \<longleftrightarrow>
     pdu_ok (rd_pdu s) \<and> (seen \<longrightarrow> rd_slot s \<noteq> []) \<and> (rd_slot s = [] \<or> rd_slot s = ''1'' \<or> rd_slot s = ''2'')
     \<and> rd_active s \<le> 2"

lemma reader_sim_0 [simp]: "reader_sim reader0 False"
  by (simp add: reader_sim_def reader0_def)

lemma slot_apply_kind [simp]: "ev_kind (fst (slot_apply ev c)) = ev_kind ev" "ev_crc (fst (slot_apply ev c)) = ev_crc ev"
  by (simp_all add: slot_apply_def)

lemma slot_apply_marks:
  assumes "c = [] \<or> c = ''1'' \<or> c = ''2''"
  shows "(\<not> slotted ev \<or> c = [] \<or> slot_marked (fst (slot_apply ev c)))
    \<and> (slot_marked (fst (slot_apply ev c)) \<longrightarrow> snd (slot_apply ev c) \<noteq> [])
    \<and> (c = [] \<or> snd (slot_apply ev c) \<noteq> [])
    \<and> (snd (slot_apply ev c) = [] \<or> snd (slot_apply ev c) = ''1'' \<or> snd (slot_apply ev c) = ''2'')"
  using assms by (auto simp: slot_apply_def slotted_def slot_marked_def)

lemma voice_slot_le: "voice_slot_of ev \<le> 2"
  by (auto simp: voice_slot_of_def slot_marked_def Let_def)

lemma publish_le: "a \<le> 2 \<Longrightarrow> publish_active_slot cfg ev a \<le> 2"
  using voice_slot_le by (simp add: publish_active_slot_def)

text \<open>Stamping and handing out one event keeps the simulation.\<close>

lemma stamped_accepted:
  assumes sim: "reader_sim s seen" and ev: "clean_event ev" and ok: "pdu_ok c" "act \<le> 2"
    and r: "slot_apply ev (rd_slot s) = (ev', cur)"
    and out: "out = [] \<or> (\<exists>h. out = [h] \<and> handed_event h = ev')"
  shows "accepted event_monitor reader_sim may seen (out, Inr (s\<lparr>rd_pdu := c, rd_slot := cur, rd_active := act\<rparr>))"
proof -
  have cl: "clean_event ev'" using ev slot_apply_kind[of ev "rd_slot s"] unfolding r clean_event_def by simp
  have sl: "slotted ev' \<longleftrightarrow> slotted ev" using slot_apply_kind[of ev "rd_slot s"] unfolding r slotted_def by simp
  note mk = slot_apply_marks[of "rd_slot s" ev, unfolded r fst_conv snd_conv]
  show ?thesis using sim cl sl mk ok out
    by (auto simp: accepted_def event_monitor_def reader_sim_def Let_def)
qed

lemma deliver_accepted:
  assumes "reader_sim s seen" "pdu_ok c" "\<And>ev. r = Some ev \<Longrightarrow> clean_event ev"
  shows "accepted event_monitor reader_sim may seen (fst (deliver_pdu (r, c) s), Inr (snd (deliver_pdu (r, c) s)))"
proof (cases r)
  case None
  then show ?thesis using assms by (simp add: deliver_pdu_def accepted_def reader_sim_def)
next
  case (Some ev)
  obtain ev' cur where a: "slot_apply ev (rd_slot s) = (ev', cur)" by fastforce
  have "rd_active s \<le> 2" using assms(1) by (simp add: reader_sim_def)
  then have "accepted event_monitor reader_sim may seen
      ([Handed ev'], Inr (s\<lparr>rd_pdu := c, rd_slot := cur, rd_active := rd_active s\<rparr>))"
    using assms Some a by (intro stamped_accepted) auto
  then show ?thesis by (simp add: deliver_pdu_def Some a)
qed

lemma hand_out_accepted:
  assumes "reader_sim s seen" "clean_event ev"
  shows "accepted event_monitor reader_sim may seen (fst (hand_out cfg ev s), Inr (snd (hand_out cfg ev s)))"
proof -
  obtain ev' cur where a: "slot_apply ev (rd_slot s) = (ev', cur)" by fastforce
  have "accepted event_monitor reader_sim may seen (fst (hand_out cfg ev s),
      Inr (s\<lparr>rd_pdu := rd_pdu s, rd_slot := cur, rd_active := publish_active_slot cfg ev' (rd_active s)\<rparr>))"
    using assms a by (intro stamped_accepted publish_le) (auto simp: hand_out_def reader_sim_def)
  then show ?thesis by (simp add: hand_out_def a)
qed

lemma pdu_event_clean [simp]: "clean_event (pdu_event slot t)"
  by (simp add: clean_event_def pdu_event_def dsd_event0_def)

section \<open>The classifier's messages\<close>

lemma line_message_crc: "ev_crc (line_message s ev) = ev_crc ev" "ev_crc ev = ''1'' \<Longrightarrow> ev_msg (line_message s ev) = ev_msg ev"
  by (auto simp: line_message_def split: option.splits)

lemma line_callsigns_keep:
  "ev_crc (fst (line_callsigns s ev)) = ev_crc ev" "ev_msg (fst (line_callsigns s ev)) = ev_msg ev"
  "ev_kind (fst (line_callsigns s ev)) = ev_kind ev"
  by (auto simp: line_callsigns_def Let_def)

lemma line_edacs_keep:
  "ev_crc (fst (line_edacs s ev)) = ev_crc ev" "ev_msg (fst (line_edacs s ev)) = ev_msg ev"
  "ev_kind (fst (line_edacs s ev)) = ev_kind ev"
  by (auto simp: line_edacs_def Let_def)

lemma line_ambe_keep:
  "ev_crc (line_ambe s ev) = ev_crc ev" "ev_msg (line_ambe s ev) = ev_msg ev" "ev_kind (line_ambe s ev) = ev_kind ev"
  by (auto simp: line_ambe_def split: option.splits)

text \<open>The parts of a classification: the identifiers and the message body, with the fields later parts leave.\<close>

lemma classify_crc:
  assumes "classify_dsd_fme_line s = Inr ev"
  shows "ev_crc ev = (if rx_has err_re s then ''1'' else [])"
    and "ev_crc ev = ''1'' \<Longrightarrow> ev_msg ev = []"
    and "ev_kind ev = ''message'' \<Longrightarrow> ev_msg ev \<noteq> []"
proof -
  define e0 where "e0 = line_ids s (dsd_event0\<lparr>ev_raw := s, ev_kind := ''unknown''\<rparr>)"
  define e1 where "e1 = line_message s e0"
  obtain gps where g: "gps_tokens s = Inr gps"
    using assms by (cases "gps_tokens s") (auto simp: classify_dsd_fme_line_def Let_def)
  define e2 where "e2 = e1\<lparr>ev_extra := join_tokens (site_tokens s @ cipher_tokens s @ service_tokens s @ gps)\<rparr>"
  obtain e3 cs where c3: "line_callsigns s e2 = (e3, cs)" by fastforce
  obtain e4 ed where c4: "line_edacs s e3 = (e4, ed)" by fastforce
  have ev: "ev = line_ambe s (e4\<lparr>ev_kind := line_kind s cs ed e4\<rparr>)"
    using assms g c3 c4
    by (simp add: classify_dsd_fme_line_def Let_def e0_def[symmetric] e1_def[symmetric] e2_def[symmetric])
  have e4: "ev_crc e4 = ev_crc e1" "ev_msg e4 = ev_msg e1" "ev_kind e4 = ev_kind e1"
    using line_callsigns_keep[of s e2] line_edacs_keep[of s e3] c3 c4 by (simp_all add: e2_def)
  have e0: "ev_crc e0 = (if rx_has err_re s then ''1'' else [])" "ev_msg e0 = []" "ev_kind e0 = ''unknown''"
    by (simp_all add: e0_def line_ids_def dsd_event0_def)
  have k: "ev_kind e1 = ''unknown''" using e0(3) by (simp add: e1_def line_message_def split: option.splits)
  show "ev_crc ev = (if rx_has err_re s then ''1'' else [])"
    by (simp add: ev line_ambe_keep e4 e1_def line_message_crc e0(1))
  show "ev_msg ev = []" if "ev_crc ev = ''1''"
    using that by (simp add: ev line_ambe_keep e4 e1_def line_message_crc e0(2))
  show "ev_msg ev \<noteq> []" if "ev_kind ev = ''message''"
    using that k by (auto simp: ev line_ambe_keep e4 line_kind_def split: if_splits)
qed

lemma classify_clean: "classify_dsd_fme_line s = Inr ev \<Longrightarrow> clean_event ev"
  using classify_crc(2,3) by (auto simp: clean_event_def)

section \<open>The reader under the monitor\<close>

definition only_stod :: "fault \<Rightarrow> bool" where
  "only_stod e \<longleftrightarrow> e = Stod_Throws"

lemma fed_ok:
  assumes "pdu_ok p"
  obtains r c where "(if b then pdu_feed l p else Inr (None, p)) = Inr (r, c)" "pdu_ok c"
    "\<And>ev. r = Some ev \<Longrightarrow> clean_event ev"
proof (cases b)
  case True
  obtain r c where f: "pdu_feed l p = Inr (r, c)" "pdu_ok c" using pdu_feed_ok[OF assms] by blast
  have "clean_event ev" if "r = Some ev" for ev
    using pdu_feed_event[of l p ev c] f(1) pdu_event_clean unfolding that by blast
  then show ?thesis using that[of r c] f True by simp
next
  case False
  then show ?thesis using that[of None p] assms by simp
qed

lemma read_line_accepted:
  assumes sim: "reader_sim s0 seen"
  shows "accepted event_monitor reader_sim only_stod seen (read_line cfg tail l s0)"
proof -
  have ok: "pdu_ok (rd_pdu s0)" using sim by (simp add: reader_sim_def)
  obtain r c where f: "(if dc_short_data cfg then pdu_feed l (rd_pdu s0) else Inr (None, rd_pdu s0)) = Inr (r, c)"
      and c: "pdu_ok c" and cl: "\<And>ev. r = Some ev \<Longrightarrow> clean_event ev"
    using fed_ok[OF ok, of "dc_short_data cfg" l] by blast
  obtain out s where d: "deliver_pdu (r, c) s0 = (out, s)" by fastforce
  have a: "accepted event_monitor reader_sim only_stod seen (out, Inr s)"
    using deliver_accepted[OF sim c, of r only_stod] cl by (simp add: d)
  show ?thesis
  proof (cases "classify_dsd_fme_line l")
    case (Inl e)
    then show ?thesis using a by (auto simp: read_line_def f d accepted_def only_stod_def split: option.splits)
  next
    case (Inr ev0)
    let ?ev = "if \<not> tail \<and> dc_short_data cfg \<and> ev_kind ev0 = ''message'' \<and> binary_text l (rd_pdu s)
               then ev0\<lparr>ev_kind := ''unknown'', ev_msg := []\<rparr> else ev0"
    have ev: "clean_event ?ev" using classify_clean[OF Inr] by (auto simp: clean_event_def)
    have "accepted event_monitor reader_sim only_stod seen (out @ fst (hand_out cfg ?ev s), Inr (snd (hand_out cfg ?ev s)))"
      using a hand_out_accepted[OF _ ev] by (intro accepted_seq[where s = s]) auto
    then show ?thesis by (simp add: read_line_def f d Inr Let_def case_prod_beta)
  qed
qed

lemma take_line_accepted:
  "reader_sim s seen \<Longrightarrow> accepted event_monitor reader_sim only_stod seen (take_line cfg tail l s)"
  using read_line_accepted[of s seen cfg tail "strip_ansi l"]
  by (cases "strip_ansi l \<noteq> [] \<and> dc_on_event cfg") (simp_all only: take_line_def if_True if_False if_not_P if_P, simp_all add: accepted_def)

interpretation reading: monitored_lines "\<lambda>s l. take_line cfg False l s" event_monitor reader_sim only_stod for cfg
  by unfold_locales (rule take_line_accepted)

lemma flush_accepted:
  assumes sim: "reader_sim s seen" and f: "pdu_flush (rd_pdu s) = r"
  shows "accepted event_monitor reader_sim only_stod seen
    (case r of Inl e \<Rightarrow> ([], Inl e) | Inr r \<Rightarrow> (case deliver_pdu r s of (out, s') \<Rightarrow> (out, Inr s')))"
proof -
  have "pdu_ok (rd_pdu s)" using sim by (simp add: reader_sim_def)
  then obtain ev c where e: "pdu_finish (rd_pdu s) = Inr (ev, c)" "pdu_ok c" using pdu_finish_ok by blast
  have "clean_event d" if "ev = Some d" for d using pdu_finish_event[of "rd_pdu s" d c] e that by auto
  then have "accepted event_monitor reader_sim only_stod seen (fst (deliver_pdu (ev, c) s), Inr (snd (deliver_pdu (ev, c) s)))"
    using sim e(2) by (intro deliver_accepted) auto
  then show ?thesis unfolding f[symmetric] pdu_flush_def e(1) by (simp add: case_prod_beta)
qed

lemma reader_accepted:
  assumes sim: "reader_sim s0 seen"
  shows "accepted event_monitor reader_sim only_stod seen (reader_spec cfg text s0)"
proof -
  note run = reading.run[OF sim, of cfg "fst (cut_lines text)"]
  obtain out r where o: "run_lines (\<lambda>s l. take_line cfg False l s) (fst (cut_lines text)) s0 = (out, r)" by fastforce
  show ?thesis
  proof (cases r)
    case (Inl e)
    then show ?thesis using run o by (simp add: reader_spec_def)
  next
    case (Inr s)
    obtain out1 r1 where o1: "take_line cfg True (snd (cut_lines text)) s = (out1, r1)" by fastforce
    have a1: "accepted event_monitor reader_sim only_stod seen (out @ out1, r1)"
      using run take_line_accepted[of s _ cfg True "snd (cut_lines text)"] unfolding o o1 Inr
      by (intro accepted_seq[where s = s]) auto
    show ?thesis
    proof (cases r1)
      case (Inl e)
      then show ?thesis using a1 o o1 Inr by (simp add: reader_spec_def)
    next
      case (Inr s1)
      let ?fl = "case pdu_flush (rd_pdu s1) of Inl e \<Rightarrow> ([], Inl e) | Inr r \<Rightarrow> (case deliver_pdu r s1 of (out, s') \<Rightarrow> (out, Inr s'))"
      have "accepted event_monitor reader_sim only_stod seen ((out @ out1) @ fst ?fl, snd ?fl)"
        using a1 flush_accepted[OF _ refl, of s1] unfolding Inr by (intro accepted_seq[where out = "out @ out1" and s = s1]) auto
      then show ?thesis using a1 o o1 \<open>r = Inr s\<close> Inr
        by (auto simp: reader_spec_def split: sum.splits prod.splits)
    qed
  qed
qed

section \<open>The properties of the reader\<close>

text \<open>Once an event with a slot marker has been handed out, every later event of a slot names one.\<close>

fun slots_known :: "bool \<Rightarrow> dsd_event list \<Rightarrow> bool" where
  "slots_known seen [] = True"
| "slots_known seen (ev # evs) =
     ((\<not> (seen \<and> slotted ev) \<or> slot_marked ev) \<and> slots_known (seen \<or> slot_marked ev) evs)"

lemma watch_monitor:
  "watch event_monitor seen out = Some b \<Longrightarrow>
     list_all clean_event (map handed_event out) \<and> slots_known seen (map handed_event out)"
  by (induction out arbitrary: seen) (auto simp: event_monitor_def Let_def split: if_splits)

lemma reader_watched:
  "\<exists>b. watch event_monitor False (fst (stdout_reader_loop cfg rs reader0)) = Some b
     \<and> (case snd (stdout_reader_loop cfg rs reader0) of Inl e \<Rightarrow> only_stod e | Inr s \<Rightarrow> reader_sim s b)"
  using reader_accepted[OF reader_sim_0, of cfg "received rs"]
  by (auto simp: accepted_def reader_loop_spec split: option.splits)

text \<open>
  C6. In everything the reader of a decoder hands out, whatever the decoder prints, no message comes from a
  line that failed its check, and from the first event that names a slot on, every voice, call, message and
  burst event names one.
\<close>

lemma reader_output_ordered:
  "list_all clean_event (map handed_event (fst (stdout_reader_loop cfg rs reader0)))
   \<and> slots_known False (map handed_event (fst (stdout_reader_loop cfg rs reader0)))"
  using reader_watched[of cfg rs] watch_monitor by blast

text \<open>
  C7. Whatever the decoder prints, the reader never indexes past the bytes of a registration message, its
  header included, and never fails to convert the hex digits of a data unit; the one exception that can end it
  is the number of a position report that is out of the range of a double. The slot it publishes for the audio is 0, 1 or 2.
\<close>

lemma reader_never_faults:
  "case snd (stdout_reader_loop cfg rs reader0) of Inl e \<Rightarrow> e = Stod_Throws | Inr s \<Rightarrow> rd_active s \<le> 2"
  using reader_watched[of cfg rs] by (auto simp: only_stod_def reader_sim_def split: sum.splits)

text \<open>
  The check flag of a line's event is set exactly when the line holds CRC, FEC or EMB, spaces, and ERR, in
  any letter case, and an event whose flag is set has no message text.
\<close>

lemma failed_check_no_message:
  "case classify_dsd_fme_line line of
     Inl e \<Rightarrow> gps_tokens line = Inl e
   | Inr ev \<Rightarrow> (ev_crc ev = ''1'' \<longleftrightarrow> marks_failure line) \<and> \<not> (marks_failure line \<and> ev_msg ev \<noteq> [])"
proof (cases "classify_dsd_fme_line line")
  case (Inl e)
  then show ?thesis by (auto simp: classify_dsd_fme_line_def Let_def split: sum.splits prod.splits)
next
  case (Inr ev)
  have "ev_crc ev = ''1'' \<longleftrightarrow> marks_failure line" using classify_crc(1)[OF Inr] by (simp add: err_re_marks)
  then show ?thesis using classify_crc(2)[OF Inr] Inr by auto
qed

end
