(* ===== verification/Slot_Audio.thy ===== *)
theory Slot_Audio
  imports Decoder_Reader "HOL-Library.Signed_Division"
begin

text \<open>
  The decoder's voice (\<open>udp_reader_loop\<close> in \<open>src/dsd_process.cpp\<close>): packets of little-endian 16-bit
  samples, their split by slot for the calls' audio, and the mono stream of the clients. What \<open>recv\<close>
  returns is given, and with each packet the two values of the active slot that the loop reads from the
  other thread.
\<close>

type_synonym samples = "16 word list"

section \<open>One packet\<close>

fun packet_samples :: "string \<Rightarrow> samples" where
  "packet_samples (a # b # r) = word_of_nat (byte a + 256 * byte b) # packet_samples r"
| "packet_samples _ = []"

definition mix :: "16 word \<Rightarrow> 16 word \<Rightarrow> 16 word" where
  "mix l r = word_of_int ((sint l + sint r) sdiv 2)"

definition stereo_to_mono_for_slot :: "samples \<Rightarrow> nat \<Rightarrow> samples" where
  "stereo_to_mono_for_slot pcm slot =
     map (\<lambda>i. let l = pcm ! (2 * i); r = pcm ! (2 * i + 1)
              in if slot = 1 then l else if slot = 2 then r else mix l r)
       [0..<length pcm div 2]"

definition route_stereo_slots :: "samples \<Rightarrow> nat \<Rightarrow> (nat \<times> samples) list" where
  "route_stereo_slots pcm active =
     (if \<forall>i < length pcm div 2. pcm ! (2 * i) = pcm ! (2 * i + 1) then
        [(if active = 1 \<or> active = 2 then active else 0, stereo_to_mono_for_slot pcm 1)]
      else [(1, stereo_to_mono_for_slot pcm 1), (2, stereo_to_mono_for_slot pcm 2)])"

section \<open>The loop\<close>

datatype audio_out = Slot_Audio nat samples | Client_Audio samples

datatype packet = Packet string nat nat | Recv_Interrupted | Recv_Ended

definition packet_out :: "dsd_config \<Rightarrow> samples \<Rightarrow> nat \<Rightarrow> nat \<Rightarrow> audio_out list" where
  "packet_out cfg pcm active1 active2 =
     (if dc_on_slot_audio cfg then
        (if stereo_audio cfg then map (\<lambda>(s, x). Slot_Audio s x) (route_stereo_slots pcm active1)
         else [Slot_Audio 0 pcm]) else [])
   @ (if \<not> dc_on_audio cfg then []
      else if \<not> dc_mono cfg \<or> \<not> stereo_audio cfg then [Client_Audio pcm]
      else [Client_Audio (stereo_to_mono_for_slot pcm active2)])"

fun udp_reader_loop :: "dsd_config \<Rightarrow> packet list \<Rightarrow> audio_out list" where
  "udp_reader_loop cfg [] = []"
| "udp_reader_loop cfg (Recv_Ended # ps) = []"
| "udp_reader_loop cfg (Recv_Interrupted # ps) = udp_reader_loop cfg ps"
| "udp_reader_loop cfg (Packet bytes a1 a2 # ps) =
     (if bytes = [] then [] else packet_out cfg (packet_samples (take 8192 bytes)) a1 a2 @ udp_reader_loop cfg ps)"

section \<open>Nothing is lost\<close>

fun interleave :: "samples \<Rightarrow> samples \<Rightarrow> samples" where
  "interleave (a # l) (b # r) = a # b # interleave l r"
| "interleave _ _ = []"

fun lefts :: "samples \<Rightarrow> samples" where
  "lefts (a # b # r) = a # lefts r"
| "lefts _ = []"

fun rights :: "samples \<Rightarrow> samples" where
  "rights (a # b # r) = b # rights r"
| "rights _ = []"

lemma upt_pairs: "[0..<length (a # b # r) div 2] = 0 # map Suc [0..<length r div 2]"
  by (simp add: upt_conv_Cons map_Suc_upt del: upt_Suc)

lemma mono_pair:
  "stereo_to_mono_for_slot (a # b # r) slot
     = (if slot = 1 then a else if slot = 2 then b else mix a b) # stereo_to_mono_for_slot r slot"
  unfolding stereo_to_mono_for_slot_def upt_pairs by (simp add: comp_def)

lemma mono_left: "stereo_to_mono_for_slot pcm 1 = lefts pcm"
proof (induction pcm rule: lefts.induct)
  case (1 a b r)
  then show ?case by (simp only: mono_pair lefts.simps if_True simp_thms)
qed (simp_all add: stereo_to_mono_for_slot_def)

lemma mono_right: "stereo_to_mono_for_slot pcm 2 = rights pcm"
proof (induction pcm rule: rights.induct)
  case (1 a b r)
  then show ?case by (simp add: mono_pair)
qed (simp_all add: stereo_to_mono_for_slot_def)

lemma interleave_split: "interleave (lefts pcm) (rights pcm) = take (2 * (length pcm div 2)) pcm"
  by (induction pcm rule: lefts.induct) auto

lemma same_channels: "(\<forall>i < length pcm div 2. pcm ! (2 * i) = pcm ! (2 * i + 1)) \<longleftrightarrow> lefts pcm = rights pcm"
proof (induction pcm rule: lefts.induct)
  case (1 a b r)
  have "(\<forall>i < Suc (length r div 2). Q i) \<longleftrightarrow> Q 0 \<and> (\<forall>i < length r div 2. Q (Suc i))" for Q
    by (rule All_less_Suc2)
  then show ?case using 1 by simp
qed auto

text \<open>
  The split of a stereo packet over the slots loses nothing: two streams, for slots 1 and 2, interleave
  to the packet, and a single stream, for the slot that carries voice, is what both channels hold. Only an
  odd last sample is dropped.
\<close>

lemma stereo_split_lossless:
  "case route_stereo_slots pcm active of
     [(s, x)] \<Rightarrow> s = (if active = 1 \<or> active = 2 then active else 0) \<and> interleave x x = take (2 * (length pcm div 2)) pcm
   | [(s, l), (t, r)] \<Rightarrow> s = 1 \<and> t = 2 \<and> l \<noteq> r \<and> interleave l r = take (2 * (length pcm div 2)) pcm
   | _ \<Rightarrow> False"
  using interleave_split[of pcm]
  unfolding route_stereo_slots_def same_channels mono_left mono_right by auto

text \<open>The mix of two samples lies between them: it never wraps.\<close>

lemma mix_value: "sint (mix l r) = (sint l + sint r) sdiv 2"
proof -
  have b: "- 32768 \<le> sint x \<and> sint x < 32768" for x :: "16 word"
    using sint_ge[of x] sint_lt[of x] by simp
  have "- 32768 \<le> (sint l + sint r) sdiv 2 \<and> (sint l + sint r) sdiv 2 < 32768"
    using b[of l] b[of r] by (auto simp: signed_divide_int_def sgn_if)
  then show ?thesis by (simp add: mix_def sint_sbintrunc' signed_take_bit_int_eq_self)
qed

end
