(* ===== verification/Process_Life.thy ===== *)
theory Process_Life
  imports Decoder_Reader
begin

text \<open>
  The life of a decoder process (\<open>DsdProcess\<close> in \<open>src/dsd_process.cpp\<close>) as this process sees it: which
  descriptors \<open>start\<close>, \<open>stop\<close> and every failure on the way leave open, the child and the two reader
  threads, and the loop of \<open>write_audio\<close>. What the system calls return is given. The child's own copies
  of the descriptors are not modelled.
\<close>

section \<open>State\<close>

datatype fd = Stdin_Read | Stdin_Write | Stdout_Read | Stdout_Write | Exec_Read | Exec_Write | Udp_Socket

text \<open>
  \<open>pr_bad\<close> is set when a descriptor is closed that is not open, and when one is closed while a thread still
  reads it.
\<close>

record process =
  pr_open :: "fd list"
  pr_stdin :: "fd option"
  pr_stdout :: "fd option"
  pr_udp :: "fd option"
  pr_child :: bool
  pr_running :: bool
  pr_stdout_thread :: bool
  pr_udp_thread :: bool
  pr_bad :: bool

definition process0 :: process where
  "process0 = \<lparr>pr_open = [], pr_stdin = None, pr_stdout = None, pr_udp = None, pr_child = False,
     pr_running = False, pr_stdout_thread = False, pr_udp_thread = False, pr_bad = False\<rparr>"

text \<open>What the system answers: the three pipes, the socket, binding it, the fork, and the child's exec.\<close>

record answers =
  an_stdin_pipe :: bool
  an_stdout_pipe :: bool
  an_exec_pipe :: bool
  an_socket :: bool
  an_bind :: bool
  an_fork :: bool
  an_exec :: bool

definition fd_open :: "fd list \<Rightarrow> process \<Rightarrow> process" where
  "fd_open fs p = p\<lparr>pr_open := pr_open p @ fs\<rparr>"

definition fd_read_by_thread :: "fd \<Rightarrow> process \<Rightarrow> bool" where
  "fd_read_by_thread f p \<longleftrightarrow>
     (pr_stdout_thread p \<and> pr_stdout p = Some f) \<or> (pr_udp_thread p \<and> pr_udp p = Some f)"

definition fd_close :: "fd \<Rightarrow> process \<Rightarrow> process" where
  "fd_close f p =
     (if f \<in> set (pr_open p) \<and> \<not> fd_read_by_thread f p then p\<lparr>pr_open := remove1 f (pr_open p)\<rparr>
      else p\<lparr>pr_bad := True\<rparr>)"

definition fds_close :: "fd list \<Rightarrow> process \<Rightarrow> process" where
  "fds_close fs p = fold fd_close fs p"

definition udp_close :: "process \<Rightarrow> process" where
  "udp_close p = (case pr_udp p of None \<Rightarrow> p | Some f \<Rightarrow> (fd_close f p)\<lparr>pr_udp := None\<rparr>)"

section \<open>Starting\<close>

text \<open>The socket of the decoded voice; without one the process still starts.\<close>

definition open_udp :: "dsd_config \<Rightarrow> answers \<Rightarrow> process \<Rightarrow> process" where
  "open_udp cfg an p0 =
     (let p = p0\<lparr>pr_udp := None\<rparr>
      in if dc_udp_port cfg \<noteq> 0 \<and> an_socket an then
           (let p = (fd_open [Udp_Socket] p)\<lparr>pr_udp := Some Udp_Socket\<rparr>
            in if an_bind an then p else udp_close p)
         else p)"

definition after_fork :: "answers \<Rightarrow> process \<Rightarrow> bool \<times> process" where
  "after_fork an p0 =
     (let p = fds_close [Exec_Read] (fds_close [Exec_Write] p0)
      in if \<not> an_exec an then
           (False, udp_close (fds_close [Stdin_Read, Stdin_Write, Stdout_Read, Stdout_Write] p))
         else
           (True, (fds_close [Stdin_Read, Stdout_Write] p)
              \<lparr>pr_child := True, pr_stdin := Some Stdin_Write, pr_stdout := Some Stdout_Read, pr_running := True,
               pr_stdout_thread := True, pr_udp_thread := (pr_udp p \<noteq> None)\<rparr>))"

definition start :: "dsd_config \<Rightarrow> answers \<Rightarrow> process \<Rightarrow> bool \<times> process" where
  "start cfg an p0 =
     (if \<not> an_stdin_pipe an then (False, p0)
      else (let p1 = fd_open [Stdin_Read, Stdin_Write] p0
      in if \<not> an_stdout_pipe an then (False, fds_close [Stdin_Read, Stdin_Write] p1)
      else (let p2 = fd_open [Stdout_Read, Stdout_Write] p1
      in if \<not> an_exec_pipe an then (False, fds_close [Stdin_Read, Stdin_Write, Stdout_Read, Stdout_Write] p2)
      else (let p3 = open_udp cfg an (fd_open [Exec_Read, Exec_Write] p2)
      in if \<not> an_fork an then
           (False, (case pr_udp p3 of None \<Rightarrow> id | Some f \<Rightarrow> fd_close f)
              (fds_close [Stdin_Read, Stdin_Write, Stdout_Read, Stdout_Write, Exec_Read, Exec_Write] p3))
         else after_fork an p3))))"

section \<open>Stopping\<close>

text \<open>
  \<open>stop\<close>: the end of the decoder's input, the child reaped, the readers joined, and only then the descriptors
  they read closed.
\<close>

definition stop :: "process \<Rightarrow> process" where
  "stop p0 =
     (let p1 = p0\<lparr>pr_running := False\<rparr>;
          p2 = (case pr_stdin p1 of None \<Rightarrow> p1 | Some f \<Rightarrow> (fd_close f p1)\<lparr>pr_stdin := None\<rparr>);
          p3 = p2\<lparr>pr_child := False, pr_stdout_thread := False, pr_udp_thread := False\<rparr>;
          p4 = (case pr_stdout p3 of None \<Rightarrow> p3 | Some f \<Rightarrow> (fd_close f p3)\<lparr>pr_stdout := None\<rparr>)
      in udp_close p4)"

section \<open>Feeding the decoder\<close>

text \<open>What \<open>write\<close> returns: a count of bytes taken, an interruption, or another error.\<close>

datatype write_result = Took nat | Write_Interrupted | Write_Failed

text \<open>
  The loop of \<open>write_audio\<close>, over what is still to be written: whether it returned true, and what the pipe was
  given. \<open>None\<close> is the loop blocked for want of a further result.
\<close>

fun write_loop :: "write_result list \<Rightarrow> string \<Rightarrow> bool option \<times> string" where
  "write_loop ws rest =
     (if rest = [] then (Some True, [])
      else (case ws of
              [] \<Rightarrow> (None, [])
            | Write_Failed # _ \<Rightarrow> (Some False, [])
            | Write_Interrupted # ws' \<Rightarrow> write_loop ws' rest
            | Took n # ws' \<Rightarrow> (case write_loop ws' (drop n rest) of (r, out) \<Rightarrow> (r, take n rest @ out))))"

definition process_write_audio :: "write_result list \<Rightarrow> string \<Rightarrow> process \<Rightarrow> bool option \<times> string" where
  "process_write_audio ws bytes p = (if pr_stdin p = None then (Some False, []) else write_loop ws bytes)"

section \<open>No descriptor is lost\<close>

text \<open>A process that is down holds nothing; one that is up holds its two pipe ends and perhaps the socket.\<close>

definition proc_down :: "process \<Rightarrow> bool" where
  "proc_down p \<longleftrightarrow> pr_open p = [] \<and> pr_stdin p = None \<and> pr_stdout p = None \<and> pr_udp p = None
     \<and> \<not> pr_child p \<and> \<not> pr_running p \<and> \<not> pr_stdout_thread p \<and> \<not> pr_udp_thread p \<and> \<not> pr_bad p"

definition proc_up :: "process \<Rightarrow> bool" where
  "proc_up p \<longleftrightarrow> set (pr_open p) = {Stdin_Write, Stdout_Read} \<union> set_option (pr_udp p) \<and> distinct (pr_open p)
     \<and> pr_stdin p = Some Stdin_Write \<and> pr_stdout p = Some Stdout_Read \<and> (pr_udp p = None \<or> pr_udp p = Some Udp_Socket)
     \<and> pr_child p \<and> pr_running p \<and> pr_stdout_thread p \<and> (pr_udp_thread p \<longleftrightarrow> pr_udp p \<noteq> None) \<and> \<not> pr_bad p"

lemmas life_defs = process0_def fd_open_def fd_close_def fds_close_def fd_read_by_thread_def udp_close_def

lemma proc_down_iff: "proc_down p \<longleftrightarrow> p = process0"
  by (cases p) (auto simp: proc_down_def process0_def)

text \<open>The socket once the pipes are open: bound and kept, or not there.\<close>

definition piped :: process where
  "piped = fd_open [Exec_Read, Exec_Write] (fd_open [Stdout_Read, Stdout_Write] (fd_open [Stdin_Read, Stdin_Write] process0))"

definition voiced :: "dsd_config \<Rightarrow> answers \<Rightarrow> bool" where
  "voiced cfg an \<longleftrightarrow> dc_udp_port cfg \<noteq> 0 \<and> an_socket an \<and> an_bind an"

lemma open_udp_piped:
  "open_udp cfg an piped = (if voiced cfg an then (fd_open [Udp_Socket] piped)\<lparr>pr_udp := Some Udp_Socket\<rparr> else piped)"
  by (simp add: open_udp_def voiced_def Let_def piped_def life_defs)

definition started_with :: "fd option \<Rightarrow> process" where
  "started_with u = \<lparr>pr_open = [Stdin_Write, Stdout_Read] @ (case u of None \<Rightarrow> [] | Some f \<Rightarrow> [f]),
     pr_stdin = Some Stdin_Write, pr_stdout = Some Stdout_Read, pr_udp = u, pr_child = True, pr_running = True,
     pr_stdout_thread = True, pr_udp_thread = (u \<noteq> None), pr_bad = False\<rparr>"

lemma start_outcome:
  "start cfg an process0 =
     (let u = (if voiced cfg an then Some Udp_Socket else None)
      in if \<not> (an_stdin_pipe an \<and> an_stdout_pipe an \<and> an_exec_pipe an) then (False, process0)
         else if \<not> an_fork an then (False, process0\<lparr>pr_udp := u\<rparr>)
         else if \<not> an_exec an then (False, process0)
         else (True, started_with u))"
proof (cases "an_stdin_pipe an \<and> an_stdout_pipe an \<and> an_exec_pipe an")
  case False
  then show ?thesis by (auto simp: start_def Let_def life_defs)
next
  case True
  then have "start cfg an process0 =
    (if \<not> an_fork an then
       (False, (case pr_udp (open_udp cfg an piped) of None \<Rightarrow> id | Some f \<Rightarrow> fd_close f)
          (fds_close [Stdin_Read, Stdin_Write, Stdout_Read, Stdout_Write, Exec_Read, Exec_Write] (open_udp cfg an piped)))
     else after_fork an (open_udp cfg an piped))"
    by (simp add: start_def Let_def piped_def)
  then show ?thesis using True unfolding open_udp_piped
    by (cases "voiced cfg an"; cases "an_fork an"; cases "an_exec an")
       (simp_all add: after_fork_def Let_def piped_def started_with_def life_defs)
qed

lemma stop_started: "stop (started_with u) = process0" if "u = None \<or> u = Some Udp_Socket"
  using that by (auto simp: stop_def started_with_def Let_def life_defs)

lemma stop_down: "stop process0 = process0"
  by (simp add: stop_def Let_def life_defs)

lemma stop_kept_socket: "pr_bad (stop (process0\<lparr>pr_udp := Some Udp_Socket\<rparr>))"
    "pr_open (stop (process0\<lparr>pr_udp := Some Udp_Socket\<rparr>)) = []"
  by (simp_all add: stop_def Let_def life_defs)

text \<open>
  C28. However the system answers, a start followed by the stop that always comes (the owner's, or the destructor's)
  leaves no descriptor open, no child and no thread. A start that succeeds and is stopped closes nothing twice and
  joins the threads before what they read is closed; a start that fails closes nothing twice itself, and the stop
  after it closes a descriptor a second time exactly when it was the fork that failed, with the voice socket bound.
\<close>

lemma no_descriptor_lost:
  "case start cfg an process0 of
     (ok, p) \<Rightarrow>
       if ok then proc_up p \<and> proc_down (stop p)
       else pr_open p = [] \<and> \<not> pr_bad p \<and> pr_open (stop p) = []
         \<and> \<not> pr_child (stop p) \<and> \<not> pr_stdout_thread (stop p) \<and> \<not> pr_udp_thread (stop p)
         \<and> pr_bad (stop p) = (an_stdin_pipe an \<and> an_stdout_pipe an \<and> an_exec_pipe an \<and> \<not> an_fork an \<and> voiced cfg an)"
proof -
  have up: "proc_up (started_with u)" "proc_down (stop (started_with u))" if "u = None \<or> u = Some Udp_Socket" for u
    using that stop_started[OF that] by (auto simp: proc_up_def started_with_def proc_down_iff)
  have p0: "pr_open process0 = []" "\<not> pr_bad process0" by (simp_all add: process0_def)
  have kept: "pr_open (process0\<lparr>pr_udp := u\<rparr>) = []" "\<not> pr_bad (process0\<lparr>pr_udp := u\<rparr>)" for u by (simp_all add: process0_def)
  have none: "process0\<lparr>pr_udp := None\<rparr> = process0" by (simp add: process0_def)
  have still: "\<not> pr_child (stop p)" "\<not> pr_stdout_thread (stop p)" "\<not> pr_udp_thread (stop p)" for p
    by (auto simp: stop_def Let_def udp_close_def fd_close_def split: option.split)
  show ?thesis
    by (cases "voiced cfg an"; cases "an_fork an"; cases "an_exec an")
      (simp_all add: start_outcome Let_def up p0 kept none stop_kept_socket stop_down still)
qed

text \<open>
  When the fork fails after the voice socket was bound, its number is kept although it has been closed, so
  the stop that the destructor runs closes it a second time.
\<close>

lemma fork_failure_closes_twice:
  "pr_bad (stop (snd (start (dsd_config0\<lparr>dc_udp_port := 9000\<rparr>)
     \<lparr>an_stdin_pipe = True, an_stdout_pipe = True, an_exec_pipe = True, an_socket = True, an_bind = True,
      an_fork = False, an_exec = False\<rparr> process0)))"
  by (simp add: start_outcome voiced_def dsd_config0_def) (simp add: stop_def Let_def life_defs)

section \<open>The audio arrives in order\<close>

text \<open>
  What the decoder is given is a prefix of the samples' bytes, whatever the pieces \<open>write\<close> takes; it is
  all of them exactly when the loop returns true.
\<close>

lemma write_loop_prefix:
  "prefix (snd (write_loop ws rest)) rest \<and> (fst (write_loop ws rest) = Some True \<longleftrightarrow> snd (write_loop ws rest) = rest)"
proof (induction ws rest rule: write_loop.induct)
  case (1 ws rest)
  show ?case
  proof (cases "rest = []")
    case False
    show ?thesis
    proof (cases ws)
      case (Cons w ws')
      show ?thesis
      proof (cases w)
        case (Took n)
        have IH: "prefix (snd (write_loop ws' (drop n rest))) (drop n rest)
            \<and> (fst (write_loop ws' (drop n rest)) = Some True \<longleftrightarrow> snd (write_loop ws' (drop n rest)) = drop n rest)"
          using 1(1)[OF False Cons Took] .
        have "prefix (take n rest @ snd (write_loop ws' (drop n rest))) (take n rest @ drop n rest)"
          using IH by (simp only: same_prefix_prefix)
        then have p: "prefix (take n rest @ snd (write_loop ws' (drop n rest))) rest" by simp
        have "take n rest @ x = rest \<longleftrightarrow> x = drop n rest" for x
          by (metis append_take_drop_id same_append_eq)
        then show ?thesis using IH p False Cons Took by (simp add: case_prod_beta)
      qed (use 1 False Cons in simp_all)
    qed (use False in simp)
  qed simp
qed

end
