(* ===== verification/Tetra_Reports.thy ===== *)
theory Tetra_Reports
  imports Assoc_Log Json_Text
begin

text \<open>
  What the two TETRA decoders report: the TETMON datagrams of \<open>src/tetra_tetmon.cpp\<close>, the tolerant reader
  of flat JSON objects and the reports of \<open>src/tetra_kit_json.cpp\<close>, and the speech frames in them
  (\<open>src/tetra_voice.cpp\<close>). zlib's inflate and what the allocator can give are parameters.
\<close>

section \<open>Adding a token\<close>

text \<open>The lambda \<open>add\<close> of both mappers: a value that is not empty becomes a token of \<open>extra\<close>.\<close>

definition add_value :: "string \<Rightarrow> string \<Rightarrow> string \<Rightarrow> string" where
  "add_value label v ex = (if v = [] then ex else (if ex = [] then [] else ex @ ''; '') @ label @ ''='' @ v)"

section \<open>TETMON\<close>

record tetmon_message =
  tm_valid :: bool
  tm_func :: string
  tm_fields :: "(string, string) omap"

definition tetmon_message0 :: tetmon_message where
  "tetmon_message0 = \<lparr>tm_valid = False, tm_func = [], tm_fields = []\<rparr>"

text \<open>The first field, in the order of the map, whose key is the given one in either case.\<close>

definition tetmon_field :: "(string, string) omap \<Rightarrow> string \<Rightarrow> string" where
  "tetmon_field m key =
     (case filter (\<lambda>(k, v). map to_upper k = map to_upper key) m of [] \<Rightarrow> [] | (k, v) # _ \<Rightarrow> v)"

text \<open>The tokens of \<open>operator>>\<close>.\<close>

function stream_tokens :: "string \<Rightarrow> string list" where
  "stream_tokens s =
     (if dropWhile is_space s = [] then []
      else takeWhile (\<lambda>c. \<not> is_space c) (dropWhile is_space s)
           # stream_tokens (dropWhile (\<lambda>c. \<not> is_space c) (dropWhile is_space s)))"
  by auto
termination
proof (relation "measure length", goal_cases)
  case (2 s)
  then obtain c r where r: "dropWhile is_space s = c # r" by (cases "dropWhile is_space s") auto
  then have "\<not> is_space c" by (metis dropWhile_eq_Cons_conv)
  then have "length (dropWhile (\<lambda>c. \<not> is_space c) (c # r)) \<le> length r" using length_dropWhile_le[of _ r] by simp
  moreover have "Suc (length r) \<le> length s" using r length_dropWhile_le[of is_space s] by simp
  ultimately show ?case using r by simp
qed simp

declare stream_tokens.simps [simp del]

definition tetmon_token :: "string \<Rightarrow> (string, string) omap \<Rightarrow> (string, string) omap" where
  "tetmon_token tok m =
     (case find_char (CHR '':'') tok of
        None \<Rightarrow> m
      | Some colon \<Rightarrow> if colon = 0 then m else om_put (take colon tok) (drop (colon + 1) tok) m)"

definition parse_tetmon_line :: "string \<Rightarrow> tetmon_message" where
  "parse_tetmon_line line =
     (case str_find ''TETMON_begin'' line of
        None \<Rightarrow> tetmon_message0
      | Some b \<Rightarrow>
          (case str_find ''TETMON_end'' (drop (b + 12) line) of
             None \<Rightarrow> tetmon_message0
           | Some n \<Rightarrow>
               (let fields = fold tetmon_token (stream_tokens (take n (drop (b + 12) line))) []
                in \<lparr>tm_valid = True, tm_func = tetmon_field fields ''FUNC'', tm_fields = fields\<rparr>)))"

definition tetmon_kind :: "string \<Rightarrow> string" where
  "tetmon_kind func =
     (if func \<in> {''DSETUPDEC'', ''DCONNECTDEC'', ''DRELEASEDEC'', ''DTXGRANTDEC''} then ''call''
      else if func \<in> {''NETINFO1'', ''FREQINFO1'', ''FREQINFO2''} then ''sync''
      else ''unknown'')"

definition tetmon_extras :: "(string \<times> string) list" where
  "tetmon_extras = [(''idx'', ''IDX''), (''cid'', ''CID''), (''nid'', ''NID''), (''mcc'', ''MCC''), (''mnc'', ''MNC''),
     (''la'', ''LA''), (''dlf'', ''DLF''), (''ulf'', ''ULF''), (''crypt'', ''CRYPT''), (''status'', ''STATUS''),
     (''afc'', ''AFC''), (''func'', ''FUNC'')]"

definition tetmon_to_event :: "tetmon_message \<Rightarrow> string \<Rightarrow> dsd_event" where
  "tetmon_to_event m raw =
     (if \<not> tm_valid m then dsd_event0\<lparr>ev_raw := raw, ev_kind := ''unknown''\<rparr>
      else dsd_event0\<lparr>ev_raw := raw, ev_kind := tetmon_kind (map to_upper (tm_func m)),
        ev_src := tetmon_field (tm_fields m) ''SSI'', ev_tg := tetmon_field (tm_fields m) ''SSI2'',
        ev_cc := tetmon_field (tm_fields m) ''CCODE'',
        ev_extra := fold (\<lambda>(label, key). add_value label (tetmon_field (tm_fields m) key)) tetmon_extras []\<rparr>)"

definition classify_tetmon_line :: "string \<Rightarrow> dsd_event" where
  "classify_tetmon_line line =
     tetmon_to_event (parse_tetmon_line line)
       (case str_find ''TETMON_end'' line of None \<Rightarrow> line | Some e \<Rightarrow> take (e + 10) line)"

section \<open>Flat JSON reports\<close>

definition kit_hex4 :: "string \<Rightarrow> nat option" where
  "kit_hex4 s = (if length s < 4 \<or> \<not> list_all is_xdigit (take 4 s) then None else Some (hex_num (take 4 s)))"

definition append_utf8 :: "nat \<Rightarrow> string" where
  "append_utf8 cp =
     (if cp < 0x80 then [chr cp]
      else if cp < 0x800 then [chr (0xC0 + cp div 64), chr (0x80 + cp mod 64)]
      else if cp < 0x10000 then [chr (0xE0 + cp div 4096), chr (0x80 + cp div 64 mod 64), chr (0x80 + cp mod 64)]
      else [chr (0xF0 + cp div 262144), chr (0x80 + cp div 4096 mod 64), chr (0x80 + cp div 64 mod 64),
            chr (0x80 + cp mod 64)])"

definition kit_unesc :: "char \<Rightarrow> char" where
  "kit_unesc e =
     (if e = CHR ''n'' then CHR 0x0A else if e = CHR ''t'' then CHR 0x09 else if e = CHR ''r'' then CHR 0x0D
      else if e = CHR ''b'' then CHR 0x08 else if e = CHR ''f'' then CHR 0x0C else e)"

text \<open>The code point of an escape that \<open>kit_hex4\<close> has read, joined with a low surrogate that follows; and the rest.\<close>

definition kit_code_point :: "nat \<Rightarrow> string \<Rightarrow> nat \<times> string" where
  "kit_code_point cp r =
     (if 0xD800 \<le> cp \<and> cp \<le> 0xDBFF \<and> take 2 r = [bslash, CHR ''u''] then
        (case kit_hex4 (drop 2 r) of
           Some lo \<Rightarrow>
             if 0xDC00 \<le> lo \<and> lo \<le> 0xDFFF then (0x10000 + (cp - 0xD800) * 1024 + (lo - 0xDC00), drop 6 r) else (cp, r)
         | None \<Rightarrow> (cp, r))
      else (cp, r))"

lemma kit_code_point_length: "length (snd (kit_code_point cp r)) \<le> length r"
  by (auto simp: kit_code_point_def split: option.splits)

lemma kit_code_point_less: "length (snd (kit_code_point cp (drop n r))) < Suc (length r)"
  using kit_code_point_length[of cp "drop n r"] by simp

text \<open>The contents of a string after its opening quote, and what follows the closing one.\<close>

function kit_string :: "string \<Rightarrow> string \<times> string" where
  "kit_string s =
     (case s of
        [] \<Rightarrow> ([], [])
      | c # r \<Rightarrow>
          if c = CHR 0x22 then ([], r)
          else if c = bslash \<and> r \<noteq> [] then
            (case (if hd r = CHR ''u'' then kit_hex4 (tl r) else None) of
               Some cp \<Rightarrow>
                 (case kit_string (snd (kit_code_point cp (drop 5 r))) of
                    (t, q) \<Rightarrow> (append_utf8 (fst (kit_code_point cp (drop 5 r))) @ t, q))
             | None \<Rightarrow> (case kit_string (tl r) of (t, q) \<Rightarrow> (kit_unesc (hd r) # t, q)))
          else (case kit_string r of (t, q) \<Rightarrow> (c # t, q)))"
  by auto
termination
  by (relation "measure length") (auto simp: kit_code_point_less split: if_splits)

declare kit_string.simps [simp del]

lemma kit_string_length: "length (snd (kit_string s)) \<le> length s"
proof (induction s rule: kit_string.induct)
  case (1 s)
  show ?case
  proof (cases s)
    case (Cons c r)
    have l: "length (snd (kit_code_point cp (drop 5 r))) \<le> length r" for cp
      using kit_code_point_length[of cp "drop 5 r"] by simp
    show ?thesis
    proof (cases "c \<noteq> CHR 0x22 \<and> c = bslash \<and> r \<noteq> []")
      case True
      then have b: "c \<noteq> CHR 0x22" "c = bslash \<and> r \<noteq> []" by auto
      show ?thesis
      proof (cases "if hd r = CHR ''u'' then kit_hex4 (tl r) else None")
        case None
        then show ?thesis using 1(1)[OF Cons b None] b Cons
          by (subst kit_string.simps) (simp add: case_prod_beta)
      next
        case (Some cp)
        then show ?thesis using 1(2)[OF Cons b Some] l[of cp] b Cons
          by (subst kit_string.simps) (simp add: case_prod_beta)
      qed
    next
      case False
      then show ?thesis using 1(3)[OF Cons] Cons
        by (subst kit_string.simps) (auto simp: case_prod_beta)
    qed
  qed (simp add: kit_string.simps)
qed

text \<open>
  \<open>skip_container\<close>: what follows the bracket that closes the container; only its own kind of bracket is
  counted, and text in quotes is passed over.
\<close>

function skip_container :: "char \<Rightarrow> char \<Rightarrow> nat \<Rightarrow> string \<Rightarrow> string" where
  "skip_container op cl depth s =
     (case s of
        [] \<Rightarrow> []
      | c # r \<Rightarrow>
          if c = CHR 0x22 then skip_container op cl depth (snd (kit_string r))
          else if c = op then skip_container op cl (Suc depth) r
          else if c = cl then (if depth = 1 then r else skip_container op cl (depth - 1) r)
          else skip_container op cl depth r)"
  by auto
termination
proof (relation "measure (\<lambda>(_, _, _, s). length s)", goal_cases)
  case (2 op cl d s c r)
  then show ?case using kit_string_length[of r] by simp
qed auto

declare skip_container.simps [simp del]

lemma skip_container_length: "length (skip_container op cl d s) \<le> length s"
proof (induction op cl d s rule: skip_container.induct)
  case (1 op cl d s)
  show ?case
  proof (cases s)
    case (Cons c r)
    have "length (snd (kit_string r)) \<le> length r" by (rule kit_string_length)
    then show ?thesis using 1 Cons by (subst skip_container.simps) (auto intro: le_SucI order_trans)
  qed (simp add: skip_container.simps)
qed

definition kit_scalar_char :: "char \<Rightarrow> bool" where
  "kit_scalar_char c \<longleftrightarrow> c \<noteq> CHR '','' \<and> c \<noteq> CHR ''}'' \<and> c \<noteq> CHR '']'' \<and> \<not> is_space c"

text \<open>A value: the fields with it, and the rest; a nested value is passed over.\<close>

definition kit_value :: "string \<Rightarrow> string \<Rightarrow> (string, string) omap \<Rightarrow> (string, string) omap \<times> string" where
  "kit_value key s m =
     (if hd s = CHR 0x22 then (om_put key (fst (kit_string (tl s))) m, snd (kit_string (tl s)))
      else if hd s = CHR ''{'' then (m, skip_container (CHR ''{'') (CHR ''}'') 0 s)
      else if hd s = CHR ''['' then (m, skip_container (CHR ''['') (CHR '']'') 0 s)
      else (om_put key (takeWhile kit_scalar_char s) m, dropWhile kit_scalar_char s))"

lemma kit_value_length: "length (snd (kit_value key s m)) \<le> length s"
proof -
  have "length (snd (kit_string (tl s))) \<le> length s" using kit_string_length[of "tl s"] by simp
  then show ?thesis using skip_container_length length_dropWhile_le[of kit_scalar_char s] by (simp add: kit_value_def)
qed

text \<open>The members from a position on; the reader stops, and keeps what it has, at the first that is malformed.\<close>

function kit_members :: "(string, string) omap \<Rightarrow> string \<Rightarrow> (string, string) omap" where
  "kit_members m s =
     (case skip_ws s of
        [] \<Rightarrow> m
      | q # s1 \<Rightarrow>
          if q \<noteq> CHR 0x22 then m
          else (case skip_ws (snd (kit_string s1)) of
                  [] \<Rightarrow> m
                | c # s3 \<Rightarrow>
                    if c \<noteq> CHR '':'' \<or> skip_ws s3 = [] then m
                    else (case skip_ws (snd (kit_value (fst (kit_string s1)) (skip_ws s3) m)) of
                            [] \<Rightarrow> fst (kit_value (fst (kit_string s1)) (skip_ws s3) m)
                          | d # s6 \<Rightarrow>
                              if d = CHR '','' then kit_members (fst (kit_value (fst (kit_string s1)) (skip_ws s3) m)) s6
                              else fst (kit_value (fst (kit_string s1)) (skip_ws s3) m))))"
  by auto
termination
proof (relation "measure (\<lambda>(_, s). length s)", goal_cases)
  case (2 m s q s1 c s3 d s6)
  let ?v = "snd (kit_value (fst (kit_string s1)) (skip_ws s3) m)"
  have "Suc (length s1) \<le> length s" using 2(1) skip_ws_length[of s] by simp
  moreover have "Suc (length s3) \<le> length s1"
    using 2(3) skip_ws_length[of "snd (kit_string s1)"] kit_string_length[of s1] by simp
  moreover have "Suc (length s6) \<le> length ?v" using 2(5) skip_ws_length[of ?v] by simp
  moreover have "length ?v \<le> length s3" using kit_value_length skip_ws_length[of s3] order_trans by blast
  ultimately show ?case by simp
qed simp

declare kit_members.simps [simp del]

text \<open>The fields of a report; \<open>None\<close> when the line is not a JSON object (\<open>valid\<close> is false).\<close>

definition parse_tetrakit_json :: "string \<Rightarrow> (string, string) omap option" where
  "parse_tetrakit_json line =
     (case skip_ws line of
        [] \<Rightarrow> None
      | c # s \<Rightarrow>
          if c \<noteq> CHR ''{'' then None
          else if skip_ws s \<noteq> [] \<and> hd (skip_ws s) = CHR ''}'' then Some []
          else Some (kit_members [] (skip_ws s)))"

definition kit_field :: "(string, string) omap \<Rightarrow> string \<Rightarrow> string" where
  "kit_field m key = (case om_get m key of None \<Rightarrow> [] | Some v \<Rightarrow> v)"

definition kit_kind :: "string \<Rightarrow> string \<Rightarrow> string" where
  "kit_kind service pdu =
     (if service = ''UPLANE'' \<or> service = ''U-PLANE'' \<or> starts_with pdu ''TCH'' \<or> str_has pdu ''TRAFFIC''
         \<or> str_has pdu ''ACELP'' \<or> str_has pdu ''SPEECH'' then ''voice''
      else if str_has pdu ''SYNC'' \<or> service = ''BSCH'' then ''sync''
      else if str_has pdu ''SETUP'' \<or> str_has pdu ''CONNECT'' \<or> str_has pdu ''D-CALL'' \<or> str_has pdu ''ALERT''
         \<or> str_has pdu ''TX-'' \<or> str_has pdu ''RELEASE'' then ''call''
      else ''unknown'')"

definition kit_extras :: "(string \<times> string) list" where
  "kit_extras = [(''service'', ''service''), (''pdu'', ''pdu''), (''usage_marker'', ''usage marker''),
     (''dl_usage_marker'', ''downlink usage marker''), (''encr'', ''encryption mode'')]"

definition tetrakit_to_event :: "(string, string) omap option \<Rightarrow> string \<Rightarrow> dsd_event" where
  "tetrakit_to_event rep raw =
     (case rep of
        None \<Rightarrow> dsd_event0\<lparr>ev_raw := raw, ev_kind := ''unknown''\<rparr>
      | Some m \<Rightarrow>
          dsd_event0\<lparr>ev_raw := raw,
            ev_kind := kit_kind (map to_upper (kit_field m ''service'')) (map to_upper (kit_field m ''pdu'')),
            ev_src := kit_field m ''ssi'',
            ev_extra := fold (\<lambda>(label, key). add_value label (kit_field m key)) kit_extras []\<rparr>)"

definition classify_tetrakit_json :: "string \<Rightarrow> dsd_event" where
  "classify_tetrakit_json line = tetrakit_to_event (parse_tetrakit_json line) line"

end
