(* ===== verification/Speech_Frames.thy ===== *)
theory Speech_Frames
  imports Tetra_Reports Dataset "HOL-Library.Word"
begin

text \<open>
  The encoded speech in TETRA reports (\<open>src/tetra_voice.cpp\<close>): base64 and the extraction of a frame. zlib's
  inflate is a parameter: the bytes of a complete stream, or \<open>None\<close>.
\<close>

section \<open>Base64\<close>

definition b64val :: "char \<Rightarrow> nat option" where
  "b64val c =
     (if is_upper c then Some (byte c - 65)
      else if is_lower c then Some (byte c - 97 + 26)
      else if is_digit c then Some (byte c - 48 + 52)
      else if c = CHR ''+'' then Some 62
      else if c = CHR ''/'' then Some 63
      else None)"

text \<open>The loop: the accumulator, which the code keeps at 14 bits, and how many bits of it are waiting.\<close>

fun b64_loop :: "nat \<Rightarrow> nat \<Rightarrow> string \<Rightarrow> nat list" where
  "b64_loop acc bits [] = []"
| "b64_loop acc bits (c # r) =
     (if c = CHR ''='' then []
      else (case b64val c of
              None \<Rightarrow> b64_loop acc bits r
            | Some v \<Rightarrow>
                (let acc = (acc * 64 + v) mod 16384; bits = bits + 6
                 in if 8 \<le> bits then (acc div 2 ^ (bits - 8)) mod 256 # b64_loop acc (bits - 8) r
                    else b64_loop acc bits r)))"

definition base64_decode :: "string \<Rightarrow> nat list" where
  "base64_decode s = b64_loop 0 0 s"

section \<open>Speech frames\<close>

fun le_words :: "nat list \<Rightarrow> 16 word list" where
  "le_words (a # b # r) = word_of_nat (a + 256 * b) # le_words r"
| "le_words _ = []"

datatype speech = No_Speech | Alloc_Throws | Speech "16 word list"

text \<open>
  \<open>tetrakit_extract_speech_frame\<close>. \<open>fits\<close> says which sizes the allocator gives: the code asks for the size
  the report itself names, or 4096 bytes. That the buffer is doubled when it is full belongs to \<open>inflate\<close>.
\<close>

definition tetrakit_extract_speech_frame ::
    "(nat list \<Rightarrow> nat list option) \<Rightarrow> (nat \<Rightarrow> bool) \<Rightarrow> string \<Rightarrow> speech" where
  "tetrakit_extract_speech_frame inflate fits line =
     (case parse_tetrakit_json line of
        None \<Rightarrow> No_Speech
      | Some m \<Rightarrow>
          if kit_field m ''frame'' = [] then No_Speech
          else if kit_field m ''service'' \<noteq> ''UPLANE'' \<and> \<not> starts_with (kit_field m ''pdu'') ''TCH'' then No_Speech
          else (let comp = base64_decode (kit_field m ''frame''); expected = strtoul (kit_field m ''uzsize'')
                in if comp = [] then No_Speech
                   else if \<not> fits (if expected = 0 then 4096 else expected) then Alloc_Throws
                   else (case inflate comp of
                           None \<Rightarrow> No_Speech
                         | Some raw \<Rightarrow> if length raw < 2 then No_Speech else Speech (le_words raw))))"

section \<open>The decoder reads what a standard encoder writes\<close>

definition b64char :: "nat \<Rightarrow> char" where
  "b64char v = (if v < 26 then chr (65 + v) else if v < 52 then chr (71 + v) else if v < 62 then chr (v - 4)
     else if v = 62 then CHR ''+'' else CHR ''/'')"

fun b64_encode :: "nat list \<Rightarrow> string" where
  "b64_encode [] = []"
| "b64_encode [a] = [b64char (a div 4), b64char (a mod 4 * 16), CHR ''='', CHR ''='']"
| "b64_encode [a, b] = [b64char (a div 4), b64char (a mod 4 * 16 + b div 16), b64char (b mod 16 * 4), CHR ''='']"
| "b64_encode (a # b # c # r) =
     b64char (a div 4) # b64char (a mod 4 * 16 + b div 16) # b64char (b mod 16 * 4 + c div 64) # b64char (c mod 64)
     # b64_encode r"

lemma b64char_byte:
  assumes "v < 64"
  shows "byte (b64char v) = (if v < 26 then 65 + v else if v < 52 then 71 + v else if v < 62 then v - 4 else if v = 62 then 43 else 47)"
  using assms by (simp add: b64char_def byte_chr)

lemma b64char_props:
  assumes "v < 64"
  shows "b64val (b64char v) = Some v" and "b64char v \<noteq> CHR ''=''"
proof -
  have e: "c = CHR ''+'' \<longleftrightarrow> byte c = 43" "c = CHR ''/'' \<longleftrightarrow> byte c = 47" "c = CHR ''='' \<longleftrightarrow> byte c = 61" for c
    by (simp_all add: byte_inject[symmetric])
  show "b64val (b64char v) = Some v"
    unfolding b64val_def e is_upper_def is_lower_def is_digit_def b64char_byte[OF assms] using assms by auto
  show "b64char v \<noteq> CHR ''=''"
    unfolding e b64char_byte[OF assms] using assms by auto
qed

lemma b64_step:
  assumes "v < 64"
  shows "b64_loop acc bits (b64char v # r) =
    (if 2 \<le> bits then ((acc * 64 + v) mod 16384 div 2 ^ (bits - 2)) mod 256 # b64_loop ((acc * 64 + v) mod 16384) (bits - 2) r
     else b64_loop ((acc * 64 + v) mod 16384) (bits + 6) r)"
  using b64char_props[OF assms] by (simp add: Let_def)

declare b64_loop.simps [simp del]

lemma b64_end [simp]: "b64_loop acc bits [] = []" "b64_loop acc bits (CHR ''='' # r) = []"
  by (simp_all add: b64_loop.simps)

text \<open>One step from each count of waiting bits: what comes out, and what is waiting then.\<close>

lemma b64_step0: "u < 64 \<Longrightarrow> \<exists>acc'. b64_loop acc 0 (b64char u # r) = b64_loop acc' 6 r \<and> acc' mod 64 = u"
  by (rule exI[of _ "(acc * 64 + u) mod 16384"]) (simp add: b64_step mod_mod_cancel)

lemma b64_step6:
  assumes "u < 64"
  shows "\<exists>acc'. b64_loop acc 6 (b64char u # r) = (acc mod 64 * 4 + u div 16) # b64_loop acc' 4 r \<and> acc' mod 16 = u mod 16"
proof -
  let ?x = "acc * 64 + u"
  have "?x mod 16384 div 16 mod 256 = ?x div 16 mod 256" using mod_mult2_eq[of ?x 16 1024] by (simp add: mod_mod_cancel)
  also have "?x div 16 = acc * 4 + u div 16" by simp
  also have "(acc * 4 + u div 16) mod 256 = acc mod 64 * 4 + u div 16"
    using mod_mult2_eq[of "acc * 4 + u div 16" 4 64] assms by simp
  finally have "?x mod 16384 div 16 mod 256 = acc mod 64 * 4 + u div 16" .
  moreover have "?x mod 16384 mod 16 = u mod 16"
    using mod_mult_self3[of "acc * 4" 16 u] by (simp add: mod_mod_cancel ac_simps)
  ultimately show ?thesis using assms by (intro exI[of _ "?x mod 16384"]) (simp add: b64_step)
qed

lemma b64_step4:
  assumes "u < 64"
  shows "\<exists>acc'. b64_loop acc 4 (b64char u # r) = (acc mod 16 * 16 + u div 4) # b64_loop acc' 2 r \<and> acc' mod 4 = u mod 4"
proof -
  let ?x = "acc * 64 + u"
  have "?x mod 16384 div 4 mod 256 = ?x div 4 mod 256" using mod_mult2_eq[of ?x 4 4096] by (simp add: mod_mod_cancel)
  also have "?x div 4 = acc * 16 + u div 4" by simp
  also have "(acc * 16 + u div 4) mod 256 = acc mod 16 * 16 + u div 4"
    using mod_mult2_eq[of "acc * 16 + u div 4" 16 16] assms by simp
  finally have "?x mod 16384 div 4 mod 256 = acc mod 16 * 16 + u div 4" .
  moreover have "?x mod 16384 mod 4 = u mod 4"
    using mod_mult_self3[of "acc * 16" 4 u] by (simp add: mod_mod_cancel ac_simps)
  ultimately show ?thesis using assms by (intro exI[of _ "?x mod 16384"]) (simp add: b64_step)
qed

lemma b64_step2:
  assumes "u < 64"
  shows "\<exists>acc'. b64_loop acc 2 (b64char u # r) = (acc mod 4 * 64 + u) # b64_loop acc' 0 r"
proof -
  let ?x = "acc * 64 + u"
  have "?x mod 16384 mod 256 = ?x mod 256" by (simp add: mod_mod_cancel)
  also have "\<dots> = acc mod 4 * 64 + u" using mod_mult2_eq[of ?x 64 4] assms by simp
  finally have "?x mod 16384 mod 256 = acc mod 4 * 64 + u" .
  then show ?thesis using assms by (intro exI[of _ "?x mod 16384"]) (simp add: b64_step)
qed

lemma b64_loop_encode: "\<forall>x \<in> set bs. x < 256 \<Longrightarrow> b64_loop acc 0 (b64_encode bs) = bs"
proof (induction bs arbitrary: acc rule: b64_encode.induct)
  case (4 a b c r)
  have l: "a < 256" "b < 256" "c < 256" "\<forall>x \<in> set r. x < 256" using "4.prems" by auto
  let ?s = "b64char (a mod 4 * 16 + b div 16) # b64char (b mod 16 * 4 + c div 64) # b64char (c mod 64) # b64_encode r"
  have v: "a mod 4 * 16 + b div 16 < 64" "b mod 16 * 4 + c div 64 < 64" "c mod 64 < 64" "a div 4 < 64" using l by auto
  obtain k1 where k1: "b64_loop acc 0 (b64char (a div 4) # ?s) = b64_loop k1 6 ?s" "k1 mod 64 = a div 4"
    using b64_step0[OF v(4)] by metis
  obtain k2 where k2: "b64_loop k1 6 ?s = (k1 mod 64 * 4 + (a mod 4 * 16 + b div 16) div 16) # b64_loop k2 4 (tl ?s)"
      "k2 mod 16 = (a mod 4 * 16 + b div 16) mod 16"
    using b64_step6[OF v(1), of k1 "tl ?s"] by auto
  obtain k3 where k3: "b64_loop k2 4 (tl ?s) = (k2 mod 16 * 16 + (b mod 16 * 4 + c div 64) div 4) # b64_loop k3 2 (tl (tl ?s))"
      "k3 mod 4 = (b mod 16 * 4 + c div 64) mod 4"
    using b64_step4[OF v(2), of k2 "tl (tl ?s)"] by auto
  obtain k4 where k4: "b64_loop k3 2 (tl (tl ?s)) = (k3 mod 4 * 64 + c mod 64) # b64_loop k4 0 (b64_encode r)"
    using b64_step2[OF v(3), of k3 "b64_encode r"] by auto
  have e: "(a mod 4 * 16 + b div 16) div 16 = a mod 4" "(a mod 4 * 16 + b div 16) mod 16 = b div 16"
    "(b mod 16 * 4 + c div 64) div 4 = b mod 16" "(b mod 16 * 4 + c div 64) mod 4 = c div 64" using l by auto
  have d: "a div 4 * 4 + a mod 4 = a" "b div 16 * 16 + b mod 16 = b" "c div 64 * 64 + c mod 64 = c" by simp_all
  have "b64_loop acc 0 (b64_encode (a # b # c # r)) = a # b # c # b64_loop k4 0 (b64_encode r)"
    unfolding b64_encode.simps k1 k2 k3 k4 e d ..
  then show ?case using "4.IH"[OF l(4)] by simp
next
  case (3 a b)
  have l: "a < 256" "b < 256" using "3.prems" by auto
  let ?s = "b64char (a mod 4 * 16 + b div 16) # b64char (b mod 16 * 4) # ''=''"
  have v: "a mod 4 * 16 + b div 16 < 64" "b mod 16 * 4 < 64" "a div 4 < 64" using l by auto
  obtain k1 where k1: "b64_loop acc 0 (b64char (a div 4) # ?s) = b64_loop k1 6 ?s" "k1 mod 64 = a div 4"
    using b64_step0[OF v(3)] by metis
  obtain k2 where k2: "b64_loop k1 6 ?s = (k1 mod 64 * 4 + (a mod 4 * 16 + b div 16) div 16) # b64_loop k2 4 (tl ?s)"
      "k2 mod 16 = (a mod 4 * 16 + b div 16) mod 16"
    using b64_step6[OF v(1), of k1 "tl ?s"] by auto
  obtain k3 where k3: "b64_loop k2 4 (tl ?s) = (k2 mod 16 * 16 + (b mod 16 * 4) div 4) # b64_loop k3 2 ''=''"
    using b64_step4[OF v(2), of k2 "''=''"] by auto
  have e: "(a mod 4 * 16 + b div 16) div 16 = a mod 4" "(a mod 4 * 16 + b div 16) mod 16 = b div 16"
    "b mod 16 * 4 div 4 = b mod 16" using l by auto
  have d: "a div 4 * 4 + a mod 4 = a" "b div 16 * 16 + b mod 16 = b" by simp_all
  have "b64_loop acc 0 (b64_encode [a, b]) = a # b # b64_loop k3 2 ''=''"
    unfolding b64_encode.simps k1 k2 k3 e d ..
  then show ?case by simp
next
  case (2 a)
  have l: "a < 256" using "2.prems" by auto
  let ?s = "b64char (a mod 4 * 16) # ''==''"
  have v: "a mod 4 * 16 < 64" "a div 4 < 64" using l by auto
  obtain k1 where k1: "b64_loop acc 0 (b64char (a div 4) # ?s) = b64_loop k1 6 ?s" "k1 mod 64 = a div 4"
    using b64_step0[OF v(2)] by metis
  obtain k2 where k2: "b64_loop k1 6 ?s = (k1 mod 64 * 4 + (a mod 4 * 16) div 16) # b64_loop k2 4 ''==''"
    using b64_step6[OF v(1), of k1 "''==''"] by auto
  have e: "a mod 4 * 16 div 16 = a mod 4" by simp
  have d: "a div 4 * 4 + a mod 4 = a" by simp
  have "b64_loop acc 0 (b64_encode [a]) = a # b64_loop k2 4 ''==''"
    unfolding b64_encode.simps k1 k2 e d ..
  then show ?case by simp
qed simp

text \<open>Bytes encoded in standard base64 are decoded exactly.\<close>

text \<open>
  Whatever bytes a standard base64 encoder (with padding) wrote, the decoder returns exactly those bytes.
\<close>
theorem base64_round_trip: "base64_decode (b64_encode (map unat (bs :: 8 word list))) = map unat bs"
proof -
  have "unat b < 256" for b :: "8 word" using unsigned_less[of b, where 'a = nat] by simp
  then show ?thesis by (simp add: base64_decode_def b64_loop_encode)
qed

end
