(* ===== verification/Pager_Lines.thy ===== *)
theory Pager_Lines
  imports Tetra_Reports Voice_Quality
begin

text \<open>
  Paging (\<open>src/pager_events.cpp\<close>): one line of multimon-ng's JSON output as an event, the padding that is
  trimmed from a page, and the guess whether its text is ciphertext.
\<close>

section \<open>Helpers\<close>

definition pager_get :: "(string, string) omap \<Rightarrow> string \<Rightarrow> string" where
  "pager_get m key = (case om_get m key of None \<Rightarrow> [] | Some v \<Rightarrow> if v = ''null'' then [] else v)"

definition pager_token :: "string \<Rightarrow> string \<Rightarrow> string \<Rightarrow> string" where
  "pager_token key v ex =
     (if v = [] then ex
      else (if ex = [] then [] else ex @ ''; '') @ key @ ''=''
           @ map (\<lambda>c. if c = CHR '';'' \<or> c = CHR ''='' then CHR '','' else c) v)"

definition is_control_name :: "string \<Rightarrow> bool" where
  "is_control_name n \<longleftrightarrow> n \<in>
     {''NUL'', ''SOH'', ''STX'', ''ETX'', ''EOT'', ''ENQ'', ''ACK'', ''BEL'', ''BS'', ''HT'', ''LF'', ''VT'', ''FF'', ''CR'', ''SO'',
      ''SI'', ''DLE'', ''DC1'', ''DC2'', ''DC3'', ''DC4'', ''NAK'', ''SYN'', ''ETB'', ''CAN'', ''EM'', ''SUB'', ''ESC'', ''FS'',
      ''GS'', ''RS'', ''US'', ''DEL''}"

text \<open>The name in a \<open><NAME>\<close> at the front of a text, after its opening bracket.\<close>

definition control_at :: "string \<Rightarrow> string option" where
  "control_at s =
     (case find_char (CHR ''>'') s of
        None \<Rightarrow> None
      | Some n \<Rightarrow> if n + 1 \<le> 4 \<and> is_control_name (take n s) then Some (take n s) else None)"

text \<open>How many symbols a page holds, and how many of them are suspicious.\<close>

function pager_symbols :: "bool \<Rightarrow> string \<Rightarrow> nat \<times> nat" where
  "pager_symbols numeric s =
     (case s of
        [] \<Rightarrow> (0, 0)
      | c # r \<Rightarrow>
          (case (if \<not> numeric \<and> c = CHR ''<'' then control_at r else None) of
             Some name \<Rightarrow>
               (case pager_symbols numeric (drop (length name + 1) r) of
                  (n, k) \<Rightarrow> (n + 1, if name \<noteq> ''LF'' \<and> name \<noteq> ''CR'' \<and> name \<noteq> ''HT'' then k + 1 else k))
           | None \<Rightarrow>
               (case pager_symbols numeric r of
                  (n, k) \<Rightarrow> (n + 1, if numeric \<and> (c = CHR ''U'' \<or> c = CHR ''['' \<or> c = CHR '']'') then k + 1 else k))))"
  by auto
termination
  by (relation "measure (\<lambda>(_, s). length s)") auto

declare pager_symbols.simps [simp del]

definition looks_encrypted :: "string \<Rightarrow> bool \<Rightarrow> bool" where
  "looks_encrypted text numeric =
     (case pager_symbols numeric text of
        (n, k) \<Rightarrow>
          if n < (if numeric then 16 else 8) then False
          else dbl_le (round_dbl (if numeric then 12 / 100 else 10 / 100)) (ratio k n))"

text \<open>One round of \<open>trim_pager_padding\<close>: blanks, then each of the four paddings once.\<close>

definition drop_suffix :: "string \<Rightarrow> string \<Rightarrow> string" where
  "drop_suffix p s = (if ends_with s p then take (length s - length p) s else s)"

definition trim_round :: "string \<Rightarrow> string" where
  "trim_round s =
     fold drop_suffix [''<NUL>'', ''<EOT>'', ''<ETX>'', ''<ETB>'']
       (rev (dropWhile (\<lambda>c. c = CHR '' '' \<or> c = CHR 0x09) (rev s)))"

lemma drop_suffix_length: "length (drop_suffix p s) \<le> length s"
  by (simp add: drop_suffix_def)

lemma drop_suffix_prefix: "prefix (drop_suffix p s) s"
  by (simp add: drop_suffix_def take_is_prefix)

lemma trim_round_prefix: "prefix (trim_round s) s"
proof -
  have "prefix (rev (dropWhile P (rev s))) s" for P
    by (metis dropWhile_eq_drop rev_rev_ident suffix_dropWhile suffix_to_prefix)
  moreover have "prefix (fold drop_suffix ps t) t" for ps t
  proof (induction ps arbitrary: t)
    case (Cons p ps)
    then show ?case using prefix_order.order_trans[OF _ drop_suffix_prefix[of p t]] by simp
  qed simp
  ultimately show ?thesis unfolding trim_round_def using prefix_order.order_trans by blast
qed

function trim_pager_padding :: "string \<Rightarrow> string" where
  "trim_pager_padding s = (if trim_round s = s then s else trim_pager_padding (trim_round s))"
  by auto
termination
proof (relation "measure length", goal_cases)
  case (2 s)
  then show ?case using trim_round_prefix[of s] prefix_length_less[of "trim_round s" s]
    by (simp add: strict_prefix_def)
qed simp

declare trim_pager_padding.simps [simp del]

section \<open>Pages\<close>

text \<open>The type and text of a POCSAG page: the first of the three text keys that is there.\<close>

definition pocsag_text :: "(string, string) omap \<Rightarrow> string \<times> string" where
  "pocsag_text m =
     (case filter (\<lambda>k. om_has m k) [''alpha'', ''numeric'', ''skyper''] of
        [] \<Rightarrow> (''tone'', [])
      | k # _ \<Rightarrow> (k, om_at [] m k))"

definition pocsag_event :: "(string, string) omap \<Rightarrow> string \<Rightarrow> dsd_event \<Rightarrow> dsd_event" where
  "pocsag_event m demod ev =
     (case pocsag_text m of
        (type, text) \<Rightarrow>
          (let msg = trim_pager_padding text;
               ex = pager_token ''function'' (pager_get m ''function'')
                     (pager_token ''message_type'' type
                       (pager_token ''baud'' (drop 6 demod) (pager_token ''protocol'' ''pocsag'' (ev_extra ev))))
           in ev\<lparr>ev_kind := ''page'', ev_tg := pager_get m ''address'', ev_msg := msg,
                ev_extra := (if type \<noteq> ''tone'' \<and> looks_encrypted msg (type = ''numeric'')
                             then pager_token ''payload'' ''encrypted_or_binary'' ex else ex)\<rparr>))"

definition flex_message_type :: "string \<Rightarrow> string option" where
  "flex_message_type mt =
     (if mt = ''alphanumeric'' then Some ''alpha''
      else if mt = ''numeric'' \<or> mt = ''special_numeric'' \<or> mt = ''numbered_numeric'' then Some ''numeric''
      else if mt = ''tone_only'' then Some ''tone''
      else if mt = ''binary'' then Some ''binary''
      else if mt = ''secure'' then Some ''secure''
      else if mt = ''instruction'' then Some ''instruction''
      else if mt = ''short_msg'' then Some ''short_message''
      else None)"

definition flex_page :: "(string, string) omap \<Rightarrow> string \<Rightarrow> string \<Rightarrow> dsd_event \<Rightarrow> dsd_event" where
  "flex_page m mt pt ev =
     (let get = pager_get m; msg = get ''message'';
          ex = fold (\<lambda>(label, v). pager_token label v)
            [(''protocol'', ''flex''), (''baud'', get ''baud''), (''message_type'', pt), (''flex_type'', mt),
             (''levels'', get ''level''), (''phase'', get ''phase''), (''cycle'', get ''cycle''), (''frame'', get ''frame''),
             (''addr_type'', get ''addr_type''),
             (''group'', if get ''is_group'' = [] then [] else if get ''is_group'' = ''true'' then ''1'' else ''0''),
             (''fragment'', get ''fragment'')] (ev_extra ev)
      in ev\<lparr>ev_kind := ''page'', ev_tg := get ''capcode'', ev_msg := msg,
           ev_emerg := (if get ''is_priority'' = ''true'' then ''1'' else ev_emerg ev),
           ev_crc := (if get ''k_ok'' = ''false'' then ''1'' else ev_crc ev),
           ev_extra := (if pt = ''secure'' \<or> pt = ''binary''
                           \<or> (pt = ''alpha'' \<or> pt = ''numeric'') \<and> looks_encrypted msg (pt = ''numeric'')
                        then pager_token ''payload'' ''encrypted_or_binary'' ex else ex)\<rparr>)"

text \<open>The fields of a system broadcast that are not its own.\<close>

definition flex_skip :: "string list" where
  "flex_skip = [''timestamp'', ''msg_type'', ''type_tag'', ''baud'', ''level'', ''phase'', ''cycle'', ''frame'', ''biw_position'']"

definition flex_system :: "(string, string) omap \<Rightarrow> string \<Rightarrow> dsd_event \<Rightarrow> dsd_event" where
  "flex_system m mt ev =
     ev\<lparr>ev_kind := ''sync'',
       ev_extra := fold (\<lambda>(k, v) ex. if k \<in> set flex_skip \<or> v = ''null'' then ex else pager_token k v ex) m
         (pager_token ''info_type'' (if mt = [] then ''unknown'' else mt)
           (pager_token ''baud'' (pager_get m ''baud'') (pager_token ''protocol'' ''flex'' (ev_extra ev))))\<rparr>"

definition flex_event :: "(string, string) omap \<Rightarrow> bool \<Rightarrow> dsd_event \<Rightarrow> dsd_event option" where
  "flex_event m forward_system ev =
     (let mt = pager_get m ''msg_type''
      in if mt = ''bch_stats'' then None
         else (case (if om_has m ''capcode'' then flex_message_type mt else None) of
                 Some pt \<Rightarrow> Some (flex_page m mt pt ev)
               | None \<Rightarrow> if \<not> forward_system then None else Some (flex_system m mt ev)))"

definition multimon_line_to_event :: "bool \<Rightarrow> string \<Rightarrow> dsd_event option" where
  "multimon_line_to_event forward_system line =
     (case parse_tetrakit_json line of
        None \<Rightarrow> None
      | Some m \<Rightarrow>
          (let ev = dsd_event0\<lparr>ev_raw := line\<rparr>; demod = pager_get m ''demod_name''
           in if starts_with demod ''POCSAG'' then Some (pocsag_event m demod ev)
              else if demod = [] \<and> (om_has m ''phase'' \<or> om_has m ''cycle'') then flex_event m forward_system ev
              else None))"

section \<open>The padding is gone\<close>

lemma trim_prefix: "prefix (trim_pager_padding s) s"
proof (induction s rule: trim_pager_padding.induct)
  case (1 s)
  then show ?case using trim_round_prefix[of s]
    by (subst trim_pager_padding.simps) (auto intro: prefix_order.order_trans)
qed

lemma trim_fixed: "trim_round (trim_pager_padding s) = trim_pager_padding s"
proof (induction s rule: trim_pager_padding.induct)
  case (1 s)
  then show ?case by (subst (1 2) trim_pager_padding.simps) auto
qed

text \<open>A round that changes nothing found nothing to drop.\<close>

lemma drop_suffixes_prefix: "prefix (fold drop_suffix ps t) t"
proof (induction ps arbitrary: t)
  case (Cons p ps)
  then show ?case using prefix_order.order_trans[OF _ drop_suffix_prefix[of p t]] by simp
qed simp

lemma drop_suffixes_fixed: "fold drop_suffix ps t = t \<Longrightarrow> p \<in> set ps \<Longrightarrow> drop_suffix p t = t"
proof (induction ps arbitrary: t)
  case (Cons q ps)
  have "prefix t (drop_suffix q t)" using Cons.prems(1) drop_suffixes_prefix[of ps "drop_suffix q t"] by simp
  then have "drop_suffix q t = t" using drop_suffix_prefix[of q t] prefix_order.order_antisym by blast
  then show ?case using Cons by auto
qed simp

lemma drop_suffix_same: "drop_suffix p t = t \<Longrightarrow> p \<noteq> [] \<Longrightarrow> \<not> ends_with t p"
  by (cases t) (auto simp: drop_suffix_def ends_with_def dest!: arg_cong[of _ t length] split: if_splits)

lemma dropWhile_same: "length xs \<le> length (dropWhile P xs) \<Longrightarrow> xs = [] \<or> \<not> P (hd xs) \<and> dropWhile P xs = xs"
proof (cases xs)
  case (Cons x ys)
  assume "length xs \<le> length (dropWhile P xs)"
  then show ?thesis using Cons length_dropWhile_le[of P ys] by auto
qed simp

definition trimmed_blanks :: "string \<Rightarrow> string" where
  "trimmed_blanks s = rev (dropWhile (\<lambda>c. c = CHR '' '' \<or> c = CHR 0x09) (rev s))"

definition paddings :: "string list" where
  "paddings = [''<NUL>'', ''<EOT>'', ''<ETX>'', ''<ETB>'']"

lemma trim_round_alt: "trim_round s = fold drop_suffix paddings (trimmed_blanks s)"
  by (simp add: trim_round_def paddings_def trimmed_blanks_def)

lemma blanks_fixed:
  assumes "prefix t (trimmed_blanks t)"
  shows "trimmed_blanks t = t" and "t = [] \<or> last t \<noteq> CHR '' '' \<and> last t \<noteq> CHR 0x09"
proof -
  have "length (rev t) \<le> length (dropWhile (\<lambda>c. c = CHR '' '' \<or> c = CHR 0x09) (rev t))"
    using prefix_length_le[OF assms] by (simp add: trimmed_blanks_def)
  note d = dropWhile_same[OF this]
  then show "t = [] \<or> last t \<noteq> CHR '' '' \<and> last t \<noteq> CHR 0x09" by (auto simp: hd_rev)
  show "trimmed_blanks t = t" using d by (auto simp: trimmed_blanks_def)
qed

lemma trim_round_fixed:
  assumes "trim_round t = t"
  shows "t = [] \<or> last t \<noteq> CHR '' '' \<and> last t \<noteq> CHR 0x09" and "p \<in> set paddings \<Longrightarrow> \<not> ends_with t p"
proof -
  have b: "prefix t (trimmed_blanks t)"
    using drop_suffixes_prefix[of paddings "trimmed_blanks t"] assms by (simp add: trim_round_alt)
  show "t = [] \<or> last t \<noteq> CHR '' '' \<and> last t \<noteq> CHR 0x09" by (rule blanks_fixed(2)[OF b])
  have f: "fold drop_suffix paddings t = t" using assms blanks_fixed(1)[OF b] by (simp add: trim_round_alt)
  assume p: "p \<in> set paddings"
  then have "p \<noteq> []" by (auto simp: paddings_def)
  then show "\<not> ends_with t p" by (rule drop_suffix_same[OF drop_suffixes_fixed[OF f p]])
qed

text \<open>
  The message of a POCSAG page is the beginning of the page's text, with nothing but padding cut off its end
  until it ends neither in a blank nor in one of the padding marks.
\<close>
theorem page_text_trimmed:
  "prefix (ev_msg (pocsag_event m demod ev)) (snd (pocsag_text m))
   \<and> (case rev (ev_msg (pocsag_event m demod ev)) of [] \<Rightarrow> True | c # _ \<Rightarrow> c \<noteq> CHR '' '' \<and> c \<noteq> CHR 0x09)
   \<and> \<not> ends_with (ev_msg (pocsag_event m demod ev)) ''<NUL>'' \<and> \<not> ends_with (ev_msg (pocsag_event m demod ev)) ''<EOT>''
   \<and> \<not> ends_with (ev_msg (pocsag_event m demod ev)) ''<ETX>'' \<and> \<not> ends_with (ev_msg (pocsag_event m demod ev)) ''<ETB>''"
proof -
  let ?t = "trim_pager_padding (snd (pocsag_text m))"
  have e: "ev_msg (pocsag_event m demod ev) = ?t" by (simp add: pocsag_event_def case_prod_beta Let_def)
  note f = trim_round_fixed[OF trim_fixed[of "snd (pocsag_text m)"]]
  have "case rev ?t of [] \<Rightarrow> True | c # _ \<Rightarrow> c \<noteq> CHR '' '' \<and> c \<noteq> CHR 0x09"
    using f(1) by (cases ?t rule: rev_cases) auto
  moreover have "\<not> ends_with ?t ''<NUL>''" "\<not> ends_with ?t ''<EOT>''" "\<not> ends_with ?t ''<ETX>''" "\<not> ends_with ?t ''<ETB>''"
    by (rule f(2), simp add: paddings_def)+
  ultimately show ?thesis unfolding e using trim_prefix by blast
qed

end
