(* ===== verification/Burst_Sync.thy ===== *)
theory Burst_Sync
  imports Main
begin

text \<open>
  TETRA burst synchronisation (\<open>src/tetra_burst_sync.cpp\<close>): where the training sequences stand in a
  bitstream, and the grid of 510-bit timeslots on which most of them agree. Stream positions fit in
  \<open>long\<close> and the counts in \<open>int\<close>; both are exact here.
\<close>

section \<open>Training sequences\<close>

type_synonym bits = "nat list"

definition kTetraBitsPerTs :: nat where
  "kTetraBitsPerTs = 510"

definition n_bits :: bits where
  "n_bits = [1,1,0,1,0,0,0,0,1,1,1,0,1,0,0,1,1,1,0,1,0,0]"

definition p_bits :: bits where
  "p_bits = [0,1,1,1,1,0,1,0,0,1,0,0,0,0,1,1,0,1,1,1,1,0]"

definition y_bits :: bits where
  "y_bits = [1,1,0,0,0,0,0,1,1,0,0,1,1,1,0,0,1,1,1,0,1,0,0,1,1,1,0,0,0,0,0,1,1,0,0,1,1,1]"

definition x_bits :: bits where
  "x_bits = [1,0,0,1,1,1,0,1,0,0,0,0,1,1,1,0,1,0,0,1,1,1,0,1,0,0,0,0,1,1]"

definition kOffsetSync :: nat where
  "kOffsetSync = 214"

definition kOffsetNorm :: nat where
  "kOffsetNorm = 244"

datatype tetra_train = Norm1 | Norm2 | Sync | Ext

record sync_config =
  sc_max_errors_sync :: nat
  sc_max_errors_norm :: nat
  sc_max_errors_ext :: nat
  sc_min_confirmations :: int

definition sync_config0 :: sync_config where
  "sync_config0 = \<lparr>sc_max_errors_sync = 4, sc_max_errors_norm = 2, sc_max_errors_ext = 3, sc_min_confirmations = 3\<rparr>"

record seq_def =
  sd_bits :: bits
  sd_type :: tetra_train
  sd_offset :: "nat option"
  sd_max_err :: nat

definition seq_defs :: "sync_config \<Rightarrow> seq_def list" where
  "seq_defs cfg =
     [\<lparr>sd_bits = y_bits, sd_type = Sync, sd_offset = Some kOffsetSync, sd_max_err = sc_max_errors_sync cfg\<rparr>,
      \<lparr>sd_bits = n_bits, sd_type = Norm1, sd_offset = Some kOffsetNorm, sd_max_err = sc_max_errors_norm cfg\<rparr>,
      \<lparr>sd_bits = p_bits, sd_type = Norm2, sd_offset = Some kOffsetNorm, sd_max_err = sc_max_errors_norm cfg\<rparr>,
      \<lparr>sd_bits = x_bits, sd_type = Ext, sd_offset = None, sd_max_err = sc_max_errors_ext cfg\<rparr>]"

section \<open>Matching\<close>

text \<open>The count stops at the first error past the limit.\<close>

fun hamming :: "bits \<Rightarrow> bits \<Rightarrow> nat \<Rightarrow> nat \<Rightarrow> nat" where
  "hamming (s # ss) (t # ts) limit e =
     (if s \<noteq> t then (if limit < e + 1 then e + 1 else hamming ss ts limit (e + 1)) else hamming ss ts limit e)"
| "hamming _ _ limit e = e"

record train_match =
  mt_pos :: nat
  mt_type :: tetra_train
  mt_errors :: nat
  mt_burst_start :: "int option"

text \<open>The best sequence at a position so far, with its errors.\<close>

definition better :: "bits \<Rightarrow> seq_def \<Rightarrow> (seq_def \<times> nat) option \<Rightarrow> (seq_def \<times> nat) option" where
  "better s d best =
     (if length s < length (sd_bits d) then best
      else (let e = hamming s (sd_bits d) (sd_max_err d) 0
            in if e \<le> sd_max_err d \<and> (case best of None \<Rightarrow> True | Some (_, b) \<Rightarrow> e < b) then Some (d, e) else best))"

definition match_at :: "sync_config \<Rightarrow> nat \<Rightarrow> bits \<Rightarrow> train_match list" where
  "match_at cfg i s =
     (case fold (better s) (seq_defs cfg) None of
        None \<Rightarrow> []
      | Some (d, e) \<Rightarrow>
          [\<lparr>mt_pos = i, mt_type = sd_type d, mt_errors = e,
            mt_burst_start = map_option (\<lambda>off. int i - int off) (sd_offset d)\<rparr>])"

fun find_from :: "sync_config \<Rightarrow> nat \<Rightarrow> bits \<Rightarrow> train_match list" where
  "find_from cfg i [] = []"
| "find_from cfg i (b # r) = match_at cfg i (b # r) @ find_from cfg (Suc i) r"

definition find_all :: "sync_config \<Rightarrow> bits \<Rightarrow> train_match list" where
  "find_all cfg s = find_from cfg 0 s"

section \<open>The grid\<close>

record tetra_lock =
  lk_locked :: bool
  lk_phase :: nat
  lk_confirmations :: nat

text \<open>The remainder of \<open>%\<close>, lifted by one timeslot when it is negative.\<close>

definition grid_phase :: "int \<Rightarrow> nat" where
  "grid_phase b = nat (b mod int kTetraBitsPerTs)"

definition vote :: "train_match \<Rightarrow> nat list \<Rightarrow> nat list" where
  "vote m votes =
     (case mt_burst_start m of None \<Rightarrow> votes | Some b \<Rightarrow> votes[grid_phase b := votes ! grid_phase b + 1])"

fun best_phase :: "nat \<Rightarrow> nat list \<Rightarrow> nat \<times> nat \<Rightarrow> nat \<times> nat" where
  "best_phase i [] best = best"
| "best_phase i (v # vs) best = best_phase (Suc i) vs (if fst best < v then (v, i) else best)"

definition find_lock :: "sync_config \<Rightarrow> train_match list \<Rightarrow> tetra_lock" where
  "find_lock cfg ms =
     (case best_phase 0 (fold vote ms (replicate kTetraBitsPerTs 0)) (0, 0) of
        (c, ph) \<Rightarrow> \<lparr>lk_locked = (sc_min_confirmations cfg \<le> int c), lk_phase = ph, lk_confirmations = c\<rparr>)"

definition synchronize :: "sync_config \<Rightarrow> bits \<Rightarrow> tetra_lock" where
  "synchronize cfg s = find_lock cfg (find_all cfg s)"

section \<open>The grid found is the one most matches agree on\<close>

definition agreeing :: "train_match list \<Rightarrow> nat \<Rightarrow> nat" where
  "agreeing ms ph = length (filter (\<lambda>m. map_option grid_phase (mt_burst_start m) = Some ph) ms)"

lemma grid_phase_less: "grid_phase b < kTetraBitsPerTs"
  by (simp add: grid_phase_def kTetraBitsPerTs_def nat_less_iff)

lemma votes_agree:
  "length vs = kTetraBitsPerTs \<Longrightarrow> ph < kTetraBitsPerTs \<Longrightarrow>
     length (fold vote ms vs) = kTetraBitsPerTs \<and> fold vote ms vs ! ph = vs ! ph + agreeing ms ph"
proof (induction ms arbitrary: vs)
  case (Cons m ms)
  have l: "length (vote m vs) = kTetraBitsPerTs" using Cons.prems by (simp add: vote_def split: option.splits)
  have "vote m vs ! ph = vs ! ph + (if map_option grid_phase (mt_burst_start m) = Some ph then 1 else 0)"
    using Cons.prems grid_phase_less by (auto simp: vote_def nth_list_update split: option.splits)
  then show ?case using Cons.IH[OF l Cons.prems(2)] by (simp add: agreeing_def)
qed (simp add: agreeing_def)

lemma best_phase_max:
  "best_phase i vs best = (c, ph) \<Longrightarrow>
     fst best \<le> c \<and> (\<forall>j < length vs. vs ! j \<le> c)
     \<and> ((c, ph) = best \<or> (i \<le> ph \<and> ph < i + length vs \<and> vs ! (ph - i) = c))"
proof (induction i vs best arbitrary: c ph rule: best_phase.induct)
  case (2 i v vs best)
  let ?b = "if fst best < v then (v, i) else best"
  have IH: "fst ?b \<le> c \<and> (\<forall>j < length vs. vs ! j \<le> c)
      \<and> ((c, ph) = ?b \<or> (Suc i \<le> ph \<and> ph < Suc i + length vs \<and> vs ! (ph - Suc i) = c))"
    using 2 by simp
  have "\<forall>j < length (v # vs). (v # vs) ! j \<le> c" using IH by (auto simp: nth_Cons split: nat.splits if_splits)
  then show ?case using IH by (auto simp: nth_Cons' Suc_le_eq split: if_splits)
qed simp

lemma find_lock_best:
  "lk_phase (find_lock cfg ms) < kTetraBitsPerTs
   \<and> lk_confirmations (find_lock cfg ms) = agreeing ms (lk_phase (find_lock cfg ms))
   \<and> (\<forall>ph \<in> {..<kTetraBitsPerTs}. agreeing ms ph \<le> lk_confirmations (find_lock cfg ms))"
proof -
  let ?vs = "fold vote ms (replicate kTetraBitsPerTs 0)"
  have v: "length ?vs = kTetraBitsPerTs" "ph < kTetraBitsPerTs \<Longrightarrow> ?vs ! ph = agreeing ms ph" for ph
    using votes_agree[of "replicate kTetraBitsPerTs 0"] grid_phase_less by auto
  obtain c ph where b: "best_phase 0 ?vs (0, 0) = (c, ph)" by fastforce
  note m = best_phase_max[OF b]
  have "(c, ph) = (0, 0) \<longrightarrow> ?vs ! 0 = c" using m v(1) by (auto simp: kTetraBitsPerTs_def)
  then have "ph < kTetraBitsPerTs \<and> c = ?vs ! ph" using m v(1) by (auto simp: kTetraBitsPerTs_def)
  then show ?thesis using m v by (auto simp: find_lock_def b)
qed

section \<open>A match is a sequence within its error limit\<close>

fun distance :: "bits \<Rightarrow> bits \<Rightarrow> nat" where
  "distance (s # ss) (t # ts) = (if s \<noteq> t then 1 else 0) + distance ss ts"
| "distance _ _ = 0"

text \<open>The count that stops early agrees with the distance wherever it is used.\<close>

lemma hamming_distance:
  "e \<le> limit \<Longrightarrow> (if e + distance s t \<le> limit then hamming s t limit e = e + distance s t else limit < hamming s t limit e)"
proof (induction s t limit e rule: hamming.induct)
  case (1 s ss t ts limit e)
  show ?case
  proof (cases "s \<noteq> t \<and> limit < e + 1")
    case True
    then show ?thesis by simp
  next
    case False
    then show ?thesis using 1 by (cases "s = t") (simp_all add: Suc_le_eq split: if_splits)
  qed
qed simp_all

definition in_reach :: "bits \<Rightarrow> seq_def \<Rightarrow> bool" where
  "in_reach s d \<longleftrightarrow> length (sd_bits d) \<le> length s \<and> distance s (sd_bits d) \<le> sd_max_err d"

definition best_ok :: "bits \<Rightarrow> seq_def list \<Rightarrow> (seq_def \<times> nat) option \<Rightarrow> bool" where
  "best_ok s ds best =
     (case best of
        None \<Rightarrow> list_all (\<lambda>d. \<not> in_reach s d) ds
      | Some (d, e) \<Rightarrow> d \<in> set ds \<and> in_reach s d \<and> e = distance s (sd_bits d)
          \<and> list_all (\<lambda>c. in_reach s c \<longrightarrow> e \<le> distance s (sd_bits c)) ds)"

lemma better_ok:
  assumes "best_ok s ds b"
  shows "best_ok s (ds @ [d]) (better s d b)"
proof -
  have h: "hamming s (sd_bits d) (sd_max_err d) 0 \<le> sd_max_err d \<longleftrightarrow> distance s (sd_bits d) \<le> sd_max_err d"
    "hamming s (sd_bits d) (sd_max_err d) 0 \<le> sd_max_err d \<Longrightarrow>
       hamming s (sd_bits d) (sd_max_err d) 0 = distance s (sd_bits d)"
    using hamming_distance[of 0 "sd_max_err d" s "sd_bits d"] by (simp_all split: if_splits)
  show ?thesis
  proof (cases "in_reach s d")
    case False
    then have "better s d b = b" using h(1) by (auto simp: better_def in_reach_def Let_def)
    then show ?thesis using assms False by (auto simp: best_ok_def split: option.splits)
  next
    case True
    then have "better s d b = (if (case b of None \<Rightarrow> True | Some (_, e) \<Rightarrow> distance s (sd_bits d) < e)
        then Some (d, distance s (sd_bits d)) else b)"
      using h by (auto simp: better_def in_reach_def Let_def)
    then show ?thesis using assms True
      by (auto simp: best_ok_def list_all_iff split: option.splits if_splits intro: order_trans less_imp_le)
  qed
qed

lemma best_seq_ok: "best_ok s ds (fold (better s) ds None)"
proof (induction ds rule: rev_induct)
  case (snoc d ds)
  then show ?case using better_ok by simp
qed (simp add: best_ok_def)

text \<open>What \<open>find_all\<close> reports at a position: nothing when no sequence is within reach, else a closest one.\<close>

definition found_at :: "sync_config \<Rightarrow> bits \<Rightarrow> train_match \<Rightarrow> bool" where
  "found_at cfg s m \<longleftrightarrow>
     mt_pos m < length s
     \<and> list_ex (\<lambda>d. in_reach (drop (mt_pos m) s) d \<and> mt_type m = sd_type d
          \<and> mt_errors m = distance (drop (mt_pos m) s) (sd_bits d)
          \<and> mt_burst_start m = map_option (\<lambda>off. int (mt_pos m) - int off) (sd_offset d)) (seq_defs cfg)"

definition within_reach :: "sync_config \<Rightarrow> bits \<Rightarrow> nat \<Rightarrow> bool" where
  "within_reach cfg s i = list_ex (in_reach (drop i s)) (seq_defs cfg)"

lemma match_at_cases:
  "map mt_pos (match_at cfg i s) = (if list_ex (in_reach s) (seq_defs cfg) then [i] else [])"
  using best_seq_ok[of s "seq_defs cfg"]
  by (auto simp: match_at_def best_ok_def list_all_iff list_ex_iff split: option.splits)

lemma match_at_found:
  assumes "m \<in> set (match_at cfg i (drop i s))" "i < length s"
  shows "found_at cfg s m"
proof -
  obtain d e where d: "fold (better (drop i s)) (seq_defs cfg) None = Some (d, e)"
    using assms(1) by (cases "fold (better (drop i s)) (seq_defs cfg) None") (auto simp: match_at_def)
  have "d \<in> set (seq_defs cfg) \<and> in_reach (drop i s) d \<and> e = distance (drop i s) (sd_bits d)"
    using best_seq_ok[of "drop i s" "seq_defs cfg"] by (simp add: best_ok_def d)
  then show ?thesis using assms d by (auto simp: match_at_def found_at_def list_ex_iff)
qed

lemma find_from_drop:
  "find_from cfg i (drop i s) = concat (map (\<lambda>j. match_at cfg j (drop j s)) [i..<length s])"
proof (cases "i \<le> length s")
  case True
  then show ?thesis
  proof (induction "length s - i" arbitrary: i)
    case (Suc n)
    then have l: "i < length s" by simp
    have "find_from cfg i (drop i s) = match_at cfg i (drop i s) @ find_from cfg (Suc i) (drop (Suc i) s)"
      using Cons_nth_drop_Suc[OF l] by (metis find_from.simps(2))
    then show ?case using Suc l by (simp add: upt_conv_Cons)
  qed simp
qed simp

lemma concat_filter: "concat (map (\<lambda>j. if P j then [j] else []) js) = filter P js"
  by (induction js) auto

text \<open>
  C30. The scan of a bitstream reports exactly the positions where some training sequence is within its error
  limit, each with the type, errors and burst start of such a sequence; and the grid phase it locks on is one on
  which a largest number of those bursts agree, with that number as its confirmations.
\<close>
theorem lock_is_best:
  "map mt_pos (find_all cfg s) = filter (within_reach cfg s) [0..<length s]
   \<and> list_all (found_at cfg s) (find_all cfg s)
   \<and> lk_phase (synchronize cfg s) < kTetraBitsPerTs
   \<and> lk_confirmations (synchronize cfg s) = agreeing (find_all cfg s) (lk_phase (synchronize cfg s))
   \<and> list_all (\<lambda>ph. agreeing (find_all cfg s) ph \<le> lk_confirmations (synchronize cfg s)) [0..<kTetraBitsPerTs]
   \<and> lk_locked (synchronize cfg s) = (sc_min_confirmations cfg \<le> int (lk_confirmations (synchronize cfg s)))"
proof -
  have f: "find_all cfg s = concat (map (\<lambda>j. match_at cfg j (drop j s)) [0..<length s])"
    using find_from_drop[of cfg 0 s] by (simp add: find_all_def)
  have p: "map mt_pos (find_all cfg s) = filter (within_reach cfg s) [0..<length s]"
    unfolding f map_concat map_map comp_def match_at_cases within_reach_def by (rule concat_filter)
  have q: "list_all (found_at cfg s) (find_all cfg s)"
    unfolding f by (auto simp: list_all_iff intro: match_at_found)
  have l: "lk_locked (find_lock cfg ms) = (sc_min_confirmations cfg \<le> int (lk_confirmations (find_lock cfg ms)))" for ms
    by (simp add: find_lock_def split: prod.split)
  note b = find_lock_best[of cfg "find_all cfg s"]
  have "list_all (\<lambda>ph. agreeing (find_all cfg s) ph \<le> lk_confirmations (synchronize cfg s)) [0..<kTetraBitsPerTs]"
    using b by (auto simp: synchronize_def list_all_iff)
  then show ?thesis using b p q l unfolding synchronize_def by blast
qed

end
