(* ===== verification/Server_Stats.thy ===== *)
theory Server_Stats
  imports Assoc_Streams
begin

text \<open>
  The registry of client sessions (\<open>src/server_stats.hpp\<close>): the live table, the usage per protocol, the
  bounded history and log, and the snapshot of the status page. Every operation runs under one mutex; its
  clock readings are arguments, one for each reading (\<open>wall\<close> of the system clock, \<open>tick\<close> of the steady clock), and durations are
  exact differences of steady-clock ticks.
\<close>

section \<open>Rows\<close>

record session_row =
  sr_id :: nat
  sr_remote :: string
  sr_protocol :: string
  sr_chain :: string
  sr_active :: bool
  sr_connected :: int
  sr_connected_mono :: int
  sr_used :: "string list"
  sr_requested :: "string list"
  sr_active_since :: int
  sr_last_data :: int
  sr_got_data :: bool
  sr_freq :: dbl

record protocol_usage =
  pu_protocol :: string
  pu_chain :: string
  pu_requests :: nat
  pu_starts :: nat
  pu_sessions :: nat
  pu_active_now :: nat
  pu_decode :: int
  pu_first :: int
  pu_last :: int

definition protocol_usage0 :: protocol_usage where
  "protocol_usage0 = \<lparr>pu_protocol = [], pu_chain = [], pu_requests = 0, pu_starts = 0, pu_sessions = 0,
     pu_active_now = 0, pu_decode = 0, pu_first = 0, pu_last = 0\<rparr>"

record finished_row =
  fr_id :: nat
  fr_remote :: string
  fr_protocol :: string
  fr_chain :: string
  fr_connected :: int
  fr_ended :: int
  fr_duration :: int
  fr_used :: "string list"
  fr_requested :: "string list"
  fr_freq :: dbl

record log_entry =
  le_session :: nat
  le_ts :: int
  le_text :: string
  le_freq :: dbl

section \<open>State\<close>

record stats =
  st_usage :: "(string, protocol_usage) omap"
  st_sessions :: "(nat, session_row) omap"
  st_history :: "finished_row list"
  st_log :: "log_entry list"
  st_iq :: bool
  st_iq_controls :: "(nat, unit) omap"
  st_key_reloads :: "(nat, unit) omap"
  st_assoc :: model
  st_history_limit :: nat
  st_log_limit :: nat
  st_last_id :: nat
  st_total :: nat
  st_bytes_in :: nat
  st_bytes_out :: nat
  st_started_wall :: int
  st_started_mono :: int

definition server_stats :: "nat \<Rightarrow> nat \<Rightarrow> int \<Rightarrow> int \<Rightarrow> model \<Rightarrow> stats" where
  "server_stats history_limit log_limit wall tick m =
     \<lparr>st_usage = [], st_sessions = [], st_history = [], st_log = [], st_iq = False, st_iq_controls = [],
      st_key_reloads = [], st_assoc = m, st_history_limit = history_limit, st_log_limit = log_limit, st_last_id = 0,
      st_total = 0, st_bytes_in = 0, st_bytes_out = 0, st_started_wall = wall, st_started_mono = tick\<rparr>"

text \<open>\<open>push_back\<close> on a deque of at most \<open>n\<close> elements.\<close>

definition push_bounded :: "nat \<Rightarrow> 'a \<Rightarrow> 'a list \<Rightarrow> 'a list" where
  "push_bounded n x xs = drop (length (xs @ [x]) - n) (xs @ [x])"

definition on_session :: "nat \<Rightarrow> (session_row \<Rightarrow> session_row) \<Rightarrow> stats \<Rightarrow> stats" where
  "on_session i f s = s\<lparr>st_sessions := om_modify i f (st_sessions s)\<rparr>"

section \<open>The log\<close>

definition add_log :: "nat \<Rightarrow> string \<Rightarrow> int \<Rightarrow> stats \<Rightarrow> stats" where
  "add_log i text wall s =
     (if st_log_limit s = 0 then s
      else s\<lparr>st_log := push_bounded (st_log_limit s)
        \<lparr>le_session = i, le_ts = wall,
         le_text = (if 2048 < length text then take 2048 text @ [CHR 0xE2, CHR 0x80, CHR 0xA6] else text),
         le_freq = (case om_get (st_sessions s) i of None \<Rightarrow> DFin 0 | Some r \<Rightarrow> sr_freq r)\<rparr> (st_log s)\<rparr>)"

definition log_snapshot :: "stats \<Rightarrow> log_entry list" where
  "log_snapshot s = rev (st_log s)"

definition clear_log :: "stats \<Rightarrow> stats" where
  "clear_log s = s\<lparr>st_log := []\<rparr>"

section \<open>Callbacks\<close>

text \<open>
  The control callbacks of the sessions: which are registered. What a session answers when asked to reload its
  keys (whether it will restart its decoder) is a parameter. Flipping the capture switch calls every control with
  the new state; the answer is the calls made.
\<close>

definition register_iq_control :: "nat \<Rightarrow> stats \<Rightarrow> stats" where
  "register_iq_control i s = s\<lparr>st_iq_controls := om_put i () (st_iq_controls s)\<rparr>"

definition unregister_iq_control :: "nat \<Rightarrow> stats \<Rightarrow> stats" where
  "unregister_iq_control i s = s\<lparr>st_iq_controls := om_del i (st_iq_controls s)\<rparr>"

definition register_key_reload :: "nat \<Rightarrow> stats \<Rightarrow> stats" where
  "register_key_reload i s = s\<lparr>st_key_reloads := om_put i () (st_key_reloads s)\<rparr>"

definition unregister_key_reload :: "nat \<Rightarrow> stats \<Rightarrow> stats" where
  "unregister_key_reload i s = s\<lparr>st_key_reloads := om_del i (st_key_reloads s)\<rparr>"

definition reload_pipelines :: "(nat \<Rightarrow> bool) \<Rightarrow> stats \<Rightarrow> nat" where
  "reload_pipelines restarts s = length (filter (\<lambda>(i, _). restarts i) (st_key_reloads s))"

definition set_iq_logging :: "bool \<Rightarrow> stats \<Rightarrow> stats \<times> (nat \<times> bool) list" where
  "set_iq_logging on s = (s\<lparr>st_iq := on\<rparr>, map (\<lambda>(i, _). (i, on)) (st_iq_controls s))"

section \<open>Sessions\<close>

definition add_session :: "string \<Rightarrow> int \<Rightarrow> int \<Rightarrow> stats \<Rightarrow> nat \<times> stats" where
  "add_session remote wall tick s =
     (let i = st_last_id s + 1;
          row = \<lparr>sr_id = i, sr_remote = remote, sr_protocol = ''-'', sr_chain = [], sr_active = False,
            sr_connected = wall, sr_connected_mono = tick, sr_used = [], sr_requested = [], sr_active_since = 0,
            sr_last_data = tick, sr_got_data = False, sr_freq = DFin 0\<rparr>
      in (i, s\<lparr>st_last_id := i, st_sessions := om_put i row (st_sessions s), st_total := st_total s + 1\<rparr>))"

definition note_data :: "nat \<Rightarrow> int \<Rightarrow> stats \<Rightarrow> stats" where
  "note_data i tick s = on_session i (\<lambda>r. r\<lparr>sr_last_data := tick, sr_got_data := True\<rparr>) s"

definition add_bytes_in :: "nat \<Rightarrow> stats \<Rightarrow> stats" where
  "add_bytes_in n s = s\<lparr>st_bytes_in := (st_bytes_in s + n) mod 2 ^ 64\<rparr>"

definition add_bytes_out :: "nat \<Rightarrow> stats \<Rightarrow> stats" where
  "add_bytes_out n s = s\<lparr>st_bytes_out := (st_bytes_out s + n) mod 2 ^ 64\<rparr>"

definition push_new :: "'a \<Rightarrow> 'a list \<Rightarrow> 'a list" where
  "push_new x xs = (if x \<in> set xs then xs else xs @ [x])"

definition note_request :: "nat \<Rightarrow> string \<Rightarrow> string \<Rightarrow> int \<Rightarrow> stats \<Rightarrow> stats" where
  "note_request i protocol chain wall s =
     (if protocol = [] then s
      else (let s = on_session i (\<lambda>r. r\<lparr>sr_requested := push_new protocol (sr_requested r)\<rparr>) s;
                u = om_at protocol_usage0 (st_usage s) protocol;
                u = (if pu_requests u = 0 then u\<lparr>pu_protocol := protocol, pu_first := wall\<rparr> else u)
            in s\<lparr>st_usage := om_put protocol (u\<lparr>pu_requests := pu_requests u + 1, pu_chain := chain, pu_last := wall\<rparr>)
                 (st_usage s)\<rparr>))"

text \<open>The elapsed time of a running pipeline goes to its protocol.\<close>

definition bank :: "int \<Rightarrow> session_row \<Rightarrow> (string, protocol_usage) omap \<Rightarrow> (string, protocol_usage) omap" where
  "bank tick r us =
     (let u = om_at protocol_usage0 us (sr_protocol r);
          u = (if pu_protocol u = [] then u\<lparr>pu_protocol := sr_protocol r\<rparr> else u)
      in om_put (sr_protocol r) (u\<lparr>pu_decode := pu_decode u + (tick - sr_active_since r)\<rparr>) us)"

definition close_active_locked :: "int \<Rightarrow> session_row \<Rightarrow> stats \<Rightarrow> stats" where
  "close_active_locked tick r s = s\<lparr>st_usage := bank tick r (st_usage s)\<rparr>"

definition count_start :: "string \<Rightarrow> session_row \<Rightarrow> (string, protocol_usage) omap \<Rightarrow> (string, protocol_usage) omap" where
  "count_start chain r us =
     (let u = om_at protocol_usage0 us (sr_protocol r);
          u = (if pu_protocol u = [] then u\<lparr>pu_protocol := sr_protocol r\<rparr> else u);
          u = (if pu_chain u = [] then u\<lparr>pu_chain := chain\<rparr> else u);
          u = u\<lparr>pu_starts := pu_starts u + 1\<rparr>
      in om_put (sr_protocol r)
           (if sr_protocol r \<in> set (sr_used r) then u else u\<lparr>pu_sessions := pu_sessions u + 1\<rparr>) us)"

definition set_protocol :: "nat \<Rightarrow> string \<Rightarrow> string \<Rightarrow> bool \<Rightarrow> int \<Rightarrow> int \<Rightarrow> stats \<Rightarrow> stats" where
  "set_protocol i protocol chain active bank_tick tick s =
     (case om_get (st_sessions s) i of
        None \<Rightarrow> s
      | Some row \<Rightarrow>
          (let s = (if sr_active row then close_active_locked bank_tick row s else s);
               row = row\<lparr>sr_protocol := (if protocol \<noteq> [] then protocol else sr_protocol row), sr_chain := chain,
                 sr_active := active\<rparr>
           in if active \<and> sr_protocol row \<noteq> [] \<and> sr_protocol row \<noteq> ''-'' then
                s\<lparr>st_usage := count_start chain row (st_usage s),
                  st_sessions := om_put i (row\<lparr>sr_used := push_new (sr_protocol row) (sr_used row),
                    sr_active_since := tick\<rparr>) (st_sessions s)\<rparr>
              else s\<lparr>st_sessions := om_put i row (st_sessions s)\<rparr>))"

definition set_freq :: "nat \<Rightarrow> dbl \<Rightarrow> stats \<Rightarrow> stats" where
  "set_freq i hz s = on_session i (\<lambda>r. r\<lparr>sr_freq := (if dbl_pos hz then hz else DFin 0)\<rparr>) s"

definition set_pipeline_active :: "nat \<Rightarrow> bool \<Rightarrow> int \<Rightarrow> stats \<Rightarrow> stats" where
  "set_pipeline_active i active tick s =
     (case om_get (st_sessions s) i of
        None \<Rightarrow> s
      | Some row \<Rightarrow>
          on_session i (\<lambda>r. r\<lparr>sr_active := active\<rparr>)
            (if sr_active row \<and> \<not> active then close_active_locked tick row s else s))"

definition finished :: "int \<Rightarrow> int \<Rightarrow> session_row \<Rightarrow> finished_row" where
  "finished wall tick r = \<lparr>fr_id = sr_id r, fr_remote = sr_remote r, fr_protocol = sr_protocol r, fr_chain = sr_chain r,
     fr_connected = sr_connected r, fr_ended = wall, fr_duration = tick - sr_connected_mono r, fr_used = sr_used r,
     fr_requested = sr_requested r, fr_freq = sr_freq r\<rparr>"

text \<open>\<open>remove_session\<close>: the model first, under its own lock, with its own clock reading.\<close>

definition stats_remove_session :: "nat \<Rightarrow> int \<Rightarrow> int \<Rightarrow> int \<Rightarrow> int \<Rightarrow> stats \<Rightarrow> stats" where
  "stats_remove_session i now bank_tick wall tick s0 =
     (let s = s0\<lparr>st_assoc := remove_session i now (st_assoc s0)\<rparr>
      in case om_get (st_sessions s) i of
           None \<Rightarrow> s
         | Some row \<Rightarrow>
             (let s = (if sr_active row then close_active_locked bank_tick row s else s)
              in s\<lparr>st_iq_controls := om_del i (st_iq_controls s), st_key_reloads := om_del i (st_key_reloads s),
                   st_history := push_bounded (st_history_limit s) (finished wall tick row) (st_history s),
                   st_sessions := om_del i (st_sessions s)\<rparr>))"

section \<open>The snapshot\<close>

record snapshot =
  sn_total :: nat
  sn_current :: nat
  sn_active :: nat
  sn_uptime :: int
  sn_bytes_in :: nat
  sn_bytes_out :: nat
  sn_iq :: bool
  sn_started :: int
  sn_rows :: "session_row list"
  sn_by_protocol :: "(string, nat) omap"
  sn_history :: "finished_row list"
  sn_log_lines :: nat
  sn_protocols :: "protocol_usage list"

definition connected :: "stats \<Rightarrow> nat" where
  "connected s = length (st_sessions s)"

definition shown_protocol :: "session_row \<Rightarrow> string" where
  "shown_protocol r = (if sr_protocol r = [] then ''-'' else sr_protocol r)"

definition count_active :: "session_row \<Rightarrow> (string, nat) omap \<Rightarrow> (string, nat) omap" where
  "count_active r m = (if sr_active r then om_put (shown_protocol r) (om_at 0 m (shown_protocol r) + 1) m else m)"

definition use_now :: "int \<Rightarrow> session_row \<Rightarrow> (string, protocol_usage) omap \<Rightarrow> (string, protocol_usage) omap" where
  "use_now tick r us =
     (if \<not> sr_active r then us
      else (let u = om_at protocol_usage0 us (sr_protocol r);
                u = (if pu_protocol u = [] then u\<lparr>pu_protocol := sr_protocol r\<rparr> else u)
            in om_put (sr_protocol r)
                 (u\<lparr>pu_active_now := pu_active_now u + 1, pu_decode := pu_decode u + (tick - sr_active_since r)\<rparr>) us))"

definition snapshot_of :: "int \<Rightarrow> int \<Rightarrow> stats \<Rightarrow> snapshot" where
  "snapshot_of up_tick tick s =
     (let rows = map snd (st_sessions s)
      in \<lparr>sn_total = st_total s, sn_current = length (st_sessions s), sn_active = length (filter sr_active rows),
          sn_uptime = up_tick - st_started_mono s, sn_bytes_in = st_bytes_in s, sn_bytes_out = st_bytes_out s,
          sn_iq = st_iq s, sn_started = st_started_wall s, sn_rows = rows,
          sn_by_protocol = fold count_active rows [], sn_history = rev (st_history s),
          sn_log_lines = length (st_log s),
          sn_protocols = sort_key (\<lambda>u. - pu_last u) (map snd (fold (use_now tick) rows (st_usage s)))\<rparr>)"


section \<open>The registry as a whole\<close>

datatype stats_op =
    Add_Log nat string int
  | Clear_Log
  | Register_Iq nat
  | Unregister_Iq nat
  | Register_Reload nat
  | Unregister_Reload nat
  | Set_Iq bool
  | Add_Session string int int
  | Note_Data nat int
  | Bytes_In nat
  | Bytes_Out nat
  | Note_Request nat string string int
  | Set_Protocol nat string string bool int int
  | Set_Freq nat dbl
  | Set_Pipeline_Active nat bool int
  | Remove_Session nat int int int int

fun stats_apply :: "stats_op \<Rightarrow> stats \<Rightarrow> stats" where
  "stats_apply (Add_Log i text wall) s = add_log i text wall s"
| "stats_apply Clear_Log s = clear_log s"
| "stats_apply (Register_Iq i) s = register_iq_control i s"
| "stats_apply (Unregister_Iq i) s = unregister_iq_control i s"
| "stats_apply (Register_Reload i) s = register_key_reload i s"
| "stats_apply (Unregister_Reload i) s = unregister_key_reload i s"
| "stats_apply (Set_Iq on) s = fst (set_iq_logging on s)"
| "stats_apply (Add_Session remote wall tick) s = snd (add_session remote wall tick s)"
| "stats_apply (Note_Data i tick) s = note_data i tick s"
| "stats_apply (Bytes_In n) s = add_bytes_in n s"
| "stats_apply (Bytes_Out n) s = add_bytes_out n s"
| "stats_apply (Note_Request i p c wall) s = note_request i p c wall s"
| "stats_apply (Set_Protocol i p c a t0 t) s = set_protocol i p c a t0 t s"
| "stats_apply (Set_Freq i hz) s = set_freq i hz s"
| "stats_apply (Set_Pipeline_Active i a t) s = set_pipeline_active i a t s"
| "stats_apply (Remove_Session i now t0 wall t) s = stats_remove_session i now t0 wall t s"

definition stats_run :: "stats_op list \<Rightarrow> stats \<Rightarrow> stats" where
  "stats_run ops s = fold stats_apply ops s"

text \<open>
  What every operation keeps: ids are handed out in order and never again, a row stands under its own id, the
  history holds the sessions that left, as many of the last as it may, and log lines are cut.
\<close>

definition rows_ok :: "stats \<Rightarrow> bool" where
  "rows_ok s \<longleftrightarrow>
     om_wf (st_sessions s) \<and> list_all (\<lambda>(i, r). sr_id r = i \<and> i \<le> st_last_id s) (st_sessions s)
     \<and> list_all (\<lambda>f. fr_id f \<le> st_last_id s \<and> om_get (st_sessions s) (fr_id f) = None) (st_history s)
     \<and> distinct (map fr_id (st_history s))
     \<and> st_total s = st_last_id s \<and> length (st_sessions s) \<le> st_total s
     \<and> length (st_history s) = min (st_history_limit s) (st_total s - length (st_sessions s))"

definition log_ok :: "stats \<Rightarrow> bool" where
  "log_ok s \<longleftrightarrow> length (st_log s) \<le> st_log_limit s \<and> list_all (\<lambda>e. length (le_text e) \<le> 2051) (st_log s)"

lemma push_bounded_length [simp]: "length (push_bounded n x xs) = min n (Suc (length xs))"
  by (simp add: push_bounded_def)

lemma push_bounded_set: "set (push_bounded n x xs) \<subseteq> insert x (set xs)"
  unfolding push_bounded_def using set_drop_subset[of _ "xs @ [x]"] by fastforce

lemma push_bounded_distinct: "distinct (map f (xs @ [x])) \<Longrightarrow> distinct (map f (push_bounded n x xs))"
  unfolding push_bounded_def by (metis distinct_drop drop_map)

lemma push_bounded_all: "P x \<Longrightarrow> list_all P xs \<Longrightarrow> list_all P (push_bounded n x xs)"
  unfolding list_all_iff using push_bounded_set by fastforce

lemma om_modify_every:
  assumes "\<And>r. P i r \<Longrightarrow> P i (f r)" "list_all (\<lambda>(k, v). P k v) m"
  shows "list_all (\<lambda>(k, v). P k v) (om_modify i f m)"
  using assms by (induction m) (auto simp: om_modify_def)

text \<open>A change to the sessions that moves no row keeps the table; so does a change elsewhere.\<close>

lemma rows_ok_replace:
  assumes "rows_ok s" "om_wf m" "fst ` set m = fst ` set (st_sessions s)" "length m = length (st_sessions s)"
    "list_all (\<lambda>(i, r). sr_id r = i) m"
    "st_sessions s' = m" "st_last_id s' = st_last_id s" "st_history s' = st_history s" "st_total s' = st_total s"
    "st_history_limit s' = st_history_limit s"
  shows "rows_ok s'"
proof -
  have g: "om_get m k = None \<longleftrightarrow> om_get (st_sessions s) k = None" for k
    using assms(3) by (simp add: map_of_eq_None_iff)
  have "\<And>i r. (i, r) \<in> set m \<Longrightarrow> i \<le> st_last_id s"
    using assms(1,3) unfolding rows_ok_def list_all_iff by (metis (no_types, lifting) case_prodD fst_conv image_iff prod.collapse)
  then show ?thesis using assms g unfolding rows_ok_def list_all_iff by fastforce
qed

lemma rows_ok_cong:
  "rows_ok s \<Longrightarrow> st_sessions s' = st_sessions s \<Longrightarrow> st_last_id s' = st_last_id s \<Longrightarrow> st_history s' = st_history s
   \<Longrightarrow> st_total s' = st_total s \<Longrightarrow> st_history_limit s' = st_history_limit s \<Longrightarrow> rows_ok s'"
  by (simp add: rows_ok_def)

lemma rows_ok_on_session:
  assumes "rows_ok s" "\<And>r. sr_id (f r) = sr_id r"
  shows "rows_ok (on_session i f s)"
proof (rule rows_ok_replace[OF assms(1)])
  show "list_all (\<lambda>(i, r). sr_id r = i) (om_modify i f (st_sessions s))"
    by (rule om_modify_every) (use assms in \<open>auto simp: rows_ok_def list_all_iff\<close>)
qed (use assms in \<open>simp_all add: on_session_def om_modify_keys rows_ok_def\<close>)

lemma om_put_same:
  assumes "om_wf m" "om_get m i = Some v"
  shows "fst ` set (om_put i w m) = fst ` set m" and "length (om_put i w m) = length m"
proof -
  have "om_has m i" using assms by (simp add: om_has_def)
  then show "fst ` set (om_put i w m) = fst ` set m" "length (om_put i w m) = length m"
    by (auto simp: om_put_keys om_length_put[OF assms(1)] om_has_iff insert_absorb)
qed

lemma rows_ok_put:
  assumes "rows_ok s" "om_get (st_sessions s) i = Some v" "sr_id w = i" "st_sessions s' = om_put i w (st_sessions s)"
    "st_last_id s' = st_last_id s" "st_history s' = st_history s" "st_total s' = st_total s"
    "st_history_limit s' = st_history_limit s"
  shows "rows_ok s'"
proof -
  have w: "om_wf (st_sessions s)" using assms(1) by (simp add: rows_ok_def)
  have "list_all (\<lambda>(i, r). sr_id r = i) (st_sessions s)" using assms(1) by (auto simp: rows_ok_def list_all_iff)
  then have "list_all (\<lambda>(i, r). sr_id r = i) (om_put i w (st_sessions s))" using assms(3) by (intro om_put_all) auto
  then show ?thesis by (intro rows_ok_replace[OF assms(1) _ om_put_same[OF w assms(2)]]) (use w assms in simp_all)
qed

lemma rows_ok_id: "rows_ok s \<Longrightarrow> om_get (st_sessions s) i = Some r \<Longrightarrow> sr_id r = i \<and> i \<le> st_last_id s"
  unfolding rows_ok_def list_all_iff using om_get_Some_in by fastforce

lemma rows_ok_add:
  assumes a: "rows_ok s"
  shows "rows_ok (snd (add_session remote wall tick s))"
proof -
  let ?i = "Suc (st_last_id s)"
  have w: "om_wf (st_sessions s)" using a by (simp add: rows_ok_def)
  have n: "\<not> om_has (st_sessions s) ?i"
    using a unfolding rows_ok_def om_has_iff list_all_iff by fastforce
  have f: "list_all (\<lambda>f. fr_id f \<le> ?i \<and> om_get (om_put ?i r (st_sessions s)) (fr_id f) = None) (st_history s)" for r
    using a by (auto simp: rows_ok_def list_all_iff om_get_put)
  have "list_all (\<lambda>(i, r). sr_id r = i \<and> i \<le> ?i) (st_sessions s)"
    using a by (auto simp: rows_ok_def list_all_iff intro: le_SucI)
  then have r: "sr_id r = ?i \<Longrightarrow> list_all (\<lambda>(i, r). sr_id r = i \<and> i \<le> ?i) (om_put ?i r (st_sessions s))" for r
    by (intro om_put_all) auto
  show ?thesis
    using a f r n w by (simp add: rows_ok_def add_session_def Let_def om_length_put)
qed

lemma rows_ok_remove: "rows_ok s \<Longrightarrow> rows_ok (stats_remove_session i now t0 wall t s)"
proof -
  assume a: "rows_ok s"
  show ?thesis
  proof (cases "om_get (st_sessions s) i")
    case None
    then show ?thesis using a by (auto simp: stats_remove_session_def intro: rows_ok_cong)
  next
    case (Some r)
    note i = rows_ok_id[OF a Some]
    have w: "om_wf (st_sessions s)" and hd: "distinct (map fr_id (st_history s))"
      and h: "list_all (\<lambda>f. fr_id f \<le> st_last_id s \<and> om_get (st_sessions s) (fr_id f) = None) (st_history s)"
      using a by (auto simp: rows_ok_def)
    have fi: "fr_id (finished wall t r) = i" using i by (simp add: finished_def)
    have has: "om_has (st_sessions s) i" using Some by (simp add: om_has_def)
    have len: "length (om_del i (st_sessions s)) = length (st_sessions s) - 1" "0 < length (st_sessions s)"
      using has w by (auto simp: om_length_del om_has_def)
    have "i \<notin> fr_id ` set (st_history s)" using h Some by (auto simp: list_all_iff)
    then have d: "distinct (map fr_id (push_bounded n (finished wall t r) (st_history s)))" for n
      using hd fi by (intro push_bounded_distinct) simp
    have l: "list_all (\<lambda>f. fr_id f \<le> st_last_id s \<and> om_get (om_del i (st_sessions s)) (fr_id f) = None)
        (push_bounded n (finished wall t r) (st_history s))" for n
      using h i fi by (intro push_bounded_all) (auto simp: list_all_iff om_get_del)
    have r: "list_all (\<lambda>(j, r). sr_id r = j \<and> j \<le> st_last_id s) (om_del i (st_sessions s))"
      using a by (intro om_del_all) (simp add: rows_ok_def)
    let ?s = "stats_remove_session i now t0 wall t s"
    have f: "st_sessions ?s = om_del i (st_sessions s)" "st_last_id ?s = st_last_id s" "st_total ?s = st_total s"
      "st_history ?s = push_bounded (st_history_limit s) (finished wall t r) (st_history s)"
      "st_history_limit ?s = st_history_limit s"
      using Some by (auto simp: stats_remove_session_def close_active_locked_def Let_def)
    have eq: "length (push_bounded (st_history_limit s) (finished wall t r) (st_history s)) =
        min (st_history_limit s) (st_total s - length (om_del i (st_sessions s)))"
    proof -
      have "length (st_history s) = min (st_history_limit s) (st_total s - length (st_sessions s))"
        "length (st_sessions s) \<le> st_total s" using a by (simp_all add: rows_ok_def)
      then show ?thesis using len by (simp only: push_bounded_length) arith
    qed
    have "om_wf (om_del i (st_sessions s))" "st_total s = st_last_id s" "length (om_del i (st_sessions s)) \<le> st_total s"
      using w a len by (auto simp: rows_ok_def)
    then show ?thesis unfolding rows_ok_def f by (intro conjI d l r eq)
  qed
qed

lemma set_protocol_none: "om_get (st_sessions s) i = None \<Longrightarrow> set_protocol i p c a t0 t s = s"
  by (simp add: set_protocol_def)

lemma set_protocol_row:
  assumes "rows_ok s" "om_get (st_sessions s) i = Some r"
  shows "\<exists>w us. sr_id w = i \<and> set_protocol i p c a t0 t s = s\<lparr>st_usage := us, st_sessions := om_put i w (st_sessions s)\<rparr>"
proof -
  define w where "w = r\<lparr>sr_protocol := (if p \<noteq> [] then p else sr_protocol r), sr_chain := c, sr_active := a\<rparr>"
  let ?s = "if sr_active r then close_active_locked t0 r s else s"
  have w: "sr_id w = i" using rows_ok_id[OF assms] by (simp add: w_def)
  have e: "set_protocol i p c a t0 t s =
    (if a \<and> sr_protocol w \<noteq> [] \<and> sr_protocol w \<noteq> ''-'' then
       ?s\<lparr>st_usage := count_start c w (st_usage ?s),
         st_sessions := om_put i (w\<lparr>sr_used := push_new (sr_protocol w) (sr_used w), sr_active_since := t\<rparr>) (st_sessions s)\<rparr>
     else ?s\<lparr>st_sessions := om_put i w (st_sessions s)\<rparr>)"
    unfolding set_protocol_def Let_def assms(2) option.case w_def[symmetric] by (simp add: close_active_locked_def)
  then show ?thesis
  proof (cases "a \<and> sr_protocol w \<noteq> [] \<and> sr_protocol w \<noteq> ''-''")
    case True
    let ?w = "w\<lparr>sr_used := push_new (sr_protocol w) (sr_used w), sr_active_since := t\<rparr>"
    show ?thesis
      by (rule exI[of _ ?w], rule exI[of _ "count_start c w (st_usage ?s)"])
        (insert True w, unfold e, cases "sr_active r", auto simp: close_active_locked_def)
  next
    case False
    show ?thesis
      by (rule exI[of _ w], rule exI[of _ "st_usage ?s"])
        (insert False w, unfold e, cases "sr_active r", auto simp: close_active_locked_def)
  qed
qed

lemma rows_ok_apply: "rows_ok s \<Longrightarrow> rows_ok (stats_apply op s)"
proof (cases op)
  case (Set_Protocol i p c a t0 t)
  assume "rows_ok s"
  then show ?thesis using Set_Protocol set_protocol_row[of s i _ p c a t0 t]
    by (cases "om_get (st_sessions s) i") (auto simp: set_protocol_none intro: rows_ok_put)
next
  case (Set_Pipeline_Active i a t)
  assume "rows_ok s"
  then show ?thesis using Set_Pipeline_Active
    by (cases "om_get (st_sessions s) i")
      (auto simp: set_pipeline_active_def close_active_locked_def intro!: rows_ok_on_session intro: rows_ok_cong)
next
  case (Note_Request i p c wall)
  assume a: "rows_ok s"
  have "rows_ok (on_session i (\<lambda>r. r\<lparr>sr_requested := push_new p (sr_requested r)\<rparr>) s)"
    using a by (rule rows_ok_on_session) simp
  then show ?thesis using Note_Request a by (auto simp: note_request_def Let_def intro: rows_ok_cong)
qed (auto simp: add_log_def clear_log_def register_iq_control_def unregister_iq_control_def register_key_reload_def
    unregister_key_reload_def set_iq_logging_def note_data_def add_bytes_in_def add_bytes_out_def set_freq_def
    rows_ok_add rows_ok_remove intro: rows_ok_cong rows_ok_on_session)

text \<open>The log and the usage.\<close>

lemma log_ok_cong:
  "log_ok s \<Longrightarrow> st_log s' = st_log s \<Longrightarrow> st_log_limit s' = st_log_limit s \<Longrightarrow> log_ok s'"
  by (simp add: log_ok_def)

lemma close_active_log [simp]:
  "st_log (close_active_locked t r s) = st_log s" "st_log_limit (close_active_locked t r s) = st_log_limit s"
  by (simp_all add: close_active_locked_def)

lemma on_session_log [simp]:
  "st_log (on_session i f s) = st_log s" "st_log_limit (on_session i f s) = st_log_limit s"
  "st_usage (on_session i f s) = st_usage s"
  by (simp_all add: on_session_def)

lemma log_ok_apply:
  assumes "log_ok s"
  shows "log_ok (stats_apply op s)"
proof (cases "\<exists>i text wall. op = Add_Log i text wall")
  case True
  then obtain i tx wall where op: "op = Add_Log i tx wall" by blast
  have "length (le_text \<lparr>le_session = i, le_ts = wall,
      le_text = (if 2048 < length tx then take 2048 tx @ [CHR 0xE2, CHR 0x80, CHR 0xA6] else tx), le_freq = f\<rparr>) \<le> 2051"
    for f by simp
  then show ?thesis unfolding op stats_apply.simps add_log_def log_ok_def
    using assms by (auto simp: log_ok_def intro!: push_bounded_all)
next
  case False
  have "st_log (stats_apply op s) = st_log s \<or> st_log (stats_apply op s) = []"
    using False by (cases op) (auto simp: clear_log_def register_iq_control_def unregister_iq_control_def
      register_key_reload_def unregister_key_reload_def set_iq_logging_def add_session_def note_data_def
      add_bytes_in_def add_bytes_out_def note_request_def set_protocol_def set_freq_def set_pipeline_active_def
      stats_remove_session_def Let_def split: option.splits)
  moreover have "st_log_limit (stats_apply op s) = st_log_limit s"
    using False by (cases op) (auto simp: clear_log_def register_iq_control_def unregister_iq_control_def
      register_key_reload_def unregister_key_reload_def set_iq_logging_def add_session_def note_data_def
      add_bytes_in_def add_bytes_out_def note_request_def set_protocol_def set_freq_def set_pipeline_active_def
      stats_remove_session_def Let_def split: option.splits)
  ultimately show ?thesis using assms by (auto simp: log_ok_def)
qed

definition use_ok :: "(string, protocol_usage) omap \<Rightarrow> bool" where
  "use_ok us \<longleftrightarrow> om_wf us \<and> list_all (\<lambda>(p, u). pu_active_now u = 0) us"

lemma use_ok_at: "use_ok us \<Longrightarrow> pu_active_now (om_at protocol_usage0 us p) = 0"
  unfolding use_ok_def using om_at_all[of "\<lambda>u. pu_active_now u = 0" us protocol_usage0 p]
  by (auto simp: protocol_usage0_def)

lemma use_ok_put: "use_ok us \<Longrightarrow> pu_active_now u = 0 \<Longrightarrow> use_ok (om_put p u us)"
  unfolding use_ok_def using om_put_all[of "\<lambda>p u. pu_active_now u = 0" us p u] by simp

lemma use_ok_bank: "use_ok us \<Longrightarrow> use_ok (bank t r us)"
  by (auto simp: bank_def Let_def use_ok_at intro!: use_ok_put)

lemma use_ok_start: "use_ok us \<Longrightarrow> use_ok (count_start c r us)"
  by (auto simp: count_start_def Let_def use_ok_at intro!: use_ok_put)

lemma use_ok_close [simp]: "use_ok (st_usage s) \<Longrightarrow> use_ok (st_usage (close_active_locked t r s))"
  by (simp add: close_active_locked_def use_ok_bank)

lemma use_ok_apply: "use_ok (st_usage s) \<Longrightarrow> use_ok (st_usage (stats_apply op s))"
  by (cases op) (auto simp: add_log_def clear_log_def register_iq_control_def unregister_iq_control_def
      register_key_reload_def unregister_key_reload_def set_iq_logging_def add_session_def note_data_def
      add_bytes_in_def add_bytes_out_def note_request_def set_protocol_def set_freq_def set_pipeline_active_def
      stats_remove_session_def Let_def use_ok_start use_ok_at intro!: use_ok_put split: option.splits)

text \<open>What every run keeps.\<close>

lemma limits_apply [simp]:
  "st_history_limit (stats_apply op s) = st_history_limit s" "st_log_limit (stats_apply op s) = st_log_limit s"
  by (cases op; auto simp: add_log_def clear_log_def register_iq_control_def unregister_iq_control_def
      register_key_reload_def unregister_key_reload_def set_iq_logging_def add_session_def note_data_def
      add_bytes_in_def add_bytes_out_def note_request_def set_protocol_def set_freq_def set_pipeline_active_def
      stats_remove_session_def on_session_def close_active_locked_def Let_def split: option.splits)+

lemma stats_run_kept:
  "rows_ok s \<Longrightarrow> log_ok s \<Longrightarrow> use_ok (st_usage s) \<Longrightarrow>
     rows_ok (stats_run ops s) \<and> log_ok (stats_run ops s) \<and> use_ok (st_usage (stats_run ops s))
     \<and> st_history_limit (stats_run ops s) = st_history_limit s \<and> st_log_limit (stats_run ops s) = st_log_limit s"
  unfolding stats_run_def
  by (induction ops arbitrary: s) (simp_all add: rows_ok_apply log_ok_apply use_ok_apply)

lemma stats_run_start:
  fixes ops h l w t m
  defines "s \<equiv> stats_run ops (server_stats h l w t m)"
  shows "rows_ok s" "log_ok s" "use_ok (st_usage s)" "st_history_limit s = h" "st_log_limit s = l"
  using stats_run_kept[of "server_stats h l w t m" ops]
  by (simp_all add: s_def server_stats_def rows_ok_def log_ok_def use_ok_def)

section \<open>A snapshot adds up\<close>

lemma om_put_sum:
  fixes g :: "'v \<Rightarrow> nat"
  assumes "om_wf m" "g d = 0"
  shows "sum_list (map (g \<circ> snd) (om_put k v m)) + g (om_at d m k) = sum_list (map (g \<circ> snd) m) + g v"
  using assms(1)
proof (induction k v m rule: om_put.induct)
  case (2 k v a b m)
  have "om_get m k = None" if "k < a"
    using 2(2) that by (fastforce simp: om_wf_Cons map_of_eq_None_iff)
  then show ?case using 2 assms(2) by (auto simp: om_wf_Cons om_at_def split: option.splits)
qed (simp add: om_at_def assms)

lemma count_active_sum:
  "om_wf m \<Longrightarrow> om_wf (fold count_active rs m)
     \<and> sum_list (map snd (fold count_active rs m)) = sum_list (map snd m) + length (filter sr_active rs)"
proof (induction rs arbitrary: m)
  case (Cons r rs)
  have "om_wf (count_active r m)" using Cons.prems by (simp add: count_active_def)
  moreover have "sum_list (map snd (count_active r m)) = sum_list (map snd m) + (if sr_active r then 1 else 0)"
    using om_put_sum[OF Cons.prems, of id 0 "shown_protocol r" "om_at 0 m (shown_protocol r) + 1"]
    by (auto simp: count_active_def)
  ultimately show ?case using Cons.IH[of "count_active r m"] by simp
qed simp

lemma use_now_sum:
  "om_wf us \<Longrightarrow> om_wf (fold (use_now t) rs us)
     \<and> sum_list (map (pu_active_now \<circ> snd) (fold (use_now t) rs us))
       = sum_list (map (pu_active_now \<circ> snd) us) + length (filter sr_active rs)"
proof (induction rs arbitrary: us)
  case (Cons r rs)
  have "om_wf (use_now t r us)" using Cons.prems by (simp add: use_now_def Let_def)
  moreover have "sum_list (map (pu_active_now \<circ> snd) (use_now t r us))
      = sum_list (map (pu_active_now \<circ> snd) us) + (if sr_active r then 1 else 0)"
  proof -
    have z: "pu_active_now protocol_usage0 = 0" by (simp add: protocol_usage0_def)
    have "sum_list (map (pu_active_now \<circ> snd) (om_put k v us)) = sum_list (map (pu_active_now \<circ> snd) us) + 1"
      if "pu_active_now v = pu_active_now (om_at protocol_usage0 us k) + 1" for k v
      using om_put_sum[OF Cons.prems, of pu_active_now, OF z, of k v] that by simp
    then show ?thesis by (simp add: use_now_def Let_def)
  qed
  ultimately show ?case using Cons.IH[of "use_now t r us"] by (simp add: comp_def)
qed simp

lemma use_ok_sum: "use_ok us \<Longrightarrow> sum_list (map (pu_active_now \<circ> snd) us) = 0"
  by (auto simp: use_ok_def list_all_iff)

lemma sum_list_sort_key: "sum_list (map g (sort_key f xs)) = (sum_list (map g xs) :: nat)"
  by (metis mset_map mset_sort sum_mset_sum_list)

lemma snapshot_sums:
  assumes "use_ok (st_usage s)"
  shows "sum_list (map snd (sn_by_protocol (snapshot_of u t s))) = sn_active (snapshot_of u t s)"
    and "sum_list (map pu_active_now (sn_protocols (snapshot_of u t s))) = sn_active (snapshot_of u t s)"
  using count_active_sum[of "[]" "map snd (st_sessions s)"] use_ok_sum[OF assms]
    use_now_sum[of "st_usage s" t "map snd (st_sessions s)"] assms
  by (simp_all add: snapshot_of_def Let_def sum_list_sort_key use_ok_def)

lemma snapshot_sorted: "sorted_wrt (\<lambda>a b. pu_last b \<le> pu_last a) (sn_protocols (snapshot_of u t s))"
  using sorted_sort_key[of "\<lambda>u. - pu_last u"] by (simp add: snapshot_of_def Let_def sorted_wrt_map sorted_map)

lemma image_apart: "\<forall>x \<in> X. g x \<notin> A \<Longrightarrow> A \<inter> g ` X = {}"
  by blast

text \<open>
  C29. A snapshot of the registry, taken after any operations, is consistent: its sessions and its history name
  no session twice and together account for every connection, up to the history limit; the pipelines counted by
  protocol and those of the usage table both add up to the active ones; the log is within its limit; and the
  protocols stand latest request first.
\<close>
theorem snapshot_consistent:
  "let s = stats_run ops (server_stats h l wall tick m); n = snapshot_of up_tick now_tick s
   in distinct (map sr_id (sn_rows n) @ map fr_id (sn_history n))
      \<and> sn_current n = length (sn_rows n) \<and> length (sn_history n) = min h (sn_total n - sn_current n)
      \<and> sn_current n \<le> sn_total n
      \<and> sum_list (map snd (sn_by_protocol n)) = sn_active n
      \<and> sum_list (map pu_active_now (sn_protocols n)) = sn_active n
      \<and> sn_log_lines n \<le> l
      \<and> sorted_wrt (\<lambda>a b. pu_last b \<le> pu_last a) (sn_protocols n)"
proof -
  let ?s = "stats_run ops (server_stats h l wall tick m)"
  note k = stats_run_start[of ops h l wall tick m]
  have i: "map sr_id (map snd (st_sessions ?s)) = map fst (st_sessions ?s)"
    using k(1) by (auto simp: rows_ok_def list_all_iff)
  have "distinct (map fst (st_sessions ?s))" using k(1) by (simp add: rows_ok_def om_wf_distinct)
  moreover have "fst ` set (st_sessions ?s) \<inter> fr_id ` set (st_history ?s) = {}"
  proof -
    have "\<forall>f \<in> set (st_history ?s). fr_id f \<notin> fst ` set (st_sessions ?s)"
      using k(1) unfolding rows_ok_def list_all_iff map_of_eq_None_iff by blast
    then show ?thesis by (rule image_apart)
  qed
  moreover have "distinct (map fr_id (rev (st_history ?s)))" using k(1) by (simp add: rows_ok_def rev_map[symmetric])
  ultimately have d: "distinct (map sr_id (map snd (st_sessions ?s)) @ map fr_id (rev (st_history ?s)))"
    unfolding i distinct_append set_map set_rev by (intro conjI)
  show ?thesis unfolding Let_def using d k snapshot_sums[OF k(3)] snapshot_sorted
    by (simp add: snapshot_of_def Let_def rows_ok_def log_ok_def del: map_map)
qed

end
