(* ===== verification/Session_Text.thy ===== *)
theory Session_Text
  imports Dataset Assoc_Admin
begin

text \<open>
  The pure helpers of \<open>src/session.cpp\<close>: query strings and routes, names that may be served or written, the
  protocol and key schemes a client may ask for, and the settings read from the environment. An environment
  variable is its value, \<open>None\<close> when it is unset.
\<close>

section \<open>Environment\<close>

text \<open>A set, non-empty variable.\<close>

definition env_set :: "string option \<Rightarrow> string option" where
  "env_set v = (case v of None \<Rightarrow> None | Some s \<Rightarrow> if s = [] then None else Some s)"

definition path_join :: "string \<Rightarrow> string \<Rightarrow> string" where
  "path_join dir name =
     (if starts_with name ''/'' then name
      else if dir = [] \<or> ends_with dir ''/'' then dir @ name else dir @ ''/'' @ name)"

record net_env =
  ne_log_dir :: "string option"
  ne_iq_log_dir :: "string option"
  ne_merges_file :: "string option"
  ne_keys_file :: "string option"
  ne_log_max_mb :: "string option"
  ne_audio_dir :: "string option"
  ne_audio_max_mb :: "string option"
  ne_import_audio_max_mb :: "string option"
  ne_audio_max_age_h :: "string option"
  ne_settings_file :: "string option"
  ne_freq_step :: "string option"
  ne_iq_max_mb :: "string option"
  ne_no_apply_keys :: "string option"
  ne_tetra_coherent :: "string option"

definition net_log_dir :: "net_env \<Rightarrow> string" where
  "net_log_dir e =
     (case env_set (ne_log_dir e) of
        Some d \<Rightarrow> d
      | None \<Rightarrow> (case env_set (ne_iq_log_dir e) of Some d \<Rightarrow> d | None \<Rightarrow> ''.''))"

text \<open>A file set in the environment, or a name in the recordings folder.\<close>

definition file_or :: "string option \<Rightarrow> string \<Rightarrow> net_env \<Rightarrow> string" where
  "file_or v name e = (case env_set v of Some f \<Rightarrow> f | None \<Rightarrow> path_join (net_log_dir e) name)"

definition net_merges_file :: "net_env \<Rightarrow> string" where
  "net_merges_file e = file_or (ne_merges_file e) ''net_merges.json'' e"

definition net_keys_file :: "net_env \<Rightarrow> string" where
  "net_keys_file e = file_or (ne_keys_file e) ''net_keys.json'' e"

definition net_settings_file :: "net_env \<Rightarrow> string" where
  "net_settings_file e = file_or (ne_settings_file e) ''net_settings.json'' e"

definition net_audio_dir :: "net_env \<Rightarrow> string" where
  "net_audio_dir e = file_or (ne_audio_dir e) ''net_audio'' e"

definition net_import_audio_dir :: "net_env \<Rightarrow> string" where
  "net_import_audio_dir e = path_join (net_audio_dir e) ''imported''"

text \<open>A size in megabytes, 1024 when unset; the product wraps in 64 bits.\<close>

definition max_bytes :: "string option \<Rightarrow> nat" where
  "max_bytes v = ((case env_set v of Some s \<Rightarrow> strtoul s | None \<Rightarrow> 1024) * 1024 * 1024) mod 2 ^ 64"

definition net_log_max_bytes :: "net_env \<Rightarrow> nat" where
  "net_log_max_bytes e = max_bytes (ne_log_max_mb e)"

definition net_audio_max_bytes :: "net_env \<Rightarrow> nat" where
  "net_audio_max_bytes e = max_bytes (ne_audio_max_mb e)"

definition net_import_audio_max_bytes :: "net_env \<Rightarrow> nat" where
  "net_import_audio_max_bytes e = max_bytes (ne_import_audio_max_mb e)"

definition iq_log_dir :: "net_env \<Rightarrow> string" where
  "iq_log_dir e = (case env_set (ne_iq_log_dir e) of Some d \<Rightarrow> d | None \<Rightarrow> ''.'')"

definition iq_log_max_bytes :: "net_env \<Rightarrow> nat" where
  "iq_log_max_bytes e = max_bytes (ne_iq_max_mb e)"

definition env_on :: "string option \<Rightarrow> bool" where
  "env_on v =
     (case env_set v of
        None \<Rightarrow> False
      | Some s \<Rightarrow> hd s \<in> {CHR ''1'', CHR ''y'', CHR ''Y'', CHR ''t'', CHR ''T''} \<or> s = ''on'')"

section \<open>Query strings and routes\<close>

fun url_decode :: "string \<Rightarrow> string" where
  "url_decode [] = []"
| "url_decode (c # r) =
     (if c = CHR ''+'' then CHR '' '' # url_decode r
      else if c = CHR ''%'' then
        (case r of
           a # b # q \<Rightarrow>
             if is_xdigit a \<and> is_xdigit b then chr (hex_num [a, b]) # url_decode q else c # url_decode r
         | _ \<Rightarrow> c # url_decode r)
      else c # url_decode r)"

text \<open>The parts of a text between separators; there is always one more than there are separators.\<close>

fun segments :: "char \<Rightarrow> string \<Rightarrow> string list" where
  "segments c [] = [[]]"
| "segments c (d # r) =
     (if d = c then [] # segments c r
      else (case segments c r of [] \<Rightarrow> [[d]] | x # xs \<Rightarrow> (d # x) # xs))"

definition pair_key :: "string \<Rightarrow> string" where
  "pair_key kv = (case find_char (CHR ''='') kv of None \<Rightarrow> kv | Some i \<Rightarrow> take i kv)"

definition pair_value :: "string \<Rightarrow> string" where
  "pair_value kv = (case find_char (CHR ''='') kv of None \<Rightarrow> [] | Some i \<Rightarrow> url_decode (drop (i + 1) kv))"

definition query_param :: "string \<Rightarrow> string \<Rightarrow> string" where
  "query_param query key =
     (case find (\<lambda>kv. pair_key kv = key) (segments (CHR ''&'') query) of None \<Rightarrow> [] | Some kv \<Rightarrow> pair_value kv)"

definition net_key_route :: "string \<Rightarrow> string \<Rightarrow> string" where
  "net_key_route target action =
     (let suf = ''/'' @ action
      in if length target \<le> 5 + length suf \<or> \<not> starts_with target ''/net/'' \<or> \<not> ends_with target suf then []
         else (let kind = take (length target - 5 - length suf) (drop 5 target)
               in if find_kind kind = None then [] else kind))"

section \<open>Names\<close>

definition asr_char :: "char \<Rightarrow> bool" where
  "asr_char c \<longleftrightarrow> is_alnum c \<or> c = CHR ''.'' \<or> c = CHR ''_'' \<or> c = CHR ''-''"

definition asr_segment_ok :: "string \<Rightarrow> bool" where
  "asr_segment_ok seg \<longleftrightarrow> seg \<noteq> [] \<and> hd seg \<noteq> CHR ''.'' \<and> list_all asr_char seg"

definition asr_rel_ok :: "string \<Rightarrow> bool" where
  "asr_rel_ok rel \<longleftrightarrow> rel \<noteq> [] \<and> length rel \<le> 200 \<and> list_all asr_segment_ok (segments (CHR ''/'') rel)"

definition asr_content_type :: "string \<Rightarrow> string" where
  "asr_content_type rel =
     (if ends_with rel ''.js'' \<or> ends_with rel ''.mjs'' then ''text/javascript''
      else if ends_with rel ''.wasm'' then ''application/wasm''
      else if ends_with rel ''.json'' then ''application/json''
      else if ends_with rel ''.txt'' then ''text/plain; charset=utf-8''
      else ''application/octet-stream'')"

definition sanitize_char :: "char \<Rightarrow> string" where
  "sanitize_char c = (if is_alnum c then [to_lower c] else if c = CHR ''-'' \<or> c = CHR ''_'' then [c] else [])"

definition sanitize_token :: "string \<Rightarrow> string" where
  "sanitize_token s = (let t = concat (map sanitize_char s) in take 24 (if t = [] then ''auto'' else t))"

section \<open>Protocols\<close>

datatype protocol_hint =
    Default | Dmr | Nxdn48 | Nxdn96 | P25p1 | P25p2 | Dpmr | Dstar | Ysf | Auto | Tetra | Tetrakit
  | ProVoice | Edacs | EdacsEsk | EdacsEa | EdacsEaEsk | X2tdma
  | PagerAuto | Pocsag | Pocsag512 | Pocsag1200 | Pocsag2400 | Flex

text \<open>Lower case, without blanks, underscores and hyphens.\<close>

definition squeeze :: "string \<Rightarrow> string" where
  "squeeze s = filter (\<lambda>c. c \<noteq> CHR '' '' \<and> c \<noteq> CHR ''_'' \<and> c \<noteq> CHR ''-'') (map to_lower s)"

definition parse_protocol_hint :: "string \<Rightarrow> protocol_hint" where
  "parse_protocol_hint s =
     (let k = squeeze s
      in if k = [] then Default
         else if k = ''dmr'' then Dmr
         else if k \<in> {''nxdn48'', ''nxdn'', ''idas''} then Nxdn48
         else if k = ''nxdn96'' then Nxdn96
         else if k \<in> {''p25p2'', ''p25phase2''} then P25p2
         else if k \<in> {''p25'', ''p25p1'', ''p25phase1''} then P25p1
         else if k = ''dpmr'' then Dpmr
         else if k = ''dstar'' then Dstar
         else if k \<in> {''ysf'', ''fusion'', ''systemfusion'', ''c4fm''} then Ysf
         else if k \<in> {''tetra'', ''tetraosmo'', ''osmotetra''} then Tetra
         else if k = ''tetrakit'' then Tetrakit
         else if k \<in> {''provoice'', ''pv''} then ProVoice
         else if k \<in> {''edacsesk'', ''edacsstdesk'', ''edacsnetesk''} then EdacsEsk
         else if k = ''edacseaesk'' then EdacsEaEsk
         else if k = ''edacsea'' then EdacsEa
         else if k \<in> {''edacs'', ''edacsstd'', ''edacsnet''} then Edacs
         else if k \<in> {''x2tdma'', ''x2'', ''x2t''} then X2tdma
         else if k \<in> {''pagerauto'', ''pager'', ''paging''} then PagerAuto
         else if k = ''pocsag'' then Pocsag
         else if k = ''pocsag512'' then Pocsag512
         else if k = ''pocsag1200'' then Pocsag1200
         else if k = ''pocsag2400'' then Pocsag2400
         else if k \<in> {''flex'', ''flexnext''} then Flex
         else Auto)"

definition hint_is_tetra :: "protocol_hint \<Rightarrow> bool" where
  "hint_is_tetra h \<longleftrightarrow> h = Tetra \<or> h = Tetrakit"

definition hint_is_pager :: "protocol_hint \<Rightarrow> bool" where
  "hint_is_pager h \<longleftrightarrow> h \<in> {PagerAuto, Pocsag, Pocsag512, Pocsag1200, Pocsag2400, Flex}"

fun pager_demods :: "protocol_hint \<Rightarrow> string list" where
  "pager_demods Pocsag = [''POCSAG512'', ''POCSAG1200'', ''POCSAG2400'']"
| "pager_demods Pocsag512 = [''POCSAG512'']"
| "pager_demods Pocsag1200 = [''POCSAG1200'']"
| "pager_demods Pocsag2400 = [''POCSAG2400'']"
| "pager_demods Flex = [''FLEX_NEXT'']"
| "pager_demods _ = [''POCSAG512'', ''POCSAG1200'', ''POCSAG2400'', ''FLEX_NEXT'']"

fun protocol_hint_label :: "protocol_hint \<Rightarrow> string" where
  "protocol_hint_label Dmr = ''dmr''"
| "protocol_hint_label Nxdn48 = ''nxdn48''"
| "protocol_hint_label Nxdn96 = ''nxdn96''"
| "protocol_hint_label P25p1 = ''p25p1''"
| "protocol_hint_label P25p2 = ''p25p2''"
| "protocol_hint_label Dpmr = ''dpmr''"
| "protocol_hint_label Dstar = ''dstar''"
| "protocol_hint_label Ysf = ''ysf''"
| "protocol_hint_label Tetra = ''tetra''"
| "protocol_hint_label Tetrakit = ''tetrakit''"
| "protocol_hint_label ProVoice = ''provoice''"
| "protocol_hint_label Edacs = ''edacs''"
| "protocol_hint_label EdacsEsk = ''edacs_esk''"
| "protocol_hint_label EdacsEa = ''edacs_ea''"
| "protocol_hint_label EdacsEaEsk = ''edacs_ea_esk''"
| "protocol_hint_label X2tdma = ''x2tdma''"
| "protocol_hint_label PagerAuto = ''pager-auto''"
| "protocol_hint_label Pocsag = ''pocsag''"
| "protocol_hint_label Pocsag512 = ''pocsag512''"
| "protocol_hint_label Pocsag1200 = ''pocsag1200''"
| "protocol_hint_label Pocsag2400 = ''pocsag2400''"
| "protocol_hint_label Flex = ''flex''"
| "protocol_hint_label Auto = ''auto''"
| "protocol_hint_label Default = ''dmr''"

text \<open>The mode letter of dsd-fme.\<close>

fun mode_flag :: "protocol_hint \<Rightarrow> string" where
  "mode_flag Nxdn48 = ''i''"
| "mode_flag Nxdn96 = ''n''"
| "mode_flag P25p1 = ''1''"
| "mode_flag P25p2 = ''2''"
| "mode_flag Dpmr = ''m''"
| "mode_flag Dstar = ''d''"
| "mode_flag Ysf = ''y''"
| "mode_flag ProVoice = ''p''"
| "mode_flag Edacs = ''h''"
| "mode_flag EdacsEsk = ''H''"
| "mode_flag EdacsEa = ''e''"
| "mode_flag EdacsEaEsk = ''E''"
| "mode_flag X2tdma = ''x''"
| "mode_flag Auto = ''a''"
| "mode_flag _ = ''s''"

section \<open>Keys\<close>

datatype key_type = No_Key | Bp | Rc4 | Des | Aes | Hytera | Scrambler

definition parse_key_type :: "string \<Rightarrow> key_type" where
  "parse_key_type s =
     (let k = squeeze s
      in if k = [] then No_Key
         else if k \<in> {''bp'', ''basicprivacy'', ''dmrbp''} then Bp
         else if k = ''rc4'' then Rc4
         else if k = ''des'' then Des
         else if k \<in> {''aes'', ''aes128'', ''aes256''} then Aes
         else if k \<in> {''hytera'', ''hyterabp''} then Hytera
         else if k \<in> {''scrambler'', ''nxdnscrambler'', ''dpmrscrambler'', ''ehr''} then Scrambler
         else No_Key)"

definition key_value_is_valid :: "string \<Rightarrow> bool" where
  "key_value_is_valid v \<longleftrightarrow> list_all (\<lambda>c. is_xdigit c \<or> c = CHR '' '') v \<and> list_ex is_xdigit v"

fun key_flag :: "key_type \<Rightarrow> string option" where
  "key_flag Bp = Some ''-b''"
| "key_flag Rc4 = Some ''-1''"
| "key_flag Des = Some ''-1''"
| "key_flag Aes = Some ''-H''"
| "key_flag Hytera = Some ''-H''"
| "key_flag Scrambler = Some ''-R''"
| "key_flag No_Key = None"

text \<open>The option of a forced per-network key; \<open>None\<close> where \<open>at\<close> would throw.\<close>

definition forced_flag :: "string \<Rightarrow> string option" where
  "forced_flag kind =
     map_of [(''tytep'', ''-5''), (''tytbp'', ''-2''), (''anybp'', ''-A''), (''tytap'', ''-!''), (''bfap'', ''-+''),
             (''rtap'', ''-@'')] kind"

text \<open>Groups of sixteen digits, separated by blanks.\<close>

function key_words :: "string \<Rightarrow> string" where
  "key_words v = (if length v \<le> 16 then v else take 16 v @ '' '' @ key_words (drop 16 v))"
  by auto
termination by (relation "measure length") auto

declare key_words.simps [simp del]

section \<open>Pages and logs\<close>

definition with_ui :: "string \<Rightarrow> string \<Rightarrow> string" where
  "with_ui json ui =
     (case json of
        c # d # r \<Rightarrow>
          if c \<noteq> CHR ''{'' then json
          else jt ''{`ui`:`'' @ ui @ [dq] @ (if d = CHR ''}'' then [] else '','') @ d # r
      | _ \<Rightarrow> json)"

definition skip_from_log :: "string \<Rightarrow> bool" where
  "skip_from_log msg \<longleftrightarrow>
     str_has msg (jt ''`type`:`capabilities`'')
     \<or> str_has msg (jt ''`type`:`event`'') \<and> str_has msg (jt ''`kind`:`voice`'')"

section \<open>Labels, options and advertised names agree\<close>

text \<open>
  The label under which a protocol is shown is read back as that protocol, so a client may echo it; only the
  absent hint becomes DMR, whose decoder it runs anyway.
\<close>
theorem hint_label_round_trip:
  "parse_protocol_hint (protocol_hint_label h) = (if h = Default then Dmr else h)
   \<and> mode_flag (parse_protocol_hint (protocol_hint_label h)) = mode_flag h
   \<and> hint_is_tetra (parse_protocol_hint (protocol_hint_label h)) = hint_is_tetra h
   \<and> hint_is_pager (parse_protocol_hint (protocol_hint_label h)) = hint_is_pager h"
  by (cases h) (simp_all add: parse_protocol_hint_def squeeze_def to_lower_def is_upper_def hint_is_tetra_def hint_is_pager_def)

lemma forced_flags_known: "list_all (\<lambda>k. nk_forced k \<longrightarrow> forced_flag (nk_id k) \<noteq> None) net_key_kinds"
  by (simp add: net_key_kinds_def forced_flag_def)

section \<open>Names that reach the file system\<close>

lemma sanitize_safe:
  "list_all (\<lambda>c. is_lower c \<or> is_digit c \<or> c = CHR ''-'' \<or> c = CHR ''_'') (sanitize_token s)"
  and sanitize_length: "0 < length (sanitize_token s)" "length (sanitize_token s) \<le> 24"
proof -
  have a: "list_all (\<lambda>c. is_lower c \<or> is_digit c \<or> c = CHR ''-'' \<or> c = CHR ''_'') (sanitize_char c)" for c
    by (auto simp: sanitize_char_def is_alnum_def is_alpha_def to_lower_def is_lower_def is_upper_def is_digit_def byte_chr)
  then have "list_all (\<lambda>c. is_lower c \<or> is_digit c \<or> c = CHR ''-'' \<or> c = CHR ''_'') (concat (map sanitize_char s))"
    by (induction s) auto
  moreover have "list_all (\<lambda>c. is_lower c \<or> is_digit c \<or> c = CHR ''-'' \<or> c = CHR ''_'') ''auto''"
    by (simp add: is_lower_def)
  ultimately have "list_all (\<lambda>c. is_lower c \<or> is_digit c \<or> c = CHR ''-'' \<or> c = CHR ''_'')
      (if concat (map sanitize_char s) = [] then ''auto'' else concat (map sanitize_char s))" by simp
  then show "list_all (\<lambda>c. is_lower c \<or> is_digit c \<or> c = CHR ''-'' \<or> c = CHR ''_'') (sanitize_token s)"
    unfolding sanitize_token_def Let_def list_all_iff using set_take_subset by fast
  show "0 < length (sanitize_token s)" "length (sanitize_token s) \<le> 24"
    by (simp_all add: sanitize_token_def Let_def)
qed

lemma segments_nonempty [simp]: "segments c s \<noteq> []"
  by (induction s) (auto split: list.splits)

section \<open>Query strings\<close>

text \<open>A standard encoder: letters, digits and a few marks as they are, a blank as a plus, other bytes in hex.\<close>

definition url_plain :: "char \<Rightarrow> bool" where
  "url_plain c \<longleftrightarrow> is_alnum c \<or> c = CHR ''-'' \<or> c = CHR ''_'' \<or> c = CHR ''.'' \<or> c = CHR ''~''"

definition url_char :: "char \<Rightarrow> string" where
  "url_char c =
     (if url_plain c then [c] else if c = CHR '' '' then ''+''
      else [CHR ''%'', hex_digit (byte c div 16), hex_digit (byte c mod 16)])"

definition url_encode :: "string \<Rightarrow> string" where
  "url_encode s = concat (map url_char s)"

definition query_text :: "(string \<times> string) list \<Rightarrow> string" where
  "query_text ps = (case map (\<lambda>(k, v). k @ ''='' @ url_encode v) ps of [] \<Rightarrow> [] | x # xs \<Rightarrow> x @ concat (map (\<lambda>y. CHR ''&'' # y) xs))"

lemma hex_num_pair: "a < 16 \<Longrightarrow> b < 16 \<Longrightarrow> hex_num [hex_digit a, hex_digit b] = 16 * a + b"
  by (simp add: hex_num_def str_simps)

lemma url_plain_char: "url_plain c \<Longrightarrow> c \<noteq> CHR ''+'' \<and> c \<noteq> CHR ''%'' \<and> c \<noteq> CHR ''&''"
  by (auto simp: url_plain_def is_alnum_def is_alpha_def is_upper_def is_lower_def is_digit_def)

lemma byte_halves: "byte c div 16 < 16" "16 * (byte c div 16) + byte c mod 16 = byte c"
  using byte_less[of c] by (simp_all add: less_mult_imp_div_less)

lemma url_decode_encode: "url_decode (url_encode s @ r) = s @ url_decode r"
proof (induction s)
  case (Cons c s)
  show ?case
  proof (cases "url_plain c")
    case True
    then show ?thesis using Cons url_plain_char[of c] by (simp add: url_encode_def url_char_def)
  next
    case False
    have "16 * (byte c div 16) + byte c mod 16 = byte c" by (rule byte_halves)
    then have "hex_num [hex_digit (byte c div 16), hex_digit (byte c mod 16)] = byte c"
      using hex_num_pair[of "byte c div 16" "byte c mod 16"] byte_halves(1)[of c] by simp
    then show ?thesis using False Cons byte_halves(1)[of c] hex_digit_xdigit
      by (auto simp: url_encode_def url_char_def)
  qed
qed (simp add: url_encode_def)

lemma url_encode_no_amp: "CHR ''&'' \<notin> set (url_encode s)"
proof -
  have "hex_digit d \<noteq> CHR ''&''" if "d < 16" for d
    using hex_digit_xdigit[OF that] by (auto simp: is_xdigit_def is_digit_def)
  from this[symmetric] have "CHR ''&'' \<notin> set (url_char c)" for c
    using url_plain_char[of c] byte_halves(1)[of c] by (auto simp: url_char_def)
  then show ?thesis by (simp add: url_encode_def)
qed

lemma segments_first: "c \<notin> set x \<Longrightarrow> segments c (x @ c # r) = x # segments c r"
  by (induction x) auto

lemma segments_last: "c \<notin> set x \<Longrightarrow> segments c x = [x]"
  by (induction x) auto

lemma find_char_first: "c \<notin> set k \<Longrightarrow> find_char c (k @ c # v) = Some (length k)"
  by (induction k) auto

definition name_ok :: "string \<Rightarrow> bool" where
  "name_ok k \<longleftrightarrow> CHR ''&'' \<notin> set k \<and> CHR ''='' \<notin> set k"

lemma pair_split:
  assumes "name_ok k"
  shows "pair_key (k @ ''='' @ url_encode v) = k" and "pair_value (k @ ''='' @ url_encode v) = v"
  using assms find_char_first[of "CHR ''=''" k "url_encode v"] url_decode_encode[of v "[]"]
  by (simp_all add: pair_key_def pair_value_def name_ok_def)

lemma segments_query:
  assumes "list_all (\<lambda>p. name_ok (fst p)) ps" "ps \<noteq> []"
  shows "segments (CHR ''&'') (query_text ps) = map (\<lambda>(k, v). k @ ''='' @ url_encode v) ps"
  using assms
proof (induction ps)
  case (Cons p ps)
  obtain k v where p: "p = (k, v)" by (cases p)
  let ?x = "k @ ''='' @ url_encode v"
  have x: "CHR ''&'' \<notin> set ?x" using Cons.prems url_encode_no_amp by (auto simp: p name_ok_def)
  show ?case
  proof (cases ps)
    case Nil
    then show ?thesis using segments_last[OF x] by (simp add: p query_text_def)
  next
    case (Cons q qs)
    then have "query_text (p # ps) = ?x @ CHR ''&'' # query_text ps" by (simp add: p query_text_def case_prod_beta)
    then show ?thesis using segments_first[OF x] Cons.IH Cons.prems Cons by (simp add: p)
  qed
qed simp

lemma find_pair:
  "list_all (\<lambda>p. name_ok (fst p)) ps \<Longrightarrow>
     (case find (\<lambda>kv. pair_key kv = key) (map (\<lambda>(k, v). k @ ''='' @ url_encode v) ps) of None \<Rightarrow> [] | Some kv \<Rightarrow> pair_value kv)
     = (case map_of ps key of None \<Rightarrow> [] | Some v \<Rightarrow> v)"
  by (induction ps) (auto simp: pair_split[simplified])

text \<open>
  The value of a parameter in a query string that a client built by percent-encoding is that value, byte for
  byte, whatever bytes it has; a parameter that is not there reads as empty, and the first one counts.
\<close>
theorem query_param_reads:
  assumes "list_all (\<lambda>p. name_ok (fst p)) ps" "ps \<noteq> []"
  shows "query_param (query_text ps) key = (case map_of ps key of None \<Rightarrow> [] | Some v \<Rightarrow> v)"
  unfolding query_param_def segments_query[OF assms] by (rule find_pair[OF assms(1)])

lemma query_param_reads_witness:
  "query_param (query_text [(''fam'', ''dmr''), (''net'', ''a&b=c %'')]) ''net'' = ''a&b=c %''"
  using query_param_reads[of "[(''fam'', ''dmr''), (''net'', ''a&b=c %'')]" "''net''"] by (simp add: name_ok_def)

end
