(* ===== verification/Capabilities.thy ===== *)
theory Capabilities
  imports Session_Text
begin

text \<open>
  The frame of \<open>src/protocol_capabilities.hpp\<close> that every client is sent first: the protocols the server
  decodes and the keys its events may carry.
\<close>

datatype key_backend = Fme_Key | Both_Key | Tetra_Key | Pager_Key

definition cap_key_active :: "key_backend \<Rightarrow> bool" where
  "cap_key_active b = True"

record cap_key =
  ck_key :: string
  ck_backend :: key_backend

record cap_family =
  cf_field :: string
  cf_keys :: "cap_key list"

definition cap_keys :: "key_backend \<Rightarrow> string list \<Rightarrow> cap_key list" where
  "cap_keys b = map (\<lambda>k. \<lparr>ck_key = k, ck_backend = b\<rparr>)"

definition cap_protocols :: "cap_key list" where
  "cap_protocols =
     cap_keys Both_Key [''dmr'', ''nxdn48'', ''nxdn96'', ''dpmr'', ''dstar'', ''ysf'']
     @ cap_keys Fme_Key [''p25'', ''p25p2'', ''provoice'', ''edacs'', ''edacs_esk'', ''edacs_ea'', ''edacs_ea_esk'', ''x2tdma'']
     @ cap_keys Tetra_Key [''tetra'', ''tetrakit'']
     @ cap_keys Pager_Key [''pager-auto'', ''pocsag'', ''pocsag512'', ''pocsag1200'', ''pocsag2400'', ''flex'']
     @ cap_keys Both_Key [''auto'']"

definition cap_families :: "cap_family list" where
  "cap_families =
     [\<lparr>cf_field = ''extra_keys_dmr'', cf_keys =
        cap_keys Fme_Key [''network_type'', ''network_id'', ''site_id'', ''rest_channel'', ''lcn'', ''svc'', ''alg_id'',
           ''key_id'', ''gps'']\<rparr>,
      \<lparr>cf_field = ''extra_keys_p25'', cf_keys =
        cap_keys Fme_Key [''rfss'', ''site_id'', ''system_id'', ''wacn'', ''alg_id'', ''key_id'', ''gps'']\<rparr>,
      \<lparr>cf_field = ''extra_keys_nxdn'', cf_keys =
        cap_keys Both_Key [''site_code'', ''system_code'', ''location_id'']
        @ cap_keys Fme_Key [''category'', ''alg_id'', ''key_id'']\<rparr>,
      \<lparr>cf_field = ''extra_keys_dstar'', cf_keys =
        cap_keys Both_Key [''rpt1'', ''rpt2'', ''radio_text'']\<rparr>,
      \<lparr>cf_field = ''extra_keys_ysf'', cf_keys =
        cap_keys Both_Key [''uplink'', ''downlink'', ''call_mode'', ''data_type'', ''src_rid'', ''dst_rid'']\<rparr>,
      \<lparr>cf_field = ''extra_keys_edacs'', cf_keys =
        cap_keys Fme_Key [''lcn'', ''afs'', ''lid'', ''system_id'']\<rparr>,
      \<lparr>cf_field = ''extra_keys_tetra'', cf_keys =
        cap_keys Tetra_Key [''mcc'', ''mnc'', ''la'', ''dlf'', ''ulf'', ''crypt'', ''cid'', ''nid'', ''idx'', ''status'',
           ''afc'', ''func'', ''service'', ''pdu'', ''usage_marker'', ''dl_usage_marker'', ''encr'']\<rparr>,
      \<lparr>cf_field = ''extra_keys_pager'', cf_keys =
        cap_keys Pager_Key [''protocol'', ''baud'', ''message_type'', ''function'', ''flex_type'', ''levels'', ''phase'',
           ''cycle'', ''frame'', ''addr_type'', ''group'', ''fragment'', ''info_type'', ''payload'']\<rparr>]"

text \<open>The keys a build can emit, joined.\<close>

definition join_keys :: "cap_key list \<Rightarrow> string" where
  "join_keys ks = fold (\<lambda>k out. if cap_key_active (ck_backend k) then (if out = [] then [] else out @ ''; '') @ ck_key k else out) ks []"

definition cap_join_family :: "cap_family \<Rightarrow> string" where
  "cap_join_family f = join_keys (cf_keys f)"

definition add_family :: "cap_family \<Rightarrow> writer \<Rightarrow> writer" where
  "add_family f w = (if cap_join_family f = [] then w else w_field_str (cf_field f) (cap_join_family f) w)"

definition build_capabilities_json :: string where
  "build_capabilities_json =
     w_str (fold add_family cap_families
       (w_field_str ''event_kinds'' ''voice; sync; call; message; burst; page; unknown''
         (w_field_str ''audio'' ''pcm_s16le_8000_mono''
           (w_field_str ''protocols'' (join_keys cap_protocols)
             (w_field_str ''type'' ''capabilities'' w_new)))))"

section \<open>What is advertised can be asked for\<close>

text \<open>
  The protocols the server advertises are exactly those it decodes: each is read back as a protocol of its
  own, none twice, and every protocol but the absent hint is among them.
\<close>
theorem advertised_protocols:
  "set (map (\<lambda>k. parse_protocol_hint (ck_key k)) cap_protocols) = UNIV - {Default}
   \<and> distinct (map (\<lambda>k. parse_protocol_hint (ck_key k)) cap_protocols)"
proof -
  have e: "map (\<lambda>k. parse_protocol_hint (ck_key k)) cap_protocols =
     [Dmr, Nxdn48, Nxdn96, Dpmr, Dstar, Ysf, P25p1, P25p2, ProVoice, Edacs, EdacsEsk, EdacsEa, EdacsEaEsk, X2tdma,
      Tetra, Tetrakit, PagerAuto, Pocsag, Pocsag512, Pocsag1200, Pocsag2400, Flex, Auto]"
    by (simp add: cap_protocols_def cap_keys_def parse_protocol_hint_def squeeze_def to_lower_def is_upper_def)
  have "h \<in> set [Dmr, Nxdn48, Nxdn96, Dpmr, Dstar, Ysf, P25p1, P25p2, ProVoice, Edacs, EdacsEsk, EdacsEa, EdacsEaEsk,
      X2tdma, Tetra, Tetrakit, PagerAuto, Pocsag, Pocsag512, Pocsag1200, Pocsag2400, Flex, Auto] \<longleftrightarrow> h \<noteq> Default" for h
    by (cases h) simp_all
  then show ?thesis unfolding e by auto
qed

section \<open>The frame is not logged\<close>

lemma str_find_here: "str_find n (n @ q) \<noteq> None"
proof (cases "n @ q")
  case (Cons c r)
  moreover have "take (length n) (n @ q) = n" by simp
  ultimately show ?thesis by (metis option.distinct(1) str_find.simps(2))
qed simp

lemma str_has_mid: "str_has (p @ n @ q) n"
proof (induction p)
  case Nil
  then show ?case using str_find_here by (simp add: str_has_def)
next
  case (Cons c p)
  then show ?case by (auto simp: str_has_def)
qed

lemma families_append: "\<exists>t. w_buf (fold add_family fs w) = w_buf w @ t"
proof (induction fs arbitrary: w)
  case (Cons f fs)
  obtain t where t: "w_buf (fold add_family fs (add_family f w)) = w_buf (add_family f w) @ t" using Cons by blast
  have "\<exists>u. w_buf (add_family f w) = w_buf w @ u"
    by (simp add: add_family_def w_field_str_def w_raw_field_def w_sep_def Let_def)
  then show ?case using t by auto
qed simp

lemma capabilities_not_logged: "skip_from_log build_capabilities_json"
proof -
  let ?w = "w_field_str ''event_kinds'' ''voice; sync; call; message; burst; page; unknown''
      (w_field_str ''audio'' ''pcm_s16le_8000_mono''
        (w_field_str ''protocols'' (join_keys cap_protocols) (w_field_str ''type'' ''capabilities'' w_new)))"
  obtain t where t: "w_buf (fold add_family cap_families ?w) = w_buf ?w @ t" using families_append by blast
  have "w_buf (w_field_str ''type'' ''capabilities'' w_new) = ''{'' @ jt ''`type`:`capabilities`''"
    by (simp add: w_field_str_def w_raw_field_def w_sep_def w_new_def w_escape_def jesc_char_def)
  moreover have "\<exists>u. w_buf ?w = w_buf (w_field_str ''type'' ''capabilities'' w_new) @ u"
    by (simp add: w_field_str_def w_raw_field_def w_sep_def Let_def)
  ultimately obtain u where "build_capabilities_json = ''{'' @ jt ''`type`:`capabilities`'' @ u"
    using t by (auto simp: build_capabilities_json_def w_str_def)
  then have "str_has build_capabilities_json (jt ''`type`:`capabilities`'')" using str_has_mid by metis
  then show ?thesis unfolding skip_from_log_def by (rule disjI1)
qed

end
