(* ===== verification/Iq_File.thy ===== *)
theory Iq_File
  imports Floats
begin

text \<open>
  The capture files of \<open>src/blue_writer.hpp\<close>: a MIDAS BLUE header of 512 bytes, the samples of a client as they
  came, and the size patched into the header at the end. The stream is the bytes of the file; a disk that fills
  up is not modelled.
\<close>

section \<open>Numbers in the header\<close>

text \<open>Little-endian bytes, and the IEEE 754 form of a double; the bytes of a NaN are the usual quiet one.\<close>

fun le_bytes :: "nat \<Rightarrow> nat \<Rightarrow> string" where
  "le_bytes 0 v = []"
| "le_bytes (Suc n) v = chr (v mod 256) # le_bytes n (v div 256)"

definition f64_bits :: "dbl \<Rightarrow> nat" where
  "f64_bits d =
     (case d of
        DNaN \<Rightarrow> 0x7FF8000000000000
      | DInf pos \<Rightarrow> (if pos then 0x7FF0000000000000 else 0xFFF0000000000000)
      | DFin x \<Rightarrow>
          (if x < 0 then 2 ^ 63 else 0)
          + (if x = 0 then 0
             else (let e = ilog2 \<bar>x\<bar>
                   in if e < - 1022 then nat \<lfloor>\<bar>x\<bar> * pow2 1074\<rfloor>
                      else nat (e + 1023) * 2 ^ 52 + nat (\<lfloor>\<bar>x\<bar> * pow2 (52 - e)\<rfloor> - 2 ^ 52))))"

definition put_f64 :: "dbl \<Rightarrow> string" where
  "put_f64 d = le_bytes 8 (f64_bits d)"

definition put_i32 :: "nat \<Rightarrow> string" where
  "put_i32 v = le_bytes 4 v"

section \<open>The writer\<close>

definition zeros :: "nat \<Rightarrow> string" where
  "zeros n = replicate n (CHR 0x00)"

definition xdelta :: "dbl \<Rightarrow> dbl" where
  "xdelta rate = (if dbl_pos rate then (case rate of DFin x \<Rightarrow> round_dbl (1 / x) | _ \<Rightarrow> DFin 0) else DFin 1)"

definition blue_header :: "dbl \<Rightarrow> string" where
  "blue_header rate =
     ''BLUE'' @ ''EEEI'' @ ''EEEI'' @ put_i32 0 @ zeros 16 @ put_f64 (DFin 512) @ put_f64 (DFin 0) @ put_i32 1000
     @ ''CF'' @ zeros 202 @ put_f64 (DFin 0) @ put_f64 (xdelta rate) @ zeros 240"

record iq_writer =
  iq_open :: bool
  iq_path :: string
  iq_max_bytes :: nat
  iq_bytes :: nat
  iq_truncated :: bool
  iq_file :: string

text \<open>A file that can be opened.\<close>

definition blue_open :: "string \<Rightarrow> dbl \<Rightarrow> nat \<Rightarrow> iq_writer" where
  "blue_open path rate cap =
     \<lparr>iq_open = True, iq_path = path, iq_max_bytes = cap, iq_bytes = 0, iq_truncated = False, iq_file = blue_header rate\<rparr>"

definition blue_write :: "string \<Rightarrow> iq_writer \<Rightarrow> iq_writer" where
  "blue_write bs w =
     (if \<not> iq_open w \<or> iq_truncated w then w
      else if 0 < iq_max_bytes w \<and> iq_max_bytes w < iq_bytes w + length bs then
        (let room = iq_max_bytes w - iq_bytes w; room = room - room mod 8
         in w\<lparr>iq_file := iq_file w @ take room bs, iq_bytes := iq_bytes w + room, iq_truncated := True\<rparr>)
      else w\<lparr>iq_file := iq_file w @ bs, iq_bytes := iq_bytes w + length bs\<rparr>)"

definition blue_close :: "iq_writer \<Rightarrow> iq_writer" where
  "blue_close w =
     (if \<not> iq_open w then w
      else w\<lparr>iq_open := False,
        iq_file := take 40 (iq_file w) @ put_f64 (round_dbl (of_nat (iq_bytes w))) @ drop 48 (iq_file w)\<rparr>)"

section \<open>A closed capture is complete\<close>

lemma le_bytes_length [simp]: "length (le_bytes n v) = n"
  by (induction n v rule: le_bytes.induct) auto

lemma put_length [simp]: "length (put_f64 d) = 8" "length (put_i32 v) = 4"
  by (simp_all add: put_f64_def put_i32_def)

lemma zeros_length [simp]: "length (zeros n) = n"
  by (simp add: zeros_def)

lemma blue_header_length [simp]: "length (blue_header rate) = 512"
  by (simp add: blue_header_def)

definition written :: "nat \<Rightarrow> string \<Rightarrow> string" where
  "written cap bs = take (if cap = 0 \<or> length bs \<le> cap then length bs else cap - cap mod 8) bs"

definition writing :: "dbl \<Rightarrow> nat \<Rightarrow> string \<Rightarrow> iq_writer \<Rightarrow> bool" where
  "writing rate cap bs w \<longleftrightarrow>
     iq_open w \<and> iq_max_bytes w = cap \<and> iq_file w = blue_header rate @ written cap bs
     \<and> iq_bytes w = length (written cap bs) \<and> (iq_truncated w \<longleftrightarrow> 0 < cap \<and> cap < length bs)"

lemma aligned_room:
  fixes a cap :: nat
  assumes "a mod 8 = 0" "a \<le> cap"
  shows "a + ((cap - a) - (cap - a) mod 8) = cap - cap mod 8"
proof -
  have "(cap - a) mod 8 = cap mod 8" using assms by (metis add.right_neutral le_add_diff_inverse mod_add_left_eq add_0)
  moreover have "cap mod 8 \<le> cap - a" using calculation by (metis mod_less_eq_dividend)
  ultimately show ?thesis using assms by simp
qed

lemma writing_step:
  assumes "writing rate cap bs w" "length bs mod 8 = 0" "length b mod 8 = 0"
  shows "writing rate cap (bs @ b) (blue_write b w)"
proof (cases "0 < cap \<and> cap < length bs")
  case True
  then have "cap - cap mod 8 \<le> length bs" using diff_le_self[of cap "cap mod 8"] by linarith
  then show ?thesis using assms(1) True by (auto simp: writing_def blue_write_def written_def)
next
  case False
  then have w: "written cap bs = bs" by (auto simp: written_def)
  show ?thesis
  proof (cases "0 < cap \<and> cap < length bs + length b")
    case c: True
    then have le: "length bs \<le> cap" using False by simp
    note r = aligned_room[OF assms(2) le]
    have "written cap (bs @ b) = bs @ take ((cap - length bs) - (cap - length bs) mod 8) b"
    proof -
      have "written cap (bs @ b) = take (cap - cap mod 8) (bs @ b)" using c by (auto simp: written_def)
      then show ?thesis by (simp add: r[symmetric])
    qed
    moreover have "(cap - length bs) - (cap - length bs) mod 8 \<le> length b"
    proof -
      have "cap - length bs \<le> length b" using c le by linarith
      then show ?thesis by (rule order_trans[OF diff_le_self])
    qed
    ultimately show ?thesis using assms(1) c False w
      by (auto simp: writing_def blue_write_def Let_def)
  next
    case f: False
    then have "written cap (bs @ b) = bs @ b" by (auto simp: written_def)
    then show ?thesis using assms(1) f False w by (auto simp: writing_def blue_write_def)
  qed
qed

lemma writing_all:
  "writing rate cap bs w \<Longrightarrow> length bs mod 8 = 0 \<Longrightarrow> list_all (\<lambda>b. length b mod 8 = 0) blocks \<Longrightarrow>
     writing rate cap (bs @ concat blocks) (fold blue_write blocks w)"
proof (induction blocks arbitrary: bs w)
  case (Cons b blocks)
  have "length (bs @ b) mod 8 = 0" using Cons.prems by (auto simp: mod_add_eq[symmetric])
  then show ?case using Cons.IH[OF writing_step[of rate cap bs w b]] Cons.prems by simp
qed simp

text \<open>
  C31. Whatever frames of whole samples a client sends, the closed capture is the header, with the true size of the
  data in its size field, followed by all the samples, or, once they outgrow the cap, by as many whole samples as
  fit in it, in the order sent and without a gap.
\<close>
theorem capture_complete:
  assumes "list_all (\<lambda>b. length b mod 8 = 0) blocks"
  shows "iq_file (blue_close (fold blue_write blocks (blue_open path rate cap))) =
     take 40 (blue_header rate) @ put_f64 (round_dbl (of_nat (length (written cap (concat blocks)))))
     @ drop 48 (blue_header rate) @ written cap (concat blocks)"
proof -
  have "writing rate cap [] (blue_open path rate cap)" by (simp add: writing_def blue_open_def written_def)
  from writing_all[OF this _ assms] show ?thesis by (simp add: writing_def blue_close_def)
qed

lemma capture_complete_witness:
  "length (iq_file (blue_close (fold blue_write [zeros 8, zeros 16] (blue_open ''x'' (DFin 1) 20)))) = 528"
proof -
  have l: "list_all (\<lambda>b. length b mod 8 = 0) [zeros 8, zeros 16]" by simp
  have w: "length (written 20 (concat [zeros 8, zeros 16])) = 16" by (simp add: written_def)
  show ?thesis unfolding capture_complete[OF l] by (simp add: w del: concat.simps)
qed

end
