(* ===== verification/Session_State.thy ===== *)
theory Session_State
  imports Server_Stats Capabilities Iq_File Decoder_Reader
begin

text \<open>
  The state of a client's session (\<open>class Session\<close> of \<open>src/session.hpp\<close>), the part of the server it shares with
  the others, and the two queues of \<open>src/session.cpp\<close>: the frames on their way to the client and the blocks of
  samples waiting for the demodulator.
\<close>

section \<open>Numbers\<close>

definition dbl_add :: "dbl \<Rightarrow> dbl \<Rightarrow> dbl" where
  "dbl_add a b =
     (case a of
        DNaN \<Rightarrow> DNaN
      | DInf s \<Rightarrow> (case b of DNaN \<Rightarrow> DNaN | DInf t \<Rightarrow> if s = t then DInf s else DNaN | DFin _ \<Rightarrow> DInf s)
      | DFin x \<Rightarrow> (case b of DNaN \<Rightarrow> DNaN | DInf t \<Rightarrow> DInf t | DFin y \<Rightarrow> round_dbl (x + y)))"

text \<open>A double as a float: 24 bits of precision, the range of a float.\<close>

definition to_float :: "dbl \<Rightarrow> dbl" where
  "to_float d =
     (case d of
        DFin x \<Rightarrow>
          (if x = 0 then DFin 0
           else (let e = max (ilog2 \<bar>x\<bar> - 23) (- 149); r = of_int (round_half_even (\<bar>x\<bar> / pow2 e)) * pow2 e
                 in if 0 < r \<and> 128 \<le> ilog2 r then DInf (0 < x) else DFin (if 0 < x then r else - r)))
      | _ \<Rightarrow> d)"

text \<open>\<open>std::strtoll\<close>: blanks, a sign, digits, saturating.\<close>

definition strtoll :: "string \<Rightarrow> int" where
  "strtoll s =
     (let t = skip_ws s; neg = (t \<noteq> [] \<and> hd t = CHR ''-'');
          u = (if t \<noteq> [] \<and> (hd t = CHR ''-'' \<or> hd t = CHR ''+'') then tl t else t);
          v = int (dec_val (takeWhile is_digit u))
      in if neg then max (- v) (- (2 ^ 63)) else min v (2 ^ 63 - 1))"

definition channel_freq :: "net_env \<Rightarrow> dbl \<Rightarrow> int" where
  "channel_freq e hz =
     (let n = (case env_set (ne_freq_step e) of Some v \<Rightarrow> strtoll v | None \<Rightarrow> 1250)
      in channel_hz hz (if 0 < n then n else 1))"

text \<open>\<open>std::llround(rate / 18000.0)\<close> as an \<open>int\<close>, at least 2.\<close>

definition tetra_sps :: "dbl \<Rightarrow> int" where
  "tetra_sps rate =
     (let n = (case rate of
                 DFin x \<Rightarrow> (case round_dbl (x / 18000) of
                    DFin y \<Rightarrow> (let r = (if 0 \<le> y then \<lfloor>y + 1 / 2\<rfloor> else - \<lfloor>1 / 2 - y\<rfloor>)
                              in if - (2 ^ 63) \<le> r \<and> r < 2 ^ 63 then sint (word_of_int r :: 32 word) else 0)
                  | _ \<Rightarrow> 0)
               | _ \<Rightarrow> 0)
      in if n < 2 then 2 else n)"

section \<open>State\<close>

datatype chain = Fm | Tetra_Chain | Pager

record fm_config =
  fm_rate :: dbl
  fm_out_rate :: dbl
  fm_bandwidth :: dbl
  fm_offset :: dbl
  fm_gain :: dbl
  fm_afc :: bool
  fm_matched :: bool

record pager_config =
  pc_rate :: dbl
  pc_bandwidth :: dbl
  pc_offset :: dbl
  pc_afc :: bool
  pc_invert :: bool

record tetra_config =
  tc_sps :: int
  tc_correct_cfo :: bool
  tc_coherent :: bool

datatype tetra_backend = Osmo | Tetrakit_Backend

text \<open>The settings of a start message, cached for a restart.\<close>

record start_params =
  sp_rate :: dbl
  sp_bandwidth :: dbl
  sp_offset :: dbl
  sp_gain :: dbl
  sp_afc :: bool
  sp_protocol :: string
  sp_key_type :: string
  sp_key :: string
  sp_matched :: bool
  sp_pocsag_mode :: string
  sp_invert :: bool
  sp_iq_log :: bool

text \<open>
  A session. The demodulators are the settings they were made from, a decoder is present while its process runs,
  and \<open>ss_wire\<close> is what was handed to the socket so far (with \<open>True\<close> for text), newest last.
\<close>

record session =
  ss_id :: nat
  ss_center :: dbl
  ss_chain :: chain
  ss_active :: bool
  ss_fm :: "fm_config option"
  ss_dsd :: "dsd_config option"
  ss_keyed :: bool
  ss_tetra :: "tetra_config option"
  ss_tetra_backend :: "tetra_backend option"
  ss_pager :: "pager_config option"
  ss_pager_proc :: "(string list \<times> string) option"
  ss_pager_failed :: bool
  ss_udp_port :: nat
  ss_pending_port :: nat
  ss_klist :: string
  ss_iq_queue :: "string list"
  ss_worker :: bool
  ss_iq_log :: "iq_writer option"
  ss_iq_protocol :: string
  ss_iq_rate :: dbl
  ss_last_start :: "start_params option"
  ss_out :: "(string \<times> bool) list"
  ss_writing :: bool
  ss_wire :: "(string \<times> bool) list"

definition session0 :: session where
  "session0 = \<lparr>ss_id = 0, ss_center = DFin 0, ss_chain = Fm, ss_active = False, ss_fm = None, ss_dsd = None, ss_keyed = False,
     ss_tetra = None, ss_tetra_backend = None, ss_pager = None, ss_pager_proc = None, ss_pager_failed = False,
     ss_udp_port = 0, ss_pending_port = 0, ss_klist = [], ss_iq_queue = [], ss_worker = False, ss_iq_log = None,
     ss_iq_protocol = [], ss_iq_rate = DFin 0, ss_last_start = None, ss_out = [], ss_writing = False, ss_wire = []\<rparr>"

text \<open>
  What the sessions share: the registry with the model, the ports in use, the key lists in the temporary folder,
  and the captures that were closed.
\<close>

record server =
  sv_stats :: stats
  sv_ports :: "nat oset"
  sv_klists :: "(string, string) omap"
  sv_captures :: "(string, string) omap"

type_synonym sess = "session \<times> server"

definition on_stats :: "(stats \<Rightarrow> stats) \<Rightarrow> sess \<Rightarrow> sess" where
  "on_stats f x = (case x of (s, v) \<Rightarrow> (s, v\<lparr>sv_stats := f (sv_stats v)\<rparr>))"

definition on_assoc :: "(model \<Rightarrow> model) \<Rightarrow> sess \<Rightarrow> sess" where
  "on_assoc f = on_stats (\<lambda>st. st\<lparr>st_assoc := f (st_assoc st)\<rparr>)"

definition on_sess :: "(session \<Rightarrow> session) \<Rightarrow> sess \<Rightarrow> sess" where
  "on_sess f x = (case x of (s, v) \<Rightarrow> (f s, v))"

section \<open>Frames to the client\<close>

text \<open>The front of the queue goes to the socket; one write is under way at a time.\<close>

definition do_write_next :: "session \<Rightarrow> session" where
  "do_write_next s =
     (case ss_out s of
        [] \<Rightarrow> s\<lparr>ss_writing := False\<rparr>
      | f # _ \<Rightarrow> s\<lparr>ss_writing := True, ss_wire := ss_wire s @ [f]\<rparr>)"

definition enqueue :: "string \<times> bool \<Rightarrow> session \<Rightarrow> session" where
  "enqueue f s = (let s = s\<lparr>ss_out := ss_out s @ [f]\<rparr> in if ss_writing s then s else do_write_next s)"

definition queue_and_send :: "string \<Rightarrow> bool \<Rightarrow> sess \<Rightarrow> sess" where
  "queue_and_send frame is_text x =
     on_sess (enqueue (frame, is_text)) (if ss_id (fst x) = 0 then x else on_stats (add_bytes_out (length frame)) x)"

definition send_text :: "int \<Rightarrow> string \<Rightarrow> sess \<Rightarrow> sess" where
  "send_text wall msg x =
     queue_and_send msg True
       (if ss_id (fst x) = 0 \<or> skip_from_log msg then x else on_stats (add_log (ss_id (fst x)) msg wall) x)"

definition send_binary :: "string \<Rightarrow> sess \<Rightarrow> sess" where
  "send_binary data = queue_and_send data False"

text \<open>The end of a write; \<open>failed\<close> is the error of the socket.\<close>

definition on_write :: "bool \<Rightarrow> session \<Rightarrow> session" where
  "on_write failed s =
     (let s = s\<lparr>ss_out := tl (ss_out s)\<rparr> in if failed then s\<lparr>ss_writing := False\<rparr> else do_write_next s)"

definition error_text :: "string \<Rightarrow> string" where
  "error_text msg = w_str (w_field_str ''message'' msg (w_field_str ''type'' ''error'' w_new))"

definition event_text :: "dsd_event \<Rightarrow> string" where
  "event_text ev =
     w_str (fold (\<lambda>(k, v). w_field_str k v)
       [(''type'', ''event''), (''kind'', ev_kind ev), (''talkgroup'', ev_tg ev), (''source_id'', ev_src ev),
        (''slot'', ev_slot ev), (''color_code'', ev_cc ev), (''ran'', ev_ran ev), (''nac'', ev_nac ev),
        (''emergency'', ev_emerg ev), (''alias'', ev_alias ev), (''crc_error'', crc_error_wire (ev_crc ev)),
        (''message'', ev_msg ev), (''extra'', ev_extra ev), (''raw'', ev_raw ev)] w_new)"

section \<open>Samples from the client\<close>

definition kMaxQueuedBlocks :: nat where
  "kMaxQueuedBlocks = 64"

definition push_block :: "string \<Rightarrow> string list \<Rightarrow> string list" where
  "push_block b q = (if kMaxQueuedBlocks \<le> length q then tl q else q) @ [b]"

definition handle_binary_message :: "int \<Rightarrow> string \<Rightarrow> sess \<Rightarrow> sess" where
  "handle_binary_message wall data x =
     (if \<not> ss_active (fst x) then x
      else if length data mod 8 \<noteq> 0 then send_text wall (error_text ''binary frame length not a multiple of 8 bytes'') x
      else on_sess (\<lambda>s. s\<lparr>ss_iq_log := map_option (blue_write data) (ss_iq_log s),
        ss_iq_queue := push_block data (ss_iq_queue s)\<rparr>) x)"

text \<open>The worker takes the oldest block, for the front end of its chain.\<close>

definition worker_take :: "session \<Rightarrow> (string \<times> session) option" where
  "worker_take s =
     (if \<not> ss_worker s then None
      else (case ss_iq_queue s of [] \<Rightarrow> None | b # q \<Rightarrow> Some (b, s\<lparr>ss_iq_queue := q\<rparr>)))"

end
