(* ===== verification/Session_Start.thy ===== *)
theory Session_Start
  imports Session_State Assoc_Audio Pager_Lines
begin

text \<open>
  A session's pipeline (\<open>Session\<close> in \<open>src/session.cpp\<close>): starting, stopping and restarting it, the control
  messages, the callbacks of the decoders and the end of the session. One handler reads each clock once; the
  answers of the system (which ports are drawn, whether a decoder starts, which temporary file is made) are
  parameters. A start that still draws ports has no result yet.
\<close>

record clock =
  ck_now :: int
  ck_wall :: int
  ck_tick :: int

record sys_answers =
  an_draws :: "nat list"
  an_klist :: "string option"
  an_klist_written :: bool
  an_started :: bool
  an_iq_open :: bool
  an_stamp :: string

section \<open>Audio ports\<close>

text \<open>The loop over the random draws: the first port that no session holds.\<close>

fun acquire_udp_port :: "nat list \<Rightarrow> nat oset \<Rightarrow> (nat \<times> nat oset) option" where
  "acquire_udp_port [] ports = None"
| "acquire_udp_port (p # draws) ports =
     (if p \<in> set ports then acquire_udp_port draws ports else Some (p, os_put p ports))"

definition release_udp_port :: "nat \<Rightarrow> nat oset \<Rightarrow> nat oset" where
  "release_udp_port p ports = (if p = 0 then ports else os_del p ports)"

section \<open>Captures\<close>

definition capture_name :: "string \<Rightarrow> nat \<Rightarrow> string \<Rightarrow> dbl \<Rightarrow> dbl \<Rightarrow> string" where
  "capture_name stamp i protocol rate center =
     ''iq_'' @ stamp @ ''_s'' @ nat_dec i @ ''_'' @ sanitize_token protocol @ ''_'' @ int_dec (to_i64 rate) @ ''Hz''
     @ (if dbl_pos center then ''_c'' @ int_dec (to_i64 (dbl_add center (DFin (1 / 2)))) @ ''Hz'' else []) @ ''.blue''"

definition open_iq_log :: "net_env \<Rightarrow> sys_answers \<Rightarrow> string \<Rightarrow> dbl \<Rightarrow> session \<Rightarrow> session" where
  "open_iq_log e a protocol rate s =
     (if ss_iq_log s \<noteq> None \<or> \<not> an_iq_open a then s
      else s\<lparr>ss_iq_log := Some (blue_open
        (path_join (iq_log_dir e) (capture_name (an_stamp a) (ss_id s) protocol rate (ss_center s))) rate
        (iq_log_max_bytes e))\<rparr>)"

text \<open>The writer goes, which closes its file.\<close>

definition close_capture :: "sess \<Rightarrow> sess" where
  "close_capture x =
     (case x of (s, v) \<Rightarrow>
        (case ss_iq_log s of
           None \<Rightarrow> (s, v)
         | Some w \<Rightarrow> (s\<lparr>ss_iq_log := None\<rparr>, v\<lparr>sv_captures := om_put (iq_path w) (iq_file (blue_close w)) (sv_captures v)\<rparr>)))"

definition session_set_iq_logging :: "net_env \<Rightarrow> sys_answers \<Rightarrow> bool \<Rightarrow> sess \<Rightarrow> sess" where
  "session_set_iq_logging e a on x =
     (if on then
        (if ss_active (fst x) then on_sess (\<lambda>s. open_iq_log e a (ss_iq_protocol s) (ss_iq_rate s) s) x else x)
      else close_capture x)"

section \<open>Stopping\<close>

text \<open>The decoder of the chain is stopped and its front end goes.\<close>

definition stop_chain :: "session \<Rightarrow> session" where
  "stop_chain s =
     (case ss_chain s of
        Tetra_Chain \<Rightarrow> s\<lparr>ss_chain := Fm, ss_tetra := None, ss_tetra_backend := None\<rparr>
      | Pager \<Rightarrow> s\<lparr>ss_chain := Fm, ss_pager := None, ss_pager_proc := None\<rparr>
      | Fm \<Rightarrow> s\<lparr>ss_chain := Fm, ss_fm := None, ss_dsd := None\<rparr>)"

definition give_back_port :: "sess \<Rightarrow> sess" where
  "give_back_port x =
     (case x of (s, v) \<Rightarrow>
        (s\<lparr>ss_udp_port := 0\<rparr>,
         if ss_pending_port s = 0 then v\<lparr>sv_ports := release_udp_port (ss_udp_port s) (sv_ports v)\<rparr> else v))"

definition remove_klist :: "sess \<Rightarrow> sess" where
  "remove_klist x =
     (case x of (s, v) \<Rightarrow>
        if ss_klist s = [] then (s, v)
        else (s\<lparr>ss_klist := []\<rparr>, v\<lparr>sv_klists := om_del (ss_klist s) (sv_klists v)\<rparr>))"

definition if_registered :: "(nat \<Rightarrow> sess \<Rightarrow> sess) \<Rightarrow> sess \<Rightarrow> sess" where
  "if_registered f x = (if ss_id (fst x) = 0 then x else f (ss_id (fst x)) x)"

definition stop_pipeline :: "clock \<Rightarrow> sess \<Rightarrow> sess" where
  "stop_pipeline c x =
     (if \<not> ss_active (fst x) then x
      else close_capture
        (if_registered (\<lambda>i. on_assoc (end_stream i (ck_now c)))
          (on_sess (\<lambda>s. s\<lparr>ss_iq_queue := []\<rparr>)
            (remove_klist
              (give_back_port
                (on_sess (\<lambda>s. stop_chain (s\<lparr>ss_worker := False\<rparr>))
                  (if_registered (\<lambda>i. on_stats (set_pipeline_active i False (ck_tick c)))
                    (on_sess (\<lambda>s. s\<lparr>ss_active := False\<rparr>) x))))))))"

section \<open>Starting\<close>

definition chain_name :: "protocol_hint \<Rightarrow> string" where
  "chain_name h = (if hint_is_tetra h then ''tetra'' else if hint_is_pager h then ''pager'' else ''fm'')"

definition channel_at :: "net_env \<Rightarrow> dbl \<Rightarrow> dbl \<Rightarrow> int" where
  "channel_at e center offset = (if dbl_pos center then channel_freq e (dbl_add center offset) else 0)"

text \<open>The request is counted, and the stream opened, before anything can fail.\<close>

definition announce :: "net_env \<Rightarrow> clock \<Rightarrow> start_params \<Rightarrow> protocol_hint \<Rightarrow> sess \<Rightarrow> sess" where
  "announce e c p h x =
     (let i = ss_id (fst x); center = ss_center (fst x)
      in on_stats (set_freq i (if dbl_pos center then dbl_add center (sp_offset p) else DFin 0))
           (if_registered (\<lambda>i. on_assoc (begin_stream i (protocol_hint_label h) (ck_now c) [] (channel_at e center (sp_offset p))))
             (on_stats (note_request i (protocol_hint_label h) (chain_name h) (ck_wall c)) x)))"

definition start_tetra :: "net_env \<Rightarrow> clock \<Rightarrow> sys_answers \<Rightarrow> start_params \<Rightarrow> protocol_hint \<Rightarrow> sess \<Rightarrow> sess \<times> bool" where
  "start_tetra e c a p h x =
     (let cfg = \<lparr>tc_sps = tetra_sps (sp_rate p), tc_correct_cfo = True,
                 tc_coherent = (case ne_tetra_coherent e of Some (d # _) \<Rightarrow> d \<noteq> CHR ''0'' | _ \<Rightarrow> True)\<rparr>;
          kind = (if h = Tetrakit then Tetrakit_Backend else Osmo)
      in if an_started a
         then (on_sess (\<lambda>s. s\<lparr>ss_tetra := Some cfg, ss_tetra_backend := Some kind, ss_chain := Tetra_Chain\<rparr>) x, True)
         else (on_sess (\<lambda>s. s\<lparr>ss_tetra := None, ss_tetra_backend := None\<rparr>)
                 (send_text (ck_wall c) (error_text ''failed to start TETRA backend'') x), False))"

definition bad_pocsag_mode :: "string \<Rightarrow> bool" where
  "bad_pocsag_mode mode \<longleftrightarrow> map to_lower mode \<notin> {[], ''auto'', ''alpha'', ''numeric'', ''skyper''}"

definition pager_config_of :: "start_params \<Rightarrow> pager_config" where
  "pager_config_of p = \<lparr>pc_rate = sp_rate p, pc_bandwidth = sp_bandwidth p, pc_offset = sp_offset p, pc_afc = sp_afc p,
     pc_invert = sp_invert p\<rparr>"

definition start_pager :: "clock \<Rightarrow> sys_answers \<Rightarrow> start_params \<Rightarrow> protocol_hint \<Rightarrow> sess \<Rightarrow> sess \<times> bool" where
  "start_pager c a p h x =
     (if bad_pocsag_mode (sp_pocsag_mode p)
      then (send_text (ck_wall c) (error_text (''unknown pocsag_mode: '' @ sp_pocsag_mode p)) x, False)
      else if \<not> an_started a
      then (send_text (ck_wall c) (error_text ''failed to start pager backend'') (on_sess (\<lambda>s. s\<lparr>ss_pager_failed := False\<rparr>) x), False)
      else (on_sess (\<lambda>s. s\<lparr>ss_pager_failed := False, ss_pager := Some (pager_config_of p),
              ss_pager_proc := Some (pager_demods h, map to_lower (sp_pocsag_mode p)), ss_chain := Pager\<rparr>) x, True))"

text \<open>What the explorer's keys give this stream: Basic Privacy, an EP key and a forced key.\<close>

record stored_keys =
  sk_bp :: int
  sk_ep :: string
  sk_forced :: "string \<times> string"

definition stored_for :: "net_env \<Rightarrow> key_type \<Rightarrow> protocol_hint \<Rightarrow> dbl \<Rightarrow> dbl \<Rightarrow> model \<Rightarrow> stored_keys" where
  "stored_for e kt h center offset m =
     (if assoc_family (protocol_hint_label h) \<in> {''dmr'', ''auto''}
      then (let chf = channel_at e center offset
            in \<lparr>sk_bp = (if kt \<noteq> Bp then bp_for_freq ''dmr'' chf m else 0), sk_ep = net_key_for_freq ''ep'' ''dmr'' chf m,
                sk_forced = forced_net_key_for_freq ''dmr'' chf m\<rparr>)
      else \<lparr>sk_bp = 0, sk_ep = [], sk_forced = ([], [])\<rparr>)"

text \<open>The options that carry keys; \<open>forced_flag\<close> knows every forced kind.\<close>

definition key_args :: "key_type \<Rightarrow> string \<Rightarrow> stored_keys \<Rightarrow> string list" where
  "key_args kt key sk =
     (case key_flag kt of None \<Rightarrow> [] | Some f \<Rightarrow> [f, key])
     @ (if sk_bp sk \<noteq> 0 then [''-b'', int_dec (sk_bp sk)] else [])
     @ (if fst (sk_forced sk) = [] then []
        else (case forced_flag (fst (sk_forced sk)) of None \<Rightarrow> [] | Some f \<Rightarrow> [f, key_words (snd (sk_forced sk))]))"

text \<open>The key list for \<open>-K\<close>, when it holds more than its header.\<close>

definition stream_key_list :: "net_env \<Rightarrow> protocol_hint \<Rightarrow> string \<Rightarrow> model \<Rightarrow> string option" where
  "stream_key_list e h ep m =
     (if ne_no_apply_keys e \<noteq> None then None
      else (let fam = assoc_family (protocol_hint_label h); csv = keys_csv_stream (if fam = ''auto'' then [] else fam) ep m
            in if 11 < length csv then Some csv else None))"

text \<open>The list is written to a temporary file; one that cannot be written whole is removed again.\<close>

definition write_klist :: "sys_answers \<Rightarrow> string option \<Rightarrow> sess \<Rightarrow> sess \<times> bool" where
  "write_klist a csv x =
     (case csv of
        None \<Rightarrow> (x, False)
      | Some t \<Rightarrow>
          (case an_klist a of
             None \<Rightarrow> (x, False)
           | Some path \<Rightarrow>
               if an_klist_written a
               then ((fst x\<lparr>ss_klist := path\<rparr>, snd x\<lparr>sv_klists := om_put path t (sv_klists (snd x))\<rparr>), True)
               else (x, False)))"

definition dsd_config_of :: "protocol_hint \<Rightarrow> nat \<Rightarrow> string list \<Rightarrow> bool \<Rightarrow> dsd_config" where
  "dsd_config_of h port args slots =
     dsd_config0\<lparr>dc_mode := mode_flag h, dc_extra := args, dc_udp_port := word_of_nat port, dc_on_suppressed := True,
       dc_on_slot_audio := slots, dc_on_event := True, dc_on_audio := True\<rparr>"

text \<open>The port kept over a restart, or a fresh one.\<close>

definition take_port :: "sys_answers \<Rightarrow> sess \<Rightarrow> sess option" where
  "take_port a x =
     (case x of (s, v) \<Rightarrow>
        if ss_pending_port s \<noteq> 0 then Some (s\<lparr>ss_udp_port := ss_pending_port s, ss_pending_port := 0\<rparr>, v)
        else map_option (\<lambda>(p, ports). (s\<lparr>ss_udp_port := p\<rparr>, v\<lparr>sv_ports := ports\<rparr>)) (acquire_udp_port (an_draws a) (sv_ports v)))"

text \<open>The decoder is started with its keys.\<close>

definition start_decoder :: "net_env \<Rightarrow> clock \<Rightarrow> sys_answers \<Rightarrow> start_params \<Rightarrow> protocol_hint \<Rightarrow> stored_keys \<Rightarrow> sess \<Rightarrow> sess \<times> bool" where
  "start_decoder e c a p h sk x =
     (let kt = parse_key_type (sp_key_type p);
          kl = write_klist a (stream_key_list e h (sk_ep sk) (st_assoc (sv_stats (snd x)))) x; y = fst kl;
          args = key_args kt (sp_key p) sk @ (if snd kl then [''-K'', ss_klist (fst y)] else []);
          cfg = dsd_config_of h (ss_udp_port (fst y)) args (ss_id (fst y) \<noteq> 0);
          keyed = (kt \<noteq> No_Key \<or> snd kl \<or> sk_bp sk \<noteq> 0 \<or> fst (sk_forced sk) \<noteq> [])
      in if an_started a then (on_sess (\<lambda>s. s\<lparr>ss_dsd := Some cfg, ss_keyed := keyed\<rparr>) y, True)
         else (on_sess (\<lambda>s. s\<lparr>ss_fm := None\<rparr>) (send_text (ck_wall c) (error_text ''failed to start DSD backend'') y), False))"

definition fm_config_of :: "start_params \<Rightarrow> fm_config" where
  "fm_config_of p = \<lparr>fm_rate = sp_rate p, fm_out_rate = DFin 48000, fm_bandwidth = sp_bandwidth p, fm_offset = sp_offset p,
     fm_gain = sp_gain p, fm_afc = sp_afc p, fm_matched = sp_matched p\<rparr>"

definition bad_key_text :: "string \<Rightarrow> string" where
  "bad_key_text kt =
     error_text (''invalid or missing key for key_type '' @ [CHR 0x27] @ kt @ [CHR 0x27] @ '' (expected decimal/hex digits)'')"

definition start_fm :: "net_env \<Rightarrow> clock \<Rightarrow> sys_answers \<Rightarrow> start_params \<Rightarrow> protocol_hint \<Rightarrow> sess \<Rightarrow> (sess \<times> bool) option" where
  "start_fm e c a p h x =
     (let kt = parse_key_type (sp_key_type p)
      in if kt \<noteq> No_Key \<and> \<not> key_value_is_valid (sp_key p)
         then Some (send_text (ck_wall c) (bad_key_text (sp_key_type p)) x, False)
         else (let x = on_sess (\<lambda>s. s\<lparr>ss_fm := Some (fm_config_of p)\<rparr>) x;
                   sk = stored_for e kt h (ss_center (fst x)) (sp_offset p) (st_assoc (sv_stats (snd x)))
               in map_option (start_decoder e c a p h sk) (take_port a x)))"

text \<open>The pipeline is up: the worker runs, the capture opens, the client is told.\<close>

definition started_text :: "session \<Rightarrow> string" where
  "started_text s =
     (let w = w_field_dbl ''udp_audio_port'' (DFin (of_nat (ss_udp_port s))) (w_field_str ''type'' ''started'' w_new)
      in w_str (case ss_iq_log s of
           Some q \<Rightarrow> if iq_open q then w_field_str ''iq_log_file'' (iq_path q) w else w
         | None \<Rightarrow> w))"

definition finish_start :: "net_env \<Rightarrow> clock \<Rightarrow> sys_answers \<Rightarrow> start_params \<Rightarrow> protocol_hint \<Rightarrow> sess \<Rightarrow> sess" where
  "finish_start e c a p h x =
     (let x = on_sess (\<lambda>s. s\<lparr>ss_iq_protocol := sp_protocol p, ss_iq_rate := sp_rate p, ss_last_start := Some p\<rparr>) x;
          x = (if sp_iq_log p \<or> st_iq (sv_stats (snd x)) then on_sess (open_iq_log e a (sp_protocol p) (sp_rate p)) x else x);
          x = on_sess (\<lambda>s. s\<lparr>ss_active := True, ss_worker := True\<rparr>) x;
          x = if_registered (\<lambda>i. on_stats (set_protocol i (protocol_hint_label h) (chain_name h) True (ck_tick c) (ck_tick c))) x
      in send_text (ck_wall c) (started_text (fst x)) x)"

definition start_chain :: "net_env \<Rightarrow> clock \<Rightarrow> sys_answers \<Rightarrow> start_params \<Rightarrow> protocol_hint \<Rightarrow> sess \<Rightarrow> (sess \<times> bool) option" where
  "start_chain e c a p h x =
     (if hint_is_tetra h then Some (start_tetra e c a p h x)
      else if hint_is_pager h then Some (start_pager c a p h x)
      else start_fm e c a p h x)"

definition start_pipeline :: "net_env \<Rightarrow> clock \<Rightarrow> sys_answers \<Rightarrow> start_params \<Rightarrow> sess \<Rightarrow> sess option" where
  "start_pipeline e c a p x =
     (let h = parse_protocol_hint (sp_protocol p)
      in map_option (\<lambda>(y, ok). if ok then finish_start e c a p h y else y)
           (start_chain e c a p h (announce e c p h (stop_pipeline c x))))"

definition restart_pipeline :: "net_env \<Rightarrow> clock \<Rightarrow> sys_answers \<Rightarrow> sess \<Rightarrow> sess option" where
  "restart_pipeline e c a x =
     (case ss_last_start (fst x) of
        None \<Rightarrow> Some x
      | Some p \<Rightarrow>
          if \<not> ss_active (fst x) \<or> ss_chain (fst x) \<noteq> Fm then Some x
          else start_pipeline e c a p (on_sess (\<lambda>s. s\<lparr>ss_pending_port := ss_udp_port s\<rparr>) x))"

section \<open>Control messages\<close>

definition params_of :: "(string, fval) omap \<Rightarrow> start_params" where
  "params_of obj =
     \<lparr>sp_rate = get_number obj ''sample_rate'' (DFin 2000000), sp_bandwidth = get_number obj ''channel_bandwidth'' (DFin 12500),
      sp_offset = get_number obj ''freq_offset'' (DFin 0), sp_gain = to_float (get_number obj ''gain'' (DFin 26000)),
      sp_afc = get_bool obj ''afc'' False, sp_protocol = get_string obj ''protocol'' [],
      sp_key_type = get_string obj ''key_type'' [], sp_key = get_string obj ''key'' [],
      sp_matched = get_bool obj ''matched_filter'' False, sp_pocsag_mode = get_string obj ''pocsag_mode'' [],
      sp_invert = get_bool obj ''invert'' False, sp_iq_log = get_bool obj ''iq_log'' False\<rparr>"

definition set_gain :: "(string, fval) omap \<Rightarrow> session \<Rightarrow> session" where
  "set_gain obj s =
     (if ss_chain s \<noteq> Fm then s
      else s\<lparr>ss_fm := map_option (\<lambda>f. f\<lparr>fm_gain := to_float (get_number obj ''gain'' (DFin 26000))\<rparr>) (ss_fm s)\<rparr>)"

definition set_freq_offset :: "net_env \<Rightarrow> clock \<Rightarrow> (string, fval) omap \<Rightarrow> sess \<Rightarrow> sess" where
  "set_freq_offset e c obj x =
     (let hz = get_number obj ''hz'' (DFin 0); center = ss_center (fst x);
          x = (if dbl_pos center then on_stats (set_freq (ss_id (fst x)) (dbl_add center hz)) x else x)
      in case ss_chain (fst x) of
           Fm \<Rightarrow>
             (let y = on_sess (\<lambda>s. s\<lparr>ss_fm := map_option (\<lambda>f. f\<lparr>fm_offset := hz\<rparr>) (ss_fm s)\<rparr>) x
              in if dbl_pos center
                 then if_registered (\<lambda>i. on_assoc (retune_stream i (channel_freq e (dbl_add center hz)) (ck_now c))) y
                 else y)
         | Pager \<Rightarrow> on_sess (\<lambda>s. s\<lparr>ss_pager := map_option (\<lambda>f. f\<lparr>pc_offset := hz\<rparr>) (ss_pager s)\<rparr>) x
         | Tetra_Chain \<Rightarrow> x)"

definition handle_text_message :: "net_env \<Rightarrow> clock \<Rightarrow> sys_answers \<Rightarrow> string \<Rightarrow> sess \<Rightarrow> sess option" where
  "handle_text_message e c a msg x =
     (case parse_flat_object msg of
        Inl err \<Rightarrow> Some (send_text (ck_wall c) (error_text (''bad control message: '' @ err)) x)
      | Inr obj \<Rightarrow>
          (let type = get_string obj ''type'' []
           in if type = ''start''
              then start_pipeline e c a (params_of obj) (on_sess (\<lambda>s. s\<lparr>ss_center := get_number obj ''center_freq'' (DFin 0)\<rparr>) x)
              else if type = ''set_gain'' then Some (on_sess (set_gain obj) x)
              else if type = ''set_freq_offset'' then Some (set_freq_offset e c obj x)
              else if type = ''stop'' then Some (stop_pipeline c x)
              else Some (send_text (ck_wall c) (error_text (''unknown message type: '' @ type)) x)))"

section \<open>Callbacks\<close>

text \<open>An event of the decoder: the explorer learns it at once, the frame for the client is sent later.\<close>

definition learn_event :: "clock \<Rightarrow> dsd_event \<Rightarrow> sess \<Rightarrow> sess" where
  "learn_event c ev = if_registered (\<lambda>i x. on_stats (note_data i (ck_tick c)) (on_assoc (ingest i ev (ck_now c)) x))"

definition audio_frame :: "16 word list \<Rightarrow> string" where
  "audio_frame pcm = CHR 0x01 # pcm_bytes pcm"

text \<open>A line of the pager decoder; the frame of an event, sent on the strand, also counts as data.\<close>

definition pager_frame :: "string \<Rightarrow> string option" where
  "pager_frame line = map_option event_text (multimon_line_to_event True line)"

definition send_page :: "clock \<Rightarrow> string \<Rightarrow> sess \<Rightarrow> sess" where
  "send_page c text x = send_text (ck_wall c) text (if_registered (\<lambda>i. on_stats (note_data i (ck_tick c))) x)"

definition pager_exit :: "clock \<Rightarrow> sess \<Rightarrow> sess" where
  "pager_exit c x =
     (if ss_active (fst x) \<and> ss_chain (fst x) = Pager
      then (if ss_pager_failed (fst x) then x
            else send_text (ck_wall c) (error_text ''pager decoder exited unexpectedly'') (on_sess (\<lambda>s. s\<lparr>ss_pager_failed := True\<rparr>) x))
      else x)"

section \<open>The connection\<close>

definition on_accept :: "clock \<Rightarrow> string \<Rightarrow> sess \<Rightarrow> sess" where
  "on_accept c remote x =
     (case add_session remote (ck_wall c) (ck_tick c) (sv_stats (snd x)) of
        (i, st) \<Rightarrow>
          send_text (ck_wall c) build_capabilities_json
            (fst x\<lparr>ss_id := i\<rparr>, snd x\<lparr>sv_stats := register_key_reload i (register_iq_control i st)\<rparr>))"

text \<open>Whether a session restarts when it is asked to reload its keys.\<close>

definition will_reload :: "session \<Rightarrow> bool" where
  "will_reload s \<longleftrightarrow> ss_active s \<and> ss_chain s = Fm"

definition count_in :: "nat \<Rightarrow> sess \<Rightarrow> sess" where
  "count_in n = if_registered (\<lambda>_. on_stats (add_bytes_in n))"

text \<open>A frame of the client.\<close>

definition on_read :: "net_env \<Rightarrow> clock \<Rightarrow> sys_answers \<Rightarrow> bool \<Rightarrow> string \<Rightarrow> sess \<Rightarrow> sess option" where
  "on_read e c a is_text data x =
     map_option (count_in (length data))
       (if is_text then handle_text_message e c a data x else Some (handle_binary_message (ck_wall c) data x))"

text \<open>The last reference to a session is gone.\<close>

definition close_session :: "clock \<Rightarrow> sess \<Rightarrow> sess" where
  "close_session c x =
     if_registered (\<lambda>i. on_stats (stats_remove_session i (ck_now c) (ck_tick c) (ck_wall c) (ck_tick c))) (stop_pipeline c x)"

end
