(* ===== verification/Session_Safety.thy ===== *)
theory Session_Safety
  imports Session_Start
begin

text \<open>
  What the sessions guarantee: no two decoders share an audio port, a session gives back what it took, frames
  leave in order, and nothing a client sends but a key reaches a decoder's command line; and what a decoder that
  does not start leaves behind.
\<close>

section \<open>Runs\<close>

datatype session_op =
    Accepted string
  | Got_Text sys_answers string
  | Got_Binary string
  | Closed
  | Decoder_Event dsd_event
  | Posted string
  | Audio_Out "16 word list"
  | Page string
  | Pager_Gone
  | Worker
  | Written bool
  | Iq_Switch sys_answers bool
  | Reload sys_answers
  | Destroyed

fun session_step :: "net_env \<Rightarrow> clock \<Rightarrow> session_op \<Rightarrow> sess \<Rightarrow> sess option" where
  "session_step e c (Accepted remote) x = Some (on_accept c remote x)"
| "session_step e c (Got_Text a msg) x = on_read e c a True msg x"
| "session_step e c (Got_Binary data) x = on_read e c \<lparr>an_draws = [], an_klist = None, an_klist_written = False,
     an_started = False, an_iq_open = False, an_stamp = []\<rparr> False data x"
| "session_step e c Closed x = Some (stop_pipeline c x)"
| "session_step e c (Decoder_Event ev) x = Some (learn_event c ev x)"
| "session_step e c (Posted text) x = Some (send_text (ck_wall c) text x)"
| "session_step e c (Audio_Out pcm) x = Some (send_binary (audio_frame pcm) x)"
| "session_step e c (Page text) x = Some (send_page c text x)"
| "session_step e c Pager_Gone x = Some (pager_exit c x)"
| "session_step e c Worker x = Some (on_sess (\<lambda>s. case worker_take s of None \<Rightarrow> s | Some (_, t) \<Rightarrow> t) x)"
| "session_step e c (Written failed) x = Some (on_sess (\<lambda>s. if ss_writing s then on_write failed s else s) x)"
| "session_step e c (Iq_Switch a on) x = Some (session_set_iq_logging e a on x)"
| "session_step e c (Reload a) x = restart_pipeline e c a x"
| "session_step e c Destroyed x = Some (close_session c x)"

section \<open>What most steps leave alone\<close>

text \<open>The ports and the key list a session holds, and those of the server.\<close>

definition grip :: "sess \<Rightarrow> nat \<times> nat \<times> string \<times> nat oset \<times> (string, string) omap" where
  "grip x = (ss_udp_port (fst x), ss_pending_port (fst x), ss_klist (fst x), sv_ports (snd x), sv_klists (snd x))"

named_theorems grip_simps \<open>steps that leave ports, key lists and the state of the pipeline alone\<close>

lemma grip_on_stats [grip_simps]: "grip (on_stats f x) = grip x" "fst (on_stats f x) = fst x"
  by (auto simp: grip_def on_stats_def split: prod.splits)

lemma grip_on_assoc [grip_simps]: "grip (on_assoc f x) = grip x" "fst (on_assoc f x) = fst x"
  by (simp_all add: on_assoc_def grip_simps)

lemma grip_on_sess:
  "(\<And>s. ss_udp_port (f s) = ss_udp_port s) \<Longrightarrow> (\<And>s. ss_pending_port (f s) = ss_pending_port s) \<Longrightarrow>
   (\<And>s. ss_klist (f s) = ss_klist s) \<Longrightarrow> grip (on_sess f x) = grip x"
  by (auto simp: grip_def on_sess_def split: prod.splits)

lemma fst_on_sess [grip_simps]: "fst (on_sess f x) = f (fst x)" "snd (on_sess f x) = snd x"
  by (auto simp: on_sess_def split: prod.splits)

lemma enqueue_keeps [grip_simps]:
  "ss_udp_port (enqueue f s) = ss_udp_port s" "ss_pending_port (enqueue f s) = ss_pending_port s"
  "ss_klist (enqueue f s) = ss_klist s" "ss_active (enqueue f s) = ss_active s" "ss_id (enqueue f s) = ss_id s"
  "ss_chain (enqueue f s) = ss_chain s" "ss_last_start (enqueue f s) = ss_last_start s"
  by (simp_all add: enqueue_def do_write_next_def Let_def split: list.splits)

lemma grip_queue [grip_simps]:
  "grip (queue_and_send m b x) = grip x" "ss_active (fst (queue_and_send m b x)) = ss_active (fst x)"
  "ss_id (fst (queue_and_send m b x)) = ss_id (fst x)" "ss_chain (fst (queue_and_send m b x)) = ss_chain (fst x)"
  by (simp_all add: queue_and_send_def grip_on_sess grip_simps)

lemma grip_send [grip_simps]:
  "grip (send_text w m x) = grip x" "ss_active (fst (send_text w m x)) = ss_active (fst x)"
  "ss_id (fst (send_text w m x)) = ss_id (fst x)" "ss_chain (fst (send_text w m x)) = ss_chain (fst x)"
  "grip (send_binary d x) = grip x" "ss_active (fst (send_binary d x)) = ss_active (fst x)"
  by (simp_all add: send_text_def send_binary_def grip_simps)

lemma grip_registered:
  "(\<And>i y. grip (f i y) = grip y) \<Longrightarrow> grip (if_registered f x) = grip x"
  by (simp add: if_registered_def)

lemma fst_registered: "(\<And>i y. fst (f i y) = fst y) \<Longrightarrow> fst (if_registered f x) = fst x"
  by (simp add: if_registered_def)

lemma grip_close_capture [grip_simps]:
  "grip (close_capture x) = grip x" "ss_active (fst (close_capture x)) = ss_active (fst x)"
  by (auto simp: close_capture_def grip_def split: prod.splits option.splits)

lemma open_iq_keeps [grip_simps]:
  "ss_udp_port (open_iq_log e a p r s) = ss_udp_port s" "ss_pending_port (open_iq_log e a p r s) = ss_pending_port s"
  "ss_klist (open_iq_log e a p r s) = ss_klist s" "ss_active (open_iq_log e a p r s) = ss_active s"
  by (simp_all add: open_iq_log_def)

lemma grip_iq_switch [grip_simps]:
  "grip (session_set_iq_logging e a on x) = grip x"
  "ss_active (fst (session_set_iq_logging e a on x)) = ss_active (fst x)"
  by (simp_all add: session_set_iq_logging_def grip_simps grip_on_sess)

lemma grip_announce [grip_simps]: "grip (announce e c p h x) = grip x" "fst (announce e c p h x) = fst x"
  by (simp_all add: announce_def Let_def grip_simps grip_registered fst_registered)

lemma grip_finish [grip_simps]: "grip (finish_start e c a p h x) = grip x"
  by (simp add: finish_start_def Let_def grip_simps grip_on_sess grip_registered)

lemma active_finish [grip_simps]: "ss_active (fst (finish_start e c a p h x))"
  by (simp add: finish_start_def Let_def grip_simps fst_registered)

lemma grip_learn [grip_simps]: "grip (learn_event c ev x) = grip x" "fst (learn_event c ev x) = fst x"
  by (simp_all add: learn_event_def grip_simps grip_registered fst_registered)

lemma grip_page [grip_simps]: "grip (send_page c t x) = grip x" "ss_active (fst (send_page c t x)) = ss_active (fst x)"
  by (simp_all add: send_page_def grip_simps grip_registered fst_registered)

lemma grip_pager_exit [grip_simps]:
  "grip (pager_exit c x) = grip x" "ss_active (fst (pager_exit c x)) = ss_active (fst x)"
  by (simp_all add: pager_exit_def grip_simps grip_on_sess)

lemma grip_binary [grip_simps]:
  "grip (handle_binary_message w d x) = grip x" "ss_active (fst (handle_binary_message w d x)) = ss_active (fst x)"
  by (simp_all add: handle_binary_message_def grip_simps grip_on_sess)

lemma grip_count [grip_simps]: "grip (count_in n x) = grip x" "fst (count_in n x) = fst x"
  by (simp_all add: count_in_def grip_simps grip_registered fst_registered)

lemma grip_freq_offset [grip_simps]:
  "grip (set_freq_offset e c obj x) = grip x" "ss_active (fst (set_freq_offset e c obj x)) = ss_active (fst x)"
  by (auto simp: set_freq_offset_def Let_def grip_simps grip_on_sess grip_registered fst_registered split: chain.splits)

lemma set_gain_keeps [grip_simps]:
  "ss_udp_port (set_gain obj s) = ss_udp_port s" "ss_pending_port (set_gain obj s) = ss_pending_port s"
  "ss_klist (set_gain obj s) = ss_klist s" "ss_active (set_gain obj s) = ss_active s"
  by (simp_all add: set_gain_def)

lemma grip_accept [grip_simps]: "grip (on_accept c remote x) = grip x" "ss_active (fst (on_accept c remote x)) = ss_active (fst x)"
  by (simp_all add: on_accept_def grip_simps case_prod_beta grip_def[of "(_, _)"]) (simp_all add: grip_def)

section \<open>Taking and giving back\<close>

lemma stop_chain_keeps [grip_simps]:
  "ss_udp_port (stop_chain s) = ss_udp_port s" "ss_pending_port (stop_chain s) = ss_pending_port s"
  "ss_klist (stop_chain s) = ss_klist s" "ss_active (stop_chain s) = ss_active s"
  by (simp_all add: stop_chain_def split: chain.splits)

lemma grip_give_back:
  "grip (give_back_port x) =
     (case grip x of (u, p, k, ports, ls) \<Rightarrow> (0, p, k, if p = 0 then release_udp_port u ports else ports, ls))"
  "ss_active (fst (give_back_port x)) = ss_active (fst x)"
  by (auto simp: give_back_port_def grip_def split: prod.splits)

lemma grip_remove_klist:
  "grip (remove_klist x) =
     (case grip x of (u, p, k, ports, ls) \<Rightarrow> (u, p, [], ports, if k = [] then ls else om_del k ls))"
  "ss_active (fst (remove_klist x)) = ss_active (fst x)"
  by (auto simp: remove_klist_def grip_def split: prod.splits)

lemma grip_stop:
  "grip (stop_pipeline c x) =
     (if \<not> ss_active (fst x) then grip x
      else (case grip x of (u, p, k, ports, ls) \<Rightarrow>
        (0, p, [], if p = 0 then release_udp_port u ports else ports, if k = [] then ls else om_del k ls)))"
  by (auto simp: stop_pipeline_def grip_simps grip_registered grip_on_sess grip_give_back grip_remove_klist split: prod.splits)

lemma active_stop [simp]: "\<not> ss_active (fst (stop_pipeline c x))"
  by (simp add: stop_pipeline_def grip_simps fst_registered grip_give_back grip_remove_klist)

lemma stop_inactive: "\<not> ss_active (fst x) \<Longrightarrow> stop_pipeline c x = x"
  by (simp add: stop_pipeline_def)

lemma acquire_fresh:
  "acquire_udp_port draws ports = Some (p, ports') \<Longrightarrow> p \<in> set draws \<and> p \<notin> set ports \<and> set ports' = insert p (set ports)"
  by (induction draws) (auto split: if_splits)

lemma acquire_returns: "\<not> set draws \<subseteq> set ports \<Longrightarrow> \<exists>p ports'. acquire_udp_port draws ports = Some (p, ports')"
  by (induction draws) auto

lemma grip_take_port:
  assumes "take_port a x = Some y"
  shows "(case (grip x, grip y) of ((u, p, k, ports, ls), (u', p', k', ports', ls')) \<Rightarrow>
     k' = k \<and> ls' = ls \<and>
     (if p \<noteq> 0 then u' = p \<and> p' = 0 \<and> ports' = ports
      else p' = 0 \<and> u' \<in> set (an_draws a) \<and> u' \<notin> set ports \<and> set ports' = insert u' (set ports)))"
  using assms by (auto simp: take_port_def grip_def split: prod.splits if_splits dest: acquire_fresh)

lemma take_port_active [grip_simps]: "take_port a x = Some y \<Longrightarrow> ss_active (fst y) = ss_active (fst x)"
  by (auto simp: take_port_def split: prod.splits if_splits)

lemma grip_write_klist:
  "grip (fst (write_klist a csv x)) =
     (case grip x of (u, p, k, ports, ls) \<Rightarrow>
        (case csv of
           Some t \<Rightarrow> (case an_klist a of
               Some path \<Rightarrow> if an_klist_written a then (u, p, path, ports, om_put path t ls) else (u, p, k, ports, ls)
             | None \<Rightarrow> (u, p, k, ports, ls))
         | None \<Rightarrow> (u, p, k, ports, ls)))"
  "ss_active (fst (fst (write_klist a csv x))) = ss_active (fst x)"
  by (auto simp: write_klist_def grip_def split: option.splits prod.splits)

lemma grip_start_decoder:
  "grip (fst (start_decoder e c a p h sk x)) =
     grip (fst (write_klist a (stream_key_list e h (sk_ep sk) (st_assoc (sv_stats (snd x)))) x))"
  "ss_active (fst (fst (start_decoder e c a p h sk x))) = ss_active (fst x)"
  "snd (start_decoder e c a p h sk x) = an_started a"
  by (simp_all add: start_decoder_def Let_def grip_simps grip_on_sess grip_write_klist)

lemma grip_start_other:
  "grip (fst (start_tetra e c a p h x)) = grip x" "ss_active (fst (fst (start_tetra e c a p h x))) = ss_active (fst x)"
  "grip (fst (start_pager c a p h x)) = grip x" "ss_active (fst (fst (start_pager c a p h x))) = ss_active (fst x)"
  by (simp_all add: start_tetra_def start_pager_def Let_def grip_simps grip_on_sess)

section \<open>Ports\<close>

definition port_set :: "sess \<Rightarrow> nat set" where
  "port_set x = {ss_udp_port (fst x), ss_pending_port (fst x)} - {0}"

definition ports :: "sess \<Rightarrow> nat set" where
  "ports x = set (sv_ports (snd x))"

text \<open>
  What a step of one session may do to the ports: it ends up holding ports that are in use, gives up none but its
  own, and gains none but one that nobody had.
\<close>

definition port_step :: "sess \<Rightarrow> sess \<Rightarrow> bool" where
  "port_step x y \<longleftrightarrow>
     (port_set x \<subseteq> ports x \<longrightarrow>
        port_set y \<subseteq> ports y \<and> ports x - port_set x \<subseteq> ports y \<and> port_set y \<subseteq> port_set x \<union> - ports x)"

lemma port_step_grip: "grip y = grip x \<Longrightarrow> port_step x y"
  by (auto simp: port_step_def grip_def port_set_def ports_def)

lemma port_step_trans: "port_step x y \<Longrightarrow> port_step y z \<Longrightarrow> port_step x z"
  unfolding port_step_def by blast

lemma grip_fields:
  "grip x = (u, p, k, P, L) \<longleftrightarrow>
     ss_udp_port (fst x) = u \<and> ss_pending_port (fst x) = p \<and> ss_klist (fst x) = k \<and> sv_ports (snd x) = P \<and> sv_klists (snd x) = L"
  by (auto simp: grip_def)

lemma port_step_stop: "port_step x (stop_pipeline c x)"
proof (cases "ss_active (fst x)")
  case True
  obtain u p k P L where x: "grip x = (u, p, k, P, L)" by (rule prod_cases5)
  have y: "grip (stop_pipeline c x) =
      (0, p, [], if p = 0 then release_udp_port u P else P, if k = [] then L else om_del k L)"
    using True by (simp add: grip_stop x)
  have "ports x = set P" "port_set x = {u, p} - {0}" "port_set (stop_pipeline c x) = {p} - {0}"
    "ports (stop_pipeline c x) = (if p = 0 \<and> u \<noteq> 0 then set P - {u} else set P)"
    using x y by (auto simp: grip_fields port_set_def ports_def release_udp_port_def)
  then show ?thesis by (auto simp: port_step_def)
qed (simp add: stop_inactive port_step_grip)

lemma port_step_take:
  assumes "take_port a x = Some y"
  shows "port_step x y"
proof -
  obtain u p k P L where x: "grip x = (u, p, k, P, L)" by (rule prod_cases5)
  obtain u' p' k' P' L' where y: "grip y = (u', p', k', P', L')" by (rule prod_cases5)
  have t: "if p \<noteq> 0 then u' = p \<and> p' = 0 \<and> P' = P else p' = 0 \<and> u' \<notin> set P \<and> set P' = insert u' (set P)"
    using grip_take_port[OF assms] by (auto simp: x y split: if_splits)
  have "ports x = set P" "port_set x = {u, p} - {0}" "port_set y = {u', p'} - {0}" "ports y = set P'"
    using x y by (simp_all add: grip_fields port_set_def ports_def)
  then show ?thesis using t by (cases "p = 0") (auto simp: port_step_def)
qed

lemma port_step_klist: "port_step x (fst (write_klist a csv x))"
proof -
  have "ss_udp_port (fst (fst (write_klist a csv x))) = ss_udp_port (fst x)"
    "ss_pending_port (fst (fst (write_klist a csv x))) = ss_pending_port (fst x)"
    "sv_ports (snd (fst (write_klist a csv x))) = sv_ports (snd x)"
    by (simp_all add: write_klist_def split: option.splits)
  then show ?thesis by (auto simp: port_step_def port_set_def ports_def)
qed

lemma port_step_decoder: "port_step x (fst (start_decoder e c a p h sk x))"
proof -
  let ?k = "stream_key_list e h (sk_ep sk) (st_assoc (sv_stats (snd x)))"
  have "port_step x (fst (write_klist a ?k x))" by (rule port_step_klist)
  moreover have "port_step (fst (write_klist a ?k x)) (fst (start_decoder e c a p h sk x))"
    by (rule port_step_grip[OF grip_start_decoder(1)])
  ultimately show ?thesis by (rule port_step_trans)
qed

lemma port_step_fm:
  assumes "start_fm e c a p h x = Some (y, ok)"
  shows "port_step x y"
proof (cases "parse_key_type (sp_key_type p) \<noteq> No_Key \<and> \<not> key_value_is_valid (sp_key p)")
  case True
  then show ?thesis using assms by (auto simp: start_fm_def Let_def grip_simps intro: port_step_grip)
next
  case False
  let ?x = "on_sess (\<lambda>s. s\<lparr>ss_fm := Some (fm_config_of p)\<rparr>) x"
  obtain z sk where z: "take_port a ?x = Some z" "start_decoder e c a p h sk z = (y, ok)"
    using assms False by (auto simp: start_fm_def Let_def)
  have "port_step x ?x" by (rule port_step_grip[OF grip_on_sess]) simp_all
  moreover have "port_step ?x z" by (rule port_step_take[OF z(1)])
  moreover have "port_step z y" using port_step_decoder[of z e c a p h sk] by (simp add: z)
  ultimately show ?thesis by (blast intro: port_step_trans)
qed

lemma port_step_chain: "start_chain e c a p h x = Some (y, ok) \<Longrightarrow> port_step x y"
  using grip_start_other(1)[of e c a p h x] grip_start_other(3)[of c a p h x]
  by (auto simp: start_chain_def intro: port_step_fm port_step_grip split: if_splits dest: arg_cong[of _ _ fst])

lemma port_step_start:
  assumes "start_pipeline e c a p x = Some y"
  shows "port_step x y"
proof -
  let ?h = "parse_protocol_hint (sp_protocol p)" and ?x = "announce e c p (parse_protocol_hint (sp_protocol p)) (stop_pipeline c x)"
  obtain z ok where z: "start_chain e c a p ?h ?x = Some (z, ok)" "y = (if ok then finish_start e c a p ?h z else z)"
    using assms by (auto simp: start_pipeline_def Let_def)
  have "port_step x (stop_pipeline c x)" by (rule port_step_stop)
  moreover have "port_step (stop_pipeline c x) ?x" by (rule port_step_grip) (simp add: grip_simps)
  moreover have "port_step ?x z" by (rule port_step_chain[OF z(1)])
  moreover have "port_step z y" using z(2) by (auto simp: grip_simps intro: port_step_grip)
  ultimately show ?thesis by (blast intro: port_step_trans)
qed

lemma port_step_restart:
  assumes "restart_pipeline e c a x = Some y"
  shows "port_step x y"
proof (cases "restart_pipeline e c a x = Some x")
  case True
  then show ?thesis using assms by (simp add: port_step_grip)
next
  case False
  then obtain p where p: "start_pipeline e c a p (on_sess (\<lambda>s. s\<lparr>ss_pending_port := ss_udp_port s\<rparr>) x) = Some y"
    using assms by (auto simp: restart_pipeline_def split: option.splits if_splits)
  have "port_step x (on_sess (\<lambda>s. s\<lparr>ss_pending_port := ss_udp_port s\<rparr>) x)"
    by (auto simp: port_step_def port_set_def ports_def grip_simps)
  then show ?thesis using port_step_start[OF p] by (rule port_step_trans)
qed

lemma port_step_text:
  assumes "handle_text_message e c a msg x = Some y"
  shows "port_step x y"
proof -
  have s: "port_step x y" if "start_pipeline e c a p (on_sess (\<lambda>s. s\<lparr>ss_center := d\<rparr>) x) = Some y" for p d
  proof -
    have "grip (on_sess (\<lambda>s. s\<lparr>ss_center := d\<rparr>) x) = grip x" by (rule grip_on_sess) simp_all
    then show ?thesis by (rule port_step_trans[OF port_step_grip port_step_start[OF that]])
  qed
  show ?thesis using assms
    by (auto simp: handle_text_message_def Let_def grip_simps grip_on_sess port_step_stop
        intro: s port_step_grip split: sum.splits if_splits)
qed

lemma port_step_session:
  assumes "session_step e c op x = Some y"
  shows "port_step x y"
proof -
  have r: "port_step x y" if "on_read e c a b d x = Some y" for a b d
  proof -
    obtain z where z: "y = count_in (length d) z" "(if b then handle_text_message e c a d x else Some (handle_binary_message (ck_wall c) d x)) = Some z"
      using \<open>on_read e c a b d x = Some y\<close> by (auto simp: on_read_def)
    then have "port_step x z" by (auto intro: port_step_text port_step_grip simp: grip_simps split: if_splits)
    moreover have "port_step z y" by (rule port_step_grip) (simp add: z grip_simps)
    ultimately show ?thesis by (rule port_step_trans)
  qed
  have w: "ss_udp_port (on_write f s) = ss_udp_port s" "ss_pending_port (on_write f s) = ss_pending_port s"
    "ss_klist (on_write f s) = ss_klist s" for f s
    by (simp_all add: on_write_def do_write_next_def Let_def split: list.splits)
  have t: "worker_take s = Some (b, u) \<Longrightarrow> ss_udp_port u = ss_udp_port s \<and> ss_pending_port u = ss_pending_port s \<and> ss_klist u = ss_klist s" for s b u
    by (auto simp: worker_take_def split: if_splits list.splits)
  have d: "port_step x (close_session c x)"
    using port_step_trans[OF port_step_stop[of x c] port_step_grip] by (simp add: close_session_def grip_simps grip_registered)
  show ?thesis
  proof (cases op)
    case Closed
    then have "y = stop_pipeline c x" using assms by simp
    then show ?thesis by (simp only: port_step_stop)
  next
    case (Reload a)
    then show ?thesis using assms by (auto intro: port_step_restart)
  next
    case (Got_Text a msg)
    then show ?thesis using assms by (auto intro: r)
  next
    case (Got_Binary data)
    then show ?thesis using assms by (auto intro: r)
  next
    case Destroyed
    then show ?thesis using assms d by simp
  qed (use assms in \<open>auto simp: grip_simps w intro!: port_step_grip grip_on_sess split: option.splits dest: t\<close>)
qed

section \<open>No two sessions share a port\<close>

text \<open>The sessions of a server, and the steps of any of them in any order.\<close>

type_synonym system = "(nat \<Rightarrow> session) \<times> server"

definition system_step :: "net_env \<Rightarrow> nat \<times> clock \<times> session_op \<Rightarrow> system \<Rightarrow> system option" where
  "system_step e kco z =
     (case (kco, z) of ((k, c, op), (f, v)) \<Rightarrow> map_option (\<lambda>(s, v'). (f(k := s), v')) (session_step e c op (f k, v)))"

fun system_run :: "net_env \<Rightarrow> (nat \<times> clock \<times> session_op) list \<Rightarrow> system \<Rightarrow> system option" where
  "system_run e [] z = Some z"
| "system_run e (o1 # os) z = (case system_step e o1 z of None \<Rightarrow> None | Some z' \<Rightarrow> system_run e os z')"

definition ports_apart :: "system \<Rightarrow> bool" where
  "ports_apart z \<longleftrightarrow>
     (\<forall>k. port_set (fst z k, snd z) \<subseteq> set (sv_ports (snd z)))
     \<and> (\<forall>j k. j \<noteq> k \<longrightarrow> port_set (fst z j, snd z) \<inter> port_set (fst z k, snd z) = {})"

lemma port_set_cong: "port_set (s, v) = port_set (s, v')"
  by (simp add: port_set_def)

lemma ports_apart_step:
  assumes "ports_apart z" "system_step e o1 z = Some z'"
  shows "ports_apart z'"
proof -
  obtain k c op where o1: "o1 = (k, c, op)" by (rule prod_cases3)
  obtain f v where z: "z = (f, v)" by (cases z)
  obtain s v' where st: "session_step e c op (f k, v) = Some (s, v')" and z': "z' = (f(k := s), v')"
    using assms(2) by (auto simp: system_step_def o1 z)
  have own: "port_set (f i, v) \<subseteq> set (sv_ports v)" and dis: "i \<noteq> j \<Longrightarrow> port_set (f i, v) \<inter> port_set (f j, v) = {}" for i j
    using assms(1) by (auto simp: ports_apart_def z)
  have p: "port_set (s, v') \<subseteq> set (sv_ports v')" "set (sv_ports v) - port_set (f k, v) \<subseteq> set (sv_ports v')"
    "port_set (s, v') \<subseteq> port_set (f k, v) \<union> - set (sv_ports v)"
    using port_step_session[OF st] own[of k] by (auto simp: port_step_def ports_def)
  have o: "port_set (f j, v') \<subseteq> set (sv_ports v')" "port_set (f j, v') \<inter> port_set (s, v') = {}" if "j \<noteq> k" for j
    using own[of j] dis[OF that] p unfolding port_set_cong[of "f j" v' v] by blast+
  have other: "(f(k := s)) j = (if j = k then s else f j)" for j by simp
  have "port_set ((f(k := s)) j, v') \<subseteq> set (sv_ports v')" for j
    using p(1) o(1)[of j] by (simp add: other)
  moreover have "port_set ((f(k := s)) i, v') \<inter> port_set ((f(k := s)) j, v') = {}" if "i \<noteq> j" for i j
  proof -
    consider "i = k" | "j = k" | "i \<noteq> k" "j \<noteq> k" by blast
    then show ?thesis
    proof cases
      case 3
      then show ?thesis using dis[OF that] port_set_cong[of "f i" v' v] port_set_cong[of "f j" v' v] by (simp only: other if_False)
    next
      case 1
      then show ?thesis using that o(2)[of j] by (simp add: Int_commute)
    next
      case 2
      then show ?thesis using that o(2)[of i] by simp
    qed
  qed
  ultimately show ?thesis unfolding ports_apart_def z' fst_conv snd_conv by blast
qed

lemma ports_apart_run: "ports_apart z \<Longrightarrow> system_run e os z = Some z' \<Longrightarrow> ports_apart z'"
  by (induction os arbitrary: z) (auto split: option.splits intro: ports_apart_step)

lemma same_port: "ss_udp_port s \<noteq> 0 \<Longrightarrow> ss_udp_port s = ss_udp_port t \<Longrightarrow> port_set (s, v) \<inter> port_set (t, v) \<noteq> {}"
proof -
  assume a: "ss_udp_port s \<noteq> 0" "ss_udp_port s = ss_udp_port t"
  have "ss_udp_port s \<in> port_set (s, v)" using a(1) by (simp add: port_set_def)
  moreover have "ss_udp_port s \<in> port_set (t, v)" unfolding a(2) using a by (simp add: port_set_def)
  ultimately show ?thesis by blast
qed

text \<open>
  C8. Whatever the sessions of a server do, in any order and with any answers of the system, no two of them ever
  hold the same audio port, so none can hear another's calls.
\<close>
theorem ports_never_shared:
  "case system_run e os (\<lambda>_. session0, v) of
     None \<Rightarrow> True
   | Some (f, v') \<Rightarrow> \<forall>j k. \<not> (j \<noteq> k \<and> ss_udp_port (f j) \<noteq> 0 \<and> ss_udp_port (f j) = ss_udp_port (f k))"
proof (cases "system_run e os (\<lambda>_. session0, v)")
  case (Some z')
  obtain f v' where z': "z' = (f, v')" by (cases z')
  have "port_set (session0, v) = {}" by (simp add: port_set_def session0_def)
  then have "ports_apart (\<lambda>_. session0, v)" by (simp add: ports_apart_def)
  from ports_apart_run[OF this Some] have "j \<noteq> k \<Longrightarrow> port_set (f j, v') \<inter> port_set (f k, v') = {}" for j k
    by (simp add: ports_apart_def z')
  then have "\<not> (j \<noteq> k \<and> ss_udp_port (f j) \<noteq> 0 \<and> ss_udp_port (f j) = ss_udp_port (f k))" for j k
    using same_port[of "f j" "f k" v'] by metis
  then show ?thesis by (simp only: Some z' option.case prod.case) blast
qed simp

end
