(* ===== verification/Session_Life.thy ===== *)
theory Session_Life
  imports Session_Safety
begin

text \<open>
  A session gives back what it took. Followed over a whole run: the one port and the one key list a session has
  are its own, a stopped session has neither, and a session whose decoders start leaves the server's ports and
  temporary files as it found them. A decoder that does not start leaves both behind.
\<close>

section \<open>Chain and settings\<close>

named_theorems life_simps \<open>the chain and the cached settings after a step\<close>

text \<open>The cached settings are those of a chain that decodes FM, with a key that is well-formed.\<close>

definition fm_params :: "start_params \<Rightarrow> bool" where
  "fm_params p \<longleftrightarrow>
     (let h = parse_protocol_hint (sp_protocol p)
      in \<not> hint_is_tetra h \<and> \<not> hint_is_pager h \<and> (parse_key_type (sp_key_type p) = No_Key \<or> key_value_is_valid (sp_key p)))"

definition restartable :: "session \<Rightarrow> bool" where
  "restartable s \<longleftrightarrow> (ss_active s \<and> ss_chain s = Fm \<longrightarrow> (case ss_last_start s of None \<Rightarrow> False | Some p \<Rightarrow> fm_params p))"

lemma restartable_cong:
  "ss_active t = ss_active s \<Longrightarrow> ss_chain t = ss_chain s \<Longrightarrow> ss_last_start t = ss_last_start s \<Longrightarrow> restartable t = restartable s"
  by (simp add: restartable_def)

lemma restartable_inactive [life_simps]: "\<not> ss_active s \<Longrightarrow> restartable s"
  by (simp add: restartable_def)

lemma restartable_on_sess:
  "(\<And>s. restartable (f s) = restartable s) \<Longrightarrow> restartable (fst (on_sess f x)) = restartable (fst x)"
  by (simp add: grip_simps)

lemma restartable_enqueue [life_simps]: "restartable (enqueue f s) = restartable s"
  by (rule restartable_cong) (simp_all add: grip_simps)

lemma restartable_send [life_simps]:
  "restartable (fst (send_text w m x)) = restartable (fst x)" "restartable (fst (send_binary d x)) = restartable (fst x)"
  by (simp_all add: send_text_def send_binary_def queue_and_send_def grip_simps life_simps)

lemma restartable_capture [life_simps]:
  "restartable (fst (close_capture x)) = restartable (fst x)"
  "restartable (fst (session_set_iq_logging e a on x)) = restartable (fst x)"
  by (auto simp: close_capture_def session_set_iq_logging_def open_iq_log_def restartable_def grip_simps
      split: prod.splits option.splits)

lemma restartable_updates [life_simps]:
  "restartable (s\<lparr>ss_fm := f\<rparr>) = restartable s" "restartable (s\<lparr>ss_pager := g\<rparr>) = restartable s"
  "restartable (s\<lparr>ss_pager_failed := b\<rparr>) = restartable s" "restartable (s\<lparr>ss_iq_log := w, ss_iq_queue := q\<rparr>) = restartable s"
  "restartable (s\<lparr>ss_id := n\<rparr>) = restartable s" "restartable (s\<lparr>ss_center := d\<rparr>) = restartable s"
  "restartable (s\<lparr>ss_iq_queue := q\<rparr>) = restartable s" "restartable (s\<lparr>ss_iq_log := w\<rparr>) = restartable s"
  "restartable (s\<lparr>ss_pending_port := n\<rparr>) = restartable s"
  by (simp_all add: restartable_def)

lemma restartable_page [life_simps]: "restartable (fst (send_page c t x)) = restartable (fst x)"
  by (simp add: send_page_def grip_simps life_simps fst_registered)

lemma restartable_exit [life_simps]: "restartable (fst (pager_exit c x)) = restartable (fst x)"
  by (simp add: pager_exit_def grip_simps life_simps)

lemma restartable_binary [life_simps]: "restartable (fst (handle_binary_message w d x)) = restartable (fst x)"
  by (simp add: handle_binary_message_def grip_simps life_simps)

lemma restartable_gain [life_simps]: "restartable (set_gain obj s) = restartable s"
  by (simp add: set_gain_def life_simps)

lemma restartable_offset [life_simps]: "restartable (fst (set_freq_offset e c obj x)) = restartable (fst x)"
  by (simp add: set_freq_offset_def Let_def grip_simps life_simps fst_registered split: chain.splits)

section \<open>What a session owns\<close>

definition files :: "(string, string) omap \<Rightarrow> string set" where
  "files L = fst ` set L"

lemma files_simps [simp]: "files (om_put k t L) = insert k (files L)" "files (om_del k L) = files L - {k}"
  by (simp_all only: files_def om_put_keys om_del_keys)

text \<open>\<open>B\<close> are the ports of the others, \<open>K\<close> the other files; \<open>q\<close> is the port kept for a restart.\<close>

definition owned :: "nat \<Rightarrow> nat \<Rightarrow> string \<Rightarrow> nat set \<Rightarrow> string set \<Rightarrow> sess \<Rightarrow> bool" where
  "owned u q k B K x \<longleftrightarrow>
     (case grip x of (u', q', k', P, L) \<Rightarrow>
        u' = u \<and> q' = q \<and> k' = k \<and> (\<forall>i. i \<in> set P \<longleftrightarrow> i \<in> B \<or> i \<noteq> 0 \<and> (i = u \<or> i = q))
        \<and> (u \<noteq> 0 \<longrightarrow> u \<notin> B) \<and> (q \<noteq> 0 \<longrightarrow> q \<notin> B)
        \<and> (\<forall>f. f \<in> files L \<longleftrightarrow> f \<in> K \<or> f \<noteq> [] \<and> f = k) \<and> (k \<noteq> [] \<longrightarrow> k \<notin> K))"

definition owns :: "nat set \<Rightarrow> string set \<Rightarrow> sess \<Rightarrow> bool" where
  "owns B K x \<longleftrightarrow>
     (\<exists>u k. owned u 0 k B K x \<and> (\<not> ss_active (fst x) \<longrightarrow> u = 0 \<and> k = [])) \<and> restartable (fst x)"

lemma owned_grip: "grip y = grip x \<Longrightarrow> owned u q k B K y = owned u q k B K x"
  by (simp add: owned_def)

lemma owns_same:
  "owns B K x \<Longrightarrow> grip y = grip x \<Longrightarrow> ss_active (fst y) = ss_active (fst x) \<Longrightarrow> restartable (fst y) = restartable (fst x) \<Longrightarrow>
   owns B K y"
  by (simp add: owns_def owned_def)

text \<open>A stopped session, with the port it keeps for the restart.\<close>

definition idle :: "nat \<Rightarrow> nat set \<Rightarrow> string set \<Rightarrow> sess \<Rightarrow> bool" where
  "idle q B K x \<longleftrightarrow> owned 0 q [] B K x \<and> \<not> ss_active (fst x)"

lemma idle_owns: "idle 0 B K x \<Longrightarrow> owns B K x"
  unfolding idle_def owns_def by (simp add: life_simps)

lemma idle_grip: "idle q B K x \<Longrightarrow> grip y = grip x \<Longrightarrow> ss_active (fst y) = ss_active (fst x) \<Longrightarrow> idle q B K y"
  by (simp add: idle_def owned_def)

lemma stop_idle:
  assumes "owned u q k B K x" "ss_active (fst x)" "q = 0 \<or> q = u"
  shows "idle q B K (stop_pipeline c x)"
proof -
  obtain P L where x: "grip x = (u, q, k, P, L)"
    using assms(1) by (cases "grip x" rule: prod_cases5) (simp add: owned_def)
  have y: "grip (stop_pipeline c x) = (0, q, [], if q = 0 then release_udp_port u P else P, if k = [] then L else om_del k L)"
    using assms(2) by (simp add: grip_stop x)
  have p: "i \<in> set P \<longleftrightarrow> i \<in> B \<or> i \<noteq> 0 \<and> (i = u \<or> i = q)" "u \<noteq> 0 \<longrightarrow> u \<notin> B" "q \<noteq> 0 \<longrightarrow> q \<notin> B"
    "f \<in> files L \<longleftrightarrow> f \<in> K \<or> f \<noteq> [] \<and> f = k" "k \<noteq> [] \<longrightarrow> k \<notin> K" for i f
    using assms(1) unfolding owned_def x by simp_all
  have "i \<in> set (if q = 0 then release_udp_port u P else P) \<longleftrightarrow> i \<in> B \<or> i \<noteq> 0 \<and> i = q" for i
    using p(1)[of i] p(2,3) assms(3) by (auto simp: release_udp_port_def)
  moreover have "f \<in> files (if k = [] then L else om_del k L) \<longleftrightarrow> f \<in> K" for f
    using p(4)[of f] p(5) by (cases "k = []") auto
  ultimately show ?thesis unfolding idle_def owned_def y using p(3) by auto
qed

lemma stop_owns:
  assumes "owns B K x"
  shows "idle 0 B K (stop_pipeline c x)"
proof -
  obtain u k where o: "owned u 0 k B K x" "\<not> ss_active (fst x) \<longrightarrow> u = 0 \<and> k = []" using assms by (auto simp: owns_def)
  show ?thesis
  proof (cases "ss_active (fst x)")
    case True
    then show ?thesis using o(1) by (intro stop_idle) simp_all
  next
    case False
    then show ?thesis using o by (simp add: stop_inactive idle_def)
  qed
qed

section \<open>Starting\<close>

text \<open>
  Answers under which everything works: the decoder starts, ports are drawn from 40000 to 59000,
  and \<open>mkstemp\<close> makes a file that was not there.
\<close>

definition good_answers :: "string set \<Rightarrow> sys_answers \<Rightarrow> bool" where
  "good_answers K a \<longleftrightarrow>
     an_started a \<and> list_all (\<lambda>p. 40000 \<le> p \<and> p \<le> 59000) (an_draws a) \<and> (case an_klist a of None \<Rightarrow> True | Some path \<Rightarrow> path \<noteq> [] \<and> path \<notin> K)"

lemma good_draws: "good_answers K a \<Longrightarrow> 0 \<notin> set (an_draws a)"
  by (auto simp: good_answers_def list_all_iff)

lemma take_owned:
  assumes "idle q B K x" "take_port a x = Some y" "0 \<notin> set (an_draws a)"
  shows "\<exists>u. owned u 0 [] B K y"
proof -
  obtain P L where x: "grip x = (0, q, [], P, L)"
    using assms(1) by (cases "grip x" rule: prod_cases5) (simp add: idle_def owned_def)
  obtain u p' k' P' L' where y: "grip y = (u, p', k', P', L')" by (rule prod_cases5)
  have p: "i \<in> set P \<longleftrightarrow> i \<in> B \<or> i \<noteq> 0 \<and> i = q" "q \<noteq> 0 \<longrightarrow> q \<notin> B" "f \<in> files L \<longleftrightarrow> f \<in> K" for i f
    using assms(1) unfolding idle_def owned_def x by auto
  have t: "k' = []" "L' = L" "p' = 0"
    "if q \<noteq> 0 then u = q \<and> P' = P else u \<in> set (an_draws a) \<and> u \<notin> set P \<and> set P' = insert u (set P)"
    using grip_take_port[OF assms(2)] unfolding x y by (auto split: if_splits)
  have "owned u 0 [] B K y"
  proof (cases "q = 0")
    case True
    then have "u \<noteq> 0" "u \<notin> set P" "set P' = insert u (set P)" using t(4) assms(3) by (auto intro: ccontr)
    then show ?thesis unfolding owned_def y using t(1-3) p True by auto
  next
    case False
    then have "u = q" "P' = P" using t(4) by simp_all
    then show ?thesis unfolding owned_def y using t(1-3) p False by auto
  qed
  then show ?thesis by blast
qed

lemma klist_owned:
  assumes "owned u 0 [] B K x" "good_answers K a"
  shows "\<exists>k. owned u 0 k B K (fst (write_klist a csv x))"
proof -
  obtain P L where x: "grip x = (u, 0, [], P, L)"
    using assms(1) by (cases "grip x" rule: prod_cases5) (simp add: owned_def)
  have p: "i \<in> set P \<longleftrightarrow> i \<in> B \<or> i \<noteq> 0 \<and> i = u" "u \<noteq> 0 \<longrightarrow> u \<notin> B" "f \<in> files L \<longleftrightarrow> f \<in> K" for i f
    using assms(1) unfolding owned_def x by auto
  consider "grip (fst (write_klist a csv x)) = grip x" |
    path t where "grip (fst (write_klist a csv x)) = (u, 0, path, P, om_put path t L)" "an_klist a = Some path"
    by (cases csv; cases "an_klist a"; cases "an_klist_written a") (simp_all add: grip_write_klist x)
  then show ?thesis
  proof cases
    case 1
    then show ?thesis using assms(1) by (auto simp: owned_def)
  next
    case 2
    then have "path \<noteq> []" "path \<notin> K" using assms(2) by (simp_all add: good_answers_def)
    then have "owned u 0 path B K (fst (write_klist a csv x))" unfolding owned_def 2(1) using p by auto
    then show ?thesis by blast
  qed
qed

lemma restartable_finish: "ss_chain (fst x) = Fm \<longrightarrow> fm_params p \<Longrightarrow> restartable (fst (finish_start e c a p h x))"
  by (simp add: finish_start_def Let_def grip_simps life_simps fst_registered, auto simp: restartable_def open_iq_log_def)

lemma finish_owns:
  assumes "owned u 0 k B K x" "ss_chain (fst x) = Fm \<longrightarrow> fm_params p"
  shows "owns B K (finish_start e c a p h x)"
  unfolding owns_def using assms by (auto simp: owned_def grip_simps restartable_finish)

text \<open>A start that works, from a session that is stopped.\<close>

lemma chain_owns:
  assumes "idle q B K x" "start_chain e c a p (parse_protocol_hint (sp_protocol p)) x = Some (y, ok)" "good_answers K a"
    "q = 0 \<or> fm_params p"
  shows "owns B K (if ok then finish_start e c a p h y else y)"
proof -
  let ?h = "parse_protocol_hint (sp_protocol p)"
  have other: "owns B K (if ok then finish_start e c a p h y else y)"
    if "q = 0" "grip y = grip x" "ss_active (fst y) = ss_active (fst x)" "ok \<longrightarrow> ss_chain (fst y) \<noteq> Fm"
  proof (cases ok)
    case True
    have "owned 0 0 [] B K y" using assms(1) that by (simp add: idle_def owned_def)
    then show ?thesis using True that(4) by (simp add: finish_owns)
  next
    case False
    have "idle 0 B K y" using assms(1) that by (auto intro: idle_grip)
    then show ?thesis using False by (simp add: idle_owns)
  qed
  consider "hint_is_tetra ?h" | "\<not> hint_is_tetra ?h" "hint_is_pager ?h" | "\<not> hint_is_tetra ?h" "\<not> hint_is_pager ?h" by blast
  then show ?thesis
  proof cases
    case 1
    then have y: "y = fst (start_tetra e c a p ?h x)" "ok = snd (start_tetra e c a p ?h x)" "q = 0"
      using assms(2,4) by (auto simp: start_chain_def fm_params_def)
    have "ss_chain (fst y) \<noteq> Fm" using assms(3) by (simp add: y start_tetra_def Let_def good_answers_def grip_simps)
    then show ?thesis using y grip_start_other(1,2)[of e c a p ?h x] by (intro other) simp_all
  next
    case 2
    then have y: "y = fst (start_pager c a p ?h x)" "ok = snd (start_pager c a p ?h x)" "q = 0"
      using assms(2,4) by (auto simp: start_chain_def fm_params_def)
    have "ok \<longrightarrow> ss_chain (fst y) \<noteq> Fm" using assms(3) by (simp add: y start_pager_def Let_def good_answers_def grip_simps)
    then show ?thesis using y grip_start_other(3,4)[of c a p ?h x] by (intro other) simp_all
  next
    case 3
    then have s: "start_fm e c a p ?h x = Some (y, ok)" using assms(2) by (simp add: start_chain_def)
    show ?thesis
    proof (cases "parse_key_type (sp_key_type p) \<noteq> No_Key \<and> \<not> key_value_is_valid (sp_key p)")
      case True
      then have "y = send_text (ck_wall c) (bad_key_text (sp_key_type p)) x" "\<not> ok" "q = 0"
        using s assms(4) by (auto simp: start_fm_def Let_def fm_params_def)
      then show ?thesis by (intro other) (simp_all add: grip_simps)
    next
      case False
      let ?x = "on_sess (\<lambda>s. s\<lparr>ss_fm := Some (fm_config_of p)\<rparr>) x"
      obtain z sk where z: "take_port a ?x = Some z" "start_decoder e c a p ?h sk z = (y, ok)"
        using s False by (auto simp: start_fm_def Let_def)
      have "grip ?x = grip x" by (rule grip_on_sess) simp_all
      then have "idle q B K ?x" by (rule idle_grip[OF assms(1)]) (simp add: grip_simps)
      then obtain u where "owned u 0 [] B K z" using take_owned[OF _ z(1) good_draws[OF assms(3)]] by blast
      then obtain k where k: "owned u 0 k B K (fst (write_klist a (stream_key_list e ?h (sk_ep sk) (st_assoc (sv_stats (snd z)))) z))"
        using klist_owned[OF _ assms(3)] by blast
      have "owned u 0 k B K y" by (rule owned_grip[THEN iffD2, OF _ k]) (use grip_start_decoder(1)[of e c a p ?h sk z] z(2) in simp)
      moreover have "fm_params p" using 3 False by (auto simp: fm_params_def)
      moreover have "ok" using grip_start_decoder(3)[of e c a p ?h sk z] z(2) assms(3) by (simp add: good_answers_def)
      ultimately show ?thesis by (simp add: finish_owns)
    qed
  qed
qed

lemma start_owns:
  assumes "start_pipeline e c a p x = Some y" "idle q B K (stop_pipeline c x)" "good_answers K a" "q = 0 \<or> fm_params p"
  shows "owns B K y"
proof -
  let ?h = "parse_protocol_hint (sp_protocol p)"
  obtain z ok where z: "start_chain e c a p ?h (announce e c p ?h (stop_pipeline c x)) = Some (z, ok)"
    "y = (if ok then finish_start e c a p ?h z else z)"
    using assms(1) by (auto simp: start_pipeline_def Let_def)
  have "idle q B K (announce e c p ?h (stop_pipeline c x))"
    by (rule idle_grip[OF assms(2)]) (simp_all add: grip_simps)
  then show ?thesis unfolding z(2) using z(1) assms(3,4) by (rule chain_owns)
qed

lemma restart_owns:
  assumes "restart_pipeline e c a x = Some y" "owns B K x" "good_answers K a"
  shows "owns B K y"
proof (cases "restart_pipeline e c a x = Some x")
  case True
  then show ?thesis using assms by simp
next
  case False
  let ?x = "on_sess (\<lambda>s. s\<lparr>ss_pending_port := ss_udp_port s\<rparr>) x"
  obtain p where p: "ss_active (fst x)" "ss_chain (fst x) = Fm" "ss_last_start (fst x) = Some p" "start_pipeline e c a p ?x = Some y"
    using assms(1) False by (auto simp: restart_pipeline_def split: option.splits if_splits)
  then have "fm_params p" using assms(2) by (simp add: owns_def restartable_def)
  obtain u k where u: "owned u 0 k B K x" using assms(2) by (auto simp: owns_def)
  have "grip ?x = (case grip x of (u, q, k, P, L) \<Rightarrow> (u, u, k, P, L))" by (simp add: grip_def grip_simps)
  then have "owned u u k B K ?x" using u by (cases "grip x" rule: prod_cases5) (auto simp: owned_def)
  then have "idle u B K (stop_pipeline c ?x)" using p(1) by (intro stop_idle[where u = u]) (simp_all add: grip_simps)
  then show ?thesis using start_owns[OF p(4)] assms(3) \<open>fm_params p\<close> by blast
qed

lemma text_owns:
  assumes "handle_text_message e c a msg x = Some y" "owns B K x" "good_answers K a"
  shows "owns B K y"
proof -
  have s: "owns B K y" if s: "start_pipeline e c a p (on_sess (\<lambda>s. s\<lparr>ss_center := d\<rparr>) x) = Some y" for p d
  proof (rule start_owns[OF s stop_owns assms(3)])
    show "owns B K (on_sess (\<lambda>s. s\<lparr>ss_center := d\<rparr>) x)"
      by (rule owns_same[OF assms(2) grip_on_sess]) (simp_all add: grip_simps life_simps)
  qed simp
  have o: "owns B K (send_text w m x)" for w m by (rule owns_same[OF assms(2)]) (simp_all add: grip_simps life_simps)
  have g: "owns B K (on_sess (set_gain obj) x)" for obj
    by (rule owns_same[OF assms(2) grip_on_sess]) (simp_all add: grip_simps life_simps set_gain_def)
  have f: "owns B K (set_freq_offset e c obj x)" for obj by (rule owns_same[OF assms(2)]) (simp_all add: grip_simps life_simps)
  have t: "owns B K (stop_pipeline c x)" by (rule idle_owns[OF stop_owns[OF assms(2)]])
  show ?thesis
  proof (cases "parse_flat_object msg")
    case (Inl err)
    then show ?thesis using assms(1) o by (auto simp: handle_text_message_def)
  next
    case (Inr obj)
    then show ?thesis using assms(1) s o g f t by (simp add: handle_text_message_def Let_def split: if_splits) blast+
  qed
qed

section \<open>A whole life\<close>

fun session_run :: "net_env \<Rightarrow> (clock \<times> session_op) list \<Rightarrow> sess \<Rightarrow> sess option" where
  "session_run e [] x = Some x"
| "session_run e ((c, op) # os) x = (case session_step e c op x of None \<Rightarrow> None | Some y \<Rightarrow> session_run e os y)"

definition good_op :: "string set \<Rightarrow> clock \<times> session_op \<Rightarrow> bool" where
  "good_op K co = (case snd co of Got_Text a _ \<Rightarrow> good_answers K a | Reload a \<Rightarrow> good_answers K a | _ \<Rightarrow> True)"

lemma step_owns:
  assumes "session_step e c op x = Some y" "owns B K x" "good_op K (c, op)"
  shows "owns B K y"
proof -
  have cnt: "owns B K (count_in n z)" if "owns B K z" for n z by (rule owns_same[OF that]) (simp_all add: grip_simps)
  note keep = owns_same[OF assms(2)]
  show ?thesis
  proof (cases op)
    case (Accepted r)
    then have y: "y = on_accept c r x" using assms(1) by simp
    obtain i st where a: "add_session r (ck_wall c) (ck_tick c) (sv_stats (snd x)) = (i, st)" by (rule prod.exhaust)
    show ?thesis unfolding y
      by (rule keep) (simp_all add: on_accept_def a grip_simps life_simps, simp add: grip_def)
  next
    case (Got_Text a msg)
    then obtain z where z: "handle_text_message e c a msg x = Some z" "y = count_in (length msg) z"
      using assms(1) by (auto simp: on_read_def)
    show ?thesis unfolding z(2) by (rule cnt[OF text_owns[OF z(1) assms(2)]]) (use assms(3) Got_Text in \<open>simp add: good_op_def\<close>)
  next
    case (Got_Binary d)
    then have "y = count_in (length d) (handle_binary_message (ck_wall c) d x)" using assms(1) by (simp add: on_read_def)
    then show ?thesis by (simp add: cnt keep grip_simps life_simps)
  next
    case Closed
    then show ?thesis using assms by (auto intro: idle_owns stop_owns)
  next
    case (Reload a)
    then show ?thesis using assms by (auto intro: restart_owns simp: good_op_def)
  next
    case Destroyed
    then have y: "y = close_session c x" using assms(1) by simp
    show ?thesis unfolding y
      by (rule owns_same[OF idle_owns[OF stop_owns[OF assms(2), of c]]]) (simp_all add: close_session_def grip_simps grip_registered fst_registered)
  next
    case (Decoder_Event ev)
    then have y: "y = learn_event c ev x" using assms(1) by simp
    show ?thesis unfolding y by (rule keep) (simp_all add: grip_simps)
  next
    case (Posted t)
    then have y: "y = send_text (ck_wall c) t x" using assms(1) by simp
    show ?thesis unfolding y by (rule keep) (simp_all add: grip_simps life_simps)
  next
    case (Audio_Out t)
    then have y: "y = send_binary (audio_frame t) x" using assms(1) by simp
    show ?thesis unfolding y by (rule keep) (simp_all add: grip_simps life_simps)
  next
    case (Page t)
    then have y: "y = send_page c t x" using assms(1) by simp
    show ?thesis unfolding y by (rule keep) (simp_all add: grip_simps life_simps)
  next
    case Pager_Gone
    then have y: "y = pager_exit c x" using assms(1) by simp
    show ?thesis unfolding y by (rule keep) (simp_all add: grip_simps life_simps)
  next
    case (Iq_Switch a b)
    then have y: "y = session_set_iq_logging e a b x" using assms(1) by simp
    show ?thesis unfolding y by (rule keep) (simp_all add: grip_simps life_simps)
  next
    case (Written b)
    then have y: "y = on_sess (\<lambda>s. if ss_writing s then on_write b s else s) x" using assms(1) by simp
    show ?thesis unfolding y
      by (rule keep[OF grip_on_sess]) (simp_all add: grip_simps on_write_def do_write_next_def Let_def restartable_def split: list.splits)
  next
    case Worker
    then have y: "y = on_sess (\<lambda>s. case worker_take s of None \<Rightarrow> s | Some (_, t) \<Rightarrow> t) x" using assms(1) by simp
    show ?thesis unfolding y
      by (rule keep[OF grip_on_sess]) (simp_all add: grip_simps worker_take_def restartable_def split: list.splits)
  qed
qed

lemma run_owns: "owns B K x \<Longrightarrow> list_all (good_op K) os \<Longrightarrow> session_run e os x = Some y \<Longrightarrow> owns B K y"
proof (induction os arbitrary: x)
  case (Cons o1 os)
  obtain c op where o1: "o1 = (c, op)" by (cases o1)
  obtain z where z: "session_step e c op x = Some z" "session_run e os z = Some y"
    using Cons.prems(3) by (auto simp: o1 split: option.splits)
  have "good_op K (c, op)" "list_all (good_op K) os" using Cons.prems(2) by (simp_all add: o1)
  then show ?case using Cons.IH[OF step_owns[OF z(1) Cons.prems(1)] _ z(2)] by blast
qed simp

lemma fresh_owns: "owns (set (sv_ports v)) (files (sv_klists v)) (session0, v)"
  unfolding owns_def owned_def by (auto simp: grip_def session0_def life_simps)

text \<open>
  C9. A session gives back what it took: after any run in which its decoders start, stopping it leaves exactly the
  audio ports in use and the key-list files there were before it, so no key stays on disk and no port is lost.
\<close>
theorem session_gives_back:
  "case session_run e os (session0, v) of
     None \<Rightarrow> True
   | Some x \<Rightarrow>
       let y = snd (stop_pipeline c x)
       in \<not> (list_all (good_op (files (sv_klists v))) os
            \<and> \<not> (set (sv_ports y) = set (sv_ports v) \<and> files (sv_klists y) = files (sv_klists v)))"
proof (cases "session_run e os (session0, v)")
  case (Some x)
  have "set (sv_ports y) = set (sv_ports v) \<and> files (sv_klists y) = files (sv_klists v)"
    if "list_all (good_op (files (sv_klists v))) os" "y = snd (stop_pipeline c x)" for y
  proof -
    have "idle 0 (set (sv_ports v)) (files (sv_klists v)) (stop_pipeline c x)"
      by (rule stop_owns[OF run_owns[OF fresh_owns that(1) Some]])
    then show ?thesis by (auto simp: idle_def owned_def grip_def that(2))
  qed
  then show ?thesis unfolding Some option.case Let_def by blast
qed simp

end
