(* ===== verification/Session_Flow.thy ===== *)
theory Session_Flow
  imports Session_Life
begin

text \<open>
  More of what the sessions guarantee: a frame asked for is queued once, and neither lost, repeated nor overtaken;
  the samples waiting for the demodulator are the newest ones; and the search for an audio port is the only loop of
  a step. And what a decoder that does not start leaves behind.
\<close>

section \<open>Frames to the client\<close>

text \<open>All the frames of a session so far: those handed to the socket, then those that wait.\<close>

definition flow :: "session \<Rightarrow> (string \<times> bool) list" where
  "flow s = ss_wire s @ (if ss_writing s then tl (ss_out s) else ss_out s)"

definition flow_ok :: "session \<Rightarrow> bool" where
  "flow_ok s \<longleftrightarrow> (ss_writing s \<longrightarrow> ss_out s \<noteq> [] \<and> ss_wire s \<noteq> [] \<and> last (ss_wire s) = hd (ss_out s))"

text \<open>The reply to a start: that the pipeline is up, when it is, and else one error.\<close>

definition start_reply :: "session \<Rightarrow> (string \<times> bool) list \<Rightarrow> bool" where
  "start_reply t fs \<longleftrightarrow> (\<exists>m. fs = [(m, True)] \<and> (if ss_active t then m = started_text t else (\<exists>err. m = error_text err)))"

text \<open>
  The frames a step asks for, said without the queue: \<open>s\<close> and \<open>t\<close> are the session before and after the step. A
  control message that does not start anything is answered only when it is wrong.
\<close>

fun asks :: "session_op \<Rightarrow> session \<Rightarrow> session \<Rightarrow> (string \<times> bool) list \<Rightarrow> bool" where
  "asks (Accepted r) s t fs = (fs = [(build_capabilities_json, True)])"
| "asks (Got_Text a msg) s t fs =
     (case parse_flat_object msg of
        Inl err \<Rightarrow> fs = [(error_text (''bad control message: '' @ err), True)]
      | Inr obj \<Rightarrow>
          (let type = get_string obj ''type'' []
           in if type = ''start'' then start_reply t fs
              else if type \<in> {''set_gain'', ''set_freq_offset'', ''stop''} then fs = []
              else fs = [(error_text (''unknown message type: '' @ type), True)]))"
| "asks (Got_Binary d) s t fs =
     (fs = (if ss_active s \<and> length d mod 8 \<noteq> 0
            then [(error_text ''binary frame length not a multiple of 8 bytes'', True)] else []))"
| "asks (Posted m) s t fs = (fs = [(m, True)])"
| "asks (Page m) s t fs = (fs = [(m, True)])"
| "asks (Audio_Out pcm) s t fs = (fs = [(audio_frame pcm, False)])"
| "asks Pager_Gone s t fs =
     (fs = (if ss_active s \<and> ss_chain s = Pager \<and> \<not> ss_pager_failed s
            then [(error_text ''pager decoder exited unexpectedly'', True)] else []))"
| "asks (Reload a) s t fs =
     (if ss_active s \<and> ss_chain s = Fm \<and> ss_last_start s \<noteq> None then start_reply t fs else fs = [])"
| "asks Closed s t fs = (fs = [])"
| "asks (Decoder_Event ev) s t fs = (fs = [])"
| "asks Worker s t fs = (fs = [])"
| "asks (Written b) s t fs = (fs = [])"
| "asks (Iq_Switch a b) s t fs = (fs = [])"
| "asks Destroyed s t fs = (fs = [])"

text \<open>Whether a step hands a frame to the socket: the end of a write that did not fail, or a frame for an idle socket.\<close>

definition hands :: "session_op \<Rightarrow> session \<Rightarrow> (string \<times> bool) list \<Rightarrow> bool" where
  "hands op s fs = (case op of Written failed \<Rightarrow> ss_writing s \<and> \<not> failed | _ \<Rightarrow> \<not> ss_writing s \<and> fs \<noteq> [])"

subsection \<open>The queue and the socket, apart from the rest\<close>

definition line_of :: "session \<Rightarrow> (string \<times> bool) list \<times> bool \<times> (string \<times> bool) list" where
  "line_of s = (ss_out s, ss_writing s, ss_wire s)"

definition put :: "string \<times> bool \<Rightarrow> (string \<times> bool) list \<times> bool \<times> (string \<times> bool) list
    \<Rightarrow> (string \<times> bool) list \<times> bool \<times> (string \<times> bool) list" where
  "put f l = (case l of (q, w, sent) \<Rightarrow> (q @ [f], True, if w then sent else sent @ [hd (q @ [f])]))"

named_theorems line_simps \<open>what each step does to the queue and the socket\<close>

lemma line_enqueue [line_simps]: "line_of (enqueue f s) = put f (line_of s)"
  by (auto simp: line_of_def put_def enqueue_def do_write_next_def Let_def split: list.splits)

lemma line_updates [line_simps]:
  "line_of (s\<lparr>ss_center := d\<rparr>) = line_of s" "line_of (s\<lparr>ss_pending_port := n\<rparr>) = line_of s"
  "line_of (s\<lparr>ss_pager_failed := b\<rparr>) = line_of s" "line_of (s\<lparr>ss_id := n\<rparr>) = line_of s"
  "line_of (s\<lparr>ss_tetra := g\<rparr>) = line_of s" "line_of (s\<lparr>ss_tetra_backend := tb\<rparr>) = line_of s"
  "line_of (s\<lparr>ss_chain := ch\<rparr>) = line_of s" "line_of (s\<lparr>ss_fm := fm\<rparr>) = line_of s"
  "line_of (s\<lparr>ss_pager := pg\<rparr>) = line_of s" "line_of (s\<lparr>ss_pager_proc := pp\<rparr>) = line_of s"
  "line_of (s\<lparr>ss_dsd := dc\<rparr>) = line_of s" "line_of (s\<lparr>ss_keyed := b\<rparr>) = line_of s"
  "line_of (s\<lparr>ss_active := b\<rparr>) = line_of s" "line_of (s\<lparr>ss_worker := b\<rparr>) = line_of s"
  "line_of (s\<lparr>ss_iq_protocol := pr\<rparr>) = line_of s" "line_of (s\<lparr>ss_iq_rate := d\<rparr>) = line_of s"
  "line_of (s\<lparr>ss_iq_log := q\<rparr>) = line_of s" "line_of (s\<lparr>ss_iq_queue := bs\<rparr>) = line_of s"
  "line_of (s\<lparr>ss_last_start := ls\<rparr>) = line_of s" "line_of (s\<lparr>ss_klist := k\<rparr>) = line_of s"
  "line_of (s\<lparr>ss_udp_port := n\<rparr>) = line_of s"
  by (simp_all add: line_of_def)

lemma line_send [line_simps]:
  "line_of (fst (send_text w m x)) = put (m, True) (line_of (fst x))"
  "line_of (fst (send_binary d x)) = put (d, False) (line_of (fst x))"
  by (simp_all add: send_text_def send_binary_def queue_and_send_def grip_simps line_simps)

lemma line_stop [line_simps]: "line_of (fst (stop_pipeline c x)) = line_of (fst x)"
  by (auto simp: line_of_def stop_pipeline_def close_capture_def remove_klist_def give_back_port_def stop_chain_def
      if_registered_def on_assoc_def on_stats_def on_sess_def split: prod.splits option.splits chain.splits)

lemma line_iq [line_simps]:
  "line_of (open_iq_log e a p r s) = line_of s" "line_of (fst (close_capture x)) = line_of (fst x)"
  "line_of (fst (session_set_iq_logging e a on x)) = line_of (fst x)"
  by (auto simp: line_of_def open_iq_log_def close_capture_def session_set_iq_logging_def on_sess_def split: prod.splits option.splits)

lemma line_take: "take_port a x = Some y \<Longrightarrow> line_of (fst y) = line_of (fst x)"
  by (auto simp: line_of_def take_port_def split: prod.splits if_splits)

lemma line_klist [line_simps]: "line_of (fst (fst (write_klist a csv x))) = line_of (fst x)"
  by (auto simp: line_of_def write_klist_def split: option.splits)

subsection \<open>A start queues one frame\<close>

text \<open>The start of a chain: it has asked for nothing yet, or it has failed and said so once.\<close>

definition told_once :: "sess \<Rightarrow> sess \<times> bool \<Rightarrow> bool" where
  "told_once x r \<longleftrightarrow> ss_active (fst (fst r)) = ss_active (fst x)
     \<and> (if snd r then line_of (fst (fst r)) = line_of (fst x)
        else (\<exists>err. line_of (fst (fst r)) = put (error_text err, True) (line_of (fst x))))"

lemma told_tetra: "told_once x (start_tetra e c a p h x)"
  by (auto simp: told_once_def start_tetra_def Let_def grip_simps line_simps)

lemma told_pager: "told_once x (start_pager c a p h x)"
  by (auto simp: told_once_def start_pager_def Let_def grip_simps line_simps)

lemma told_decoder: "told_once x (start_decoder e c a p h sk x)"
  by (auto simp: told_once_def start_decoder_def Let_def grip_simps line_simps grip_write_klist(2))

lemma told_same:
  "told_once y r \<Longrightarrow> line_of (fst y) = line_of (fst x) \<Longrightarrow> ss_active (fst y) = ss_active (fst x) \<Longrightarrow> told_once x r"
  by (auto simp: told_once_def)

lemma told_fm:
  assumes "start_fm e c a p h x = Some r"
  shows "told_once x r"
proof (cases "parse_key_type (sp_key_type p) \<noteq> No_Key \<and> \<not> key_value_is_valid (sp_key p)")
  case True
  then have "r = (send_text (ck_wall c) (bad_key_text (sp_key_type p)) x, False)" using assms by (auto simp: start_fm_def Let_def)
  then show ?thesis by (auto simp: told_once_def grip_simps line_simps bad_key_text_def)
next
  case False
  let ?x = "on_sess (\<lambda>s. s\<lparr>ss_fm := Some (fm_config_of p)\<rparr>) x"
  obtain z sk where z: "take_port a ?x = Some z" "start_decoder e c a p h sk z = r"
    using assms False by (auto simp: start_fm_def Let_def)
  have "line_of (fst z) = line_of (fst x)" "ss_active (fst z) = ss_active (fst x)"
    using line_take[OF z(1)] take_port_active[OF z(1)] by (simp_all add: grip_simps line_simps)
  then show ?thesis using told_decoder[of z e c a p h sk] unfolding z(2) by (blast intro: told_same)
qed

lemma told_chain: "start_chain e c a p h x = Some r \<Longrightarrow> told_once x r"
  using told_tetra[of x e c a p h] told_pager[of x c a p h] told_fm[of e c a p h x r]
  by (auto simp: start_chain_def split: if_splits simp del: split_paired_All)

lemma finish_line: "\<exists>s. finish_start e c a p h x = send_text (ck_wall c) (started_text (fst s)) s \<and> line_of (fst s) = line_of (fst x)"
  unfolding finish_start_def Let_def by (rule exI, rule conjI[OF refl]) (simp add: grip_simps fst_registered line_simps)

lemma started_text_send: "started_text (fst (send_text w m x)) = started_text (fst x)"
proof -
  have "ss_iq_log (enqueue f s) = ss_iq_log s" for f s by (simp add: enqueue_def do_write_next_def Let_def split: list.splits)
  then show ?thesis by (simp add: started_text_def send_text_def queue_and_send_def grip_simps)
qed

lemma start_line:
  assumes "start_pipeline e c a p x = Some y"
  shows "\<exists>m. start_reply (fst y) [(m, True)] \<and> line_of (fst y) = put (m, True) (line_of (fst x))"
proof -
  let ?h = "parse_protocol_hint (sp_protocol p)"
  let ?x = "announce e c p ?h (stop_pipeline c x)"
  obtain z ok where z: "start_chain e c a p ?h ?x = Some (z, ok)" "y = (if ok then finish_start e c a p ?h z else z)"
    using assms by (auto simp: start_pipeline_def Let_def)
  have l: "line_of (fst ?x) = line_of (fst x)" "\<not> ss_active (fst ?x)" by (simp_all add: grip_simps line_simps)
  have t: "told_once ?x (z, ok)" by (rule told_chain[OF z(1)])
  show ?thesis
  proof (cases ok)
    case True
    obtain s where s: "y = send_text (ck_wall c) (started_text (fst s)) s" "line_of (fst s) = line_of (fst z)"
      using finish_line[of e c a p ?h z] z(2) True by auto
    have "ss_active (fst y)" using z(2) True active_finish by simp
    then show ?thesis using s t l True by (auto simp: start_reply_def told_once_def line_simps started_text_send)
  next
    case False
    then show ?thesis using z(2) t l by (auto simp: start_reply_def told_once_def)
  qed
qed

lemma restart_line:
  assumes "restart_pipeline e c a x = Some y"
  shows "\<exists>fs. asks (Reload a) (fst x) (fst y) fs \<and> line_of (fst y) = fold put fs (line_of (fst x))"
proof (cases "ss_active (fst x) \<and> ss_chain (fst x) = Fm \<and> ss_last_start (fst x) \<noteq> None")
  case True
  then obtain p where p: "start_pipeline e c a p (on_sess (\<lambda>s. s\<lparr>ss_pending_port := ss_udp_port s\<rparr>) x) = Some y"
    using assms by (auto simp: restart_pipeline_def)
  obtain m where "start_reply (fst y) [(m, True)]" "line_of (fst y) = put (m, True) (line_of (fst x))"
    using start_line[OF p] by (auto simp: grip_simps line_simps)
  then show ?thesis using True by (intro exI[of _ "[(m, True)]"]) simp
next
  case False
  then have "y = x" using assms by (auto simp: restart_pipeline_def split: option.splits if_splits)
  then show ?thesis using False by auto
qed

subsection \<open>Every step queues what it asks for\<close>

lemma text_line:
  assumes "handle_text_message e c a msg x = Some y"
  shows "\<exists>fs. asks (Got_Text a msg) (fst x) (fst y) fs \<and> line_of (fst y) = fold put fs (line_of (fst x))"
proof (cases "parse_flat_object msg")
  case (Inl err)
  then show ?thesis using assms by (auto simp: handle_text_message_def line_simps)
next
  case (Inr obj)
  let ?t = "get_string obj ''type'' []"
  have g: "line_of (set_gain obj s) = line_of s" for s by (simp add: set_gain_def line_simps)
  have f: "line_of (fst (set_freq_offset e c obj x)) = line_of (fst x)"
    by (auto simp: set_freq_offset_def Let_def grip_simps fst_registered line_simps split: chain.splits)
  show ?thesis
  proof (cases "?t = ''start''")
    case True
    then have p: "start_pipeline e c a (params_of obj) (on_sess (\<lambda>s. s\<lparr>ss_center := get_number obj ''center_freq'' (DFin 0)\<rparr>) x) = Some y"
      using assms Inr by (simp add: handle_text_message_def)
    obtain m where "start_reply (fst y) [(m, True)]" "line_of (fst y) = put (m, True) (line_of (fst x))"
      using start_line[OF p] by (auto simp: grip_simps line_simps)
    then show ?thesis using Inr True by (intro exI[of _ "[(m, True)]"]) simp
  next
    case False
    then show ?thesis using assms Inr g f
      by (simp add: handle_text_message_def Let_def split: if_splits) (auto simp: line_simps grip_simps)
  qed
qed

lemma step_line:
  assumes "session_step e c op x = Some y" "\<And>b. op \<noteq> Written b"
  shows "\<exists>fs. asks op (fst x) (fst y) fs \<and> line_of (fst y) = fold put fs (line_of (fst x))"
proof (cases op)
  case (Accepted r)
  then show ?thesis using assms by (auto simp: on_accept_def line_simps split: prod.splits)
next
  case (Got_Text a msg)
  then obtain z where z: "handle_text_message e c a msg x = Some z" "y = count_in (length msg) z"
    using assms by (auto simp: on_read_def)
  then show ?thesis using text_line[OF z(1)] Got_Text by (simp add: grip_simps)
next
  case (Got_Binary d)
  then have y: "y = count_in (length d) (handle_binary_message (ck_wall c) d x)" using assms by (simp add: on_read_def)
  show ?thesis by (simp add: y Got_Binary grip_simps handle_binary_message_def line_simps)
next
  case (Reload a)
  then show ?thesis using assms restart_line by simp
next
  case Destroyed
  then show ?thesis using assms by (auto simp: close_session_def grip_simps fst_registered line_simps)
next
  case Worker
  then have y: "y = on_sess (\<lambda>s. case worker_take s of None \<Rightarrow> s | Some (_, t) \<Rightarrow> t) x" using assms by simp
  show ?thesis by (simp add: y Worker grip_simps worker_take_def line_simps split: list.splits)
next
  case Pager_Gone
  then have y: "y = pager_exit c x" using assms by simp
  show ?thesis by (simp add: y Pager_Gone pager_exit_def grip_simps line_simps)
next
  case (Page t)
  then have y: "y = send_page c t x" using assms by simp
  show ?thesis by (simp add: y Page send_page_def grip_simps fst_registered line_simps)
next
  case (Written b)
  then show ?thesis using assms(2) by simp
qed (use assms in \<open>auto simp: grip_simps line_simps\<close>)

lemma asks_one: "asks op s t fs \<Longrightarrow> fs = [] \<or> (\<exists>f. fs = [f])"
  by (cases op) (auto simp: start_reply_def Let_def split: sum.splits if_splits)

subsection \<open>What one step does to the frames\<close>

definition moves :: "session_op \<Rightarrow> session \<Rightarrow> session \<Rightarrow> bool" where
  "moves op s t \<longleftrightarrow> (\<exists>fs. asks op s t fs \<and> flow t = flow s @ fs
     \<and> ss_wire t = (if hands op s fs then take (Suc (length (ss_wire s))) (flow t) else ss_wire s))"

lemma flow_put:
  assumes "line_of t = put f (line_of s)" "flow_ok s"
  shows "flow_ok t \<and> flow t = flow s @ [f] \<and> ss_wire t = (if ss_writing s then ss_wire s else take (Suc (length (ss_wire s))) (flow t))"
  using assms by (cases "ss_out s") (auto simp: line_of_def put_def flow_def flow_ok_def)

lemma flow_same: "line_of t = line_of s \<Longrightarrow> flow t = flow s \<and> flow_ok t = flow_ok s \<and> ss_wire t = ss_wire s"
  by (simp add: line_of_def flow_def flow_ok_def)

lemma moves_line:
  assumes "asks op s t fs" "line_of t = fold put fs (line_of s)" "flow_ok s" "\<And>b. op \<noteq> Written b"
  shows "moves op s t \<and> flow_ok t"
proof -
  have h: "hands op s fs \<longleftrightarrow> \<not> ss_writing s \<and> fs \<noteq> []"
    using assms(4) by (simp add: hands_def split: session_op.split)
  show ?thesis
  proof (cases "fs = []")
    case True
    have "flow t = flow s @ fs" "flow_ok t" "ss_wire t = ss_wire s" "\<not> hands op s fs"
      using True assms(2,3) flow_same[of t s] h by simp_all
    then show ?thesis using assms(1) unfolding moves_def by (intro conjI exI[of _ fs]) simp_all
  next
    case False
    then obtain f where f: "fs = [f]" using asks_one[OF assms(1)] by auto
    have l: "flow_ok t \<and> flow t = flow s @ [f]
        \<and> ss_wire t = (if ss_writing s then ss_wire s else take (Suc (length (ss_wire s))) (flow t))"
      by (rule flow_put[OF _ assms(3)]) (use f assms(2) in simp)
    have w: "ss_wire t = (if hands op s fs then take (Suc (length (ss_wire s))) (flow t) else ss_wire s)"
      using l False by (simp only: h if_not_P not_False_eq_True simp_thms split: if_split) simp
    show ?thesis unfolding moves_def using assms(1) l w f by (intro conjI exI[of _ fs]) (simp_all only: f)
  qed
qed

lemma moves_written:
  assumes "flow_ok s" "t = (if ss_writing s then on_write b s else s)"
  shows "moves (Written b) s t \<and> flow_ok t"
  using assms by (cases "tl (ss_out s)")
    (auto simp: moves_def hands_def on_write_def do_write_next_def flow_def flow_ok_def Let_def split: list.splits)

lemma moves_step:
  assumes "session_step e c op x = Some y" "flow_ok (fst x)"
  shows "moves op (fst x) (fst y) \<and> flow_ok (fst y)"
proof (cases "\<exists>b. op = Written b")
  case True
  then show ?thesis using assms by (auto simp: grip_simps intro!: moves_written)
next
  case False
  then have nw: "op \<noteq> Written b" for b by blast
  obtain fs where "asks op (fst x) (fst y) fs" "line_of (fst y) = fold put fs (line_of (fst x))"
    using step_line[OF assms(1) nw] by blast
  then show ?thesis using assms(2) nw by (rule moves_line)
qed

lemma moves_grows: "moves op s t \<Longrightarrow> prefix (ss_wire s) (flow s) \<Longrightarrow> prefix (flow s) (flow t) \<and> prefix (ss_wire s) (ss_wire t)"
  by (auto simp: moves_def prefix_def)

lemma wire_in_flow: "prefix (ss_wire s) (flow s)"
  by (simp add: flow_def)

lemma flow_run:
  "session_run e os x = Some y \<Longrightarrow> flow_ok (fst x) \<Longrightarrow>
   flow_ok (fst y) \<and> prefix (flow (fst x)) (flow (fst y)) \<and> prefix (ss_wire (fst x)) (ss_wire (fst y))"
proof (induction os arbitrary: x)
  case (Cons o1 os)
  obtain c op where o1: "o1 = (c, op)" by (cases o1)
  obtain z where z: "session_step e c op x = Some z" "session_run e os z = Some y"
    using Cons.prems(1) by (auto simp: o1 split: option.splits)
  have m: "moves op (fst x) (fst z)" "flow_ok (fst z)" using moves_step[OF z(1) Cons.prems(2)] by simp_all
  show ?case using moves_grows[OF m(1) wire_in_flow] Cons.IH[OF z(2) m(2)] by (blast intro: prefix_order.trans)
qed simp

text \<open>
  C11. Frames leave in the order they were asked for, each once. In whatever state a run reaches, the frames handed
  to the socket are the front of all frames so far; a step adds exactly the frames it asks for, once, at the end;
  it hands to the socket the next frame of the line, and only when a write has ended or the socket was idle; and
  what was queued or handed over is never changed by what follows.
\<close>
theorem frames_in_order:
  "case session_run e os (session0, v) of
     None \<Rightarrow> True
   | Some x \<Rightarrow>
       prefix (ss_wire (fst x)) (flow (fst x))
       \<and> (case session_step e c op x of
            None \<Rightarrow> True
          | Some y \<Rightarrow>
              \<exists>fs. asks op (fst x) (fst y) fs \<and> flow (fst y) = flow (fst x) @ fs
                \<and> ss_wire (fst y) =
                    (if hands op (fst x) fs then take (Suc (length (ss_wire (fst x)))) (flow (fst y)) else ss_wire (fst x)))
       \<and> (case session_run e rest x of
            None \<Rightarrow> True
          | Some y \<Rightarrow> prefix (flow (fst x)) (flow (fst y)) \<and> prefix (ss_wire (fst x)) (ss_wire (fst y)))"
proof (cases "session_run e os (session0, v)")
  case (Some x)
  have "flow_ok session0" by (simp add: flow_ok_def session0_def)
  then have x: "flow_ok (fst x)" using flow_run[OF Some] by simp
  have m: "case session_step e c op x of None \<Rightarrow> True | Some y \<Rightarrow> moves op (fst x) (fst y)"
    using moves_step[of e c op x] x by (simp split: option.split)
  have r: "case session_run e rest x of None \<Rightarrow> True
    | Some y \<Rightarrow> prefix (flow (fst x)) (flow (fst y)) \<and> prefix (ss_wire (fst x)) (ss_wire (fst y))"
    using flow_run[of e rest x] x by (simp split: option.split)
  show ?thesis unfolding Some option.case using wire_in_flow m[unfolded moves_def] r by (intro conjI)
qed simp

section \<open>Samples that wait\<close>

lemma push_block_length: "length q \<le> kMaxQueuedBlocks \<Longrightarrow> length (push_block b q) \<le> kMaxQueuedBlocks"
  by (auto simp: push_block_def kMaxQueuedBlocks_def)

lemma push_block_suffix:
  assumes "q = drop (length bs - kMaxQueuedBlocks) bs"
  shows "push_block b q = drop (length (bs @ [b]) - kMaxQueuedBlocks) (bs @ [b])"
proof (cases "kMaxQueuedBlocks \<le> length bs")
  case True
  then have "Suc (length bs) - kMaxQueuedBlocks = Suc (length bs - kMaxQueuedBlocks)" by simp
  moreover have "length q = kMaxQueuedBlocks" using True assms by simp
  ultimately show ?thesis using assms by (simp add: push_block_def kMaxQueuedBlocks_def drop_Suc tl_drop)
next
  case False
  then show ?thesis using assms by (simp add: push_block_def)
qed

text \<open>
  A demodulator that falls behind loses the oldest samples, never the newest: after any blocks that nobody
  took, the queue holds exactly the last 64 of them, in order.
\<close>
theorem newest_samples_kept:
  "fold push_block bs [] = drop (length bs - kMaxQueuedBlocks) bs"
proof (induction bs rule: rev_induct)
  case (snoc b bs)
  then show ?case using push_block_suffix[of "fold push_block bs []" bs b] by simp
qed simp

section \<open>The only loop of a step\<close>

text \<open>
  The one loop of these steps is the draw of an audio port, which ends once a draw is free. The joins and waits of a
  stop (the demodulator's thread, the decoder's process) take no time in this model, so nothing is said of them.
\<close>

lemma take_returns:
  assumes "\<not> set (an_draws a) \<subseteq> set (sv_ports (snd x))"
  shows "take_port a x \<noteq> None"
proof -
  obtain r where "acquire_udp_port (an_draws a) (sv_ports (snd x)) = Some r" using acquire_returns[OF assms] by blast
  then show ?thesis by (cases x; cases r) (simp add: take_port_def)
qed

lemma fm_returns:
  assumes "\<not> set (an_draws a) \<subseteq> set (sv_ports (snd x))"
  shows "start_fm e c a p h x \<noteq> None"
proof -
  have "take_port a (on_sess (\<lambda>s. s\<lparr>ss_fm := Some (fm_config_of p)\<rparr>) x) \<noteq> None"
    by (rule take_returns) (use assms in \<open>simp add: grip_simps\<close>)
  then show ?thesis by (simp add: start_fm_def Let_def del: not_None_eq)
qed

text \<open>Stopping only ever frees ports.\<close>

lemma stop_frees: "set (sv_ports (snd (stop_pipeline c x))) \<subseteq> set (sv_ports (snd x))"
proof (cases "ss_active (fst x)")
  case True
  obtain u q k P L where x: "grip x = (u, q, k, P, L)" by (rule prod_cases5)
  have "grip (stop_pipeline c x) = (0, q, [], if q = 0 then release_udp_port u P else P, if k = [] then L else om_del k L)"
    using True by (simp add: grip_stop x)
  then have "sv_ports (snd (stop_pipeline c x)) = (if q = 0 then release_udp_port u P else P)" "sv_ports (snd x) = P"
    using x by (simp_all add: grip_fields)
  then show ?thesis by (auto simp: release_udp_port_def)
qed (simp add: stop_inactive)

lemma start_returns:
  assumes "\<not> set (an_draws a) \<subseteq> set (sv_ports (snd x))"
  shows "start_pipeline e c a p x \<noteq> None"
proof -
  let ?h = "parse_protocol_hint (sp_protocol p)"
  let ?x = "announce e c p ?h (stop_pipeline c x)"
  have "sv_ports (snd ?x) = sv_ports (snd (stop_pipeline c x))"
    using grip_announce(1)[of e c p ?h "stop_pipeline c x"] by (simp add: grip_def)
  then have "\<not> set (an_draws a) \<subseteq> set (sv_ports (snd ?x))" using stop_frees[of c x] assms by auto
  then have "start_chain e c a p ?h ?x \<noteq> None" using fm_returns[of a ?x e c p ?h] by (simp add: start_chain_def del: not_None_eq)
  then show ?thesis by (simp add: start_pipeline_def Let_def del: not_None_eq)
qed

text \<open>The ports a step may draw; a step without a decoder start draws none.\<close>

definition op_draws :: "session_op \<Rightarrow> nat list option" where
  "op_draws op = (case op of Got_Text a _ \<Rightarrow> Some (an_draws a) | Reload a \<Rightarrow> Some (an_draws a) | _ \<Rightarrow> None)"

lemma text_returns:
  assumes "\<not> set (an_draws a) \<subseteq> set (sv_ports (snd x))"
  shows "handle_text_message e c a msg x \<noteq> None"
proof -
  have "start_pipeline e c a p (on_sess f x) \<noteq> None" for p f
    by (rule start_returns) (use assms in \<open>simp add: grip_simps\<close>)
  then show ?thesis by (simp add: handle_text_message_def Let_def del: not_None_eq split: sum.split)
qed

lemma restart_returns:
  assumes "\<not> set (an_draws a) \<subseteq> set (sv_ports (snd x))"
  shows "restart_pipeline e c a x \<noteq> None"
proof -
  have "start_pipeline e c a p (on_sess f x) \<noteq> None" for p f
    by (rule start_returns) (use assms in \<open>simp add: grip_simps\<close>)
  then show ?thesis by (simp add: restart_pipeline_def del: not_None_eq split: option.split)
qed

text \<open>
  A step has a result in the model unless every port that is drawn for a decoder is already in use.
\<close>
theorem session_step_returns:
  "(\<exists>y. session_step e c op x = Some y) \<or> (\<exists>ds. op_draws op = Some ds \<and> set ds \<subseteq> set (sv_ports (snd x)))"
proof -
  have "session_step e c op x \<noteq> None" if "\<And>ds. op_draws op = Some ds \<Longrightarrow> \<not> set ds \<subseteq> set (sv_ports (snd x))"
  proof (cases op)
    case (Got_Text a msg)
    then show ?thesis using text_returns[of a x e c msg] that by (simp add: op_draws_def on_read_def del: not_None_eq)
  next
    case (Reload a)
    then show ?thesis using restart_returns[of a x e c] that by (simp add: op_draws_def del: not_None_eq)
  qed (simp_all add: on_read_def del: not_None_eq)
  then show ?thesis by blast
qed

section \<open>A decoder that does not start\<close>

text \<open>A start that fails after its port was drawn.\<close>

lemma failed_decoder:
  assumes "fm_params p" "\<not> an_started a" "\<not> ss_active (fst x)" "start_pipeline e c a p x = Some y"
  shows "\<exists>z sk. take_port a (on_sess (\<lambda>s. s\<lparr>ss_fm := Some (fm_config_of p)\<rparr>) (announce e c p (parse_protocol_hint (sp_protocol p)) x)) = Some z
     \<and> y = fst (start_decoder e c a p (parse_protocol_hint (sp_protocol p)) sk z)"
proof -
  let ?h = "parse_protocol_hint (sp_protocol p)"
  let ?x = "announce e c p ?h x"
  have "start_chain e c a p ?h ?x = start_fm e c a p ?h ?x" using assms(1) by (simp add: start_chain_def fm_params_def Let_def)
  then have st: "map_option (\<lambda>(y, ok). if ok then finish_start e c a p ?h y else y) (start_fm e c a p ?h ?x) = Some y"
    using assms(3,4) by (simp add: start_pipeline_def Let_def stop_inactive)
  define sk where "sk = stored_for e (parse_key_type (sp_key_type p)) ?h
    (ss_center (fst (on_sess (\<lambda>s. s\<lparr>ss_fm := Some (fm_config_of p)\<rparr>) ?x))) (sp_offset p)
    (st_assoc (sv_stats (snd (on_sess (\<lambda>s. s\<lparr>ss_fm := Some (fm_config_of p)\<rparr>) ?x))))"
  have "start_fm e c a p ?h ?x = map_option (start_decoder e c a p ?h sk) (take_port a (on_sess (\<lambda>s. s\<lparr>ss_fm := Some (fm_config_of p)\<rparr>) ?x))"
    using assms(1) by (auto simp: start_fm_def Let_def fm_params_def sk_def)
  then obtain z where z: "take_port a (on_sess (\<lambda>s. s\<lparr>ss_fm := Some (fm_config_of p)\<rparr>) ?x) = Some z"
    "start_fm e c a p ?h ?x = Some (start_decoder e c a p ?h sk z)"
    using st by (cases "take_port a (on_sess (\<lambda>s. s\<lparr>ss_fm := Some (fm_config_of p)\<rparr>) ?x)") simp_all
  have "snd (start_decoder e c a p ?h sk z) = False" using assms(2) by (simp add: grip_start_decoder)
  then have "y = fst (start_decoder e c a p ?h sk z)" using st z(2) by (simp add: split_def)
  then show ?thesis using z(1) by blast
qed

text \<open>
  C10. A decoder that does not start is not cleaned up after: the session is stopped, but the port that was drawn
  and the key list that was written are still taken, even after the session is gone.
\<close>
theorem failed_start_leaks:
  assumes "fm_params p" "\<not> an_started a" "\<not> ss_active (fst x)" "ss_pending_port (fst x) = 0"
    "start_pipeline e c a p x = Some y"
  shows "\<not> ss_active (fst y)
    \<and> ss_udp_port (fst y) \<notin> set (sv_ports (snd x)) \<and> ss_udp_port (fst y) \<in> set (sv_ports (snd (close_session c' y)))
    \<and> (ss_klist (fst y) = ss_klist (fst x) \<or> ss_klist (fst y) \<in> files (sv_klists (snd (close_session c' y))))"
proof -
  let ?h = "parse_protocol_hint (sp_protocol p)"
  let ?x = "on_sess (\<lambda>s. s\<lparr>ss_fm := Some (fm_config_of p)\<rparr>) (announce e c p ?h x)"
  obtain z sk where z: "take_port a ?x = Some z" "y = fst (start_decoder e c a p ?h sk z)"
    using failed_decoder[OF assms(1,2,3,5)] by blast
  let ?csv = "stream_key_list e ?h (sk_ep sk) (st_assoc (sv_stats (snd z)))"
  obtain u k P L where x: "grip x = (u, 0, k, P, L)" using assms(4) by (simp add: grip_def)
  have gx: "grip ?x = grip x" by (subst grip_on_sess) (simp_all add: grip_simps)
  obtain u' p' k' P' L' where gz: "grip z = (u', p', k', P', L')" by (rule prod_cases5)
  have t: "k' = k" "L' = L" "u' \<notin> set P" "set P' = insert u' (set P)" using grip_take_port[OF z(1)] unfolding gx x gz by simp_all
  have ay: "\<not> ss_active (fst y)" using z assms(3) by (simp add: grip_start_decoder take_port_active[OF z(1)] grip_simps)
  have gy: "grip y = grip (fst (write_klist a ?csv z))" using z(2) by (simp add: grip_start_decoder)
  have cl: "grip (close_session c' y) = grip y" using ay by (simp add: close_session_def stop_inactive grip_simps grip_registered)
  consider "grip y = (u', p', k, P', L)" | path tx where "grip y = (u', p', path, P', om_put path tx L)"
    unfolding gy by (cases ?csv; cases "an_klist a"; cases "an_klist_written a") (simp_all add: grip_write_klist gz t)
  then show ?thesis by (cases; use ay cl x t(3,4) in \<open>simp add: grip_def\<close>)
qed

definition plain_env :: net_env where
  "plain_env = \<lparr>ne_log_dir = None, ne_iq_log_dir = None, ne_merges_file = None, ne_keys_file = None, ne_log_max_mb = None,
     ne_audio_dir = None, ne_audio_max_mb = None, ne_import_audio_max_mb = None, ne_audio_max_age_h = None,
     ne_settings_file = None, ne_freq_step = None, ne_iq_max_mb = None, ne_no_apply_keys = None, ne_tetra_coherent = None\<rparr>"

definition no_start :: sys_answers where
  "no_start = \<lparr>an_draws = [9], an_klist = Some ''k'', an_klist_written = True, an_started = False, an_iq_open = False,
     an_stamp = []\<rparr>"

definition dmr_start :: start_params where
  "dmr_start = \<lparr>sp_rate = DFin 2000000, sp_bandwidth = DFin 12500, sp_offset = DFin 0, sp_gain = DFin 26000, sp_afc = False,
     sp_protocol = ''dmr'', sp_key_type = [], sp_key = [], sp_matched = False, sp_pocsag_mode = [], sp_invert = False,
     sp_iq_log = False\<rparr>"

definition keyed_server :: server where
  "keyed_server = \<lparr>sv_stats = server_stats 200 200 0 0 (model0 ''x'' ''y'' 0 False 400 True (DFin 2) True
       \<lparr>m_keys := [(''dmr'', [(''n'', [(''1'', \<lparr>ke_alg = ''21'', ke_value = ''AB'', ke_added = 0\<rparr>)])])]\<rparr>),
     sv_ports = [], sv_klists = [], sv_captures = []\<rparr>"

lemma failed_start_run:
  "map_option (\<lambda>y. ss_klist (fst y)) (start_pipeline plain_env \<lparr>ck_now = 0, ck_wall = 0, ck_tick = 0\<rparr> no_start dmr_start (session0, keyed_server)) = Some ''k''"
  by code_simp

lemma failed_start_leaks_witness:
  "case start_pipeline plain_env \<lparr>ck_now = 0, ck_wall = 0, ck_tick = 0\<rparr> no_start dmr_start (session0, keyed_server) of
     None \<Rightarrow> False
   | Some y \<Rightarrow> ''k'' \<in> files (sv_klists (snd (close_session \<lparr>ck_now = 1, ck_wall = 1, ck_tick = 1\<rparr> y)))"
proof -
  obtain y where y: "start_pipeline plain_env \<lparr>ck_now = 0, ck_wall = 0, ck_tick = 0\<rparr> no_start dmr_start (session0, keyed_server) = Some y"
    "ss_klist (fst y) = ''k''"
    using failed_start_run by (auto simp del: split_paired_Ex)
  have "fm_params dmr_start" by code_simp
  then show ?thesis
    using failed_start_leaks[OF _ _ _ _ y(1), of "\<lparr>ck_now = 1, ck_wall = 1, ck_tick = 1\<rparr>"] y(2)
    unfolding y(1) option.case by (simp add: no_start_def session0_def)
qed

end
