(* ===== verification/Status_Json.thy ===== *)
theory Status_Json
  imports Session_State Mjson
begin

text \<open>
  The texts of the status page (\<open>src/status_page.hpp\<close>): its escapes and formats, and the two JSON documents that
  it polls. Clock readings are nanoseconds since the epoch of their clock; durations are exact.
\<close>

section \<open>Escapes and formats\<close>

definition html_char :: "char \<Rightarrow> string" where
  "html_char c =
     (if c = CHR ''&'' then ''&amp;''
      else if c = CHR ''<'' then ''&lt;''
      else if c = CHR ''>'' then ''&gt;''
      else if c = dq then ''&quot;''
      else if c = CHR 0x27 then ''&#39;''
      else [c])"

definition html_escape :: "string \<Rightarrow> string" where
  "html_escape s = concat (map html_char s)"

text \<open>The same escapes as \<open>assocjson\<close>, without the quotes around.\<close>

definition json_escape :: "string \<Rightarrow> string" where
  "json_escape s = concat (map jesc_char s)"

definition seconds :: "int \<Rightarrow> int" where
  "seconds ns = tdiv ns 1000000000"

text \<open>A duration in whole seconds, as hours, minutes and seconds.\<close>

definition human_duration :: "int \<Rightarrow> string" where
  "human_duration ns =
     (let s = max 0 (seconds ns); h = s div 3600; m = s mod 3600 div 60
      in (if h \<noteq> 0 then int_dec h @ ''h '' else []) @ (if h \<noteq> 0 \<or> m \<noteq> 0 then int_dec m @ ''m '' else [])
         @ int_dec (s mod 60) @ ''s'')"

text \<open>\<open>"%.5f"\<close> of a number that is not negative, cut by the buffer; then one zero less.\<close>

definition mhz5 :: "rat \<Rightarrow> string" where
  "mhz5 x =
     (let n = round_half_even (x * 100000)
      in int_dec (n div 100000) @ ''.'' @ pad_left 5 (CHR ''0'') (int_dec (n mod 100000)))"

definition format_mhz :: "dbl \<Rightarrow> string" where
  "format_mhz hz =
     (if \<not> dbl_pos hz then ''-''
      else (let t = (case hz of DFin x \<Rightarrow> (case round_dbl (x / 1000000) of DFin y \<Rightarrow> take 31 (mhz5 y) | _ \<Rightarrow> ''inf'') | _ \<Rightarrow> ''inf'')
            in if last t = CHR ''0'' then butlast t else t))"

definition format_utc :: "int \<Rightarrow> string" where
  "format_utc wall =
     (let t = seconds wall; sod = t mod 86400
      in case civil_of_days (t div 86400) of
           (y, m, d) \<Rightarrow>
             int_dec y @ ''-'' @ pad2 m @ ''-'' @ pad2 d @ '' '' @ pad2 (sod div 3600) @ '':'' @
             pad2 (sod mod 3600 div 60) @ '':'' @ pad2 (sod mod 60) @ ''Z'')"

definition quoted :: "string \<Rightarrow> string" where
  "quoted s = [dq] @ json_escape s @ [dq]"

definition json_str_array :: "string list \<Rightarrow> string" where
  "json_str_array v = ''['' @ jcommas (map quoted v) @ '']''"

text \<open>The arrow and the cross are UTF-8.\<close>

definition trail_item :: "string list \<Rightarrow> string \<Rightarrow> string" where
  "trail_item used p = p @ (if p \<in> set used then [] else '' '' @ map chr [0xE2, 0x9C, 0x97])"

fun trail_join :: "string \<Rightarrow> string list \<Rightarrow> string" where
  "trail_join sep [] = []"
| "trail_join sep [x] = x"
| "trail_join sep (x # y # xs) = x @ sep @ trail_join sep (y # xs)"

definition protocol_trail :: "string list \<Rightarrow> string list \<Rightarrow> string \<Rightarrow> string" where
  "protocol_trail requested used current =
     (let ps = (if requested = [] then used else requested)
      in if ps = [] then (if current = [] then ''-'' else current)
         else trail_join ('' '' @ map chr [0xE2, 0x86, 0x92] @ '' '') (map (trail_item used) ps))"

section \<open>Documents\<close>

definition freq_hz :: "dbl \<Rightarrow> string" where
  "freq_hz hz = int_dec (to_i64 (dbl_add hz (DFin (1 / 2))))"

text \<open>\<open>tick\<close> is the steady clock while the document is written.\<close>

definition row_json :: "int \<Rightarrow> session_row \<Rightarrow> string" where
  "row_json tick r =
     ''{'' @ jt ''`id`:'' @ nat_dec (sr_id r) @ jt '',`remote`:'' @ quoted (sr_remote r)
     @ jt '',`protocol`:'' @ quoted (sr_protocol r) @ jt '',`chain`:'' @ quoted (sr_chain r)
     @ jt '',`protocols_used`:'' @ json_str_array (sr_used r) @ jt '',`protocols_requested`:'' @ json_str_array (sr_requested r)
     @ jt '',`active`:'' @ jb (sr_active r) @ jt '',`freq_hz`:'' @ freq_hz (sr_freq r)
     @ jt '',`connected`:'' @ quoted (format_utc (sr_connected r))
     @ jt '',`duration_seconds`:'' @ int_dec (seconds (tick - sr_connected_mono r))
     @ jt '',`last_data_seconds`:'' @ int_dec (if sr_got_data r then seconds (tick - sr_last_data r) else - 1) @ ''}''"

definition history_json :: "finished_row \<Rightarrow> string" where
  "history_json r =
     ''{'' @ jt ''`id`:'' @ nat_dec (fr_id r) @ jt '',`remote`:'' @ quoted (fr_remote r)
     @ jt '',`protocol`:'' @ quoted (fr_protocol r) @ jt '',`chain`:'' @ quoted (fr_chain r)
     @ jt '',`connected`:'' @ quoted (format_utc (fr_connected r)) @ jt '',`ended`:'' @ quoted (format_utc (fr_ended r))
     @ jt '',`protocols_used`:'' @ json_str_array (fr_used r) @ jt '',`protocols_requested`:'' @ json_str_array (fr_requested r)
     @ jt '',`freq_hz`:'' @ freq_hz (fr_freq r) @ jt '',`duration_seconds`:'' @ int_dec (seconds (fr_duration r)) @ ''}''"

definition usage_json :: "protocol_usage \<Rightarrow> string" where
  "usage_json u =
     ''{'' @ jt ''`protocol`:'' @ quoted (pu_protocol u) @ jt '',`chain`:'' @ quoted (pu_chain u)
     @ jt '',`requests`:'' @ nat_dec (pu_requests u) @ jt '',`starts`:'' @ nat_dec (pu_starts u)
     @ jt '',`failed`:'' @ nat_dec (pu_requests u - pu_starts u) @ jt '',`sessions`:'' @ nat_dec (pu_sessions u)
     @ jt '',`active`:'' @ nat_dec (pu_active_now u) @ jt '',`decode_seconds`:'' @ int_dec (seconds (pu_decode u))
     @ jt '',`first_requested`:'' @ quoted (if pu_requests u \<noteq> 0 then format_utc (pu_first u) else [])
     @ jt '',`last_requested`:'' @ quoted (if pu_requests u \<noteq> 0 then format_utc (pu_last u) else []) @ ''}''"

definition render_status_json :: "int \<Rightarrow> snapshot \<Rightarrow> string" where
  "render_status_json tick s =
     ''{'' @ jt ''`total_sessions`:'' @ nat_dec (sn_total s) @ jt '',`current_sessions`:'' @ nat_dec (sn_current s)
     @ jt '',`active_pipelines`:'' @ nat_dec (sn_active s) @ jt '',`uptime_seconds`:'' @ int_dec (seconds (sn_uptime s))
     @ jt '',`bytes_in`:'' @ nat_dec (sn_bytes_in s) @ jt '',`bytes_out`:'' @ nat_dec (sn_bytes_out s)
     @ jt '',`log_lines`:'' @ nat_dec (sn_log_lines s) @ jt '',`iq_logging`:'' @ jb (sn_iq s)
     @ jt '',`started`:'' @ quoted (format_utc (sn_started s))
     @ jt '',`by_protocol`:{'' @ jcommas (map (\<lambda>(p, n). quoted p @ '':'' @ nat_dec n) (sn_by_protocol s)) @ ''}''
     @ jt '',`sessions`:['' @ jcommas (map (row_json tick) (sn_rows s)) @ '']''
     @ jt '',`history`:['' @ jcommas (map history_json (sn_history s)) @ '']''
     @ jt '',`protocols`:['' @ jcommas (map usage_json (sn_protocols s)) @ '']'' @ ''}''"

definition log_json :: "log_entry \<Rightarrow> string" where
  "log_json e =
     jt ''{`session`:'' @ nat_dec (le_session e) @ jt '',`time`:'' @ quoted (format_utc (le_ts e))
     @ jt '',`freq_hz`:'' @ freq_hz (le_freq e) @ jt '',`text`:'' @ quoted (le_text e) @ ''}''"

definition render_log_json :: "log_entry list \<Rightarrow> string" where
  "render_log_json es = jt ''{`log`:['' @ jcommas (map log_json es) @ '']}''"

section \<open>What the documents say\<close>

lemma quoted_jq: "quoted = jq"
  by (simp add: fun_eq_iff quoted_def json_escape_def jq_def)

lemma nat_dec_int: "nat_dec n = int_dec (int n)"
  by (simp add: int_dec_def)

definition log_doc :: "log_entry list \<Rightarrow> jdoc" where
  "log_doc es =
     DObj [(''log'', DArr (map (\<lambda>e. DObj [(''session'', DInt (int (le_session e))), (''time'', DStr (format_utc (le_ts e))),
       (''freq_hz'', DInt (to_i64 (dbl_add (le_freq e) (DFin (1 / 2))))), (''text'', DStr (le_text e))]) es))]"

definition strs_doc :: "string list \<Rightarrow> jdoc" where
  "strs_doc v = DArr (map DStr v)"

definition row_doc :: "int \<Rightarrow> session_row \<Rightarrow> jdoc" where
  "row_doc tick r =
     DObj [(''id'', DInt (int (sr_id r))), (''remote'', DStr (sr_remote r)), (''protocol'', DStr (sr_protocol r)),
       (''chain'', DStr (sr_chain r)), (''protocols_used'', strs_doc (sr_used r)),
       (''protocols_requested'', strs_doc (sr_requested r)), (''active'', DBool (sr_active r)),
       (''freq_hz'', DInt (to_i64 (dbl_add (sr_freq r) (DFin (1 / 2))))),
       (''connected'', DStr (format_utc (sr_connected r))), (''duration_seconds'', DInt (seconds (tick - sr_connected_mono r))),
       (''last_data_seconds'', DInt (if sr_got_data r then seconds (tick - sr_last_data r) else - 1))]"

definition history_doc :: "finished_row \<Rightarrow> jdoc" where
  "history_doc r =
     DObj [(''id'', DInt (int (fr_id r))), (''remote'', DStr (fr_remote r)), (''protocol'', DStr (fr_protocol r)),
       (''chain'', DStr (fr_chain r)), (''connected'', DStr (format_utc (fr_connected r))),
       (''ended'', DStr (format_utc (fr_ended r))), (''protocols_used'', strs_doc (fr_used r)),
       (''protocols_requested'', strs_doc (fr_requested r)), (''freq_hz'', DInt (to_i64 (dbl_add (fr_freq r) (DFin (1 / 2))))),
       (''duration_seconds'', DInt (seconds (fr_duration r)))]"

definition usage_doc :: "protocol_usage \<Rightarrow> jdoc" where
  "usage_doc u =
     DObj [(''protocol'', DStr (pu_protocol u)), (''chain'', DStr (pu_chain u)), (''requests'', DInt (int (pu_requests u))),
       (''starts'', DInt (int (pu_starts u))), (''failed'', DInt (int (pu_requests u - pu_starts u))),
       (''sessions'', DInt (int (pu_sessions u))), (''active'', DInt (int (pu_active_now u))),
       (''decode_seconds'', DInt (seconds (pu_decode u))),
       (''first_requested'', DStr (if pu_requests u \<noteq> 0 then format_utc (pu_first u) else [])),
       (''last_requested'', DStr (if pu_requests u \<noteq> 0 then format_utc (pu_last u) else []))]"

definition status_doc :: "int \<Rightarrow> snapshot \<Rightarrow> jdoc" where
  "status_doc tick s =
     DObj [(''total_sessions'', DInt (int (sn_total s))), (''current_sessions'', DInt (int (sn_current s))),
       (''active_pipelines'', DInt (int (sn_active s))), (''uptime_seconds'', DInt (seconds (sn_uptime s))),
       (''bytes_in'', DInt (int (sn_bytes_in s))), (''bytes_out'', DInt (int (sn_bytes_out s))),
       (''log_lines'', DInt (int (sn_log_lines s))), (''iq_logging'', DBool (sn_iq s)),
       (''started'', DStr (format_utc (sn_started s))),
       (''by_protocol'', DObj (map (\<lambda>(p, n). (p, DInt (int n))) (sn_by_protocol s))),
       (''sessions'', DArr (map (row_doc tick) (sn_rows s))), (''history'', DArr (map history_doc (sn_history s))),
       (''protocols'', DArr (map usage_doc (sn_protocols s)))]"

named_theorems doc_simps \<open>the texts of the status documents as printed documents\<close>

lemmas doc_text = quoted_jq nat_dec_int freq_hz_def jq_def jesc_char_def

lemma strs_doc_text [doc_simps]: "jd_text (strs_doc v) = json_str_array v"
  by (simp add: strs_doc_def json_str_array_def quoted_jq comp_def)

lemma row_doc_text [doc_simps]: "jd_text (row_doc tick r) = row_json tick r"
  by (simp add: row_doc_def row_json_def doc_text(1-3) doc_simps, simp add: jq_def jesc_char_def)

lemma history_doc_text [doc_simps]: "jd_text (history_doc r) = history_json r"
  by (simp add: history_doc_def history_json_def doc_text(1-3) doc_simps, simp add: jq_def jesc_char_def)

lemma usage_doc_text [doc_simps]: "jd_text (usage_doc u) = usage_json u"
  by (simp add: usage_doc_def usage_json_def doc_text(1-3) doc_simps, simp add: jq_def jesc_char_def)

lemma members_text:
  "map (\<lambda>m. jq (fst m) @ '':'' @ jd_text (snd m)) (map (\<lambda>(p, n). (p, DInt (int n))) xs) = map (\<lambda>(p, n). quoted p @ '':'' @ nat_dec n) xs"
  by (induction xs) (auto simp: quoted_jq nat_dec_int)

lemma status_doc_text: "jd_text (status_doc tick s) = render_status_json tick s"
proof -
  have m: "map jd_text (map f xs) = map g xs" if "\<And>x. jd_text (f x) = g x" for f and g :: "'b \<Rightarrow> string" and xs
    using that by simp
  show ?thesis
    unfolding status_doc_def render_status_json_def
    by (simp only: jd_text.simps list.map fst_conv snd_conv members_text m[OF row_doc_text] m[OF history_doc_text] m[OF usage_doc_text])
      (simp add: quoted_jq nat_dec_int, simp add: jq_def jesc_char_def)
qed

lemma log_doc_text: "jd_text (log_doc es) = render_log_json es"
proof -
  have e: "jd_text (DObj [(''session'', DInt (int (le_session e))), (''time'', DStr (format_utc (le_ts e))),
       (''freq_hz'', DInt (to_i64 (dbl_add (le_freq e) (DFin (1 / 2))))), (''text'', DStr (le_text e))]) = log_json e" for e
    by (simp add: log_json_def doc_text(1-3), simp add: jq_def jesc_char_def)
  have "map jd_text (map (\<lambda>e. DObj [(''session'', DInt (int (le_session e))), (''time'', DStr (format_utc (le_ts e))),
       (''freq_hz'', DInt (to_i64 (dbl_add (le_freq e) (DFin (1 / 2))))), (''text'', DStr (le_text e))]) es) = map log_json es"
    by (simp only: list.map_comp comp_def e)
  then show ?thesis
    unfolding log_doc_def render_log_json_def by (simp only: jd_text.simps list.map fst_conv snd_conv) (simp add: jq_def jesc_char_def)
qed

text \<open>Whatever a session is called and whatever the server sent, no text can break a page that shows it.\<close>

lemma html_escape_safe: "list_all (\<lambda>c. c \<notin> {CHR ''<'', CHR ''>'', dq, CHR 0x27}) (html_escape s)"
  by (induction s) (auto simp: html_escape_def html_char_def)

lemma html_escape_inj: "html_escape s = html_escape t \<Longrightarrow> s = t"
proof (induction s arbitrary: t)
  case Nil
  then show ?case by (cases t) (auto simp: html_escape_def html_char_def split: if_splits)
next
  case (Cons c s)
  then obtain d t' where t: "t = d # t'" by (cases t) (auto simp: html_escape_def html_char_def split: if_splits)
  have "c = d \<and> html_escape s = html_escape t'"
    using Cons.prems by (auto simp: t html_escape_def html_char_def split: if_splits)
  then show ?case using Cons.IH by (simp add: t)
qed

text \<open>
  C15. The two documents the status page polls are always readable, and say what they mean: as long as their numbers
  are exact in a double, the reader gets every row back, and every logged frame byte for byte.
\<close>
theorem status_documents_read:
  assumes "jd_fits 65 (status_doc tick s)" "jd_fits 65 (log_doc es)"
  shows "mj_parse (render_status_json tick s) = Inr (jd_val (status_doc tick s))
    \<and> mj_parse (render_log_json es) = Inr (jd_val (log_doc es))"
  using reads_doc[OF assms(1)] reads_doc[OF assms(2)] by (simp add: status_doc_text log_doc_text)

definition busy_snapshot :: snapshot where
  "busy_snapshot =
     \<lparr>sn_total = 2, sn_current = 1, sn_active = 1, sn_uptime = 5000000000, sn_bytes_in = 800, sn_bytes_out = 90, sn_iq = False,
      sn_started = 0,
      sn_rows = [\<lparr>sr_id = 2, sr_remote = ''h'', sr_protocol = ''dmr'', sr_chain = ''fm'', sr_active = True, sr_connected = 0,
        sr_connected_mono = 0, sr_used = [''dmr''], sr_requested = [''dmr''], sr_active_since = 0, sr_last_data = 0,
        sr_got_data = False, sr_freq = DFin 7\<rparr>],
      sn_by_protocol = [(''dmr'', 1)], sn_history = [], sn_log_lines = 1, sn_protocols = []\<rparr>"

lemma status_documents_read_witness:
  "mj_parse (render_log_json [\<lparr>le_session = 2, le_ts = 0, le_text = [dq, CHR 0x0A], le_freq = DFin 7\<rparr>])
     = Inr (jd_val (log_doc [\<lparr>le_session = 2, le_ts = 0, le_text = [dq, CHR 0x0A], le_freq = DFin 7\<rparr>]))"
proof -
  have "jd_fits 65 (status_doc 3000000000 busy_snapshot)" by code_simp
  moreover have "jd_fits 65 (log_doc [\<lparr>le_session = 2, le_ts = 0, le_text = [dq, CHR 0x0A], le_freq = DFin 7\<rparr>])" by code_simp
  ultimately show ?thesis using status_documents_read by blast
qed

end
