(* ===== verification/Http_Texts.thy ===== *)
theory Http_Texts
  imports Session_State Provenance Mjson
begin

text \<open>
  What the routes of \<open>src/session.cpp\<close> answer with, beside the texts of the model: the state of a recording and
  of the call audio, the speech-to-text settings, the merge of several exports, and the file that remembers the
  explorer's switches. Files are their contents, \<open>None\<close> when they cannot be read.
\<close>

section \<open>Small answers\<close>

definition net_rec_json :: "nat \<Rightarrow> recorder \<Rightarrow> string" where
  "net_rec_json fsize r =
     w_str (w_field_dbl ''file_bytes'' (round_dbl (of_nat fsize)) (w_field_dbl ''bytes'' (round_dbl (of_nat (rc_bytes r)))
       (w_field_str ''path'' (rc_last_path r)
         (w_field_str ''file'' (if rc_last_path r = [] then [] else base_name (rc_last_path r))
           (w_field_bool ''truncated'' (rc_truncated r) (w_field_bool ''on'' (rc_on r) w_new))))))"

definition net_audio_json :: "astatus \<Rightarrow> string" where
  "net_audio_json a =
     w_str (w_field_dbl ''recording'' (round_dbl (of_nat (st_open a))) (w_field_dbl ''files'' (round_dbl (of_nat (st_files a)))
       (w_field_dbl ''cap_bytes'' (round_dbl (of_nat (st_cap a))) (w_field_dbl ''bytes'' (round_dbl (of_nat (st_bytes a)))
         (w_field_str ''dir'' (st_dir a) (w_field_bool ''on'' (st_on a) w_new))))))"

text \<open>\<open>std::strtod(h) * 3600.0 * 1000.0\<close>, 0 when unset or not a number.\<close>

definition dbl_mul :: "dbl \<Rightarrow> rat \<Rightarrow> dbl" where
  "dbl_mul d c = (case d of DFin x \<Rightarrow> round_dbl (x * c) | _ \<Rightarrow> d)"

definition net_audio_max_age_ms :: "net_env \<Rightarrow> int" where
  "net_audio_max_age_ms e =
     (case env_set (ne_audio_max_age_h e) of
        None \<Rightarrow> 0
      | Some h \<Rightarrow> to_i64 (dbl_mul (dbl_mul (case strtod h of Some (d, _) \<Rightarrow> d | None \<Rightarrow> DFin 0) 3600) 1000))"

section \<open>Speech-to-text settings\<close>

text \<open>
  The folder's listing: which regular files it has (paths below it), which folders, in the order they are read.
\<close>

record asr_env =
  asr_dir_var :: "string option"
  asr_model_var :: "string option"
  asr_lang_var :: "string option"
  asr_files :: "string list"
  asr_folders :: "string \<Rightarrow> string list"

definition net_asr_dir :: "net_env \<Rightarrow> asr_env \<Rightarrow> string" where
  "net_asr_dir e a = (case env_set (asr_dir_var a) of Some d \<Rightarrow> d | None \<Rightarrow> path_join (net_log_dir e) ''net_asr'')"

definition asr_has :: "asr_env \<Rightarrow> string \<Rightarrow> bool" where
  "asr_has a f \<longleftrightarrow> f \<in> set (asr_files a)"

definition subdirs :: "asr_env \<Rightarrow> string \<Rightarrow> string list" where
  "subdirs a d = filter asr_rel_ok (asr_folders a d)"

definition asr_model_files :: "string list" where
  "asr_model_files = [''config.json'', ''onnx/encoder_model_quantized.onnx'', ''onnx/decoder_model_merged_quantized.onnx'']"

definition asr_models :: "asr_env \<Rightarrow> string list" where
  "asr_models a =
     sort_key (\<lambda>m. map byte m)
       (concat (map (\<lambda>org. map (\<lambda>m. org @ ''/'' @ m)
         (filter (\<lambda>m. list_all (\<lambda>f. asr_has a (''models/'' @ org @ ''/'' @ m @ ''/'' @ f)) asr_model_files)
           (subdirs a (''models/'' @ org)))) (subdirs a ''models'')))"

definition asr_ranking :: "string list" where
  "asr_ranking = [''Xenova/whisper-small.en'', ''Xenova/whisper-small'', ''Xenova/whisper-base.en'', ''Xenova/whisper-base'',
     ''Xenova/whisper-tiny.en'', ''Xenova/whisper-tiny'']"

definition asr_model :: "asr_env \<Rightarrow> string" where
  "asr_model a =
     (case env_set (asr_model_var a) of
        Some m \<Rightarrow> m
      | None \<Rightarrow>
          (case find (\<lambda>m. m \<in> set (asr_models a)) asr_ranking of
             Some m \<Rightarrow> m
           | None \<Rightarrow> (case asr_models a of [] \<Rightarrow> ''Xenova/whisper-small'' | m # _ \<Rightarrow> m)))"

definition net_asr_config_json :: "net_env \<Rightarrow> asr_env \<Rightarrow> string" where
  "net_asr_config_json e a =
     (let lib = asr_has a ''transformers.min.js'' \<and> asr_has a ''ort/ort-wasm-simd-threaded.asyncify.wasm''
      in jt ''{`local`:'' @ jb (lib \<and> asr_models a \<noteq> []) @ jt '',`lib`:'' @ jb lib @ jt '',`models`:'' @ jarr (asr_models a)
         @ jt '',`model`:'' @ jq (asr_model a)
         @ jt '',`language`:'' @ jq (case env_set (asr_lang_var a) of Some l \<Rightarrow> l | None \<Rightarrow> ''english'')
         @ jt '',`dir`:'' @ jq (net_asr_dir e a) @ ''}'')"

section \<open>Merging several exports\<close>

definition merge_file_of :: "jval \<Rightarrow> (string \<times> string) option" where
  "merge_file_of f = (case f of JObj _ \<Rightarrow> Some (v_str f ''name'', v_str f ''text'') | _ \<Rightarrow> None)"

definition merge_error :: "string \<Rightarrow> string" where
  "merge_error err =
     jt ''{`error`:'' @ jq (jt ''expected {`files`:[{`name`:..,`text`:..}]}'' @ (if err = [] then [] else '' ('' @ err @ '')'')) @ ''}''"

definition report_json :: "merge_report \<Rightarrow> string" where
  "report_json r = jt ''{`name`:'' @ jq (mr_label r) @ jt '',`status`:'' @ jq (mr_status r) @ jt '',`message`:'' @ jq (mr_message r) @ ''}''"

definition net_merge_response ::
  "(string \<Rightarrow> string option) \<Rightarrow> string option \<Rightarrow> string option \<Rightarrow> int \<Rightarrow> string \<Rightarrow> string" where
  "net_merge_response inflate max_calls channels now body =
     (case mj_parse body of
        Inl err \<Rightarrow> merge_error err
      | Inr v \<Rightarrow>
          (case v_get v ''files'' of
             Some (JArr fs) \<Rightarrow>
               (case merge_exports inflate max_calls \<lparr>cm_per_receiver = default_per_receiver channels, cm_home = []\<rparr>
                   (List.map_filter merge_file_of fs) of
                  (merged, report) \<Rightarrow>
                    jt ''{`report`:['' @ jcommas (map report_json report) @ jt ''],`export`:'' @ export_json merged now [] ''merged'' @ ''}'')
           | _ \<Rightarrow> merge_error []))"

section \<open>Remembered switches\<close>

definition net_setting :: "string \<Rightarrow> string option \<Rightarrow> int" where
  "net_setting key contents =
     (case contents of
        None \<Rightarrow> - 1
      | Some t \<Rightarrow>
          (case mj_parse t of
             Inl _ \<Rightarrow> - 1
           | Inr v \<Rightarrow> (case v_get v key of Some (JBool b) \<Rightarrow> if b then 1 else 0 | _ \<Rightarrow> - 1)))"

definition bool_member :: "string \<times> jval \<Rightarrow> (string, bool) omap \<Rightarrow> (string, bool) omap" where
  "bool_member m vals = (case snd m of JBool b \<Rightarrow> om_put (fst m) b vals | _ \<Rightarrow> vals)"

definition kept_switches :: "string option \<Rightarrow> (string, bool) omap" where
  "kept_switches contents =
     (case contents of
        None \<Rightarrow> []
      | Some t \<Rightarrow> (case mj_parse t of Inr (JObj ms) \<Rightarrow> fold bool_member ms [] | _ \<Rightarrow> []))"

definition settings_text :: "(string, bool) omap \<Rightarrow> string" where
  "settings_text vals = ''{'' @ jcommas (map (\<lambda>(k, b). jq k @ '':'' @ jb b) vals) @ ''}'' @ [CHR 0x0A]"

text \<open>The file as it is afterwards, when it can be written.\<close>

definition remember_net_setting :: "bool \<Rightarrow> string \<Rightarrow> bool \<Rightarrow> string option \<Rightarrow> string option" where
  "remember_net_setting writable key on contents =
     (if \<not> writable then contents else Some (settings_text (om_put key on (kept_switches contents))))"

section \<open>A switch is remembered\<close>

definition switches_doc :: "(string, bool) omap \<Rightarrow> jdoc" where
  "switches_doc vals = DObj (map (\<lambda>(k, b). (k, DBool b)) vals)"

lemma settings_text_doc: "settings_text vals = jd_text (switches_doc vals) @ [CHR 0x0A]"
proof -
  have "map (\<lambda>m. jq (fst m) @ '':'' @ jd_text (snd m)) (map (\<lambda>(k, b). (k, DBool b)) vals) = map (\<lambda>(k, b). jq k @ '':'' @ jb b) vals"
    by (induction vals) auto
  then show ?thesis unfolding settings_text_def switches_doc_def jd_text.simps by (simp only: append_assoc)
qed

text \<open>An object may be followed by anything, here the end of the line.\<close>

lemma object_reads:
  assumes "jd_fits 65 (DObj ms)" "2 * length (jd_text (DObj ms)) < k"
  shows "mj_value n k 0 (jd_text (DObj ms) @ r) = Inr (jd_val (DObj ms), r)"
proof (cases ms)
  case Nil
  then show ?thesis using assms(2) by (cases k) (simp_all add: mj_value.simps skip_ws_hd is_space_def)
next
  case (Cons y ys)
  let ?f = "\<lambda>m. jq (fst m) @ '':'' @ jd_text (snd m)"
  let ?t = "jcommas (map ?f (y # ys)) @ CHR ''}'' # r"
  from assms(2) obtain k' where k: "k = Suc k'" by (cases k) auto
  obtain t where t: "?t = dq # t"
    using jcommas_hd [of "?f y" "map ?f ys" "CHR ''}'' # r"] by (auto simp: jq_def)
  have "\<forall>m \<in> set (y # ys). jd_fits (65 - Suc 0) (snd m)" using jd_fits_container(2) [of 0 ms] assms(1) Cons by simp
  then have "mj_members n k' 0 [] ?t = Inr (JObj ([] @ map (\<lambda>m. (fst m, jd_val (snd m))) (y # ys)), r)"
    using assms(2) k Cons by (intro mj_members_text) (auto intro: reads_all)
  with t k Cons show ?thesis by (simp add: mj_value.simps skip_ws_hd is_space_def)
qed

lemma settings_parse: "mj_parse (settings_text vals) = Inr (JObj (map (\<lambda>(k, b). (k, JBool b)) vals))"
proof -
  let ?m = "map (\<lambda>(k, b). (k, DBool b)) vals"
  have f: "jd_fits 65 (DObj ?m)" by (auto simp: list_all_iff eval_nat_numeral)
  have t: "settings_text vals = jd_text (DObj ?m) @ [CHR 0x0A]" by (simp only: settings_text_doc switches_doc_def)
  have "mj_value (length (settings_text vals)) (mj_fuel (settings_text vals)) 0 (jd_text (DObj ?m) @ [CHR 0x0A]) = Inr (jd_val (DObj ?m), [CHR 0x0A])"
    by (rule object_reads[OF f]) (simp add: t mj_fuel_def)
  moreover have "jd_val (DObj ?m) = JObj (map (\<lambda>(k, b). (k, JBool b)) vals)" by (induction vals) auto
  ultimately show ?thesis by (simp add: mj_parse_def t skip_ws_def is_space_def)
qed

lemma bool_members_all: "fold bool_member (map (\<lambda>(k, b). (k, JBool b)) vals) acc = fold (\<lambda>(k, b). om_put k b) vals acc"
  by (induction vals arbitrary: acc) (auto simp: bool_member_def)

lemma kept_settings: "om_wf vals \<Longrightarrow> kept_switches (Some (settings_text vals)) = vals"
proof -
  assume "om_wf vals"
  then have "foldl (\<lambda>acc (k, b). om_put k b acc) [] vals = vals" by (rule om_rebuild)
  then have "fold (\<lambda>(k, b). om_put k b) vals [] = vals" by (simp add: foldl_conv_fold split_def)
  then show ?thesis by (simp add: kept_switches_def settings_parse bool_members_all)
qed

lemma kept_wf: "om_wf (kept_switches contents)"
proof -
  have "om_wf acc \<Longrightarrow> om_wf (fold bool_member ms acc)" for ms acc
    by (induction ms arbitrary: acc) (auto simp: bool_member_def split: jval.splits)
  then show ?thesis by (auto simp: kept_switches_def split: option.splits sum.splits jval.splits)
qed

lemma settings_round_trip:
  "net_setting k (remember_net_setting True key on contents) =
     (case om_get (om_put key on (kept_switches contents)) k of None \<Rightarrow> - 1 | Some b \<Rightarrow> if b then 1 else 0)
   \<and> kept_switches (remember_net_setting True key on contents) = om_put key on (kept_switches contents)"
proof -
  have m: "map_of (map (\<lambda>(k, b). (k, JBool b)) vals) k = map_option JBool (om_get vals k)" for vals
    by (induction vals) auto
  have "om_wf (om_put key on (kept_switches contents))" using kept_wf by (rule om_wf_put)
  then show ?thesis
    by (auto simp: remember_net_setting_def net_setting_def settings_parse v_get_def m kept_settings split: option.splits)
qed

text \<open>
  C17. A switch of the explorer is remembered: reading it back gives its last position, the other switches keep
  theirs, and what is not a switch in the file is never taken for one.
\<close>
theorem settings_remembered:
  "net_setting k (remember_net_setting True key on contents) =
     (case om_get (om_put key on (kept_switches contents)) k of None \<Rightarrow> - 1 | Some b \<Rightarrow> if b then 1 else 0)
   \<and> kept_switches (remember_net_setting True key on contents) = om_put key on (kept_switches contents)"
  by (rule settings_round_trip)

end
