(* ===== verification/Http_Routes.thy ===== *)
theory Http_Routes
  imports Session_Start Status_Json Http_Texts Assoc_Audio
begin

text \<open>
  The pages and the API of the server: \<open>Session::serve_http\<close> of \<open>src/session.cpp\<close>, one request and one response,
  over the registry and the model. A file that is streamed is its contents. What lies outside (clocks, the
  environment, the file system, the texts of the web pages, gzip) is in \<open>host\<close>. A message that cannot be parsed
  raises an exception, which \<open>serve_http\<close> does not catch. The registry is always there (the server makes it), and
  the headers every response has (server, version, length, connection) and the lines printed are left out.
\<close>

section \<open>Requests and responses\<close>

datatype http_method = Get | Post | Other_Method

record request =
  rq_method :: http_method
  rq_target :: string
  rq_body :: string
  rq_range :: string
  rq_if_none_match :: string
  rq_accept_encoding :: string

record response =
  rs_status :: nat
  rs_headers :: "(string \<times> string) list"
  rs_body :: string

datatype reply = Reply response | Raised string

record host =
  h_env :: net_env
  h_asr :: asr_env
  h_page :: page_env
  h_now :: int
  h_tick :: int
  h_max_calls :: "string option"
  h_channels :: "string option"
  h_inflate :: "string \<Rightarrow> string option"
  h_gzip :: "string \<Rightarrow> string option"
  h_file :: "string \<Rightarrow> string option"
  h_mtime :: "string \<Rightarrow> int"
  h_can :: "string \<Rightarrow> bool"
  h_taken :: "string list"
  h_fsize :: nat
  h_listing :: "(string \<times> string \<times> int) list option"
  h_writable :: bool
  h_net_html :: string
  h_status_html :: "snapshot \<Rightarrow> string"
  h_worker_js :: string
  h_manual :: string
  h_restarts :: "nat \<Rightarrow> bool"

text \<open>What a request may change; \<open>wb_posted\<close> are the switches posted to the sessions, \<open>wb_restarted\<close> who restarts.\<close>

record web =
  wb_stats :: stats
  wb_settings :: "string option"
  wb_posted :: "(nat \<times> bool) list"
  wb_restarted :: "nat list"

definition answer :: "nat \<Rightarrow> string \<Rightarrow> string \<Rightarrow> response" where
  "answer st kind body = \<lparr>rs_status = st, rs_headers = [(''Content-Type'', kind)], rs_body = body\<rparr>"

definition with_header :: "string \<Rightarrow> string \<Rightarrow> response \<Rightarrow> response" where
  "with_header k v r = r\<lparr>rs_headers := rs_headers r @ [(k, v)]\<rparr>"

definition json_answer :: "nat \<Rightarrow> string \<Rightarrow> response" where
  "json_answer st body = answer st ''application/json'' body"

definition text_answer :: "nat \<Rightarrow> string \<Rightarrow> response" where
  "text_answer st body = answer st ''text/plain; charset=utf-8'' body"

definition ok_json :: "bool \<Rightarrow> string" where
  "ok_json ok = jt ''{`ok`:'' @ jb ok @ ''}''"

definition ok_or :: "nat \<Rightarrow> bool \<Rightarrow> nat" where
  "ok_or st ok = (if ok then 200 else st)"

definition w_assoc :: "web \<Rightarrow> model" where
  "w_assoc w = st_assoc (wb_stats w)"

definition put_assoc :: "model \<Rightarrow> web \<Rightarrow> web" where
  "put_assoc m w = w\<lparr>wb_stats := (wb_stats w)\<lparr>st_assoc := m\<rparr>\<rparr>"

section \<open>Files\<close>

definition newline_text :: "string \<Rightarrow> string" where
  "newline_text s = s @ [CHR 0x0A]"

text \<open>The current or most recent recording; the flush that precedes it is the file system's.\<close>

definition log_download :: "host \<Rightarrow> web \<Rightarrow> response" where
  "log_download h w =
     (let p = rc_last_path (m_rec (w_assoc w))
      in case (if p = [] then None else h_file h p) of
           Some body \<Rightarrow>
             with_header ''Content-Disposition'' (''attachment; filename='' @ [dq] @ base_name p @ [dq]) (answer 200 ''application/gzip'' body)
         | None \<Rightarrow> json_answer 404 (jt ''{`error`:`no recording yet`}''))"

definition hex_of :: "int \<Rightarrow> string" where
  "hex_of v = (let n = nat (v mod 2 ^ 64) in if n = 0 then ''0'' else
     dropWhile (\<lambda>c. c = CHR ''0'') (map (\<lambda>i. hex_digit (n div 16 ^ i mod 16)) (rev [0..<16])))"

definition asr_tag :: "host \<Rightarrow> string \<Rightarrow> string \<Rightarrow> string" where
  "asr_tag h path body = [dq] @ hex_of (int (length body)) @ ''-'' @ hex_of (h_mtime h path) @ [dq]"

definition isolated :: "response \<Rightarrow> response" where
  "isolated r =
     with_header ''Cross-Origin-Resource-Policy'' ''same-origin'' (with_header ''Cross-Origin-Embedder-Policy'' ''credentialless''
       (with_header ''Cross-Origin-Opener-Policy'' ''same-origin'' r))"

text \<open>A file below the asset folder that can be opened; one that exists but cannot be read is not there.\<close>

definition serve_asr :: "host \<Rightarrow> request \<Rightarrow> string \<Rightarrow> response" where
  "serve_asr h rq rel =
     (let path = path_join (net_asr_dir (h_env h) (h_asr h)) rel
      in case (if asr_rel_ok rel then h_file h path else None) of
           None \<Rightarrow> isolated (text_answer 404 (newline_text ''no such file -- see tools/get_asr_assets.sh''))
         | Some body \<Rightarrow>
             (let tag = asr_tag h path body
              in if rq_if_none_match rq = tag
                 then isolated (with_header ''Cache-Control'' ''no-cache'' \<lparr>rs_status = 304, rs_headers = [(''ETag'', tag)], rs_body = []\<rparr>)
                 else isolated (with_header ''Cache-Control'' ''no-cache'' (with_header ''ETag'' tag (answer 200 (asr_content_type rel) body)))))"

section \<open>Byte ranges\<close>

text \<open>The first and the last byte a range header asks for, out of \<open>n > 0\<close>; \<open>None\<close> when it is not used.\<close>

definition range_of :: "string \<Rightarrow> nat \<Rightarrow> (nat \<times> nat) option" where
  "range_of hdr n =
     (if \<not> starts_with hdr ''bytes='' \<or> find_char (CHR '','') hdr \<noteq> None then None
      else (let spec = drop 6 hdr
            in case find_char (CHR ''-'') spec of
                 None \<Rightarrow> None
               | Some i \<Rightarrow>
                   (let lo = take i spec; hi = drop (i + 1) spec
                    in if lo = [] \<and> hi \<noteq> [] then Some (n - min (strtoul hi) n, n - 1)
                       else Some (strtoul lo, if hi = [] then n - 1 else min (strtoul hi) (n - 1)))))"

definition serve_range :: "string \<Rightarrow> string \<Rightarrow> response" where
  "serve_range hdr data =
     (let n = length data;
          wav = (\<lambda>st body. with_header ''Cache-Control'' ''no-store'' (with_header ''Accept-Ranges'' ''bytes'' (answer st ''audio/wav'' body)))
      in case range_of hdr n of
           None \<Rightarrow> wav 200 data
         | Some (a, z) \<Rightarrow>
             if z < a \<or> n \<le> a then \<lparr>rs_status = 416, rs_headers = [(''Content-Range'', ''bytes */'' @ nat_dec n)], rs_body = []\<rparr>
             else with_header ''Content-Range'' (''bytes '' @ nat_dec a @ ''-'' @ nat_dec z @ ''/'' @ nat_dec n)
                    (wav 206 (take (z - a + 1) (drop a data))))"

text \<open>The files the model keeps: the calls it recorded, and the audio of imports.\<close>

definition audio_file :: "string \<Rightarrow> model \<Rightarrow> string option" where
  "audio_file path m =
     (case om_get (m_files m) path of
        Some body \<Rightarrow> Some body
      | None \<Rightarrow> if starts_with path (as_dir (m_audio m) @ ''/'') then om_get (as_disk (m_audio m)) (drop (length (as_dir (m_audio m)) + 1) path) else None)"

definition serve_audio :: "host \<Rightarrow> request \<Rightarrow> string \<Rightarrow> web \<Rightarrow> web \<times> response" where
  "serve_audio h rq name w =
     (case audio_path name (h_now h) (w_assoc w) of
        (m, path) \<Rightarrow>
          (let data = (if path = [] then [] else case audio_file path m of None \<Rightarrow> [] | Some b \<Rightarrow> b)
           in (put_assoc m w, if path = [] \<or> length data < 44 then text_answer 404 (newline_text ''no such audio'') else serve_range (rq_range rq) data)))"

section \<open>Uploads and keys\<close>

definition import_answer :: "string \<Rightarrow> import_result \<Rightarrow> string" where
  "import_answer name r =
     jt ''{`name`:'' @ jq name @ jt '',`status`:'' @ jq (ir_status r) @ jt '',`message`:'' @ jq (ir_message r) @ jt '',`id`:''
     @ nat_dec (ir_id r) @ ''}''"

definition or_default :: "string \<Rightarrow> string \<Rightarrow> string" where
  "or_default d s = (if s = [] then d else s)"

definition post_import :: "host \<Rightarrow> request \<Rightarrow> string \<Rightarrow> web \<Rightarrow> web \<times> response" where
  "post_import h rq query w =
     (let name = or_default ''import'' (query_param query ''name'')
      in case import_export (h_inflate h) (rq_body rq) name (h_now h) (w_assoc w) of
           (m, r) \<Rightarrow> (put_assoc m w, json_answer (if ir_status r = ''invalid'' then 400 else 200) (import_answer name r)))"

definition upload_status :: "string \<Rightarrow> nat" where
  "upload_status s =
     (if s = ''added'' \<or> s = ''have'' then 200 else if s = ''full'' then 507 else if s = ''failed'' then 500
      else if s = ''invalid'' then 400 else 404)"

definition post_import_audio :: "request \<Rightarrow> string \<Rightarrow> web \<Rightarrow> web \<times> response" where
  "post_import_audio rq query w =
     (case upload_audio (strtoul (query_param query ''id'')) (query_param query ''name'') (rq_body rq) (w_assoc w) of
        (m, (st, msg), calls) \<Rightarrow>
          (put_assoc m w, json_answer (upload_status st)
             (jt ''{`status`:'' @ jq st @ jt '',`message`:'' @ jq msg @ jt '',`calls`:'' @ nat_dec calls @ ''}'')))"

text \<open>A key is set from the message in the body; a body that is no message raises.\<close>

definition with_message :: "request \<Rightarrow> web \<Rightarrow> ((string, fval) omap \<Rightarrow> model \<Rightarrow> model \<times> bool) \<Rightarrow> web \<times> reply" where
  "with_message rq w act =
     (case parse_flat_object (rq_body rq) of
        Inl err \<Rightarrow> (w, Raised err)
      | Inr obj \<Rightarrow> (case act obj (w_assoc w) of (m, ok) \<Rightarrow> (put_assoc m w, Reply (json_answer (ok_or 400 ok) (ok_json ok)))))"

definition post_key :: "host \<Rightarrow> request \<Rightarrow> web \<Rightarrow> web \<times> reply" where
  "post_key h rq w =
     with_message rq w (\<lambda>obj. set_key (h_now h) (get_string obj ''fam'' []) (get_string obj ''net'' []) (get_string obj ''kid'' [])
       (get_string obj ''alg'' []) (get_string obj ''key'' []))"

text \<open>\<open>static_cast<int>\<close> of a double; out of range, what x86 gives.\<close>

definition to_int32 :: "dbl \<Rightarrow> int" where
  "to_int32 d = (let n = to_i64 d in if - (2 ^ 31) \<le> n \<and> n < 2 ^ 31 then n else - (2 ^ 31))"

definition post_bp :: "request \<Rightarrow> web \<Rightarrow> web \<times> reply" where
  "post_bp rq w =
     with_message rq w (\<lambda>obj. set_bp (or_default ''dmr'' (get_string obj ''fam'' [])) (get_string obj ''net'' [])
       (to_int32 (get_number obj ''key'' (DFin 0))))"

definition post_net_key :: "string \<Rightarrow> request \<Rightarrow> web \<Rightarrow> web \<times> reply" where
  "post_net_key kind rq w =
     with_message rq w (\<lambda>obj. set_net_key kind (or_default ''dmr'' (get_string obj ''fam'' [])) (get_string obj ''net'' [])
       (get_string obj ''key'' []))"

definition post_merge :: "host \<Rightarrow> request \<Rightarrow> response" where
  "post_merge h rq =
     (let out = net_merge_response (h_inflate h) (h_max_calls h) (h_channels h) (h_now h) (rq_body rq)
      in json_answer (if starts_with out (jt ''{`error`:'') then 400 else 200) out)"

section \<open>Reading\<close>

function replace_all :: "string \<Rightarrow> string \<Rightarrow> string \<Rightarrow> string" where
  "replace_all old new s =
     (if old = [] \<or> s = [] then s
      else if starts_with s old then new @ replace_all old new (drop (length old) s)
      else hd s # replace_all old new (tl s))"
  by auto
termination by (relation "measure (\<lambda>(_, _, s). length s)") auto

declare replace_all.simps [simp del]

text \<open>A page carries the fingerprint of its own code.\<close>

definition ui_id :: "string \<Rightarrow> string" where
  "ui_id html = take 12 (fnv_hex html)"

definition net_ui_page :: "host \<Rightarrow> string" where
  "net_ui_page h = replace_all ''%%UI_BUILD%%'' (ui_id (h_net_html h)) (h_net_html h)"

definition snapshot0 :: snapshot where
  "snapshot0 = \<lparr>sn_total = 0, sn_current = 0, sn_active = 0, sn_uptime = 0, sn_bytes_in = 0, sn_bytes_out = 0, sn_iq = False,
     sn_started = 0, sn_rows = [], sn_by_protocol = [], sn_history = [], sn_log_lines = 0, sn_protocols = []\<rparr>"

definition status_ui_id :: "host \<Rightarrow> string" where
  "status_ui_id h = ui_id (h_status_html h snapshot0)"

definition page_answer :: "string \<Rightarrow> response" where
  "page_answer html = answer 200 ''text/html; charset=utf-8'' html"

definition get_net_page :: "host \<Rightarrow> response" where
  "get_net_page h =
     with_header ''Cache-Control'' ''no-cache'' (with_header ''Cross-Origin-Embedder-Policy'' ''credentialless''
       (with_header ''Cross-Origin-Opener-Policy'' ''same-origin'' (page_answer (net_ui_page h))))"

definition now_shown :: "host \<Rightarrow> web \<Rightarrow> snapshot" where
  "now_shown h w = snapshot_of (h_tick h) (h_tick h) (wb_stats w)"

definition get_status_page :: "host \<Rightarrow> web \<Rightarrow> response" where
  "get_status_page h w =
     with_header ''Cache-Control'' ''no-cache''
       (page_answer (replace_all ''%%UI_BUILD%%'' (status_ui_id h) (h_status_html h (now_shown h w))))"

definition get_status_json :: "host \<Rightarrow> web \<Rightarrow> response" where
  "get_status_json h w = json_answer 200 (with_ui (render_status_json (h_tick h) (now_shown h w)) (status_ui_id h))"

definition get_net_json :: "host \<Rightarrow> request \<Rightarrow> web \<Rightarrow> response" where
  "get_net_json h rq w =
     (let doc = with_ui (to_json (h_page h) (h_now h) (w_assoc w)) (ui_id (h_net_html h));
          body = take 1 doc @ jt ''`clients`:'' @ nat_dec (connected (wb_stats w)) @ '','' @ drop 1 doc
      in case (if str_has (rq_accept_encoding rq) ''gzip'' \<and> 1024 < length body then h_gzip h body else None) of
           Some gz \<Rightarrow> with_header ''Vary'' ''Accept-Encoding'' (with_header ''Content-Encoding'' ''gzip'' (json_answer 200 gz))
         | None \<Rightarrow> json_answer 200 body)"

definition get_export :: "host \<Rightarrow> bool \<Rightarrow> web \<Rightarrow> response" where
  "get_export h graph w =
     (let name = ''net_export_'' @ utc_stamp (h_now h) @ (if graph then ''.graphml'' else ''.json'')
      in with_header ''Content-Disposition'' (''attachment; filename='' @ [dq] @ name @ [dq])
           (answer 200 (if graph then ''application/graphml+xml'' else ''application/json'')
              (if graph then to_graphml (h_now h) (w_assoc w) else to_export_json (h_now h) (w_assoc w))))"

definition key_list_name :: "string \<Rightarrow> string" where
  "key_list_name fam =
     map (\<lambda>c. if is_alnum c \<or> c = CHR ''.'' \<or> c = CHR ''_'' then c else CHR ''_'') (''dsd_keys_'' @ fam @ ''.csv'')"

definition get_key_list :: "string \<Rightarrow> web \<Rightarrow> response" where
  "get_key_list query w =
     (let fam = query_param query ''fam''
      in with_header ''Cache-Control'' ''no-store''
           (with_header ''Content-Disposition'' (''attachment; filename='' @ [dq] @ key_list_name fam @ [dq])
             (answer 200 ''text/csv; charset=utf-8'' (keys_csv fam (query_param query ''net'') (w_assoc w)))))"

definition get_key_values :: "string \<Rightarrow> web \<Rightarrow> response" where
  "get_key_values query w =
     with_header ''Cache-Control'' ''no-store''
       (json_answer 200 (net_key_values_json (query_param query ''fam'') (query_param query ''net'') (w_assoc w)))"

definition get_manual :: "host \<Rightarrow> response" where
  "get_manual h =
     (if h_manual h = [] then text_answer 404 (newline_text ''This server was built without the manual (docs/NET_EXPLORER.pdf).'')
      else with_header ''Cache-Control'' ''no-cache''
        (with_header ''Content-Disposition'' (''inline; filename='' @ [dq] @ ''dsd-server-network-explorer-manual.pdf'' @ [dq])
          (answer 200 ''application/pdf'' (h_manual h))))"

definition get_worker :: "host \<Rightarrow> response" where
  "get_worker h =
     with_header ''Cross-Origin-Resource-Policy'' ''same-origin'' (with_header ''Cross-Origin-Embedder-Policy'' ''credentialless''
       (with_header ''Cache-Control'' ''no-cache'' (answer 200 ''text/javascript'' (h_worker_js h))))"

section \<open>Switches\<close>

definition log_switch :: "host \<Rightarrow> bool \<Rightarrow> string \<Rightarrow> web \<Rightarrow> web \<times> response" where
  "log_switch h on query w =
     (case (if on then start_recording (h_can h) (h_taken h) (h_fsize h) (net_log_dir (h_env h)) (net_log_max_bytes (h_env h))
              (str_has query ''clear=1'') (h_now h) (w_assoc w)
            else (stop_recording (h_fsize h) (h_now h) (w_assoc w), True)) of
        (m, ok) \<Rightarrow> (put_assoc m w, json_answer (ok_or 500 ok) (net_rec_json (h_fsize h) (m_rec m))))"

definition audio_switch :: "host \<Rightarrow> bool \<Rightarrow> web \<Rightarrow> web \<times> response" where
  "audio_switch h on w =
     (case (if on then start_audio (h_listing h) (net_audio_dir (h_env h)) (net_audio_max_bytes (h_env h))
              (net_audio_max_age_ms (h_env h)) (h_now h) (w_assoc w)
            else (stop_audio (w_assoc w), True)) of
        (m, ok) \<Rightarrow>
          ((put_assoc m w)\<lparr>wb_settings := (if ok then remember_net_setting (h_writable h) ''audio'' on (wb_settings w) else wb_settings w)\<rparr>,
           json_answer (ok_or 500 ok) (net_audio_json (as_status (m_audio m)))))"

definition merge_switch :: "bool \<Rightarrow> string \<Rightarrow> web \<Rightarrow> web \<times> response" where
  "merge_switch merge query w =
     (let fam = query_param query ''fam''
      in case (if merge then merge_networks fam (query_param query ''from'') (query_param query ''to'') (w_assoc w)
               else unmerge_network fam (query_param query ''key'') (w_assoc w)) of
           (m, ok) \<Rightarrow> (put_assoc m w, json_answer 200 (jt ''{`ok`:'' @ jb ok @ jt '',`merges`:'' @ merges_json (m_merges m) @ ''}'')))"

definition did :: "nat \<Rightarrow> model \<times> bool \<Rightarrow> web \<Rightarrow> web \<times> response" where
  "did st r w = (case r of (m, ok) \<Rightarrow> (put_assoc m w, json_answer (ok_or st ok) (ok_json ok)))"

definition reload_keys :: "host \<Rightarrow> web \<Rightarrow> web \<times> response" where
  "reload_keys h w =
     (w\<lparr>wb_restarted := wb_restarted w @ filter (h_restarts h) (map fst (st_key_reloads (wb_stats w)))\<rparr>,
      json_answer 200 (jt ''{`ok`:true,`restarted`:'' @ nat_dec (reload_pipelines (h_restarts h) (wb_stats w)) @ ''}''))"

definition clear_all :: "host \<Rightarrow> string \<Rightarrow> web \<Rightarrow> web \<times> response" where
  "clear_all h query w =
     (case (if str_has query ''audio=1'' then clear_with_audio (h_now h) (w_assoc w)
            else (clear (h_now h) (w_assoc w), 0, 0)) of
        (m, files, bytes) \<Rightarrow>
          (put_assoc m w, json_answer 200 (jt ''{`ok`:true,`audio_files`:'' @ nat_dec files @ jt '',`audio_bytes`:'' @ nat_dec bytes @ ''}'')))"

definition iq_switch :: "bool \<Rightarrow> web \<Rightarrow> web \<times> response" where
  "iq_switch on w =
     (case set_iq_logging on (wb_stats w) of
        (st, posted) \<Rightarrow>
          (w\<lparr>wb_stats := st, wb_posted := wb_posted w @ posted\<rparr>, json_answer 200 (jt ''{`iq_log_enabled`:'' @ jb on @ ''}'')))"

section \<open>Routes\<close>

definition serve_post :: "host \<Rightarrow> request \<Rightarrow> string \<Rightarrow> string \<Rightarrow> web \<Rightarrow> (web \<times> reply) option" where
  "serve_post h rq target query w =
     (if target = ''/net/import'' then Some (map_prod id Reply (post_import h rq query w))
      else if target = ''/net/import/audio'' then Some (map_prod id Reply (post_import_audio rq query w))
      else if target = ''/net/keys/set'' then Some (post_key h rq w)
      else if target = ''/net/bp/set'' then Some (post_bp rq w)
      else if net_key_route target ''set'' \<noteq> [] then Some (post_net_key (net_key_route target ''set'') rq w)
      else if target = ''/net/merge'' then Some (w, Reply (post_merge h rq))
      else None)"

definition serve_view :: "host \<Rightarrow> request \<Rightarrow> string \<Rightarrow> string \<Rightarrow> web \<Rightarrow> response option" where
  "serve_view h rq target query w =
     (if target \<in> {''/'', ''/status'', ''/status.html''} then Some (get_status_page h w)
      else if target = ''/status.json'' then Some (get_status_json h w)
      else if target = ''/log.json'' then Some (json_answer 200 (render_log_json (log_snapshot (wb_stats w))))
      else if target \<in> {''/net'', ''/net.html''} then Some (get_net_page h)
      else if target = ''/net/manual.pdf'' then Some (get_manual h)
      else if target = ''/net/asr_worker.js'' then Some (get_worker h)
      else if target = ''/net/asr/config.json''
        then Some (with_header ''Cache-Control'' ''no-store'' (json_answer 200 (net_asr_config_json (h_env h) (h_asr h))))
      else if target = ''/net.json'' then Some (get_net_json h rq w)
      else if target \<in> {''/net/export.json'', ''/net/export.graphml''} then Some (get_export h (target = ''/net/export.graphml'') w)
      else if target = ''/net/keys/list'' then Some (get_key_list query w)
      else if target = ''/net/keys/values'' then Some (get_key_values query w)
      else None)"

definition serve_action :: "host \<Rightarrow> string \<Rightarrow> string \<Rightarrow> web \<Rightarrow> web \<times> response" where
  "serve_action h target query w =
     (let arg = query_param query; m = w_assoc w; fam = or_default ''dmr'' (arg ''fam'')
      in if target = ''/log/clear'' then (w\<lparr>wb_stats := clear_log (wb_stats w)\<rparr>, json_answer 200 (jt ''{`log`:[]}''))
         else if target \<in> {''/net/log/on'', ''/net/log/off''} then log_switch h (target = ''/net/log/on'') query w
         else if target \<in> {''/net/audio/on'', ''/net/audio/off''} then audio_switch h (target = ''/net/audio/on'') w
         else if target \<in> {''/net/networks/merge'', ''/net/networks/unmerge''} then merge_switch (target = ''/net/networks/merge'') query w
         else if target = ''/net/keys/remove'' then did 400 (remove_key (arg ''fam'') (arg ''net'') (arg ''kid'') m) w
         else if target = ''/net/bp/remove'' then did 400 (remove_bp fam (arg ''net'') m) w
         else if net_key_route target ''remove'' \<noteq> [] then did 400 (remove_net_key (net_key_route target ''remove'') fam (arg ''net'') m) w
         else if target = ''/net/keys/reload'' then reload_keys h w
         else if target = ''/net/imports/clear'' then did 404 (clear_imports m, True) w
         else if target = ''/net/imports/remove'' then did 404 (remove_import (strtoul (arg ''id'')) m) w
         else if target = ''/net/clear'' then clear_all h query w
         else if target \<in> {''/iq_log/on'', ''/iq_log/off''} then iq_switch (target = ''/iq_log/on'') w
         else (w, text_answer 404 (newline_text ''404 not found'')))"

definition serve_get :: "host \<Rightarrow> request \<Rightarrow> string \<Rightarrow> string \<Rightarrow> web \<Rightarrow> web \<times> response" where
  "serve_get h rq target query w =
     (case serve_view h rq target query w of Some r \<Rightarrow> (w, r) | None \<Rightarrow> serve_action h target query w)"

text \<open>The files first; then what is posted; then any other method is refused, and the rest is read.\<close>

definition split_target :: "string \<Rightarrow> string \<times> string" where
  "split_target t = (case find_char (CHR ''?'') t of None \<Rightarrow> (t, []) | Some i \<Rightarrow> (take i t, drop (i + 1) t))"

definition serve_file :: "host \<Rightarrow> request \<Rightarrow> string \<Rightarrow> web \<Rightarrow> (web \<times> response) option" where
  "serve_file h rq target w =
     (if rq_method rq \<noteq> Get then None
      else if target = ''/net/log/download'' then Some (w, log_download h w)
      else if starts_with target ''/net/asr/'' \<and> target \<noteq> ''/net/asr/config.json'' then Some (w, serve_asr h rq (drop 9 target))
      else if starts_with target ''/net/audio/'' \<and> target \<noteq> ''/net/audio/on'' \<and> target \<noteq> ''/net/audio/off''
        then Some (serve_audio h rq (drop 11 target) w)
      else None)"

definition serve_http :: "host \<Rightarrow> request \<Rightarrow> web \<Rightarrow> web \<times> reply" where
  "serve_http h rq w =
     (case split_target (rq_target rq) of
        (target, query) \<Rightarrow>
          (case serve_file h rq target w of
             Some r \<Rightarrow> map_prod id Reply r
           | None \<Rightarrow>
               (case (if rq_method rq = Post then serve_post h rq target query w else None) of
                  Some r \<Rightarrow> r
                | None \<Rightarrow>
                    if rq_method rq \<noteq> Get then (w, Reply (text_answer 405 (newline_text ''405 method not allowed'')))
                    else map_prod id Reply (serve_get h rq target query w))))"

end
