(* ===== verification/Http_Safety.thy ===== *)
theory Http_Safety
  imports Http_Routes
begin

text \<open>
  What the pages and the API of the server guarantee: a byte range is served from within the file, no page shows
  the value of a key, a name that reaches a header or the file system is harmless; and which requests the server
  does not survive.
\<close>

section \<open>Byte ranges\<close>

lemma takeWhile_digits: "takeWhile is_digit (nat_dec n) = nat_dec n"
  by (simp add: takeWhile_eq_all_conv nat_dec_digits)

lemma strtoul_nat_dec: "strtoul (nat_dec n) = min n (2 ^ 64 - 1)"
proof -
  have d: "list_all is_digit (nat_dec n)" "nat_dec n \<noteq> []" by (simp_all add: list_all_iff nat_dec_digits)
  then obtain c t where ct: "nat_dec n = c # t" "is_digit c" by (cases "nat_dec n") auto
  then have "skip_ws (nat_dec n) = nat_dec n" "c \<noteq> CHR ''-''" "c \<noteq> CHR ''+''"
    by (auto simp: skip_ws_def is_space_def is_digit_def)
  moreover have "hd (nat_dec n) = c" by (simp add: ct(1))
  moreover have "dec_val (takeWhile is_digit (nat_dec n)) = n" by (simp only: takeWhile_digits dec_val_nat_dec)
  ultimately show ?thesis using d(2) by (simp add: strtoul_def Let_def min_def del: takeWhile_eq_all_conv)
qed

lemma range_bounds: "range_of hdr n = Some (a, z) \<Longrightarrow> 0 < n \<Longrightarrow> z < n"
  by (auto simp: range_of_def Let_def split: if_splits option.splits)

lemma find_char_absent: "c \<notin> set xs \<Longrightarrow> find_char c xs = None"
  by (induction xs) auto

lemma nat_dec_plain: "CHR ''-'' \<notin> set (nat_dec n)" "CHR '','' \<notin> set (nat_dec n)"
  using nat_dec_digits[of "CHR ''-''" n] nat_dec_digits[of "CHR '',''" n] by (auto simp: is_digit_def)

lemma range_of_numbers:
  "range_of (''bytes='' @ nat_dec a @ ''-'' @ nat_dec b) n = Some (min a (2 ^ 64 - 1), min (min b (2 ^ 64 - 1)) (n - 1))"
proof -
  have "find_char (CHR '','') (''bytes='' @ nat_dec a @ ''-'' @ nat_dec b) = None"
    by (rule find_char_absent) (use nat_dec_plain in auto)
  moreover have "find_char (CHR ''-'') (nat_dec a @ ''-'' @ nat_dec b) = Some (length (nat_dec a))"
    using find_char_append[OF nat_dec_plain(1)[of a], of "nat_dec b"] by simp
  ultimately show ?thesis by (simp add: range_of_def starts_with_def Let_def strtoul_nat_dec)
qed

text \<open>
  C14. Whatever range a client asks for, what is sent is the whole file, or exactly the bytes its header names, all
  within the file, or the range is refused; and a client that asks for the bytes from \<open>a\<close> to \<open>b\<close> gets those.
\<close>
theorem range_served:
  "data = []
   \<or> (let n = length data; r = serve_range hdr data
      in rs_status r = 200 \<and> rs_body r = data
         \<or> rs_status r = 416 \<and> rs_body r = []
         \<or> (\<exists>a z. rs_status r = 206 \<and> a \<le> z \<and> z < n \<and> rs_body r = take (z - a + 1) (drop a data)
              \<and> length (rs_body r) = z - a + 1
              \<and> (''Content-Range'', ''bytes '' @ nat_dec a @ ''-'' @ nat_dec z @ ''/'' @ nat_dec n) \<in> set (rs_headers r)))
     \<and> \<not> (a \<le> b \<and> b < length data \<and> b < 2 ^ 64
          \<and> rs_body (serve_range (''bytes='' @ nat_dec a @ ''-'' @ nat_dec b) data) \<noteq> take (b - a + 1) (drop a data))"
proof (cases "data = []")
  case False
  have one: "rs_status r = 200 \<and> rs_body r = data \<or> rs_status r = 416 \<and> rs_body r = []
         \<or> (\<exists>a z. rs_status r = 206 \<and> a \<le> z \<and> z < n \<and> rs_body r = take (z - a + 1) (drop a data)
              \<and> length (rs_body r) = z - a + 1
              \<and> (''Content-Range'', ''bytes '' @ nat_dec a @ ''-'' @ nat_dec z @ ''/'' @ nat_dec n) \<in> set (rs_headers r))"
    if r: "r = serve_range hdr data" and n: "n = length data" for r n
  proof (cases "range_of hdr n")
    case None
    then show ?thesis by (simp add: r n serve_range_def with_header_def answer_def)
  next
    case (Some az)
    obtain a z where az: "az = (a, z)" by (cases az)
    have z: "z < n" using range_bounds[of hdr n a z] Some False by (simp add: az n)
    show ?thesis
    proof (cases "z < a \<or> n \<le> a")
      case True
      then show ?thesis using Some by (simp add: r n az serve_range_def)
    next
      case ok: False
      then have "rs_status r = 206" "rs_body r = take (z - a + 1) (drop a data)"
        "(''Content-Range'', ''bytes '' @ nat_dec a @ ''-'' @ nat_dec z @ ''/'' @ nat_dec n) \<in> set (rs_headers r)"
        using Some by (simp_all add: r n az serve_range_def with_header_def answer_def)
      moreover have "length (take (z - a + 1) (drop a data)) = z - a + 1" using z ok unfolding n length_take length_drop by arith
      ultimately show ?thesis using z ok by (metis linorder_not_less)
    qed
  qed
  have two: "rs_body (serve_range (''bytes='' @ nat_dec a @ ''-'' @ nat_dec b) data) = take (b - a + 1) (drop a data)"
    if "a \<le> b" "b < length data" "b < 2 ^ 64"
  proof -
    have "range_of (''bytes='' @ nat_dec a @ ''-'' @ nat_dec b) (length data) = Some (a, b)"
      unfolding range_of_numbers using that by simp
    from this that show ?thesis unfolding serve_range_def Let_def by (simp only: option.case prod.case) (simp add: with_header_def answer_def)
  qed
  show ?thesis using one[OF refl refl] two by (simp only: Let_def) blast
qed simp

section \<open>Names\<close>

lemma key_list_name_safe: "list_all (\<lambda>c. is_alnum c \<or> c = CHR ''.'' \<or> c = CHR ''_'') (key_list_name fam)"
proof -
  have "list_all (\<lambda>c. P c \<or> c = q) (map (\<lambda>c. if P c \<or> c = q then c else q) xs)" for P and q :: char and xs
    by (induction xs) auto
  from this[of "\<lambda>c. is_alnum c \<or> c = CHR ''.''" "CHR ''_''"] show ?thesis by (simp only: key_list_name_def disj_assoc)
qed

section \<open>No page shows a key\<close>

definition blank_web :: "(string \<Rightarrow> string) \<Rightarrow> web \<Rightarrow> web" where
  "blank_web f w = put_assoc (blank_keys f (w_assoc w)) w"

lemma blank_web_parts:
  "w_assoc (blank_web f w) = blank_keys f (w_assoc w)" "connected (wb_stats (blank_web f w)) = connected (wb_stats w)"
  "log_snapshot (wb_stats (blank_web f w)) = log_snapshot (wb_stats w)" "now_shown h (blank_web f w) = now_shown h w"
  by (simp_all add: blank_web_def put_assoc_def w_assoc_def connected_def log_snapshot_def now_shown_def snapshot_of_def)

lemma audio_path_audio:
  "snd (audio_path name now (blank_keys f m)) = snd (audio_path name now m)"
  "m_files (fst (audio_path name now (blank_keys f m))) = m_files (fst (audio_path name now m))"
  "m_audio (fst (audio_path name now (blank_keys f m))) = m_audio (fst (audio_path name now m))"
proof -
  have d: "import_dir (blank_keys f m) i = import_dir m i" for i by (simp add: import_dir_def blank_keys_def)
  have fs: "m_files (blank_keys f m) = m_files m" by (simp add: blank_keys_def)
  show "snd (audio_path name now (blank_keys f m)) = snd (audio_path name now m)"
    "m_files (fst (audio_path name now (blank_keys f m))) = m_files (fst (audio_path name now m))"
    "m_audio (fst (audio_path name now (blank_keys f m))) = m_audio (fst (audio_path name now m))"
    by (simp_all add: audio_path_def blank_keys_rest d fs Let_def split_def split: list.split cong: option.case_cong if_cong)
qed

lemma audio_path_blank:
  "audio_file p (fst (audio_path name now (blank_keys f m))) = audio_file p (fst (audio_path name now m))"
  by (simp add: audio_file_def audio_path_audio cong: option.case_cong)

text \<open>
  C12. Every page, document and file the server shows is the same whatever the values of the decryption keys, but
  for the two routes that hand them to the operator: the key list and the values of one network.
\<close>
theorem views_hide_keys:
  "target = ''/net/keys/list'' \<or> target = ''/net/keys/values''
   \<or> serve_view h rq target query (blank_web f w) = serve_view h rq target query w
     \<and> map_option snd (serve_file h rq target (blank_web f w)) = map_option snd (serve_file h rq target w)"
proof -
  have "get_status_page h (blank_web f w) = get_status_page h w" "get_status_json h (blank_web f w) = get_status_json h w"
    "get_net_json h rq (blank_web f w) = get_net_json h rq w" "get_export h b (blank_web f w) = get_export h b w" for b
    by (simp_all add: get_status_page_def get_status_json_def get_net_json_def get_export_def blank_web_parts texts_hide_keys)
  then have v: "target \<notin> {''/net/keys/list'', ''/net/keys/values''} \<Longrightarrow>
      serve_view h rq target query (blank_web f w) = serve_view h rq target query w"
    by (simp add: serve_view_def blank_web_parts)
  have "log_download h (blank_web f w) = log_download h w"
    by (simp add: log_download_def blank_web_parts blank_keys_rest)
  moreover have "snd (serve_audio h rq n (blank_web f w)) = snd (serve_audio h rq n w)" for n
    by (simp add: serve_audio_def blank_web_parts split_def Let_def audio_path_audio audio_path_blank)
  ultimately have "map_option snd (serve_file h rq target (blank_web f w)) = map_option snd (serve_file h rq target w)"
    unfolding serve_file_def by (simp only: if_distrib[of "map_option snd"] option.map snd_conv)
  then show ?thesis using v by blast
qed

section \<open>A message that cannot be parsed\<close>

text \<open>
  C13. The requests that raise: exactly a key posted with a body that is not a message. Nothing catches the
  exception, neither here nor in the threads that run the server, so such a request from anyone ends it.
\<close>
theorem bad_key_post_raises:
  "(\<exists>err. snd (serve_http h rq w) = Raised err) =
     (rq_method rq = Post \<and> (\<exists>err. parse_flat_object (rq_body rq) = Inl err)
      \<and> (case split_target (rq_target rq) of (target, _) \<Rightarrow>
           target = ''/net/keys/set'' \<or> target = ''/net/bp/set'' \<or> 0 < length (net_key_route target ''set'')))"
proof -
  obtain target query where t: "split_target (rq_target rq) = (target, query)" by (cases "split_target (rq_target rq)")
  have m: "(\<exists>err. snd (with_message rq w act) = Raised err) = (\<exists>err. parse_flat_object (rq_body rq) = Inl err)" for act
    by (auto simp: with_message_def split: sum.split prod.split)
  have nr: "net_key_route ''/net/import'' ''set'' = []" "net_key_route ''/net/import/audio'' ''set'' = []"
    by code_simp+
  show ?thesis
  proof (cases "rq_method rq = Post")
    case True
    have "(\<exists>err. snd (serve_http h rq w) = Raised err) =
        (case serve_post h rq target query w of None \<Rightarrow> False | Some r \<Rightarrow> \<exists>err. snd r = Raised err)"
      by (simp add: serve_http_def t serve_file_def True split: option.split)
    also have "\<dots> = ((\<exists>err. parse_flat_object (rq_body rq) = Inl err)
        \<and> (target = ''/net/keys/set'' \<or> target = ''/net/bp/set'' \<or> net_key_route target ''set'' \<noteq> []))"
      by (simp add: serve_post_def post_key_def post_bp_def post_net_key_def m nr)
    finally show ?thesis by (simp add: t True)
  next
    case False
    then show ?thesis by (simp add: serve_http_def t split: option.split)
  qed
qed

end
