(* ===== verification/Server_Start.thy ===== *)
theory Server_Start
  imports Http_Routes Assoc_Safety
begin

text \<open>
  How the server starts: \<open>Server::Server\<close> of \<open>src/session.cpp\<close> up to the listening socket, and the arguments of
  \<open>main\<close>. What it reports is the list of lines it prints; files are their contents, \<open>None\<close> when unreadable.
\<close>

section \<open>The constructor\<close>

record boot =
  bt_log :: "string option"
  bt_audio :: "string option"
  bt_settings :: "string option"
  bt_merges :: "string option"
  bt_keys :: "string option"

text \<open>A set variable decides; otherwise the switch of the page as it was last left.\<close>

definition audio_at_start :: "boot \<Rightarrow> bool" where
  "audio_at_start b = (if env_set (bt_audio b) \<noteq> None then env_on (bt_audio b) else net_setting ''audio'' (bt_settings b) = 1)"

definition start_net_log :: "host \<Rightarrow> boot \<Rightarrow> model \<Rightarrow> model \<times> string list" where
  "start_net_log h b m =
     (if \<not> env_on (bt_log b) then (m, [])
      else case start_recording (h_can h) (h_taken h) (h_fsize h) (net_log_dir (h_env h)) (net_log_max_bytes (h_env h)) False (h_now h) m of
             (m', ok) \<Rightarrow>
               (m', [if ok then ''net recording: writing '' @ rc_last_path (m_rec m')
                     else ''net recording: could not create a file in '' @ net_log_dir (h_env h)]))"

definition start_net_merges :: "host \<Rightarrow> boot \<Rightarrow> model \<Rightarrow> model \<times> string list" where
  "start_net_merges h b m =
     (case use_merges_file (net_merges_file (h_env h)) (bt_merges b) m of
        (m', ok) \<Rightarrow>
          (m', if ok then [''net merges: loaded '' @ nat_dec (merges_count (m_merges m')) @ '' from '' @ net_merges_file (h_env h)] else []))"

definition start_net_keys :: "host \<Rightarrow> boot \<Rightarrow> model \<Rightarrow> model \<times> string list" where
  "start_net_keys h b m =
     (case use_keys_file (net_keys_file (h_env h)) (bt_keys b) m of
        (m', ok) \<Rightarrow> (m', if ok then [''net keys: loaded '' @ nat_dec (keys_count m') @ '' from '' @ net_keys_file (h_env h)] else []))"

definition start_net_audio :: "host \<Rightarrow> boot \<Rightarrow> model \<Rightarrow> model \<times> string list" where
  "start_net_audio h b m =
     (if \<not> audio_at_start b then (m, [])
      else case start_audio (h_listing h) (net_audio_dir (h_env h)) (net_audio_max_bytes (h_env h)) (net_audio_max_age_ms (h_env h)) (h_now h) m of
             (m', ok) \<Rightarrow>
               (m', [(if ok then ''net audio: recording calls into '' else ''net audio: cannot write to '') @ net_audio_dir (h_env h)]))"

definition start_server :: "host \<Rightarrow> boot \<Rightarrow> model \<Rightarrow> model \<times> string list" where
  "start_server h b m0 =
     (case start_net_log h b m0 of (m1, l1) \<Rightarrow>
        (case start_net_merges h b m1 of (m2, l2) \<Rightarrow>
           (case start_net_keys h b m2 of (m3, l3) \<Rightarrow>
              (case start_net_audio h b
                      (use_import_audio_dir (net_import_audio_dir (h_env h)) (net_import_audio_max_bytes (h_env h)) m3) of
                 (m4, l4) \<Rightarrow> (m4, l1 @ l2 @ l3 @ l4)))))"

section \<open>Arguments\<close>

text \<open>\<open>std::atoi\<close> of any text: \<open>strtol\<close> saturates, the cast keeps the low 32 bits.\<close>

definition atoi_arg :: "string \<Rightarrow> int" where
  "atoi_arg s =
     (let t = skip_ws s; neg = (t \<noteq> [] \<and> hd t = CHR ''-'');
          u = (if t \<noteq> [] \<and> (hd t = CHR ''-'' \<or> hd t = CHR ''+'') then tl t else t);
          v = int (dec_val (takeWhile is_digit u));
          n = (if neg then max (- (2 ^ 63)) (- v) else min v (2 ^ 63 - 1))
      in sint (word_of_int n :: 32 word))"

text \<open>The address, the port and the number of threads, from the arguments after the program's name.\<close>

definition server_args :: "string list \<Rightarrow> string \<times> nat \<times> int" where
  "server_args av =
     (if 0 < length av then av ! 0 else ''0.0.0.0'',
      if 1 < length av then unat (word_of_int (atoi_arg (av ! 1)) :: 16 word) else 22600,
      if 2 < length av then max 1 (atoi_arg (av ! 2)) else 4)"

section \<open>What a start leaves\<close>

lemma bump_version_parts:
  "m_audio (bump_version m) = m_audio m" "m_audio_on (bump_version m) = m_audio_on m" "m_sess (bump_version m) = m_sess m"
  "m_fams (bump_version m) = m_fams m" "m_next_call (bump_version m) = m_next_call m"
  by (simp_all add: bump_version_def)

lemma record_line_audio_on: "m_audio_on (record_line l now m) = m_audio_on m"
  by (simp add: record_line_def)

lemma record_all_parts:
  "m_audio_on (foldl (\<lambda>m p. if P p then record_line (g p) now m else m) m ps) = m_audio_on m"
  "m_audio (foldl (\<lambda>m p. if P p then record_line (g p) now m else m) m ps) = m_audio m"
  "m_fams (foldl (\<lambda>m p. if P p then record_line (g p) now m else m) m ps) = m_fams m"
  "m_sess (foldl (\<lambda>m p. if P p then record_line (g p) now m else m) m ps) = m_sess m"
  "m_next_call (foldl (\<lambda>m p. if P p then record_line (g p) now m else m) m ps) = m_next_call m"
  by (induction ps arbitrary: m) (simp_all add: record_line_parts record_line_audio_on)

definition starts_alike :: "model \<Rightarrow> model \<Rightarrow> bool" where
  "starts_alike m m' \<longleftrightarrow> m_audio_on m' = m_audio_on m \<and> m_audio m' = m_audio m \<and> m_fams m' = m_fams m
     \<and> m_sess m' = m_sess m \<and> m_next_call m' = m_next_call m"

lemma starts_alike_trans [trans]: "starts_alike a b \<Longrightarrow> starts_alike b c \<Longrightarrow> starts_alike a c"
  by (simp add: starts_alike_def)

lemma start_recording_alike: "starts_alike m (fst (start_recording can taken fsize dir mb False now m))"
  by (simp add: starts_alike_def start_recording_def Let_def bump_version_parts record_line_parts record_line_audio_on record_all_parts
      split: prod.split)

lemma start_log_alike: "starts_alike m (fst (start_net_log h b m))"
  using start_recording_alike by (simp add: start_net_log_def split_def) (simp add: starts_alike_def)

lemma start_merges_alike: "starts_alike m (fst (start_net_merges h b m))"
  by (simp add: start_net_merges_def use_merges_file_def starts_alike_def bump_version_parts Let_def
      split: prod.split option.split sum.split jval.split)

lemma start_keys_alike: "starts_alike m (fst (start_net_keys h b m))"
  by (simp add: start_net_keys_def use_keys_file_def starts_alike_def Let_def split: prod.split option.split sum.split jval.split)

lemma import_dir_alike: "starts_alike m (use_import_audio_dir dir cap m)"
  by (simp add: use_import_audio_dir_def starts_alike_def Let_def)

lemma start_server_audio: "\<exists>m'. starts_alike m m' \<and> fst (start_server h b m) = fst (start_net_audio h b m')"
proof -
  let ?m1 = "fst (start_net_log h b m)" let ?m2 = "fst (start_net_merges h b ?m1)" let ?m3 = "fst (start_net_keys h b ?m2)"
  let ?m4 = "use_import_audio_dir (net_import_audio_dir (h_env h)) (net_import_audio_max_bytes (h_env h)) ?m3"
  have "starts_alike m ?m4"
    by (meson starts_alike_trans start_log_alike start_merges_alike start_keys_alike import_dir_alike)
  moreover have "fst (start_server h b m) = fst (start_net_audio h b ?m4)" by (simp add: start_server_def split_def)
  ultimately show ?thesis by blast
qed

lemma with_call_on: "m_audio_on (with_call fam i (forget_audio fam now) m) = m_audio_on m"
  by (simp add: with_call_def forget_audio_def upd_fam_def set_fam_def set_keep_def record_line_def split: option.split prod.split)

lemma reconcile_one_on: "m_audio_on (fst (reconcile_one now st name)) = m_audio_on (fst st)"
  by (simp add: reconcile_one_def with_call_on split: option.split prod.split)

lemma reconcile_all_on: "m_audio_on (fst (foldl (reconcile_one now) st gone)) = m_audio_on (fst st)"
  by (induction gone arbitrary: st) (simp_all add: reconcile_one_on)

lemma reconcile_on: "m_audio_on (reconcile_evicted now m) = m_audio_on m"
  by (simp add: reconcile_evicted_def split_def bump_version_parts reconcile_all_on)

lemma start_audio_on:
  "\<not> as_on (m_audio m) \<Longrightarrow> m_audio_on (fst (start_audio l d c a now m)) = (l \<noteq> None) \<and> snd (start_audio l d c a now m) = (l \<noteq> None)"
  by (cases l) (simp_all add: start_audio_def as_enable_def bump_version_parts reconcile_on Let_def)

lemma settings_audio: "net_setting ''audio'' (remember_net_setting True ''audio'' on c) = (if on then 1 else 0)"
  using settings_round_trip[of _ "''audio''" on c] by (simp add: om_get_put kept_wf)

text \<open>
  C16. The audio switch of the page outlives the server: once it was set, and the settings could be written, a server
  started with that file and no \<open>DSD_NET_AUDIO\<close> records exactly if the switch was left on and the folder can be used;
  with the variable set, as that says. Whatever the files hold, it starts with nothing heard and no stream.
\<close>
theorem switch_survives_restart:
  "\<not> (h_writable h \<and> rs_status (snd (audio_switch h on w)) = 200
      \<and> m_audio_on (fst (start_server h' \<lparr>bt_log = l, bt_audio = None, bt_settings = wb_settings (fst (audio_switch h on w)),
           bt_merges = ms, bt_keys = ks\<rparr> (model0 i n s p c q e d))) \<noteq> (on \<and> h_listing h' \<noteq> None))
   \<and> m_audio_on (fst (start_server h' \<lparr>bt_log = l, bt_audio = Some (CHR ''0'' # v), bt_settings = st, bt_merges = ms, bt_keys = ks\<rparr>
        (model0 i n s p c q e d))) = False"
proof -
  let ?m0 = "model0 i n s p c q e d"
  have start: "m_audio_on (fst (start_server h' b ?m0)) = (audio_at_start b \<and> h_listing h' \<noteq> None)" for b
  proof -
    obtain m' where m': "starts_alike ?m0 m'" "fst (start_server h' b ?m0) = fst (start_net_audio h' b m')"
      using start_server_audio by blast
    then have "\<not> as_on (m_audio m')" "\<not> m_audio_on m'" by (simp_all add: starts_alike_def model0_def astore0_def)
    then show ?thesis by (simp add: m'(2) start_net_audio_def split_def start_audio_on)
  qed
  have "wb_settings (fst (audio_switch h on w)) = remember_net_setting True ''audio'' on (wb_settings w)"
    if "h_writable h" "rs_status (snd (audio_switch h on w)) = 200"
    using that by (auto simp: audio_switch_def json_answer_def answer_def ok_or_def split: prod.splits if_splits)
  then show ?thesis by (auto simp: start audio_at_start_def settings_audio env_set_def env_on_def)
qed

end
