(* ===== verification/Slot_Calls.thy ===== *)
theory Slot_Calls
  imports Assoc_Text
begin

text \<open>
  The calls of a DMR client, one per time slot: \<open>tools/dmr_slot_aggregator.hpp\<close>. Times are those of the steady clock;
  the callbacks are what an operation fires, in order; the two slots are a map from their numbers.
\<close>

section \<open>Events and calls\<close>

record slot_event =
  se_kind :: string
  se_talkgroup :: string
  se_source :: string
  se_slot :: string
  se_color :: string
  se_emergency :: string
  se_alias :: string
  se_crc :: string
  se_message :: string
  se_extra :: string
  se_raw :: string

definition is_timeslotted_protocol :: "string \<Rightarrow> bool" where
  "is_timeslotted_protocol p \<longleftrightarrow> map to_lower (filter (\<lambda>c. c \<notin> {CHR '' '', CHR ''_'', CHR ''-''}) p) = ''dmr''"

record client_call =
  sc_slot :: nat
  sc_talkgroup :: string
  sc_source :: string
  sc_unit_target :: string
  sc_group :: bool
  sc_color :: string
  sc_alias :: string
  sc_emergency :: bool
  sc_start :: int
  sc_last :: int
  sc_events :: nat
  sc_voice :: nat
  sc_crc :: nat
  sc_messages :: "string list"
  sc_extra :: "(string, string) omap"

definition new_call :: "nat \<Rightarrow> int \<Rightarrow> client_call" where
  "new_call s now = \<lparr>sc_slot = s, sc_talkgroup = [], sc_source = [], sc_unit_target = [], sc_group = True, sc_color = [],
     sc_alias = [], sc_emergency = False, sc_start = now, sc_last = now, sc_events = 0, sc_voice = 0, sc_crc = 0,
     sc_messages = [], sc_extra = []\<rparr>"

datatype slot_fire = Started client_call | Updated client_call | Finished client_call

record aggregator =
  ag_calls :: "nat \<Rightarrow> client_call option"
  ag_history :: "client_call list"
  ag_last_slot :: nat
  ag_hang :: int

definition aggregator0 :: "int \<Rightarrow> aggregator" where
  "aggregator0 hang = \<lparr>ag_calls = (\<lambda>_. None), ag_history = [], ag_last_slot = 0, ag_hang = hang\<rparr>"

section \<open>The extra tokens\<close>

fun pieces :: "char \<Rightarrow> string \<Rightarrow> string list" where
  "pieces d [] = [[]]"
| "pieces d (c # r) = (if c = d then [] # pieces d r else case pieces d r of [] \<Rightarrow> [[c]] | p # ps \<Rightarrow> (c # p) # ps)"

definition trim_blanks :: "string \<Rightarrow> string" where
  "trim_blanks t = rev (dropWhile (\<lambda>c. c \<in> {CHR '' '', CHR 0x09}) (rev (dropWhile (\<lambda>c. c \<in> {CHR '' '', CHR 0x09}) t)))"

definition slot_token :: "(string, string) omap \<Rightarrow> string \<Rightarrow> (string, string) omap" where
  "slot_token m tok =
     (let t = trim_blanks tok
      in case find_char (CHR ''='') t of None \<Rightarrow> m | Some i \<Rightarrow> om_put (take i t) (drop (i + 1) t) m)"

definition slot_extra :: "string \<Rightarrow> (string, string) omap" where
  "slot_extra s = foldl slot_token [] (pieces (CHR '';'') s)"

definition ctrl_keys :: "string list" where
  "ctrl_keys = [''network_type'', ''network_id'', ''site_id'', ''rest_channel'', ''lcn'', ''rfss'']"

definition is_channel_wide :: "slot_event \<Rightarrow> bool" where
  "is_channel_wide ev \<longleftrightarrow> se_kind ev = ''sync'' \<or> list_ex (str_has (se_extra ev)) ctrl_keys"

section \<open>Operations\<close>

definition put_slot :: "nat \<Rightarrow> client_call option \<Rightarrow> aggregator \<Rightarrow> aggregator" where
  "put_slot s c a = a\<lparr>ag_calls := (ag_calls a)(s := c)\<rparr>"

definition close_slot :: "nat \<Rightarrow> aggregator \<Rightarrow> aggregator \<times> slot_fire list" where
  "close_slot s a =
     (case ag_calls a s of
        None \<Rightarrow> (a, [])
      | Some c \<Rightarrow> ((put_slot s None a)\<lparr>ag_history := ag_history a @ [c]\<rparr>, [Finished c]))"

definition names_party :: "slot_event \<Rightarrow> bool" where
  "names_party ev \<longleftrightarrow> se_kind ev \<in> {''call'', ''voice''}
     \<and> (se_talkgroup ev \<noteq> [] \<or> se_source ev \<noteq> [] \<or> om_has (slot_extra (se_extra ev)) ''unit_target'')"

definition other_party :: "slot_event \<Rightarrow> client_call \<Rightarrow> bool" where
  "other_party ev c \<longleftrightarrow> se_talkgroup ev \<noteq> [] \<and> se_talkgroup ev \<noteq> sc_talkgroup c \<or> se_source ev \<noteq> [] \<and> se_source ev \<noteq> sc_source c"

definition or_kept :: "string \<Rightarrow> string \<Rightarrow> string" where
  "or_kept new old = (if new = [] then old else new)"

definition slot_fold_event :: "slot_event \<Rightarrow> int \<Rightarrow> client_call \<Rightarrow> client_call" where
  "slot_fold_event ev now c =
     (let ex = slot_extra (se_extra ev)
      in c\<lparr>sc_last := now, sc_events := sc_events c + 1,
           sc_voice := sc_voice c + (if se_kind ev = ''voice'' then 1 else 0),
           sc_crc := sc_crc c + (if se_crc ev = ''1'' then 1 else 0),
           sc_talkgroup := or_kept (se_talkgroup ev) (sc_talkgroup c), sc_source := or_kept (se_source ev) (sc_source c),
           sc_color := or_kept (se_color ev) (sc_color c), sc_alias := or_kept (se_alias ev) (sc_alias c),
           sc_emergency := (sc_emergency c \<or> se_emergency ev = ''1''),
           sc_messages := sc_messages c @ (if se_message ev = [] then [] else [se_message ev]),
           sc_extra := foldl (\<lambda>m (k, v). om_put k v m) (sc_extra c) ex,
           sc_unit_target := (case om_get ex ''unit_target'' of Some u \<Rightarrow> u | None \<Rightarrow> sc_unit_target c),
           sc_group := (sc_group c \<and> \<not> om_has ex ''unit_target'')\<rparr>)"

definition terminates :: "slot_event \<Rightarrow> bool" where
  "terminates ev \<longleftrightarrow> om_get (slot_extra (se_extra ev)) ''burst'' = Some ''TLC'' \<or> str_has (se_raw ev) ''Terminator''"

definition roll_over :: "nat \<Rightarrow> slot_event \<Rightarrow> int \<Rightarrow> aggregator \<Rightarrow> aggregator \<times> slot_fire list" where
  "roll_over s ev now a =
     (if \<not> names_party ev then (a, [])
      else (case (case ag_calls a s of Some c \<Rightarrow> if other_party ev c then close_slot s a else (a, []) | None \<Rightarrow> (a, [])) of
              (a1, fs) \<Rightarrow> (if ag_calls a1 s = None then put_slot s (Some (new_call s now)) a1 else a1, fs)))"

definition slot_apply_event :: "nat \<Rightarrow> slot_event \<Rightarrow> int \<Rightarrow> aggregator \<Rightarrow> aggregator \<times> slot_fire list" where
  "slot_apply_event s ev now a =
     (case roll_over s ev now a of
        (a1, fs) \<Rightarrow>
          (case ag_calls a1 s of
             None \<Rightarrow> (a1, fs)
           | Some c \<Rightarrow>
               (let c' = slot_fold_event ev now c;
                    a2 = put_slot s (Some c') a1;
                    f = (if sc_events c = 0 then Started c' else Updated c')
                in if terminates ev then (case close_slot s a2 of (a3, gs) \<Rightarrow> (a3, fs @ f # gs)) else (a2, fs @ [f]))))"

definition tick_slot :: "int \<Rightarrow> nat \<Rightarrow> aggregator \<Rightarrow> aggregator \<times> slot_fire list" where
  "tick_slot now s a =
     (case ag_calls a s of None \<Rightarrow> (a, []) | Some c \<Rightarrow> if ag_hang a < now - sc_last c then close_slot s a else (a, []))"

definition tick :: "int \<Rightarrow> aggregator \<Rightarrow> aggregator \<times> slot_fire list" where
  "tick now a = (case tick_slot now 1 a of (a1, fs) \<Rightarrow> (case tick_slot now 2 a1 of (a2, gs) \<Rightarrow> (a2, fs @ gs)))"

definition slot_no :: "string \<Rightarrow> nat" where
  "slot_no t = (if t = ''1'' then 1 else if t = ''2'' then 2 else 0)"

text \<open>The slot of an event that names none: the call of its source, else the last slot heard, if a call is open there.\<close>

definition target_slot :: "slot_event \<Rightarrow> aggregator \<Rightarrow> nat" where
  "target_slot ev a =
     (let is_src = (\<lambda>s. se_source ev \<noteq> [] \<and> (case ag_calls a s of None \<Rightarrow> False | Some c \<Rightarrow> sc_source c = se_source ev))
      in if is_src 2 then 2 else if is_src 1 then 1
         else if ag_last_slot a \<noteq> 0 \<and> ag_calls a (ag_last_slot a) \<noteq> None then ag_last_slot a else 0)"

definition on_event :: "slot_event \<Rightarrow> int \<Rightarrow> aggregator \<Rightarrow> aggregator \<times> slot_fire list" where
  "on_event ev now a0 =
     (case tick now a0 of
        (a, fs) \<Rightarrow>
          (let s = slot_no (se_slot ev)
           in if s \<noteq> 0 then (case slot_apply_event s ev now (a\<lparr>ag_last_slot := s\<rparr>) of (a', gs) \<Rightarrow> (a', fs @ gs))
              else if is_channel_wide ev then (a, fs)
              else (let t = target_slot ev a
                    in if t = 0 then (a, fs) else (case slot_apply_event t ev now a of (a', gs) \<Rightarrow> (a', fs @ gs)))))"

section \<open>What the callbacks see\<close>

text \<open>A client that follows the calls of each slot: started once, then updated, then ended_calls once.\<close>

fun follow_slots :: "slot_fire list \<Rightarrow> (nat \<Rightarrow> bool) \<Rightarrow> (nat \<Rightarrow> bool) option" where
  "follow_slots [] on = Some on"
| "follow_slots (Started c # r) on = (if on (sc_slot c) then None else follow_slots r (on(sc_slot c := True)))"
| "follow_slots (Updated c # r) on = (if on (sc_slot c) then follow_slots r on else None)"
| "follow_slots (Finished c # r) on = (if on (sc_slot c) then follow_slots r (on(sc_slot c := False)) else None)"

definition ended_calls :: "slot_fire list \<Rightarrow> client_call list" where
  "ended_calls fs = List.map_filter (\<lambda>f. case f of Finished c \<Rightarrow> Some c | _ \<Rightarrow> None) fs"

definition heard :: "aggregator \<Rightarrow> nat \<Rightarrow> bool" where
  "heard a s = (ag_calls a s \<noteq> None)"

text \<open>Two calls that are not at the same time on one slot, the first being the earlier.\<close>

definition calls_apart :: "client_call \<Rightarrow> client_call \<Rightarrow> bool" where
  "calls_apart x y \<longleftrightarrow> (sc_slot x = sc_slot y \<longrightarrow> sc_last x \<le> sc_start y)"

definition lasted :: "int \<Rightarrow> client_call \<Rightarrow> bool" where
  "lasted now c \<longleftrightarrow> 0 < sc_events c \<and> sc_start c \<le> sc_last c \<and> sc_last c \<le> now"

definition agg_ok :: "int \<Rightarrow> aggregator \<Rightarrow> bool" where
  "agg_ok now a \<longleftrightarrow>
     (\<forall>s c. ag_calls a s = Some c \<longrightarrow> sc_slot c = s \<and> lasted now c \<and> (\<forall>h\<in>set (ag_history a). calls_apart h c))
     \<and> (\<forall>h\<in>set (ag_history a). lasted now h) \<and> sorted_wrt calls_apart (ag_history a) \<and> 0 \<le> ag_hang a"

definition step_ok :: "int \<Rightarrow> (aggregator \<Rightarrow> aggregator \<times> slot_fire list) \<Rightarrow> bool" where
  "step_ok now f \<longleftrightarrow> (\<forall>t a. t \<le> now \<longrightarrow> agg_ok t a \<longrightarrow>
     agg_ok now (fst (f a)) \<and> follow_slots (snd (f a)) (heard a) = Some (heard (fst (f a)))
     \<and> ag_history (fst (f a)) = ag_history a @ ended_calls (snd (f a)))"

definition andthen :: "('a \<Rightarrow> 'a \<times> 'o list) \<Rightarrow> ('a \<Rightarrow> 'a \<times> 'o list) \<Rightarrow> 'a \<Rightarrow> 'a \<times> 'o list" where
  "andthen f g a = (case f a of (b, xs) \<Rightarrow> (case g b of (c, ys) \<Rightarrow> (c, xs @ ys)))"

lemma follow_slots_append: "follow_slots (xs @ ys) on = (case follow_slots xs on of None \<Rightarrow> None | Some on' \<Rightarrow> follow_slots ys on')"
proof (induction xs arbitrary: on)
  case (Cons f xs)
  then show ?case by (cases f) (simp_all del: fun_upd_apply)
qed simp

lemma ended_calls_simps [simp]:
  "ended_calls [] = []" "ended_calls (Started c # fs) = ended_calls fs" "ended_calls (Updated c # fs) = ended_calls fs"
  "ended_calls (Finished c # fs) = c # ended_calls fs" "ended_calls (xs @ ys) = ended_calls xs @ ended_calls ys"
  by (simp_all add: ended_calls_def map_filter_def)

lemma agg_ok_later: "t \<le> now \<Longrightarrow> agg_ok t a \<Longrightarrow> agg_ok now a"
  unfolding agg_ok_def lasted_def by fastforce

lemma andthen_ok:
  assumes f: "step_ok now f" and g: "step_ok now g"
  shows "step_ok now (andthen f g)"
  unfolding step_ok_def
proof (intro allI impI)
  fix t a assume t: "t \<le> now" and a: "agg_ok t a"
  obtain b xs where b: "f a = (b, xs)" by (cases "f a")
  obtain c ys where c: "g b = (c, ys)" by (cases "g b")
  have 1: "agg_ok now b" "follow_slots xs (heard a) = Some (heard b)" "ag_history b = ag_history a @ ended_calls xs"
    using f[unfolded step_ok_def, rule_format, OF t a] by (simp_all add: b)
  have 2: "agg_ok now c" "follow_slots ys (heard b) = Some (heard c)" "ag_history c = ag_history b @ ended_calls ys"
    using g[unfolded step_ok_def, rule_format, OF order_refl 1(1)] by (simp_all add: c)
  show "agg_ok now (fst (andthen f g a)) \<and> follow_slots (snd (andthen f g a)) (heard a) = Some (heard (fst (andthen f g a)))
     \<and> ag_history (fst (andthen f g a)) = ag_history a @ ended_calls (snd (andthen f g a))"
    using 1 2 by (simp add: andthen_def b c follow_slots_append)
qed

lemma stay_ok: "step_ok now (\<lambda>a. (a, []))"
  by (simp add: step_ok_def agg_ok_later)

lemma when_ok: "step_ok now f \<Longrightarrow> step_ok now (\<lambda>a. if P a then f a else (a, []))"
  by (auto simp: step_ok_def agg_ok_later)

lemma put_slot_parts:
  "heard (put_slot s c a) = (heard a)(s := c \<noteq> None)" "ag_history (put_slot s c a) = ag_history a"
  "heard (a\<lparr>ag_history := hs\<rparr>) = heard a"
  by (simp_all add: fun_eq_iff heard_def put_slot_def)

lemma close_ok: "step_ok now (close_slot s)"
  unfolding step_ok_def
proof (intro allI impI)
  fix t a assume t: "t \<le> now" and "agg_ok t a"
  then have a: "agg_ok now a" by (rule agg_ok_later)
  show "agg_ok now (fst (close_slot s a)) \<and> follow_slots (snd (close_slot s a)) (heard a) = Some (heard (fst (close_slot s a)))
     \<and> ag_history (fst (close_slot s a)) = ag_history a @ ended_calls (snd (close_slot s a))"
  proof (cases "ag_calls a s")
    case None
    then show ?thesis using a by (simp add: close_slot_def)
  next
    case (Some c)
    have c: "sc_slot c = s" "lasted now c" "\<forall>h\<in>set (ag_history a). calls_apart h c" using a Some by (auto simp: agg_ok_def)
    have "calls_apart c d" if "ag_calls a r = Some d" "r \<noteq> s" for r d
      using a that c(1) by (auto simp: agg_ok_def calls_apart_def)
    then have "agg_ok now (fst (close_slot s a))"
      using a c Some by (auto simp: close_slot_def agg_ok_def put_slot_def sorted_wrt_append)
    moreover have "heard a s" by (simp add: heard_def Some)
    ultimately show ?thesis by (simp add: close_slot_def Some c(1) put_slot_parts del: fun_upd_apply)
  qed
qed

text \<open>An event that is heard on its slot, once the call of another party is closed.\<close>

definition hear :: "nat \<Rightarrow> slot_event \<Rightarrow> int \<Rightarrow> aggregator \<Rightarrow> aggregator \<times> slot_fire list" where
  "hear s ev now a =
     (case ag_calls a s of
        None \<Rightarrow>
          if names_party ev
          then (put_slot s (Some (slot_fold_event ev now (new_call s now))) a, [Started (slot_fold_event ev now (new_call s now))])
          else (a, [])
      | Some c \<Rightarrow> (put_slot s (Some (slot_fold_event ev now c)) a, [Updated (slot_fold_event ev now c)]))"

lemma slot_fold_event_parts:
  "sc_slot (slot_fold_event ev now c) = sc_slot c" "sc_events (slot_fold_event ev now c) = sc_events c + 1"
  "sc_last (slot_fold_event ev now c) = now" "sc_start (slot_fold_event ev now c) = sc_start c"
  by (simp_all add: slot_fold_event_def Let_def)

lemma hear_ok: "step_ok now (hear s ev now)"
  unfolding step_ok_def
proof (intro allI impI)
  fix t a assume t: "t \<le> now" and "agg_ok t a"
  then have a: "agg_ok now a" by (rule agg_ok_later)
  have put: "agg_ok now (put_slot s (Some d) a)"
    if "sc_slot d = s" "lasted now d" "\<forall>h\<in>set (ag_history a). calls_apart h d" for d
    using a that by (auto simp: agg_ok_def put_slot_def)
  show "agg_ok now (fst (hear s ev now a)) \<and> follow_slots (snd (hear s ev now a)) (heard a) = Some (heard (fst (hear s ev now a)))
     \<and> ag_history (fst (hear s ev now a)) = ag_history a @ ended_calls (snd (hear s ev now a))"
  proof (cases "ag_calls a s")
    case None
    let ?d = "slot_fold_event ev now (new_call s now)"
    have "agg_ok now (put_slot s (Some ?d) a)"
      by (rule put) (use a in \<open>auto simp: slot_fold_event_parts new_call_def lasted_def agg_ok_def calls_apart_def\<close>)
    moreover have "\<not> heard a s" by (simp add: heard_def None)
    ultimately show ?thesis using a None
      by (simp add: hear_def slot_fold_event_parts new_call_def put_slot_parts del: fun_upd_apply)
  next
    case (Some c)
    let ?d = "slot_fold_event ev now c"
    have c: "sc_slot c = s" "lasted now c" "\<forall>h\<in>set (ag_history a). calls_apart h c" using a Some by (auto simp: agg_ok_def)
    then have "agg_ok now (put_slot s (Some ?d) a)"
      by (intro put) (auto simp: slot_fold_event_parts lasted_def calls_apart_def)
    moreover have "heard a s" by (simp add: heard_def Some)
    ultimately show ?thesis by (simp add: hear_def Some slot_fold_event_parts c(1) put_slot_parts fun_upd_idem)
  qed
qed

definition makes_room :: "nat \<Rightarrow> slot_event \<Rightarrow> aggregator \<Rightarrow> bool" where
  "makes_room s ev a \<longleftrightarrow> names_party ev \<and> (case ag_calls a s of None \<Rightarrow> False | Some c \<Rightarrow> other_party ev c)"

lemma slot_apply_event_steps:
  "agg_ok t a \<Longrightarrow> slot_apply_event s ev now a =
     andthen (\<lambda>a. if makes_room s ev a then close_slot s a else (a, []))
       (andthen (hear s ev now) (\<lambda>a. if terminates ev then close_slot s a else (a, []))) a"
proof -
  assume a: "agg_ok t a"
  have n: "sc_events (new_call s now) = 0" "ag_calls (put_slot s c b) s = c" "put_slot s d (put_slot s c b) = put_slot s d b" for c d b
    by (simp_all add: new_call_def put_slot_def)
  have c: "sc_events c \<noteq> 0" if "ag_calls a s = Some c" for c using a that by (auto simp: agg_ok_def lasted_def)
  show ?thesis
    by (cases "ag_calls a s"; cases "names_party ev"; cases "terminates ev"; cases "other_party ev (the (ag_calls a s))")
      (simp_all add: slot_apply_event_def roll_over_def andthen_def hear_def makes_room_def close_slot_def n c put_slot_def Let_def)
qed

lemma step_ok_cong: "step_ok now g \<Longrightarrow> (\<And>t a. agg_ok t a \<Longrightarrow> f a = g a) \<Longrightarrow> step_ok now f"
  by (simp add: step_ok_def)

lemma apply_ok: "step_ok now (slot_apply_event s ev now)"
  by (rule step_ok_cong[OF _ slot_apply_event_steps]) (intro andthen_ok when_ok close_ok hear_ok)

lemma tick_slot_ok: "step_ok now (tick_slot now s)"
proof -
  have "tick_slot now s = (\<lambda>a. if (case ag_calls a s of None \<Rightarrow> False | Some c \<Rightarrow> ag_hang a < now - sc_last c) then close_slot s a else (a, []))"
    by (auto simp: fun_eq_iff tick_slot_def split: option.split)
  then show ?thesis by (simp add: when_ok close_ok)
qed

lemma tick_ok: "step_ok now (tick now)"
proof -
  have "tick now = andthen (tick_slot now 1) (tick_slot now 2)" by (simp add: fun_eq_iff tick_def andthen_def)
  then show ?thesis by (simp add: andthen_ok tick_slot_ok)
qed

lemma last_slot_same:
  "agg_ok t (a\<lparr>ag_last_slot := n\<rparr>) = agg_ok t a" "heard (a\<lparr>ag_last_slot := n\<rparr>) = heard a"
  "ag_history (a\<lparr>ag_last_slot := n\<rparr>) = ag_history a"
  by (simp_all add: agg_ok_def heard_def fun_eq_iff)

lemma last_slot_ok:
  assumes "step_ok now f"
  shows "step_ok now (\<lambda>a. f (a\<lparr>ag_last_slot := s\<rparr>))"
  unfolding step_ok_def
proof (intro allI impI)
  fix t a assume "t \<le> now" "agg_ok t a"
  with assms[unfolded step_ok_def, rule_format, of t "a\<lparr>ag_last_slot := s\<rparr>"]
  show "agg_ok now (fst (f (a\<lparr>ag_last_slot := s\<rparr>)))
     \<and> follow_slots (snd (f (a\<lparr>ag_last_slot := s\<rparr>))) (heard a) = Some (heard (fst (f (a\<lparr>ag_last_slot := s\<rparr>))))
     \<and> ag_history (fst (f (a\<lparr>ag_last_slot := s\<rparr>))) = ag_history a @ ended_calls (snd (f (a\<lparr>ag_last_slot := s\<rparr>)))"
    by (simp only: last_slot_same simp_thms)
qed

definition attribute :: "slot_event \<Rightarrow> int \<Rightarrow> aggregator \<Rightarrow> aggregator \<times> slot_fire list" where
  "attribute ev now a =
     (if slot_no (se_slot ev) \<noteq> 0 then slot_apply_event (slot_no (se_slot ev)) ev now (a\<lparr>ag_last_slot := slot_no (se_slot ev)\<rparr>)
      else if is_channel_wide ev \<or> target_slot ev a = 0 then (a, [])
      else slot_apply_event (target_slot ev a) ev now a)"

lemma on_event_steps: "on_event ev now = andthen (tick now) (attribute ev now)"
  by (auto simp: fun_eq_iff on_event_def andthen_def attribute_def Let_def split: prod.split)

lemma if_ok: "step_ok now f \<Longrightarrow> step_ok now g \<Longrightarrow> step_ok now (\<lambda>a. if P a then f a else g a)"
  by (simp add: step_ok_def)

lemma pick_ok: "(\<And>s. step_ok now (f s)) \<Longrightarrow> step_ok now (\<lambda>a. f (p a) a)"
  by (simp add: step_ok_def)

lemma attribute_ok: "step_ok now (attribute ev now)"
proof -
  let ?k = "slot_no (se_slot ev)"
  have 1: "step_ok now (\<lambda>a. slot_apply_event ?k ev now (a\<lparr>ag_last_slot := ?k\<rparr>))" by (rule last_slot_ok[OF apply_ok])
  have 2: "step_ok now (\<lambda>a. slot_apply_event (target_slot ev a) ev now a)"
    by (rule pick_ok[where f = "\<lambda>s. slot_apply_event s ev now"]) (rule apply_ok)
  show ?thesis unfolding attribute_def[abs_def] by (rule if_ok[OF 1 if_ok[OF stay_ok 2]])
qed

section \<open>Runs\<close>

text \<open>An event or a tick, so long after the previous one.\<close>

definition agg_step :: "slot_event option \<Rightarrow> int \<Rightarrow> aggregator \<Rightarrow> aggregator \<times> slot_fire list" where
  "agg_step ev now = (case ev of None \<Rightarrow> tick now | Some e \<Rightarrow> on_event e now)"

fun agg_run :: "(nat \<times> slot_event option) list \<Rightarrow> int \<Rightarrow> aggregator \<Rightarrow> int \<times> aggregator \<times> slot_fire list" where
  "agg_run [] now a = (now, a, [])"
| "agg_run ((w, ev) # ops) now a =
     (case agg_step ev (now + int w) a of (b, fs) \<Rightarrow>
        (case agg_run ops (now + int w) b of (t, c, gs) \<Rightarrow> (t, c, fs @ gs)))"

lemma agg_step_ok: "step_ok now (agg_step ev now)"
  by (cases ev) (simp_all add: agg_step_def tick_ok on_event_steps andthen_ok attribute_ok)

lemma agg_run_ok:
  "agg_ok now a \<Longrightarrow> agg_run ops now a = (t, b, fs) \<Longrightarrow>
     agg_ok t b \<and> follow_slots fs (heard a) = Some (heard b) \<and> ag_history b = ag_history a @ ended_calls fs"
proof (induction ops arbitrary: now a fs)
  case (Cons op ops)
  obtain w ev where op: "op = (w, ev)" by (cases op)
  obtain c xs where c: "agg_step ev (now + int w) a = (c, xs)" by (cases "agg_step ev (now + int w) a")
  obtain t' b' ys where r: "agg_run ops (now + int w) c = (t', b', ys)" by (cases "agg_run ops (now + int w) c")
  have "agg_ok (now + int w) c \<and> follow_slots xs (heard a) = Some (heard c) \<and> ag_history c = ag_history a @ ended_calls xs"
    using agg_step_ok[of "now + int w" ev, unfolded step_ok_def, rule_format, of now a] Cons.prems(1) by (simp add: c)
  with Cons.IH[of "now + int w" c ys] Cons.prems(2) show ?case by (auto simp: op c r follow_slots_append)
qed simp

text \<open>A call that is open on a slot was active within the hang time.\<close>

definition recent :: "int \<Rightarrow> aggregator \<Rightarrow> nat \<Rightarrow> bool" where
  "recent now a s \<longleftrightarrow> (case ag_calls a s of None \<Rightarrow> True | Some c \<Rightarrow> now - sc_last c \<le> ag_hang a)"

lemma recent_close: "recent now a s \<Longrightarrow> recent now (fst (close_slot r a)) s"
  by (auto simp: recent_def close_slot_def put_slot_def split: option.splits)

lemma recent_hear: "recent now a s \<Longrightarrow> 0 \<le> ag_hang a \<Longrightarrow> recent now (fst (hear r ev now a)) s"
  by (auto simp: recent_def hear_def put_slot_def slot_fold_event_parts split: option.splits)

lemma hang_kept: "ag_hang (fst (close_slot r a)) = ag_hang a" "ag_hang (fst (hear r ev now a)) = ag_hang a"
  by (simp_all add: close_slot_def hear_def put_slot_def split: option.split)

lemma fst_andthen: "fst (andthen f g a) = fst (g (fst (f a)))"
  by (simp add: andthen_def split: prod.split)

lemma recent_apply: "agg_ok t a \<Longrightarrow> recent now a s \<Longrightarrow> recent now (fst (slot_apply_event r ev now a)) s"
  by (simp add: slot_apply_event_steps fst_andthen)
    (auto intro!: recent_close recent_hear simp: hang_kept agg_ok_def)

lemma recent_tick: "s \<in> {1, 2} \<Longrightarrow> recent now (fst (tick now a)) s"
proof -
  have self: "recent now (fst (tick_slot now r b)) r" for r b
    by (auto simp: tick_slot_def close_slot_def put_slot_def recent_def split: option.split)
  have other: "recent now (fst (tick_slot now r b)) q" if "recent now b q" for r q b
    using that recent_close[of now b q r] by (simp add: tick_slot_def split: option.split)
  have "fst (tick now a) = fst (tick_slot now 2 (fst (tick_slot now 1 a)))" by (simp add: tick_def split: prod.split)
  then show "s \<in> {1, 2} \<Longrightarrow> recent now (fst (tick now a)) s" using self other by auto
qed

lemma last_slot_recent: "recent now (a\<lparr>ag_last_slot := n\<rparr>) s = recent now a s"
  by (simp add: recent_def split: option.split)

lemma recent_attribute: "agg_ok t a \<Longrightarrow> recent now a s \<Longrightarrow> recent now (fst (attribute ev now a)) s"
  unfolding attribute_def using recent_apply[of t "a\<lparr>ag_last_slot := slot_no (se_slot ev)\<rparr>" now s] recent_apply[of t a now s]
  by (simp add: last_slot_same last_slot_recent)

lemma recent_step: "agg_ok now a \<Longrightarrow> s \<in> {1, 2} \<Longrightarrow> recent now (fst (agg_step ev now a)) s"
  using tick_ok[of now, unfolded step_ok_def, rule_format, of now a] recent_tick[of s now a]
  by (cases ev) (auto simp: agg_step_def on_event_steps fst_andthen intro: recent_attribute)

lemma recent_run:
  "agg_ok now a \<Longrightarrow> s \<in> {1, 2} \<Longrightarrow> recent now a s \<Longrightarrow> agg_run ops now a = (t, b, fs) \<Longrightarrow> recent t b s"
proof (induction ops arbitrary: now a fs)
  case (Cons op ops)
  obtain w ev where op: "op = (w, ev)" by (cases op)
  obtain c xs where c: "agg_step ev (now + int w) a = (c, xs)" by (cases "agg_step ev (now + int w) a")
  obtain t' b' ys where r: "agg_run ops (now + int w) c = (t', b', ys)" by (cases "agg_run ops (now + int w) c")
  have a: "agg_ok (now + int w) a" using Cons.prems(1) by (rule agg_ok_later[rotated]) simp
  then have "agg_ok (now + int w) c"
    using agg_step_ok[of "now + int w" ev, unfolded step_ok_def, rule_format, of "now + int w" a] by (simp add: c)
  moreover have "recent (now + int w) c s" using recent_step[OF a Cons.prems(2), of ev] by (simp add: c)
  ultimately show ?case using Cons.IH[of "now + int w" c ys] Cons.prems(2,4) by (auto simp: op c r)
qed simp

text \<open>
  C18. Whatever events a client feeds and however often it ticks, the callbacks start each call of a slot once, update
  it only while it is open and end it once; the history is the calls that ended, in order, no two of a slot at the
  same time, each with an event; and no call stays open past the hang time.
\<close>
theorem slot_calls_follow:
  "case agg_run ops t0 (aggregator0 (int hang)) of (t, a, fs) \<Rightarrow>
     follow_slots fs (\<lambda>_. False) = Some (heard a) \<and> ag_history a = ended_calls fs \<and> sorted_wrt calls_apart (ag_history a)
     \<and> list_all (lasted t) (ag_history a) \<and> list_all (recent t a) [1, 2]"
proof -
  obtain t a fs where r: "agg_run ops t0 (aggregator0 (int hang)) = (t, a, fs)"
    by (cases "agg_run ops t0 (aggregator0 (int hang))")
  have z: "agg_ok t0 (aggregator0 (int hang))" "heard (aggregator0 (int hang)) = (\<lambda>_. False)"
    "recent t0 (aggregator0 (int hang)) s" "ag_history (aggregator0 (int hang)) = []" for s
    by (simp_all add: agg_ok_def aggregator0_def heard_def recent_def fun_eq_iff)
  have "recent t a 1" "recent t a 2" using recent_run[OF z(1) _ z(3) r] by simp_all
  moreover have o: "agg_ok t a" "follow_slots fs (\<lambda>_. False) = Some (heard a)" "ag_history a = ended_calls fs"
    using agg_run_ok[OF z(1) r] by (simp_all add: z)
  moreover have "sorted_wrt calls_apart (ag_history a)" "list_all (lasted t) (ag_history a)"
    using o(1) by (simp_all add: agg_ok_def list_all_iff)
  ultimately show ?thesis unfolding r prod.case by simp
qed

end
