(* ===== verification/Child_Decoders.thy ===== *)
theory Child_Decoders
  imports Process_Life Tetra_Reports Speech_Frames Assoc_Text
begin

text \<open>
  The other decoders as this process sees them: multimon-ng (\<open>src/pager_process.cpp\<close>), tetra-rx
  (\<open>src/tetra_process.cpp\<close>) and the decoder of tetra-kit (\<open>src/tetra_kit_process.cpp\<close>), and what a child closes
  before its exec (\<open>src/child_fds.hpp\<close>). What the system calls return is given, as for the first decoder.
\<close>

section \<open>What a child inherits\<close>

text \<open>
  The descriptors left after \<open>close_inherited_fds\<close>: with \<open>close_range\<close>, in two ranges around the one to keep;
  without it, up to the limit of open files, at most 65536.
\<close>

definition close_inherited_fds :: "bool \<Rightarrow> int \<Rightarrow> nat \<Rightarrow> nat list \<Rightarrow> nat list" where
  "close_inherited_fds has_range open_max keep fds =
     (let fds1 = (if has_range \<and> 3 < keep then filter (\<lambda>f. \<not> (3 \<le> f \<and> f \<le> keep - 1)) fds else fds);
          max_fd = (if open_max < 0 \<or> 65536 < open_max then 65536 else nat open_max)
      in if has_range then filter (\<lambda>f. \<not> keep + 1 \<le> f) fds1
         else filter (\<lambda>f. \<not> (3 \<le> f \<and> f < max_fd \<and> f \<noteq> keep)) fds1)"

section \<open>Command lines\<close>

record multimon_config =
  mc_path :: string
  mc_demods :: "string list"
  mc_pocsag_mode :: string
  mc_line_buffered :: bool

definition default_multimon_path :: "string option \<Rightarrow> string" where
  "default_multimon_path env = (case env of Some p \<Rightarrow> if p \<noteq> [] then p else ''multimon-ng'' | None \<Rightarrow> ''multimon-ng'')"

text \<open>The folders of a search path; an empty piece is the current one, also after a last colon.\<close>

definition path_dirs :: "string \<Rightarrow> string list" where
  "path_dirs p =
     map (\<lambda>d. if d = [] then ''.'' else d)
       (tokens (CHR '':'') p @ (if p = [] \<or> last p = CHR '':'' then [[]] else []))"

definition find_executable :: "(string \<Rightarrow> bool) \<Rightarrow> string option \<Rightarrow> string \<Rightarrow> string" where
  "find_executable can path name =
     (if find_char (CHR ''/'') name \<noteq> None then (if can name then name else [])
      else case find can (map (\<lambda>d. d @ ''/'' @ name) (path_dirs (case path of Some p \<Rightarrow> p | None \<Rightarrow> ''/usr/bin:/bin''))) of
             Some c \<Rightarrow> c | None \<Rightarrow> [])"

definition default_line_buffered :: "(string \<Rightarrow> bool) \<Rightarrow> string option \<Rightarrow> string option \<Rightarrow> bool" where
  "default_line_buffered can path no_stdbuf =
     (if (case no_stdbuf of Some v \<Rightarrow> v \<noteq> [] \<and> v \<noteq> ''0'' | None \<Rightarrow> False) then False
      else find_executable can path ''stdbuf'' \<noteq> [])"

definition multimon_path :: "string option \<Rightarrow> multimon_config \<Rightarrow> string" where
  "multimon_path env cfg = (if mc_path cfg = [] then default_multimon_path env else mc_path cfg)"

definition build_multimon_argv :: "string option \<Rightarrow> multimon_config \<Rightarrow> string list" where
  "build_multimon_argv env cfg =
     (if mc_line_buffered cfg then [''stdbuf'', ''-oL''] else []) @ [multimon_path env cfg, ''-q'', ''--json'', ''-c'']
     @ concat (map (\<lambda>d. [''-a'', d]) (mc_demods cfg))
     @ (if mc_pocsag_mode cfg \<noteq> [] \<and> mc_pocsag_mode cfg \<noteq> ''auto'' then [''-f'', mc_pocsag_mode cfg] else [])
     @ [''-t'', ''raw'', ''-'']"

record tetmon_config =
  tc_rx_path :: string
  tc_input_arg :: string
  tc_extra_args :: "string list"
  tc_forward_unknown :: bool

definition tetra_argv :: "tetmon_config \<Rightarrow> string list" where
  "tetra_argv cfg = tc_rx_path cfg # tc_input_arg cfg # tc_extra_args cfg"

record kit_config =
  kc_decoder_path :: string
  kc_extra_args :: "string list"
  kc_forward_unknown :: bool
  kc_datagram_bytes :: nat

definition kit_argv :: "nat \<Rightarrow> nat \<Rightarrow> kit_config \<Rightarrow> string list" where
  "kit_argv bits_port json_port cfg =
     [kc_decoder_path cfg, ''-r'', nat_dec bits_port, ''-t'', nat_dec json_port] @ kc_extra_args cfg"

section \<open>The life of a child\<close>

datatype child_fd = In_Read | In_Write | Out_Read | Out_Write | Ex_Read | Ex_Write | Report_Socket | Probe_Socket | Bits_Socket

text \<open>
  \<open>cd_feed\<close> is what is written to (a pipe or the socket of the bits), \<open>cd_source\<close> what the reader thread reads;
  \<open>cd_bad\<close> is set when a descriptor is closed that is not open, or that the thread still reads.
\<close>

record child =
  cd_open :: "child_fd list"
  cd_feed :: "child_fd option"
  cd_source :: "child_fd option"
  cd_report_port :: nat
  cd_bits_port :: nat
  cd_child :: bool
  cd_running :: bool
  cd_thread :: bool
  cd_bad :: bool

definition child0 :: child where
  "child0 = \<lparr>cd_open = [], cd_feed = None, cd_source = None, cd_report_port = 0, cd_bits_port = 0, cd_child = False,
     cd_running = False, cd_thread = False, cd_bad = False\<rparr>"

record child_answers =
  ca_found :: bool
  ca_in_pipe :: bool
  ca_out_pipe :: bool
  ca_exec_pipe :: bool
  ca_socket :: bool
  ca_bind :: bool
  ca_name :: "nat option"
  ca_probe :: bool
  ca_probe_bind :: bool
  ca_probe_name :: "nat option"
  ca_bits_socket :: bool
  ca_fork :: bool
  ca_exec :: bool

definition c_open :: "child_fd list \<Rightarrow> child \<Rightarrow> child" where
  "c_open fs c = c\<lparr>cd_open := cd_open c @ fs\<rparr>"

definition c_close1 :: "child_fd \<Rightarrow> child \<Rightarrow> child" where
  "c_close1 f c =
     (if f \<in> set (cd_open c) \<and> \<not> (cd_thread c \<and> cd_source c = Some f) then c\<lparr>cd_open := remove1 f (cd_open c)\<rparr>
      else c\<lparr>cd_bad := True\<rparr>)"

definition c_close :: "child_fd list \<Rightarrow> child \<Rightarrow> child" where
  "c_close fs c = fold c_close1 fs c"

definition close_feed :: "child \<Rightarrow> child" where
  "close_feed c = (case cd_feed c of None \<Rightarrow> c | Some f \<Rightarrow> (c_close1 f c)\<lparr>cd_feed := None\<rparr>)"

definition close_source :: "child \<Rightarrow> child" where
  "close_source c = (case cd_source c of None \<Rightarrow> c | Some f \<Rightarrow> (c_close1 f c)\<lparr>cd_source := None\<rparr>)"

subsection \<open>multimon-ng\<close>

definition pager_start :: "child_answers \<Rightarrow> child \<Rightarrow> bool \<times> child" where
  "pager_start an c0 =
     (if \<not> ca_found an then (False, c0)
      else if \<not> ca_in_pipe an then (False, c0)
      else (let c1 = c_open [In_Read, In_Write] c0
      in if \<not> ca_out_pipe an then (False, c_close [In_Read, In_Write] c1)
      else (let c2 = c_open [Out_Read, Out_Write] c1
      in if \<not> ca_exec_pipe an then (False, c_close [In_Read, In_Write, Out_Read, Out_Write] c2)
      else (let c3 = c_open [Ex_Read, Ex_Write] c2
      in if \<not> ca_fork an then (False, c_close [In_Read, In_Write, Out_Read, Out_Write, Ex_Read, Ex_Write] c3)
      else (let c4 = c_close [Ex_Write, Ex_Read, In_Read, Out_Write] c3
      in if \<not> ca_exec an then (False, c_close [In_Write, Out_Read] c4)
      else (True, c4\<lparr>cd_child := True, cd_feed := Some In_Write, cd_source := Some Out_Read, cd_running := True, cd_thread := True\<rparr>))))))"

definition pager_stop :: "child \<Rightarrow> child" where
  "pager_stop c =
     (let c1 = close_feed c; c2 = c1\<lparr>cd_child := False, cd_thread := False\<rparr>
      in (close_source c2)\<lparr>cd_running := False\<rparr>)"

subsection \<open>tetra-rx\<close>

definition tetra_start :: "child_answers \<Rightarrow> child \<Rightarrow> bool \<times> child" where
  "tetra_start an c0 =
     (if \<not> ca_in_pipe an then (False, c0)
      else (let c1 = c_open [In_Read, In_Write] c0
      in if \<not> ca_exec_pipe an then (False, c_close [In_Read, In_Write] c1)
      else (let c2 = c_open [Ex_Read, Ex_Write] c1; pipes = [In_Read, In_Write, Ex_Read, Ex_Write]
      in if \<not> ca_socket an then (False, c_close pipes (c2\<lparr>cd_source := None\<rparr>))
      else (let c3 = (c_open [Report_Socket] c2)\<lparr>cd_source := Some Report_Socket\<rparr>
      in if \<not> ca_bind an then (False, c_close pipes (close_source c3))
      else (case ca_name an of
        None \<Rightarrow> (False, c_close pipes (close_source c3))
      | Some port \<Rightarrow>
          (let c4 = c3\<lparr>cd_report_port := port\<rparr>
           in if \<not> ca_fork an then (False, close_source (c_close pipes c4))
           else (let c5 = c_close [Ex_Write, Ex_Read] c4
           in if \<not> ca_exec an then (False, (close_source (c_close [In_Read, In_Write] c5))\<lparr>cd_report_port := 0\<rparr>)
           else (True, (c_close [In_Read] c5)\<lparr>cd_child := True, cd_feed := Some In_Write, cd_running := True, cd_thread := True\<rparr>))))))))"

definition tetra_stop :: "child \<Rightarrow> child" where
  "tetra_stop c =
     (let c1 = close_feed (c\<lparr>cd_running := False\<rparr>); c2 = c1\<lparr>cd_child := False, cd_thread := False\<rparr>
      in (close_source c2)\<lparr>cd_report_port := 0\<rparr>)"

subsection \<open>tetra-kit\<close>

text \<open>A loopback socket on a free port; one that is only a probe is closed again.\<close>

definition bind_ephemeral ::
    "child_fd \<Rightarrow> bool \<Rightarrow> bool \<Rightarrow> bool \<Rightarrow> nat option \<Rightarrow> child \<Rightarrow> (child_fd option \<times> nat) \<times> child" where
  "bind_ephemeral f keep socket_ok bind_ok port c =
     (if \<not> socket_ok then ((None, 0), c)
      else (let c1 = c_open [f] c
      in case (if bind_ok then port else None) of
           None \<Rightarrow> ((None, 0), c_close [f] c1)
         | Some p \<Rightarrow> if keep then ((Some f, p), c1) else ((None, p), c_close [f] c1)))"

definition kit_start :: "child_answers \<Rightarrow> child \<Rightarrow> bool \<times> child" where
  "kit_start an c0 =
     (case bind_ephemeral Report_Socket True (ca_socket an) (ca_bind an) (ca_name an) c0 of
        ((js, json_port), c1) \<Rightarrow>
          if js = None then (False, c1)
          else (case bind_ephemeral Probe_Socket False (ca_probe an) (ca_probe_bind an) (ca_probe_name an)
                      (c1\<lparr>cd_source := js, cd_report_port := json_port\<rparr>) of
                  ((_, bits_port), c2) \<Rightarrow>
                    if bits_port = 0 then (False, (close_source c2)\<lparr>cd_report_port := 0\<rparr>)
                    else (let c3 = c2\<lparr>cd_bits_port := bits_port\<rparr>
                    in if \<not> ca_bits_socket an then (False, (close_source (c3\<lparr>cd_feed := None\<rparr>))\<lparr>cd_report_port := 0\<rparr>)
                    else (let c4 = (c_open [Bits_Socket] c3)\<lparr>cd_feed := Some Bits_Socket\<rparr>
                    in if \<not> ca_exec_pipe an then (False, close_feed (close_source c4))
                    else (let c5 = c_open [Ex_Read, Ex_Write] c4
                    in if \<not> ca_fork an then (False, c_close [Ex_Read, Ex_Write] (close_feed (close_source c5)))
                    else (let c6 = c_close [Ex_Write, Ex_Read] c5
                    in if \<not> ca_exec an
                       then (False, (close_feed ((close_source c6)\<lparr>cd_report_port := 0\<rparr>))\<lparr>cd_bits_port := 0\<rparr>)
                       else (True, c6\<lparr>cd_child := True, cd_running := True, cd_thread := True\<rparr>)))))))"

definition kit_stop :: "child \<Rightarrow> child" where
  "kit_stop c =
     (let c1 = c\<lparr>cd_running := False, cd_child := False, cd_thread := False\<rparr>
      in (close_feed (close_source c1))\<lparr>cd_report_port := 0, cd_bits_port := 0\<rparr>)"

section \<open>What the children say\<close>

text \<open>
  The reader of multimon-ng: whole lines without a carriage return at their end, the unfinished line as it is, and
  whether the decoder ended by itself.
\<close>

definition drop_cr :: "string \<Rightarrow> string" where
  "drop_cr l = (if l \<noteq> [] \<and> last l = CHR 0x0D then butlast l else l)"

definition pager_line :: "unit \<Rightarrow> string \<Rightarrow> string list \<times> (unit + unit)" where
  "pager_line s l = (let t = drop_cr l in (if t \<noteq> [] then [t] else [], Inr ()))"

definition pager_reader_loop :: "read_result list \<Rightarrow> bool \<Rightarrow> string list \<times> bool" where
  "pager_reader_loop rs stopping =
     (case read_loop pager_line rs [] () of
        (out, Inl _) \<Rightarrow> (out, False)
      | (out, Inr (buf, _)) \<Rightarrow> (out @ (if buf \<noteq> [] then [buf] else []), \<not> stopping))"

text \<open>A reader of datagrams: the lines of each, blank ones left out, until the socket is shut down or a line faults.\<close>

definition datagram_out :: "(string \<Rightarrow> 'o list \<times> bool) \<Rightarrow> string \<Rightarrow> 'o list \<times> bool" where
  "datagram_out f data =
     (let outs = map f (filter (\<lambda>l. l \<noteq> []) (tokens (CHR 0x0A) data)); good = takeWhile snd outs
      in if good = outs then (concat (map fst outs), True) else (concat (map fst good) @ fst (outs ! length good), False))"

fun report_loop :: "(string \<Rightarrow> 'o list \<times> bool) \<Rightarrow> read_result list \<Rightarrow> 'o list \<times> bool" where
  "report_loop f [] = ([], True)"
| "report_loop f (Ended # rs) = ([], True)"
| "report_loop f (Interrupted # rs) = report_loop f rs"
| "report_loop f (Got data # rs) =
     (if data = [] then ([], True)
      else (case datagram_out f data of
              (os, ok) \<Rightarrow> if ok then (case report_loop f rs of (os', ok') \<Rightarrow> (os @ os', ok')) else (os, False)))"

definition tetra_forward_event :: "dsd_event \<Rightarrow> bool \<Rightarrow> bool" where
  "tetra_forward_event ev forward_unknown \<longleftrightarrow> forward_unknown \<or> ev_kind ev \<noteq> ''unknown''"

definition tetra_line :: "tetmon_config \<Rightarrow> string \<Rightarrow> dsd_event list \<times> bool" where
  "tetra_line cfg l =
     (let ev = classify_tetmon_line l in (if tetra_forward_event ev (tc_forward_unknown cfg) then [ev] else [], True))"

definition tetmon_reader_loop :: "tetmon_config \<Rightarrow> read_result list \<Rightarrow> dsd_event list" where
  "tetmon_reader_loop cfg rs = fst (report_loop (tetra_line cfg) rs)"

datatype kit_out = Kit_Event dsd_event | Kit_Audio "16 word list"

definition tetrakit_forward_event :: "dsd_event \<Rightarrow> bool \<Rightarrow> bool" where
  "tetrakit_forward_event ev forward_unknown \<longleftrightarrow> forward_unknown \<or> ev_kind ev \<noteq> ''unknown''"

text \<open>\<open>voice\<close> is the codec when there is one; an allocation that fails throws out of the thread.\<close>

definition kit_line ::
    "(nat list \<Rightarrow> nat list option) \<Rightarrow> (nat \<Rightarrow> bool) \<Rightarrow> (16 word list \<Rightarrow> 16 word list option) option \<Rightarrow> kit_config \<Rightarrow>
     string \<Rightarrow> kit_out list \<times> bool" where
  "kit_line inflate fits voice cfg l =
     (let ev = classify_tetrakit_json l;
          evs = (if tetrakit_forward_event ev (kc_forward_unknown cfg) then [Kit_Event ev] else [])
      in case voice of
           None \<Rightarrow> (evs, True)
         | Some decode_frame \<Rightarrow>
             (case tetrakit_extract_speech_frame inflate fits l of
                Alloc_Throws \<Rightarrow> (evs, False)
              | No_Speech \<Rightarrow> (evs, True)
              | Speech fr \<Rightarrow>
                  (case decode_frame fr of
                     Some pcm \<Rightarrow> (evs @ (if pcm \<noteq> [] then [Kit_Audio pcm] else []), True)
                   | None \<Rightarrow> (evs, True))))"

definition json_reader_loop ::
    "(nat list \<Rightarrow> nat list option) \<Rightarrow> (nat \<Rightarrow> bool) \<Rightarrow> (16 word list \<Rightarrow> 16 word list option) option \<Rightarrow> kit_config \<Rightarrow>
     read_result list \<Rightarrow> kit_out list \<times> bool" where
  "json_reader_loop inflate fits voice cfg rs = report_loop (kit_line inflate fits voice cfg) rs"

section \<open>Feeding them\<close>

text \<open>\<open>sendto\<close> takes at most what it is given. \<open>write_audio\<close> and \<open>write_bits\<close> on a pipe are the loop of the first decoder; tetra-kit's bits go in datagrams.\<close>

definition child_write :: "write_result list \<Rightarrow> string \<Rightarrow> child \<Rightarrow> bool option \<times> string" where
  "child_write ws bytes c = (if cd_feed c = None then (Some False, []) else write_loop ws bytes)"

fun send_loop :: "nat \<Rightarrow> write_result list \<Rightarrow> string \<Rightarrow> bool option \<times> string list" where
  "send_loop chunk ws rest =
     (if rest = [] then (Some True, [])
      else (case ws of
              [] \<Rightarrow> (None, [])
            | Write_Failed # _ \<Rightarrow> (Some False, [])
            | Write_Interrupted # ws' \<Rightarrow> send_loop chunk ws' rest
            | Took n # ws' \<Rightarrow>
                (case send_loop chunk ws' (drop (min n chunk) rest) of (r, out) \<Rightarrow> (r, take (min n chunk) rest # out))))"

definition kit_write_bits :: "kit_config \<Rightarrow> write_result list \<Rightarrow> string \<Rightarrow> child \<Rightarrow> bool option \<times> string list" where
  "kit_write_bits cfg ws bits c =
     (if cd_feed c = None then (Some False, [])
      else send_loop (if kc_datagram_bytes cfg \<noteq> 0 then kc_datagram_bytes cfg else 1024) ws bits)"

section \<open>No descriptor is lost\<close>

definition child_down :: "child \<Rightarrow> bool" where
  "child_down c \<longleftrightarrow> cd_open c = [] \<and> cd_feed c = None \<and> cd_source c = None \<and> \<not> cd_child c \<and> \<not> cd_running c
     \<and> \<not> cd_thread c \<and> \<not> cd_bad c"

text \<open>A child that was started runs and has what it needs, and a stop leaves nothing; after a failed start nothing is left.\<close>

definition leaves_nothing :: "(child \<Rightarrow> child) \<Rightarrow> bool \<times> child \<Rightarrow> bool" where
  "leaves_nothing stop_it r =
     (case r of (ok, c) \<Rightarrow>
        (if ok then cd_child c \<and> cd_running c \<and> cd_thread c \<and> cd_feed c \<noteq> None \<and> cd_source c \<noteq> None \<and> \<not> cd_bad c
         else child_down c) \<and> child_down (stop_it c))"

lemma c_close1_open:
  "f \<in> set (cd_open c) \<Longrightarrow> \<not> (cd_thread c \<and> cd_source c = Some f) \<Longrightarrow> c_close1 f c = c\<lparr>cd_open := remove1 f (cd_open c)\<rparr>"
  by (simp add: c_close1_def)

lemma c_close_open:
  "\<not> cd_thread c \<Longrightarrow> distinct fs \<Longrightarrow> set fs \<subseteq> set (cd_open c) \<Longrightarrow>
     c_close fs c = c\<lparr>cd_open := fold remove1 fs (cd_open c)\<rparr>"
proof (induction fs arbitrary: c)
  case (Cons f fs)
  have "set fs \<subseteq> set (remove1 f (cd_open c))" using Cons.prems by (auto, metis in_set_remove1 subsetD)
  then show ?case using Cons by (simp add: c_close_def c_close1_open)
qed (simp add: c_close_def)

lemma close_source_open:
  "cd_source c = None \<Longrightarrow> close_source c = c"
  "cd_source c = Some f \<Longrightarrow> f \<in> set (cd_open c) \<Longrightarrow> \<not> cd_thread c \<Longrightarrow>
     close_source c = c\<lparr>cd_open := remove1 f (cd_open c), cd_source := None\<rparr>"
  by (simp_all add: close_source_def c_close1_open)

lemma close_feed_open:
  "cd_feed c = None \<Longrightarrow> close_feed c = c"
  "cd_feed c = Some f \<Longrightarrow> f \<in> set (cd_open c) \<Longrightarrow> \<not> (cd_thread c \<and> cd_source c = Some f) \<Longrightarrow>
     close_feed c = c\<lparr>cd_open := remove1 f (cd_open c), cd_feed := None\<rparr>"
  by (simp_all add: close_feed_def c_close1_open)

lemmas child_defs = leaves_nothing_def child_down_def child0_def c_open_def c_close_open close_feed_open close_source_open

lemma pager_leaves_nothing: "leaves_nothing pager_stop (pager_start an child0)"
proof -
  have "\<not> ca_found an \<Longrightarrow> ?thesis" by (simp add: pager_start_def pager_stop_def Let_def child_defs)
  moreover have "ca_found an \<Longrightarrow> \<not> ca_in_pipe an \<Longrightarrow> ?thesis" by (simp add: pager_start_def pager_stop_def Let_def child_defs)
  moreover have "ca_found an \<Longrightarrow> ca_in_pipe an \<Longrightarrow> \<not> ca_out_pipe an \<Longrightarrow> ?thesis" by (simp add: pager_start_def pager_stop_def Let_def child_defs)
  moreover have "ca_found an \<Longrightarrow> ca_in_pipe an \<Longrightarrow> ca_out_pipe an \<Longrightarrow> \<not> ca_exec_pipe an \<Longrightarrow> ?thesis" by (simp add: pager_start_def pager_stop_def Let_def child_defs)
  moreover have "ca_found an \<Longrightarrow> ca_in_pipe an \<Longrightarrow> ca_out_pipe an \<Longrightarrow> ca_exec_pipe an \<Longrightarrow> \<not> ca_fork an \<Longrightarrow> ?thesis" by (simp add: pager_start_def pager_stop_def Let_def child_defs)
  moreover have "ca_found an \<Longrightarrow> ca_in_pipe an \<Longrightarrow> ca_out_pipe an \<Longrightarrow> ca_exec_pipe an \<Longrightarrow> ca_fork an \<Longrightarrow> \<not> ca_exec an \<Longrightarrow> ?thesis" by (simp add: pager_start_def pager_stop_def Let_def child_defs)
  moreover have "ca_found an \<Longrightarrow> ca_in_pipe an \<Longrightarrow> ca_out_pipe an \<Longrightarrow> ca_exec_pipe an \<Longrightarrow> ca_fork an \<Longrightarrow> ca_exec an \<Longrightarrow> ?thesis" by (simp add: pager_start_def pager_stop_def Let_def child_defs)
  ultimately show ?thesis by satx
qed

lemma tetra_leaves_nothing: "leaves_nothing tetra_stop (tetra_start an child0)"
proof -
  have "\<not> ca_in_pipe an \<Longrightarrow> ?thesis" by (simp add: tetra_start_def tetra_stop_def Let_def child_defs)
  moreover have "ca_in_pipe an \<Longrightarrow> \<not> ca_exec_pipe an \<Longrightarrow> ?thesis" by (simp add: tetra_start_def tetra_stop_def Let_def child_defs)
  moreover have "ca_in_pipe an \<Longrightarrow> ca_exec_pipe an \<Longrightarrow> \<not> ca_socket an \<Longrightarrow> ?thesis" by (simp add: tetra_start_def tetra_stop_def Let_def child_defs)
  moreover have "ca_in_pipe an \<Longrightarrow> ca_exec_pipe an \<Longrightarrow> ca_socket an \<Longrightarrow> \<not> ca_bind an \<Longrightarrow> ?thesis" by (simp add: tetra_start_def tetra_stop_def Let_def child_defs)
  moreover have "ca_in_pipe an \<Longrightarrow> ca_exec_pipe an \<Longrightarrow> ca_socket an \<Longrightarrow> ca_bind an \<Longrightarrow> ca_name an = None \<Longrightarrow> ?thesis" by (simp add: tetra_start_def tetra_stop_def Let_def child_defs)
  moreover have "ca_in_pipe an \<Longrightarrow> ca_exec_pipe an \<Longrightarrow> ca_socket an \<Longrightarrow> ca_bind an \<Longrightarrow> ca_name an \<noteq> None \<Longrightarrow> \<not> ca_fork an \<Longrightarrow> ?thesis" by (cases "ca_name an") (simp_all add: tetra_start_def tetra_stop_def Let_def child_defs)
  moreover have "ca_in_pipe an \<Longrightarrow> ca_exec_pipe an \<Longrightarrow> ca_socket an \<Longrightarrow> ca_bind an \<Longrightarrow> ca_name an \<noteq> None \<Longrightarrow> ca_fork an \<Longrightarrow> \<not> ca_exec an \<Longrightarrow> ?thesis" by (cases "ca_name an") (simp_all add: tetra_start_def tetra_stop_def Let_def child_defs)
  moreover have "ca_in_pipe an \<Longrightarrow> ca_exec_pipe an \<Longrightarrow> ca_socket an \<Longrightarrow> ca_bind an \<Longrightarrow> ca_name an \<noteq> None \<Longrightarrow> ca_fork an \<Longrightarrow> ca_exec an \<Longrightarrow> ?thesis" by (cases "ca_name an") (simp_all add: tetra_start_def tetra_stop_def Let_def child_defs)
  ultimately show ?thesis by satx
qed

lemma kit_ports:
  "bind_ephemeral f keep so bo port c = (if so \<and> bo \<and> port \<noteq> None
     then (if keep then ((Some f, the port), c_open [f] c) else ((None, the port), c_close [f] (c_open [f] c)))
     else ((None, 0), if so then c_close [f] (c_open [f] c) else c))"
  by (auto simp: bind_ephemeral_def Let_def split: option.split)

lemma kit_leaves_nothing: "leaves_nothing kit_stop (kit_start an child0)"
proof -
  have "\<not> (ca_socket an \<and> ca_bind an \<and> ca_name an \<noteq> None) \<Longrightarrow> ?thesis" by (simp add: kit_start_def kit_ports kit_stop_def Let_def child_defs)
  moreover have "(ca_socket an \<and> ca_bind an \<and> ca_name an \<noteq> None) \<Longrightarrow> \<not> (ca_probe an \<and> ca_probe_bind an \<and> ca_probe_name an \<noteq> None) \<Longrightarrow> ?thesis" by (simp add: kit_start_def kit_ports kit_stop_def Let_def child_defs)
  moreover have "(ca_socket an \<and> ca_bind an \<and> ca_name an \<noteq> None) \<Longrightarrow> (ca_probe an \<and> ca_probe_bind an \<and> ca_probe_name an \<noteq> None) \<Longrightarrow> the (ca_probe_name an) = 0 \<Longrightarrow> ?thesis" by (simp add: kit_start_def kit_ports kit_stop_def Let_def child_defs)
  moreover have "(ca_socket an \<and> ca_bind an \<and> ca_name an \<noteq> None) \<Longrightarrow> (ca_probe an \<and> ca_probe_bind an \<and> ca_probe_name an \<noteq> None) \<Longrightarrow> the (ca_probe_name an) \<noteq> 0 \<Longrightarrow> \<not> ca_bits_socket an \<Longrightarrow> ?thesis" by (simp add: kit_start_def kit_ports kit_stop_def Let_def child_defs)
  moreover have "(ca_socket an \<and> ca_bind an \<and> ca_name an \<noteq> None) \<Longrightarrow> (ca_probe an \<and> ca_probe_bind an \<and> ca_probe_name an \<noteq> None) \<Longrightarrow> the (ca_probe_name an) \<noteq> 0 \<Longrightarrow> ca_bits_socket an \<Longrightarrow> \<not> ca_exec_pipe an \<Longrightarrow> ?thesis" by (simp add: kit_start_def kit_ports kit_stop_def Let_def child_defs)
  moreover have "(ca_socket an \<and> ca_bind an \<and> ca_name an \<noteq> None) \<Longrightarrow> (ca_probe an \<and> ca_probe_bind an \<and> ca_probe_name an \<noteq> None) \<Longrightarrow> the (ca_probe_name an) \<noteq> 0 \<Longrightarrow> ca_bits_socket an \<Longrightarrow> ca_exec_pipe an \<Longrightarrow> \<not> ca_fork an \<Longrightarrow> ?thesis" by (simp add: kit_start_def kit_ports kit_stop_def Let_def child_defs)
  moreover have "(ca_socket an \<and> ca_bind an \<and> ca_name an \<noteq> None) \<Longrightarrow> (ca_probe an \<and> ca_probe_bind an \<and> ca_probe_name an \<noteq> None) \<Longrightarrow> the (ca_probe_name an) \<noteq> 0 \<Longrightarrow> ca_bits_socket an \<Longrightarrow> ca_exec_pipe an \<Longrightarrow> ca_fork an \<Longrightarrow> \<not> ca_exec an \<Longrightarrow> ?thesis" by (simp add: kit_start_def kit_ports kit_stop_def Let_def child_defs)
  moreover have "(ca_socket an \<and> ca_bind an \<and> ca_name an \<noteq> None) \<Longrightarrow> (ca_probe an \<and> ca_probe_bind an \<and> ca_probe_name an \<noteq> None) \<Longrightarrow> the (ca_probe_name an) \<noteq> 0 \<Longrightarrow> ca_bits_socket an \<Longrightarrow> ca_exec_pipe an \<Longrightarrow> ca_fork an \<Longrightarrow> ca_exec an \<Longrightarrow> ?thesis" by (simp add: kit_start_def kit_ports kit_stop_def Let_def child_defs)
  ultimately show ?thesis by satx
qed

text \<open>
  C19. However the system answers, no decoder child leaks a descriptor or closes one twice: a failed start leaves
  nothing, a stop after it, as after a successful one, ends with nothing open, and nothing is closed while the
  reader still reads it.
\<close>
theorem decoders_leave_nothing:
  "leaves_nothing pager_stop (pager_start an child0) \<and> leaves_nothing tetra_stop (tetra_start an child0)
   \<and> leaves_nothing kit_stop (kit_start an child0)"
  using pager_leaves_nothing tetra_leaves_nothing kit_leaves_nothing by blast

section \<open>What arrives\<close>

definition pager_says :: "string list \<Rightarrow> string list" where
  "pager_says ls = filter (\<lambda>t. t \<noteq> []) (map drop_cr ls)"

lemma pager_run: "run_lines pager_line ls () = (pager_says ls, Inr ())"
  by (induction ls) (simp_all add: pager_line_def pager_says_def Let_def)

text \<open>The lines of the pager decoder are those of all it wrote, however the bytes arrived.\<close>

lemma pager_reader_by_lines:
  "pager_reader_loop rs stopping =
     (pager_says (fst (cut_lines (received rs))) @ (case snd (cut_lines (received rs)) of [] \<Rightarrow> [] | t # ts \<Rightarrow> [t # ts]), \<not> stopping)"
  using read_loop_lines[of "[]" pager_line rs "()"]
  by (auto simp: pager_reader_loop_def pager_run split: prod.splits sum.splits list.splits)

lemma send_loop_sent:
  "0 < chunk \<Longrightarrow> prefix (concat (snd (send_loop chunk ws rest))) rest
     \<and> list_all (\<lambda>d. length d \<le> chunk) (snd (send_loop chunk ws rest))
     \<and> (fst (send_loop chunk ws rest) = Some True \<longleftrightarrow> concat (snd (send_loop chunk ws rest)) = rest)"
proof (induction chunk ws rest rule: send_loop.induct)
  case (1 chunk ws rest)
  show ?case
  proof (cases "rest = [] \<or> ws = []")
    case False
    then obtain w ws' where ws: "ws = w # ws'" and r: "rest \<noteq> []" by (cases ws) auto
    show ?thesis
    proof (cases w)
      case (Took n)
      let ?k = "min n chunk" and ?q = "send_loop chunk ws' (drop (min n chunk) rest)"
      have IH: "prefix (concat (snd ?q)) (drop ?k rest)" "list_all (\<lambda>d. length d \<le> chunk) (snd ?q)"
          "fst ?q = Some True \<longleftrightarrow> concat (snd ?q) = drop ?k rest"
        using 1(1)[OF r ws Took 1(3)] by auto
      have "prefix (take ?k rest @ concat (snd ?q)) (take ?k rest @ drop ?k rest)"
        using IH(1) by (simp only: same_prefix_prefix)
      then have "prefix (take ?k rest @ concat (snd ?q)) rest" by simp
      moreover have "take ?k rest @ x = rest \<longleftrightarrow> x = drop ?k rest" for x
        by (metis append_take_drop_id same_append_eq)
      ultimately show ?thesis using IH r ws Took by (simp add: case_prod_beta)
    qed (use 1 r ws in simp_all)
  qed (use 1 in auto)
qed

text \<open>tetra-kit reads at most a datagram's worth of bits at a time: none is longer, and none is lost or out of order.\<close>

lemma bits_never_truncated:
  "case kit_write_bits cfg ws bits c of (r, out) \<Rightarrow>
     prefix (concat out) bits \<and> list_all (\<lambda>d. length d \<le> (if kc_datagram_bytes cfg \<noteq> 0 then kc_datagram_bytes cfg else 1024)) out
     \<and> \<not> (r = Some True \<and> concat out \<noteq> bits)"
proof -
  let ?n = "if kc_datagram_bytes cfg \<noteq> 0 then kc_datagram_bytes cfg else 1024"
  have "0 < ?n" by simp
  from send_loop_sent[OF this, of ws bits] show ?thesis
    unfolding kit_write_bits_def by (cases "send_loop ?n ws bits") auto
qed

section \<open>The descriptors of a child\<close>

lemma child_inherits:
  "3 \<le> keep \<Longrightarrow> set (close_inherited_fds True open_max keep fds) = set fds \<inter> {0, 1, 2, keep}"
  by (auto simp: close_inherited_fds_def Let_def)

end
