(* ===== verification/Merge_Tool.thy ===== *)
theory Merge_Tool
  imports Graphml Provenance Assoc_View
begin

text \<open>
  The command that merges exports: \<open>tools/net_merge.cpp\<close>. Files are a function from paths to contents; what is
  written are the files that could be written whole.
\<close>

section \<open>Arguments\<close>

record merge_args =
  ma_inputs :: "string list"
  ma_out :: string
  ma_gml :: string
  ma_per_receiver :: bool

definition merge_args0 :: merge_args where
  "merge_args0 = \<lparr>ma_inputs = [], ma_out = [], ma_gml = [], ma_per_receiver = False\<rparr>"

text \<open>An option that takes a value is a file when it is the last argument; help forgets what was given before it.\<close>

fun parse_args :: "string list \<Rightarrow> merge_args \<Rightarrow> merge_args" where
  "parse_args [] m = m"
| "parse_args (a # r) m =
     (if a \<in> {''-o'', ''--out''} \<and> r \<noteq> [] then parse_args (tl r) (m\<lparr>ma_out := hd r\<rparr>)
      else if a = ''--graphml'' \<and> r \<noteq> [] then parse_args (tl r) (m\<lparr>ma_gml := hd r\<rparr>)
      else if a = ''--per-receiver'' then parse_args r (m\<lparr>ma_per_receiver := True\<rparr>)
      else if a \<in> {''-h'', ''--help''} then m\<lparr>ma_inputs := [], ma_out := []\<rparr>
      else parse_args r (m\<lparr>ma_inputs := ma_inputs m @ [a]\<rparr>))"

section \<open>The command\<close>

record tool_result =
  tr_status :: nat
  tr_stdout :: string
  tr_stderr :: string
  tr_files :: "(string \<times> string) list"

definition usage_text :: string where
  "usage_text = ''usage: net-merge <export.json[.gz]> [more...] -o <merged.json> [--graphml <merged.graphml>] [--per-receiver]'' @ nl"

fun read_inputs :: "(string \<Rightarrow> string option) \<Rightarrow> string list \<Rightarrow> string + (string \<times> string) list" where
  "read_inputs read_file [] = Inr []"
| "read_inputs read_file (p # ps) =
     (case read_file p of
        None \<Rightarrow> Inl p
      | Some t \<Rightarrow> (case read_inputs read_file ps of Inl q \<Rightarrow> Inl q | Inr fs \<Rightarrow> Inr ((base_name p, t) # fs)))"

definition report_line :: "merge_report \<Rightarrow> string" where
  "report_line r =
     ''  '' @ mr_label r @ '': '' @ mr_status r
     @ (if mr_message r = [] \<or> mr_message r = mr_status r then [] else '' -- '' @ mr_message r) @ nl"

definition report_good :: "merge_report \<Rightarrow> bool" where
  "report_good r \<longleftrightarrow> mr_status r \<in> {''merged'', ''replaced'', ''skipped''}"

definition sources_text :: "dataset \<Rightarrow> string" where
  "sources_text d =
     ''sources:'' @ concat (map (\<lambda>s. nl @ ''  '' @ span_text s @ ''  ('' @ s_instance s @ '')'') (d_sources d)) @ nl"

definition family_line :: "string \<times> ds_family \<Rightarrow> string" where
  "family_line fk =
     (case fk of (f, F) \<Rightarrow>
        f @ '': '' @ nat_dec (length (f_networks F)) @ '' networks, '' @ nat_dec (length (f_tgs F)) @ '' talkgroups, ''
        @ nat_dec (length (f_radios F)) @ '' radios, '' @ nat_dec (length (f_calls F)) @ '' calls'' @ nl)"

text \<open>\<open>can_write\<close> says whether a file is written whole; the first that cannot be ends the command.\<close>

definition write_outputs :: "(string \<Rightarrow> bool) \<Rightarrow> (string \<times> string) list \<Rightarrow> (string \<times> string) list \<times> string option" where
  "write_outputs can_write outs =
     (let good = takeWhile (\<lambda>f. can_write (fst f)) outs
      in (good, if good = outs then None else Some (fst (outs ! length good))))"

definition net_merge ::
    "(string \<Rightarrow> string option) \<Rightarrow> string option \<Rightarrow> (string \<Rightarrow> string option) \<Rightarrow> (string \<Rightarrow> bool) \<Rightarrow> string list \<Rightarrow> tool_result" where
  "net_merge inflate max_calls read_file can_write args =
     (let a = parse_args args merge_args0
      in if ma_inputs a = [] \<or> ma_out a = [] \<and> ma_gml a = []
         then \<lparr>tr_status = 1, tr_stdout = [], tr_stderr = usage_text, tr_files = []\<rparr>
         else (case read_inputs read_file (ma_inputs a) of
                 Inl p \<Rightarrow> \<lparr>tr_status = 1, tr_stdout = [], tr_stderr = ''net-merge: cannot read '' @ p @ nl, tr_files = []\<rparr>
               | Inr files \<Rightarrow>
                   (case merge_exports inflate max_calls \<lparr>cm_per_receiver = ma_per_receiver a, cm_home = []\<rparr> files of
                      (d, report) \<Rightarrow>
                        (let now = d_exported d;
                             said = concat (map report_line report) @ sources_text d @ concat (map family_line (d_fams d));
                             outs = (if ma_out a = [] then [] else [(ma_out a, export_json d now [] ''merged'')])
                                  @ (if ma_gml a = [] then [] else [(ma_gml a, graphml d now)])
                         in case write_outputs can_write outs of
                              (written, Some p) \<Rightarrow>
                                \<lparr>tr_status = 1, tr_stdout = said, tr_stderr = ''net-merge: cannot write '' @ p @ nl, tr_files = written\<rparr>
                            | (written, None) \<Rightarrow>
                                \<lparr>tr_status = if list_all report_good report then 0 else 2, tr_stdout = said, tr_stderr = [],
                                 tr_files = written\<rparr>))))"

section \<open>What its status says\<close>

lemma read_inputs_all:
  "read_inputs rd ps = Inr fs \<Longrightarrow> map fst fs = map base_name ps \<and> map Some (map snd fs) = map rd ps"
  by (induction rd ps arbitrary: fs rule: read_inputs.induct) (auto split: option.splits sum.splits)

lemma outputs_all: "write_outputs can outs = (written, None) \<Longrightarrow> written = outs"
  by (auto simp: write_outputs_def Let_def split: if_splits)

text \<open>
  A command that does not fail read every file, says of each in turn what became of it, merged what is apart, and wrote
  all it was asked for; it ends with 0 exactly when every file was merged, replaced another or was there already.
\<close>

lemma net_merge_status:
  assumes "tr_status (net_merge inflate env rd can args) \<noteq> 1"
  shows "\<exists>files d report. read_inputs rd (ma_inputs (parse_args args merge_args0)) = Inr files
     \<and> merge_exports inflate env \<lparr>cm_per_receiver = ma_per_receiver (parse_args args merge_args0), cm_home = []\<rparr> files = (d, report)
     \<and> map mr_label report = map base_name (ma_inputs (parse_args args merge_args0))
     \<and> length (tr_files (net_merge inflate env rd can args)) =
         length (filter (\<lambda>p. p \<noteq> []) [ma_out (parse_args args merge_args0), ma_gml (parse_args args merge_args0)])
     \<and> (tr_status (net_merge inflate env rd can args) = 0 \<longleftrightarrow> list_all report_good report)"
proof -
  let ?a = "parse_args args merge_args0"
  let ?cm = "\<lparr>cm_per_receiver = ma_per_receiver ?a, cm_home = []\<rparr>"
  have a: "\<not> (ma_inputs ?a = [] \<or> ma_out ?a = [] \<and> ma_gml ?a = [])"
    using assms by (auto simp: net_merge_def Let_def)
  obtain files where f: "read_inputs rd (ma_inputs ?a) = Inr files"
    using assms a by (cases "read_inputs rd (ma_inputs ?a)") (auto simp: net_merge_def Let_def)
  obtain d report where m: "merge_exports inflate env ?cm files = (d, report)" by (cases "merge_exports inflate env ?cm files")
  have "map mr_label report = map fst files"
    using m layers_and_labels[of inflate ?cm files] by (auto simp: merge_exports_def split: prod.splits)
  then have labels: "map mr_label report = map base_name (ma_inputs ?a)" using read_inputs_all[OF f] by simp
  let ?outs = "(if ma_out ?a = [] then [] else [(ma_out ?a, export_json d (d_exported d) [] ''merged'')])
     @ (if ma_gml ?a = [] then [] else [(ma_gml ?a, graphml d (d_exported d))])"
  obtain written where w: "write_outputs can ?outs = (written, None)"
    using assms a f m by (cases "write_outputs can ?outs"; cases "snd (write_outputs can ?outs)") (auto simp: net_merge_def Let_def)
  have "net_merge inflate env rd can args =
     \<lparr>tr_status = if list_all report_good report then 0 else 2,
      tr_stdout = concat (map report_line report) @ sources_text d @ concat (map family_line (d_fams d)), tr_stderr = [],
      tr_files = written\<rparr>"
    unfolding net_merge_def Let_def using a f m w by simp
  then show ?thesis using f m labels outputs_all[OF w] by simp
qed

end
