(* ===== verification/Spec2Isabelle.thy ===== *)
theory Spec2Isabelle
  imports Keyring Provenance Graphml Assoc_Secrets Replay_Faithful Reader_Safety Slot_Audio Process_Life Speech_Frames
    Pager_Lines Burst_Sync Server_Stats Session_Flow Http_Safety Server_Start
    Slot_Calls Child_Decoders Merge_Tool
begin

text \<open>
  A model of dsd-server (the C++ under \<open>src/\<close>), the server that runs digital-voice decoders for its
  clients and shows, in its network explorer, which networks, talkgroups, radios and calls they heard.

  \<^bold>\<open>The program.\<close> A session starts a decoder child; every line it prints becomes a \<open>DsdEvent\<close>
  (\<open>dsd_process.cpp\<close>, \<open>dsd_backend_types.hpp\<close>). Events of all sessions are fed to one \<open>AssocModel\<close>
  (\<open>assoc_model.hpp\<close>), which keeps per protocol family the networks, talkgroups, radios and calls, the
  recordings of calls (\<open>assoc_audio.hpp\<close>) and their voice quality (\<open>audio_quality.hpp\<close>), and can record
  its inputs (\<open>assoc_log.hpp\<close>) to replay them later (\<open>assoc_replay.hpp\<close>). What it knows leaves it as
  plain datasets (\<open>assoc_merge.hpp\<close>) that are exported, imported, merged and drawn as a graph; keys per
  network (\<open>assoc_keys.hpp\<close>) go to the decoders only. Control messages are flat JSON (\<open>json_util.hpp\<close>).

  \<^bold>\<open>Theories and what they model.\<close> Definitions keep the names of the code.
  \<^item> \<open>Prelude\<close>: \<open>std::map\<close> and \<open>std::set\<close> as sorted association lists and sorted lists, the contract
    \<open>key_value\<close> and its interpretation. \<open>Bytes\<close>: bytes, decimal and hexadecimal text; the contract
    \<open>text_codec\<close> of an escaping writer and its reader. \<open>Floats\<close>: doubles as rationals with the rounding
    of \<open>strtod\<close> and of printing written out.
  \<^item> \<open>Json_Text\<close>: \<open>assocjson\<close>, \<open>freq_text\<close> and the flat messages of \<open>json_util.hpp\<close>. \<open>Mjson\<close>: the nested
    reader \<open>mjson\<close>, with fuel; \<open>mj_parse\<close> gives fuel twice the length of the text and
    \<open>mj_parse_terminates\<close> shows that this is always enough.
  \<^item> \<open>Net_Merges\<close>, \<open>Dataset\<close>, \<open>Dataset_Import\<close>, \<open>Dataset_Merge\<close>, \<open>Provenance\<close>, \<open>Graphml\<close>: the parts of
    \<open>assoc_merge.hpp\<close>. \<open>Keyring\<close>: \<open>assoc_keys.hpp\<close>.
  \<^item> \<open>Voice_Quality\<close>: \<open>audio_quality.hpp\<close>. \<open>Audio_Store\<close>: \<open>assoc_audio.hpp\<close>, the folder being a map from
    names to bytes. \<open>Assoc_Log\<close>: \<open>DsdEvent\<close> and \<open>assoc_log.hpp\<close>.
  \<^item> \<open>assoc_model.hpp\<close>: \<open>Assoc_Text\<close> (pure helpers), \<open>Assoc_State\<close> (the records and what a call does to the
    entities), \<open>Assoc_Calls\<close> (a call's opening, closing and twins), \<open>Assoc_Ingest\<close> (\<open>ingest\<close>),
    \<open>Assoc_View\<close> (what the model hands out), \<open>Assoc_Streams\<close> (streams, clear, recording),
    \<open>Assoc_Audio\<close> (\<open>audio\<close>) and \<open>Assoc_Admin\<close> (imports, merges, keys). A C++ reference to a call is the
    call's value, written back under its id. \<open>Assoc_Replay\<close>: \<open>assoc_replay.hpp\<close>.
  \<^item> \<open>dsd_process.cpp\<close>: \<open>Decoder_Patterns\<close> (its regular expressions) and \<open>Decoder_Line\<close> (what one line
    says), \<open>Short_Data\<close> (the data units of a call), \<open>Decoder_Reader\<close> (the settings, the slot carried from
    line to line, the loop that reads the log), \<open>Slot_Audio\<close> (the decoded voice) and \<open>Process_Life\<close> (the
    child's descriptors and threads). \<open>Regex_Search\<close> is what they use of \<open>std::regex\<close>: a backtracking
    matcher, shown to find the leftmost match of a declarative meaning.

  \<^item> The other decoders: \<open>Tetra_Reports\<close> (\<open>tetra_tetmon.cpp\<close>, \<open>tetra_kit_json.cpp\<close>), \<open>Speech_Frames\<close>
    (\<open>tetra_voice.cpp\<close>), \<open>Pager_Lines\<close> (\<open>pager_events.cpp\<close>) and \<open>Burst_Sync\<close>
    (\<open>tetra_burst_sync.cpp\<close>). \<open>Child_Decoders\<close>: their processes (\<open>pager_process.cpp\<close>, \<open>tetra_process.cpp\<close>,
    \<open>tetra_kit_process.cpp\<close>). \<open>Server_Stats\<close>: \<open>server_stats.hpp\<close>, the registry of sessions.
  \<^item> \<open>session.cpp\<close>: \<open>Session_Text\<close> (its pure helpers and settings), \<open>Capabilities\<close>
    (\<open>protocol_capabilities.hpp\<close>), \<open>Iq_File\<close> (\<open>blue_writer.hpp\<close>), \<open>Session_State\<close> (the state of a session,
    the frames and the samples that wait) and \<open>Session_Start\<close> (start, stop, restart, control messages and
    callbacks). A decoder, a demodulator and a worker are present or not; what the system answers (random
    ports, temporary names, whether a child starts) is in \<open>answers\<close>.
  \<^item> The web server in \<open>session.cpp\<close>: \<open>Http_Routes\<close> (\<open>Session::serve_http\<close>, one request and its response over the
    registry and the model), with the texts of its answers in \<open>Http_Texts\<close> (state of recordings, speech-to-text
    settings, merged exports, remembered switches) and \<open>Status_Json\<close> (the documents of \<open>status_page.hpp\<close>).
    \<open>Server_Start\<close>: the constructor of \<open>Server\<close> and the arguments of \<open>main.cpp\<close>. The texts of the pages,
    gzip, the clocks and the files that are served are in \<open>host\<close>.
  \<^item> Of \<open>tools/\<close>: \<open>Merge_Tool\<close> (\<open>net_merge.cpp\<close>) and \<open>Slot_Calls\<close> (\<open>dmr_slot_aggregator.hpp\<close>, which follows the
    calls of a client, slot by slot).

  \<^bold>\<open>What the lemmas show.\<close>
  \<^item> Texts: what a writer escapes its reader gives back (\<open>mj_round_trip\<close>, \<open>flat_round_trip\<close>,
    \<open>log_round_trip\<close>, \<open>keyring_file_round_trip\<close>), a document of any size ends in a value or an error, and
    no byte the decoder prints can break the XML.
  \<^item> \<open>Assoc_Invariants\<close>: \<open>family_contract\<close> states what an operation on one family must keep, and every
    operation of the model then keeps it of every family, in every reachable state (\<open>step\<close>, \<open>reach\<close>).
    \<open>Assoc_Bounds\<close> interprets it three times: the tables are bounded, every entity is under its own key, and
    no two calls of a family have one number.
  \<^item> \<open>Assoc_Lifetime\<close>: a stream that ends leaves no call open; what a clear forgets, and what it does not.
    \<open>Assoc_Safety\<close>: lines that prove nothing change nothing, encrypted voice without a key is not
    recorded, networks that prove to be one move whole. \<open>Assoc_Secrets\<close>: one forced key per network;
    \<open>Assoc_View\<close>: no key value is ever shown.
  \<^item> \<open>Replay_Faithful\<close>: replaying the lines recorded for any inputs repeats exactly those inputs.
  \<^item> \<open>Reader_Safety\<close>: \<open>monitored_lines\<close> is the contract of a handler of lines whose output a monitor
    accepts; its interpretation on the reader shows that the output is clean and its slots known whatever
    the decoder prints. \<open>Decoder_Reader\<close> shows that the reader works line by line however the bytes arrive.
  \<^item> \<open>Server_Stats\<close>: every operation keeps the registry's invariant, and a snapshot adds up. \<open>Burst_Sync\<close>:
    the scan finds exactly the sequences within reach, and the lock is the grid most of them agree on.
  \<^item> \<open>Session_Safety\<close>, \<open>Session_Life\<close>, \<open>Session_Flow\<close>: over any interleaving of the handlers of any sessions,
    no two hold one port; a session gives back its port and key list, unless a decoder did not start. \<open>asks\<close> says,
    apart from the queue, which frames a step asks for: each is queued once, and none is lost or overtaken.
  \<^item> \<open>Http_Safety\<close>: a byte range is served from within the file, no view depends on the value of a key but the
    two that hand keys out, and exactly which requests raise. \<open>Http_Texts\<close>, \<open>Server_Start\<close>: a switch is
    remembered and decides how the next server starts. \<open>Status_Json\<close>: its documents are read back as the
    snapshot they show.
  \<^item> \<open>Process_Life\<close>, \<open>Child_Decoders\<close>: no decoder process leaks a descriptor, and the one stop that closes one
    twice is named. \<open>Slot_Calls\<close>: every operation keeps
    \<open>step_ok\<close>, so the callbacks of any run start and end each call once and calls of a slot never overlap.
  \<^item> Datasets: what may be merged with what, and that merging counts nothing twice and loses nothing.
  \<^item> Recordings: every recording on disk is counted, the cap holds after each block that is written, the paths are
    safe, and a finished file is complete.

  \<^bold>\<open>Conventions.\<close> Counters (\<open>uint64_t\<close>, \<open>uint32_t\<close>, \<open>size_t\<close>) are \<open>nat\<close> and times are \<open>int\<close>, without
  wrap-around; the voice-quality counters and PCM samples are words. Floats are exact rationals rounded
  where the code rounds. Equal elements keep their order where the code sorts with \<open>std::sort\<close>.
  \<open>zlib\<close>'s \<open>inflate\<close>, directory listings, which files can be created and file sizes are parameters; the
  files the model keeps are written exactly when \<open>m_disk_ok\<close>. What the environment sets is a field or a
  parameter. The upload of imported audio, which the code does in two locked steps, is one step.

  \<^bold>\<open>Not modelled.\<close> The sockets, timers, threads and child processes (Boost.Beast and Boost.Asio, the pool
  of \<open>main.cpp\<close>; of the processes the child's side of the fork): I/O around
  the model. The handlers of a session run on its strand and every operation of the model under its mutex, so a run
  is a sequence of the steps here; a request that calls the model several times is one step. The joins and waits of
  a stop (the worker's \<open>join\<close>, the \<open>waitpid\<close> of a decoder that will not end) take no time in these steps, so
  nothing is claimed of how long a stop takes; and a file that is served is a parameter, even where the model
  itself writes it. The demodulators
  (\<open>fm_demod.cpp\<close>, \<open>tetra_demod.cpp\<close>, \<open>tetra_frontend.cpp\<close>, \<open>pager_demod.cpp\<close>): floating-point filters.
  The HTML and JavaScript of the pages (\<open>net_page.hpp\<close>, the rest of \<open>status_page.hpp\<close>). gzip and disk flushing. The replay
  command (\<open>tools/net_replay.cpp\<close>) around \<open>replay_log\<close>, the fake servers and bit sources of \<open>tools/\<close>, and the tests.
\<close>

end
